(* ===== verification/Prelude.thy ===== *)
theory Prelude
  imports Main "HOL-Library.Word"
begin

text \<open>
  Shared material of the development: the fixed-width integer types and the alignment
  macros of \<^verbatim>\<open>kernel/include/types.h\<close>, byte-addressed memory with little-endian
  64-bit loads and stores, and the generic facts on words, lists and memories that the
  component theories use.
\<close>

unbundle bit_operations_syntax

named_theorems kdefs \<open>constants and small inline functions of the kernel\<close>
named_theorems mem_simps \<open>reads over writes of the byte memory\<close>
named_theorems frame_simps \<open>state components an operation leaves alone\<close>

section \<open>Integer types\<close>

type_synonym u8 = "8 word"
type_synonym u16 = "16 word"
type_synonym u32 = "32 word"
type_synonym u64 = "64 word"

lemma unat_u64_lt [simp]: "unat (x :: u64) < 18446744073709551616"
  using unsigned_less [of x, where ?'a = nat] by simp

lemma unat_minus_1_u64 [simp]: "unat (- 1 :: u64) = 18446744073709551615"
  by (simp add: unsigned_minus_1_eq_mask mask_eq_exp_minus_1)

lemma unat_pow2_u64: "k < 64 \<Longrightarrow> unat (2 ^ k :: u64) = 2 ^ k"
proof -
  assume "k < 64"
  then have "(2 :: nat) ^ k < 2 ^ 64" by (intro power_strict_increasing) auto
  moreover have "(2 ^ k :: u64) = of_nat (2 ^ k)" by simp
  ultimately show ?thesis by (simp only: unat_of_nat) simp
qed

lemma unat_of_nat_u64: "n < 18446744073709551616 \<Longrightarrow> unat (of_nat n :: u64) = n"
  by (simp add: unat_of_nat)

lemma u64_eq_iff_unat: "(x :: u64) = y \<longleftrightarrow> unat x = unat y"
  by (metis unsigned_word_eqI)

lemma unat_add_of_nat:
  "unat (a :: u64) + i < 18446744073709551616 \<Longrightarrow> unat (a + of_nat i) = unat a + i"
  by (simp add: unat_word_ariths unat_of_nat)

lemma sint_small: "unat (x :: u64) < 9223372036854775808 \<Longrightarrow> sint x = int (unat x)"
proof -
  assume "unat x < 9223372036854775808"
  then have "int (unat x) < int 9223372036854775808" by (simp only: of_nat_less_iff)
  then have u: "uint x < 2 ^ 63" by simp
  have "sint x = signed_take_bit 63 (uint x)" by (simp add: sint_uint)
  also have "\<dots> = uint x"
    by (rule signed_take_bit_int_eq_self [OF _ u]) (rule order_trans [OF _ uint_ge_0], simp)
  finally show ?thesis by simp
qed

section \<open>Page size and alignment (include/types.h)\<close>

definition PAGE_SIZE :: u64 where
  [kdefs]: "PAGE_SIZE = 4096"

definition ALIGN_UP :: "u64 \<Rightarrow> u64 \<Rightarrow> u64" where
  "ALIGN_UP x a = (x + a - 1) AND NOT (a - 1)"

definition ALIGN_DOWN :: "u64 \<Rightarrow> u64 \<Rightarrow> u64" where
  "ALIGN_DOWN x a = x AND NOT (a - 1)"

lemma and_not_mask_eq: "(x :: u64) AND NOT (mask k) = push_bit k (drop_bit k x)"
  by (rule bit_word_eqI) (auto simp: bit_simps)

lemma unat_push_drop:
  assumes "k < 64"
  shows "unat (push_bit k (drop_bit k (x :: u64))) = unat x div 2 ^ k * 2 ^ k"
proof -
  have "unat x div 2 ^ k * 2 ^ k \<le> unat x" by simp
  also have "unat x < 18446744073709551616" by simp
  finally show ?thesis
    using assms
    by (simp add: push_bit_eq_mult drop_bit_eq_div unat_word_ariths unat_div unat_pow2_u64
        mod_mult_left_eq)
qed

lemma unat_ALIGN_DOWN:
  assumes "a = 2 ^ k" "k < 64"
  shows "unat (ALIGN_DOWN x a) = unat x div 2 ^ k * 2 ^ k"
proof -
  have "a - 1 = mask k" using assms by (simp add: mask_eq_exp_minus_1)
  then show ?thesis using assms by (simp add: ALIGN_DOWN_def and_not_mask_eq unat_push_drop)
qed

lemma unat_ALIGN_UP:
  assumes "a = 2 ^ k" "k < 64" "unat x + 2 ^ k \<le> 2 ^ 64"
  shows "unat (ALIGN_UP x a) = (unat x + 2 ^ k - 1) div 2 ^ k * 2 ^ k"
proof -
  have m: "a - 1 = mask k" using assms by (simp add: mask_eq_exp_minus_1)
  have pos: "(0 :: nat) < 2 ^ k" by simp
  have "(2 :: nat) ^ k \<le> 2 ^ 64" using assms(2) by (intro power_increasing) auto
  then have lt: "(2 :: nat) ^ k - 1 < 18446744073709551616" using pos by simp
  have "unat (mask k :: u64) = unat (of_nat (2 ^ k - 1) :: u64)"
    by (simp add: mask_eq_exp_minus_1)
  also have "\<dots> = 2 ^ k - 1" by (rule unat_of_nat_u64 [OF lt])
  finally have um: "unat (mask k :: u64) = 2 ^ k - 1" .
  have "unat (x + mask k) = unat x + (2 ^ k - 1)"
    using assms(3) um pos by (subst unat_add_lem [THEN iffD1]) auto
  moreover have "ALIGN_UP x a = push_bit k (drop_bit k (x + mask k))"
    by (simp add: ALIGN_UP_def m [symmetric] and_not_mask_eq [symmetric] add_diff_eq)
  ultimately show ?thesis
    using assms(2) pos by (simp add: unat_push_drop)
qed

lemmas unat_page_down = unat_ALIGN_DOWN [where a = 4096 and k = 12, simplified]
lemmas unat_page_up = unat_ALIGN_UP [where a = 4096 and k = 12, simplified]

section \<open>Byte memory\<close>

text \<open>
  Memory is a total function from 64-bit addresses to bytes; a 64-bit access is
  little-endian, as on x86-64.
\<close>

type_synonym memory = "u64 \<Rightarrow> u8"

definition load64 :: "memory \<Rightarrow> u64 \<Rightarrow> u64" where
  "load64 m a =
     ucast (m a) OR push_bit 8 (ucast (m (a + 1))) OR push_bit 16 (ucast (m (a + 2))) OR
     push_bit 24 (ucast (m (a + 3))) OR push_bit 32 (ucast (m (a + 4))) OR
     push_bit 40 (ucast (m (a + 5))) OR push_bit 48 (ucast (m (a + 6))) OR
     push_bit 56 (ucast (m (a + 7)))"

definition store64 :: "memory \<Rightarrow> u64 \<Rightarrow> u64 \<Rightarrow> memory" where
  "store64 m a v = (\<lambda>x. if x - a < 8 then ucast (drop_bit (8 * unat (x - a)) v) else m x)"

definition fill :: "memory \<Rightarrow> u64 \<Rightarrow> nat \<Rightarrow> u8 \<Rightarrow> memory" where
  \<comment> \<open>the bytes at \<open>a\<close>, \<dots>, \<open>a + n - 1\<close> set to \<open>c\<close>\<close>
  "fill m a n c = (\<lambda>x. if unat (x - a) < n then c else m x)"

lemma ucast_u8_u64: "ucast (ucast w :: u8) = take_bit 8 (w :: u64)"
  by (rule bit_word_eqI) (auto simp: bit_simps)

lemma byte_split:
  "drop_bit n (v :: u64) = take_bit 8 (drop_bit n v) OR push_bit 8 (drop_bit (n + 8) v)"
proof (rule bit_word_eqI)
  fix k assume "k < LENGTH(64)"
  then show "bit (drop_bit n v) k =
      bit (take_bit 8 (drop_bit n v) OR push_bit 8 (drop_bit (n + 8) v)) k"
    by (cases "k < 8") (simp_all add: bit_simps not_less)
qed

lemma push_bit_or_u64: "push_bit n (a OR b :: u64) = push_bit n a OR push_bit n b"
  by (rule bit_word_eqI) (auto simp: bit_simps)

lemma top_byte: "drop_bit 56 (v :: u64) = take_bit 8 (drop_bit 56 v)"
  by (rule bit_word_eqI) (auto simp: bit_simps dest: bit_imp_le_length)

lemma word_byte_cat:
  "take_bit 8 v OR push_bit 8 (take_bit 8 (drop_bit 8 v)) OR
     push_bit 16 (take_bit 8 (drop_bit 16 v)) OR
     push_bit 24 (take_bit 8 (drop_bit 24 v)) OR
     push_bit 32 (take_bit 8 (drop_bit 32 v)) OR
     push_bit 40 (take_bit 8 (drop_bit 40 v)) OR
     push_bit 48 (take_bit 8 (drop_bit 48 v)) OR
     push_bit 56 (take_bit 8 (drop_bit 56 v)) = (v :: u64)"
proof -
  have "v = take_bit 8 v OR push_bit 8 (drop_bit 8 v)" using byte_split [of 0 v] by simp
  also have "drop_bit 8 v = take_bit 8 (drop_bit 8 v) OR push_bit 8 (drop_bit 16 v)"
    using byte_split [of 8 v] by simp
  also have "drop_bit 16 v = take_bit 8 (drop_bit 16 v) OR push_bit 8 (drop_bit 24 v)"
    using byte_split [of 16 v] by simp
  also have "drop_bit 24 v = take_bit 8 (drop_bit 24 v) OR push_bit 8 (drop_bit 32 v)"
    using byte_split [of 24 v] by simp
  also have "drop_bit 32 v = take_bit 8 (drop_bit 32 v) OR push_bit 8 (drop_bit 40 v)"
    using byte_split [of 32 v] by simp
  also have "drop_bit 40 v = take_bit 8 (drop_bit 40 v) OR push_bit 8 (drop_bit 48 v)"
    using byte_split [of 40 v] by simp
  also have "drop_bit 48 v = take_bit 8 (drop_bit 48 v) OR push_bit 8 (drop_bit 56 v)"
    using byte_split [of 48 v] by simp
  also have "drop_bit 56 v = take_bit 8 (drop_bit 56 v)" by (rule top_byte)
  finally show ?thesis by (simp only: push_bit_or_u64 push_bit_push_bit) simp
qed

lemma load64_store64_same [mem_simps]: "load64 (store64 m a v) a = v"
  by (simp add: load64_def store64_def ucast_u8_u64 word_byte_cat)

text \<open>Two 8-byte aligned accesses at different addresses do not overlap.\<close>

lemma aligned8_apart:
  assumes "8 dvd unat (a :: u64)" "8 dvd unat b" "a \<noteq> b" "i < 8"
  shows "\<not> b + of_nat i - a < 8"
proof
  assume lt: "b + of_nat i - a < 8"
  define d where "d = b - a"
  have "unat d \<noteq> 0" using assms(3) by (simp add: d_def unat_eq_0)
  have d8: "8 dvd unat d"
    using assms(1,2) unsigned_less [of a, where ?'a = nat]
    by (auto simp: d_def unat_sub_if_size word_size intro!: dvd_diff_nat dvd_add)
  then obtain k where k: "unat d = 8 * k" ..
  have "8 * k < 18446744073709551616" using unat_u64_lt [of d] by (simp only: k)
  then have le: "unat d + 8 \<le> 18446744073709551616" using k by presburger
  have "unat (d + of_nat i) = unat d + i"
    using assms(4) le by (simp add: unat_word_ariths unat_of_nat)
  moreover have "d + of_nat i < 8" using lt by (simp add: d_def algebra_simps)
  ultimately have "unat d + i < 8" by (simp add: word_less_nat_alt)
  then show False using d8 \<open>unat d \<noteq> 0\<close> by (auto dest: dvd_imp_le)
qed

lemma load64_store64_other [mem_simps]:
  assumes "8 dvd unat a" "8 dvd unat b" "a \<noteq> b"
  shows "load64 (store64 m a v) b = load64 m b"
proof -
  have "store64 m a v (b + of_nat i) = m (b + of_nat i)" if "i < 8" for i :: nat
    using aligned8_apart [OF assms that] by (simp add: store64_def)
  from this [of 0] this [of 1] this [of 2] this [of 3] this [of 4] this [of 5] this [of 6]
    this [of 7]
  show ?thesis by (simp add: load64_def)
qed

lemma load64_cong:
  assumes "\<And>i. i < 8 \<Longrightarrow> m (a + of_nat i) = m' (a + of_nat i)"
  shows "load64 m a = load64 m' a"
  using assms [of 0] assms [of 1] assms [of 2] assms [of 3] assms [of 4] assms [of 5]
    assms [of 6] assms [of 7]
  by (simp add: load64_def)

lemma fill_range:
  assumes "unat a + n \<le> 18446744073709551616"
  shows "fill m a n x v = (if unat a \<le> unat v \<and> unat v < unat a + n then x else m v)"
proof -
  have "unat (v - a) = (if unat a \<le> unat v then unat v - unat a
      else unat v + 18446744073709551616 - unat a)"
    by (simp add: unat_sub_if' word_le_nat_alt)
  then show ?thesis using assms by (auto simp: fill_def)
qed

section \<open>Circular indices\<close>

lemma mod_offset:
  fixes a b n :: nat
  assumes "b < n"
  obtains k where "k < n" "(a + k) mod n = b"
proof
  define k where "k = (b + (n - a mod n)) mod n"
  show "k < n" using assms by (simp add: k_def)
  have "a mod n < n" using assms by simp
  then have "a mod n + (b + (n - a mod n)) = b + n" by linarith
  then have "(a mod n + (b + (n - a mod n))) mod n = b" using assms by (simp only: mod_add_self2 mod_less)
  then show "(a + k) mod n = b" by (simp add: k_def mod_simps)
qed

end
