(* ===== verification/CString.thy ===== *)
theory CString
  imports Prelude "HOL-Library.Char_ord" "HOL-Library.List_Lexorder"
begin

text \<open>
  The freestanding string library, \<^verbatim>\<open>kernel/lib/string.c\<close>.  The \<^verbatim>\<open>mem*\<close> functions
  work on the byte memory (so that overlapping regions are visible); a C string is the
  list of its characters up to the terminator, and reading at its end yields the
  terminator.  The \<^verbatim>\<open>str*\<close> functions never advance past a terminator.
\<close>

section \<open>Memory blocks\<close>

fun memset :: "memory \<Rightarrow> u64 \<Rightarrow> u32 \<Rightarrow> nat \<Rightarrow> memory" where
  "memset m p c 0 = m"
| "memset m p c (Suc n) = memset (m(p := ucast c)) (p + 1) c n"

fun memcpy :: "memory \<Rightarrow> u64 \<Rightarrow> u64 \<Rightarrow> nat \<Rightarrow> memory" where
  "memcpy m d s 0 = m"
| "memcpy m d s (Suc n) = memcpy (m(d := m s)) (d + 1) (s + 1) n"

fun memmove_down :: "memory \<Rightarrow> u64 \<Rightarrow> u64 \<Rightarrow> nat \<Rightarrow> memory" where
  \<comment> \<open>the loop \<^verbatim>\<open>while (n--) *--d = *--s\<close>\<close>
  "memmove_down m d s 0 = m"
| "memmove_down m d s (Suc n) = memmove_down (m(d - 1 := m (s - 1))) (d - 1) (s - 1) n"

definition memmove :: "memory \<Rightarrow> u64 \<Rightarrow> u64 \<Rightarrow> nat \<Rightarrow> memory" where
  "memmove m d s n =
     (if d < s then memcpy m d s n
      else memmove_down m (d + of_nat n) (s + of_nat n) n)"

fun memcmp :: "memory \<Rightarrow> u64 \<Rightarrow> u64 \<Rightarrow> nat \<Rightarrow> int" where
  "memcmp m p q 0 = 0"
| "memcmp m p q (Suc n) =
     (if m p \<noteq> m q then uint (m p) - uint (m q) else memcmp m (p + 1) (q + 1) n)"

section \<open>Strings\<close>

definition NUL :: char where
  [kdefs]: "NUL = CHR 0x00"

definition deref :: "string \<Rightarrow> char" where
  \<comment> \<open>\<^verbatim>\<open>*s\<close>\<close>
  "deref s = (case s of [] \<Rightarrow> NUL | c # _ \<Rightarrow> c)"

lemma deref_simps [simp]: "deref [] = NUL" "deref (c # s) = c"
  by (simp_all add: deref_def)

definition cstr :: "string \<Rightarrow> bool" where
  \<comment> \<open>no terminator inside\<close>
  "cstr s \<longleftrightarrow> NUL \<notin> set s"

lemma cstr_simps [simp]: "cstr []" "cstr (c # s) \<longleftrightarrow> c \<noteq> NUL \<and> cstr s"
  by (auto simp: cstr_def)

lemma deref_NUL_iff: "cstr s \<Longrightarrow> deref s = NUL \<longleftrightarrow> s = []"
  by (cases s) auto

lemma deref_shorter [termination_simp]: "deref s \<noteq> NUL \<Longrightarrow> length s - Suc 0 < length s"
  by (cases s) auto

fun strlen :: "string \<Rightarrow> nat" where
  "strlen s = (if deref s \<noteq> NUL then strlen (tl s) + 1 else 0)"

fun strcmp :: "string \<Rightarrow> string \<Rightarrow> int" where
  "strcmp a b =
     (if deref a \<noteq> NUL \<and> deref a = deref b then strcmp (tl a) (tl b)
      else of_char (deref a) - of_char (deref b))"

fun strncmp_loop :: "string \<Rightarrow> string \<Rightarrow> u64 \<Rightarrow> string \<times> string \<times> u64" where
  \<comment> \<open>\<^verbatim>\<open>while (n-- && *a && *a == *b) { a++; b++; }\<close>: \<^verbatim>\<open>n\<close> is decremented by every test of
      the condition, also by the one that fails\<close>
  "strncmp_loop a b n =
     (if n \<noteq> 0 \<and> deref a \<noteq> NUL \<and> deref a = deref b
      then strncmp_loop (tl a) (tl b) (n - 1) else (a, b, n - 1))"

definition strncmp :: "string \<Rightarrow> string \<Rightarrow> u64 \<Rightarrow> int" where
  "strncmp a b n =
     (case strncmp_loop a b n of (a', b', n') \<Rightarrow>
        if n' = 0 then 0 else of_char (deref a') - of_char (deref b'))"

fun strcpy :: "string \<Rightarrow> string" where
  \<comment> \<open>the characters stored at \<^verbatim>\<open>dst\<close>\<close>
  "strcpy src = (if deref src \<noteq> NUL then deref src # strcpy (tl src) else [NUL])"

fun strncpy :: "string \<Rightarrow> nat \<Rightarrow> string" where
  \<comment> \<open>the characters stored at \<^verbatim>\<open>dst\<close>; the terminator leaves the first loop before
      \<^verbatim>\<open>n\<close> is decremented\<close>
  "strncpy src 0 = []"
| "strncpy src (Suc n) =
     (if deref src \<noteq> NUL then deref src # strncpy (tl src) n
      else NUL # replicate (Suc n) NUL)"

fun strchr :: "string \<Rightarrow> char \<Rightarrow> string option" where
  \<comment> \<open>a pointer into the string is the suffix it points at\<close>
  "strchr s c =
     (if deref s \<noteq> NUL then (if deref s = c then Some s else strchr (tl s) c)
      else if c = NUL then Some s else None)"

declare strlen.simps [simp del] strcmp.simps [simp del] strncmp_loop.simps [simp del]
  strcpy.simps [simp del] strchr.simps [simp del]


section \<open>Block copies\<close>

definition copied :: "memory \<Rightarrow> u64 \<Rightarrow> u64 \<Rightarrow> nat \<Rightarrow> memory" where
  \<comment> \<open>reference semantics: every source byte is read before any byte is written\<close>
  "copied m d s n = (\<lambda>x. if unat (x - d) < n then m (s + (x - d)) else m x)"

lemma unat_diff_Suc:
  assumes "x \<noteq> (p :: u64)"
  shows "unat (x - p) = Suc (unat (x - (p + 1)))"
proof -
  have "x - p \<noteq> 0" using assms by simp
  then have "unat (x - p - 1) = unat (x - p) - 1" by (rule unat_minus_one)
  moreover have "unat (x - p) > 0" using assms by (simp add: unat_gt_0)
  ultimately show ?thesis by (simp add: diff_diff_add)
qed

lemma memset_fill:
  "n \<le> 18446744073709551616 \<Longrightarrow> memset m p c n = fill m p n (ucast c)"
proof (induction n arbitrary: m p)
  case 0
  show ?case by (simp add: fill_def)
next
  case (Suc n)
  have "fill (m(p := ucast c)) (p + 1) n (ucast c) x = fill m p (Suc n) (ucast c) x" for x
    by (cases "x = p") (simp_all add: fill_def unat_diff_Suc)
  with Suc show ?case by (simp add: fun_eq_iff)
qed

lemma memcpy_copied:
  assumes "n \<le> 18446744073709551616"
    and "\<And>i j. j < i \<Longrightarrow> i < n \<Longrightarrow> s + of_nat i \<noteq> d + of_nat j"
  shows "memcpy m d s n = copied m d s n"
  using assms
proof (induction n arbitrary: m d s)
  case 0
  show ?case by (simp add: copied_def)
next
  case (Suc n)
  have "memcpy (m(d := m s)) (d + 1) (s + 1) n = copied (m(d := m s)) (d + 1) (s + 1) n"
  proof (rule Suc.IH)
    fix i j :: nat
    assume "j < i" "i < n"
    then show "s + 1 + of_nat i \<noteq> d + 1 + of_nat j"
      using Suc.prems(2) [of "Suc j" "Suc i"] by (simp add: algebra_simps)
  qed (use Suc.prems in simp)
  also have "\<dots> = copied m d s (Suc n)"
  proof
    fix x
    show "copied (m(d := m s)) (d + 1) (s + 1) n x = copied m d s (Suc n) x"
    proof (cases "x = d")
      case True
      with Suc.prems(1) show ?thesis by (simp add: copied_def)
    next
      case False
      define i where "i = unat (x - (d + 1))"
      have src: "s + (x - d) = s + of_nat (Suc i)"
        unfolding i_def unat_diff_Suc [OF False, symmetric] by simp
      have "s + (x - d) \<noteq> d" if "i < n"
        using Suc.prems(2) [of 0 "Suc i"] that by (simp add: src)
      with False show ?thesis
        by (auto simp: copied_def unat_diff_Suc [OF False] i_def algebra_simps)
    qed
  qed
  finally show ?case by simp
qed

lemma memmove_down_copied:
  assumes "n \<le> 18446744073709551616"
    and "\<And>i j. i < j \<Longrightarrow> j < n \<Longrightarrow> s + of_nat i \<noteq> d + of_nat j"
  shows "memmove_down m (d + of_nat n) (s + of_nat n) n = copied m d s n"
  using assms
proof (induction n arbitrary: m)
  case 0
  show ?case by (simp add: copied_def)
next
  case (Suc n)
  let ?m = "m(d + of_nat n := m (s + of_nat n))"
  have "memmove_down ?m (d + of_nat n) (s + of_nat n) n = copied ?m d s n"
    by (rule Suc.IH) (use Suc.prems in auto)
  also have "\<dots> = copied m d s (Suc n)"
  proof
    fix x
    define i where "i = unat (x - d)"
    have x: "x = d + of_nat i" by (simp add: i_def)
    consider "i < n" | "i = n" | "n < i" by linarith
    then show "copied ?m d s n x = copied m d s (Suc n) x"
    proof cases
      case 1
      then show ?thesis using Suc.prems(2) [of i n] by (simp add: copied_def i_def)
    next
      case 2
      then show ?thesis by (simp add: copied_def i_def [symmetric]) (simp add: x)
    next
      case 3
      then have "x \<noteq> d + of_nat n"
        using Suc.prems(1) by (auto simp: i_def unat_of_nat)
      with 3 show ?thesis by (simp add: copied_def i_def)
    qed
  qed
  finally show ?case by (simp add: algebra_simps)
qed

text \<open>
  C39: memmove copies n bytes from src to dst exactly as if it read the whole source
  before writing, for any overlap of the two regions, and changes no other byte,
  provided neither region wraps around the address space.
\<close>

theorem memmove_correct:
  assumes "unat s + n \<le> 18446744073709551616" "unat d + n \<le> 18446744073709551616"
  shows "memmove m d s n = (\<lambda>x. if unat (x - d) < n then m (s + (x - d)) else m x)"
proof (cases "d < s")
  case True
  have "memcpy m d s n = copied m d s n"
  proof (rule memcpy_copied)
    fix i j assume "j < i" "i < n"
    with True assms have "unat (d + of_nat j) < unat (s + of_nat i)"
      by (simp add: unat_add_of_nat word_less_nat_alt)
    then show "s + of_nat i \<noteq> d + of_nat j" by auto
  qed (use assms in simp)
  with True show ?thesis by (simp add: memmove_def copied_def)
next
  case False
  have "memmove_down m (d + of_nat n) (s + of_nat n) n = copied m d s n"
  proof (rule memmove_down_copied)
    fix i j assume "i < j" "j < n"
    with False assms have "unat (s + of_nat i) < unat (d + of_nat j)"
      by (simp add: unat_add_of_nat word_less_nat_alt)
    then show "s + of_nat i \<noteq> d + of_nat j" by auto
  qed (use assms in simp)
  with False show ?thesis by (simp add: memmove_def copied_def)
qed

theorem memmove_correct_witness:
  "unat (100 :: u64) + 3 \<le> 18446744073709551616 \<and>
   memmove (\<lambda>x. ucast x) 101 100 3 =
     (\<lambda>x. if unat (x - 101) < 3 then ucast (100 + (x - 101)) else ucast x)"
  using memmove_correct [of 100 3 101 "\<lambda>x. ucast x"] by simp

section \<open>Comparison\<close>

lemma memcmp_0_iff:
  "memcmp m p q n = 0 \<longleftrightarrow> (\<forall>i<n. m (p + of_nat i) = m (q + of_nat i))"
proof (induction n arbitrary: p q)
  case 0
  show ?case by simp
next
  case (Suc n)
  show ?case
  proof (cases "m p = m q")
    case True
    have "(\<forall>i<Suc n. m (p + of_nat i) = m (q + of_nat i)) \<longleftrightarrow>
        (\<forall>i<n. m (p + 1 + of_nat i) = m (q + 1 + of_nat i))"
      using True by (auto simp: less_Suc_eq_0_disj algebra_simps)
    with True show ?thesis by (simp add: Suc.IH)
  next
    case False
    then have "uint (m p) \<noteq> uint (m q)" by (metis unsigned_word_eqI)
    with False show ?thesis by auto
  qed
qed

lemma strlen_length: "cstr s \<Longrightarrow> strlen s = length s"
  by (induction s) (subst strlen.simps, simp)+

lemma strcmp_Nil: "strcmp [] b = - of_char (deref b)"
  by (subst strcmp.simps) (simp add: NUL_def)

lemma strcmp_Cons:
  "c \<noteq> NUL \<Longrightarrow> strcmp (c # a) b =
     (if deref b = c then strcmp a (tl b) else of_char c - of_char (deref b))"
  by (subst strcmp.simps) auto

lemma of_char_int_eq [simp]: "(of_char c :: int) = of_char d \<longleftrightarrow> c = d"
  by (metis of_char_eq_iff)

lemma of_char_int_eq_0: "(of_char c :: int) = 0 \<longleftrightarrow> c = NUL"
proof -
  have "(of_char NUL :: int) = 0" by (simp add: NUL_def)
  then show ?thesis by (metis of_char_int_eq)
qed

lemma of_char_NUL [simp]: "(of_char NUL :: int) = 0"
  by (simp add: of_char_int_eq_0)

lemma of_char_int_pos: "c \<noteq> NUL \<Longrightarrow> (0 :: int) < of_char c"
proof -
  assume "c \<noteq> NUL"
  then have "(of_char c :: int) \<noteq> 0" by (simp add: of_char_int_eq_0)
  moreover have "(0 :: int) \<le> of_char c" by (metis of_nat_0_le_iff of_nat_of_char)
  ultimately show ?thesis by simp
qed

lemma of_char_int_less: "(of_char c :: int) < of_char d \<longleftrightarrow> c < d"
  by (metis less_char_def of_nat_less_iff of_nat_of_char)

text \<open>
  strcmp returns 0 exactly for equal strings, and a negative number exactly when the
  first string is lexicographically smaller in unsigned byte order.
\<close>

theorem strcmp_correct:
  assumes "cstr a" "cstr b"
  shows "(strcmp a b = 0 \<longleftrightarrow> a = b) \<and> (strcmp a b < 0 \<longleftrightarrow> a < b)"
  using assms
proof (induction a arbitrary: b)
  case Nil
  then show ?case
    by (cases b) (auto simp: strcmp_Nil of_char_int_eq_0 of_char_int_pos)
next
  case (Cons c a)
  show ?case
  proof (cases b)
    case Nil
    with Cons.prems have "(0 :: int) < of_char c" by (simp add: of_char_int_pos)
    with Cons.prems Nil show ?thesis by (auto simp: strcmp_Cons of_char_int_eq_0)
  next
    case (Cons d b')
    with Cons.prems Cons.IH [of b'] show ?thesis
      by (auto simp: strcmp_Cons of_char_int_less)
  qed
qed

theorem strcmp_correct_witness:
  "cstr ''dev'' \<and> cstr ''proc'' \<and>
   (strcmp ''dev'' ''proc'' = 0 \<longleftrightarrow> ''dev'' = ''proc'') \<and>
   (strcmp ''dev'' ''proc'' < 0 \<longleftrightarrow> ''dev'' < ''proc'')"
  using strcmp_correct [of "''dev''" "''proc''"] by (simp add: NUL_def)

fun lcp :: "string \<Rightarrow> string \<Rightarrow> nat" where
  \<comment> \<open>length of the longest common prefix\<close>
  "lcp (x # xs) (y # ys) = (if x = y then Suc (lcp xs ys) else 0)"
| "lcp _ _ = 0"

lemma unat_minus_one_u64: "n \<noteq> (0 :: u64) \<Longrightarrow> unat n = Suc (unat (n - 1))"
  by (metis Suc_pred unat_gt_0 unat_minus_one One_nat_def)

lemma strncmp_loop_eq:
  assumes "cstr a" "cstr b"
  shows "strncmp_loop a b n =
     (let k = min (unat n) (lcp a b) in (drop k a, drop k b, n - of_nat k - 1))"
  using assms
proof (induction a arbitrary: b n)
  case Nil
  show ?case by (subst strncmp_loop.simps) simp
next
  case (Cons c a)
  show ?case
  proof (cases "n \<noteq> 0 \<and> deref b = c")
    case True
    with Cons.prems obtain b' where b: "b = c # b'" by (cases b) auto
    have n: "unat n = Suc (unat (n - 1))" using True unat_minus_one_u64 by blast
    have "strncmp_loop (c # a) b n = strncmp_loop a b' (n - 1)"
      using True Cons.prems b by (subst strncmp_loop.simps) simp
    also have "\<dots> = (let k = min (unat (n - 1)) (lcp a b') in
        (drop k a, drop k b', n - 1 - of_nat k - 1))"
      using Cons.IH [of b' "n - 1"] Cons.prems b by simp
    finally show ?thesis using b n by (simp add: Let_def algebra_simps)
  next
    case False
    moreover have "deref b \<noteq> c \<Longrightarrow> lcp (c # a) b = 0" by (cases b) auto
    ultimately show ?thesis
      using Cons.prems by (subst strncmp_loop.simps) (auto simp: Let_def)
  qed
qed

text \<open>
  the exact result of strncmp: with k the length of the longest common prefix, it
  compares the characters at index n when n \<open>\<le>\<close> k (one past the last character it was
  asked to compare), returns 0 when n = k + 1 (although the last compared characters
  differ), and only for n > k + 1 returns the difference at the first mismatch.
\<close>

theorem strncmp_exact:
  assumes "cstr a" "cstr b"
  shows "strncmp a b n =
     (if unat n \<le> lcp a b
      then of_char (deref (drop (unat n) a)) - of_char (deref (drop (unat n) b))
      else if unat n = Suc (lcp a b) then 0
      else of_char (deref (drop (lcp a b) a)) - of_char (deref (drop (lcp a b) b)))"
proof (cases "unat n \<le> lcp a b")
  case True
  then show ?thesis
    by (simp add: strncmp_def strncmp_loop_eq [OF assms] Let_def min_def)
next
  case False
  have "n - of_nat (lcp a b) - 1 = 0 \<longleftrightarrow> n = of_nat (Suc (lcp a b))"
    by (auto simp: algebra_simps)
  also have "\<dots> \<longleftrightarrow> unat n = Suc (lcp a b)"
  proof -
    have "Suc (lcp a b) < 18446744073709551616"
      using False unat_u64_lt [of n] by linarith
    then show ?thesis by (simp only: u64_eq_iff_unat unat_of_nat_u64)
  qed
  finally show ?thesis
    using False by (simp add: strncmp_def strncmp_loop_eq [OF assms] Let_def min_def)
qed

theorem strncmp_exact_witness:
  "cstr ''/dev'' \<and> cstr ''/'' \<and> strncmp ''/dev'' ''/'' 1 = 100"
  using strncmp_exact [of "''/dev''" "''/''" 1] by (simp add: NUL_def)

section \<open>Copying strings\<close>

text \<open>
  strncpy(dst, src, n) stores the first n characters of src padded with terminators,
  but when src is shorter than n it stores n + 1 characters, one beyond the n bytes the
  destination is promised to have.
\<close>

theorem strncpy_correct:
  assumes "cstr src"
  shows "take n (strncpy src n) = take n (src @ replicate n NUL) \<and>
    length (strncpy src n) = (if length src < n then n + 1 else n)"
  using assms
proof (induction n arbitrary: src)
  case 0
  show ?case by simp
next
  case (Suc n)
  then show ?case by (cases src) (auto simp: replicate_append_same [symmetric])
qed

theorem strncpy_correct_witness:
  "cstr ''tmp'' \<and> take 5 (strncpy ''tmp'' 5) = take 5 (''tmp'' @ replicate 5 NUL) \<and>
   length (strncpy ''tmp'' 5) = 6"
  using strncpy_correct [of "''tmp''" 5] by (simp add: NUL_def)

lemma strcpy_eq: "cstr s \<Longrightarrow> strcpy s = s @ [NUL]"
  by (induction s) (subst strcpy.simps, simp)+

lemma strchr_eq:
  "cstr s \<Longrightarrow> c \<noteq> NUL \<Longrightarrow>
     strchr s c = (if c \<in> set s then Some (dropWhile (\<lambda>x. x \<noteq> c) s) else None)"
  by (induction s) (subst strchr.simps, auto)+

lemma strchr_NUL: "cstr s \<Longrightarrow> strchr s NUL = Some []"
  by (induction s) (subst strchr.simps, simp)+

end
