(* ===== verification/Pmm.thy ===== *)
theory Pmm
  imports CString
begin

text \<open>
  The physical frame allocator, \<^verbatim>\<open>kernel/mm/pmm.c\<close>: one bit per 4 KB frame of the
  first 4 GB, a rotating search hint and two counters.  The state record also carries the
  byte memory that \<^verbatim>\<open>pmm_alloc\<close> zeroes; frames are reached through the identity map, so
  a physical address is used as a pointer.  Later components extend the record with
  their own global variables.

  Frame numbers and bitmap indices are \<^typ>\<open>nat\<close> (they stay below \<open>2\<^sup>5\<^sup>2\<close>); bitmap words,
  addresses and counters keep their 64 bits.
\<close>

section \<open>State\<close>

record e820_entry =
  e820_base :: u64
  e820_length :: u64
  e820_type :: u32
  acpi_attrs :: u32

record boot_info =
  magic :: u32
  e820_count :: u32
  e820_map :: "e820_entry list"
  kernel_phys_start :: u64
  kernel_phys_end :: u64
  fb_addr :: u64
  fb_width :: u32
  fb_height :: u32
  fb_pitch :: u32
  fb_bpp :: u32

record pmm_state =
  mem :: memory
  pmm_bitmap :: "nat \<Rightarrow> u64"
  total_frames :: u64
  free_frames :: u64
  search_hint :: nat

definition PMM_MAX_FRAMES :: nat where
  [kdefs]: "PMM_MAX_FRAMES = 1048576"

definition BITMAP_WORDS :: nat where
  [kdefs]: "BITMAP_WORDS = PMM_MAX_FRAMES div 64"

section \<open>Bitmap primitives\<close>

definition frame_set :: "'a pmm_state_scheme \<Rightarrow> nat \<Rightarrow> 'a pmm_state_scheme" where
  "frame_set st f =
     st\<lparr>pmm_bitmap := (pmm_bitmap st)
          (f div 64 := pmm_bitmap st (f div 64) OR push_bit (f mod 64) 1)\<rparr>"

definition frame_clear :: "'a pmm_state_scheme \<Rightarrow> nat \<Rightarrow> 'a pmm_state_scheme" where
  "frame_clear st f =
     st\<lparr>pmm_bitmap := (pmm_bitmap st)
          (f div 64 := pmm_bitmap st (f div 64) AND NOT (push_bit (f mod 64) 1))\<rparr>"

definition frame_used :: "'a pmm_state_scheme \<Rightarrow> nat \<Rightarrow> bool" where
  "frame_used st f \<longleftrightarrow> pmm_bitmap st (f div 64) AND push_bit (f mod 64) 1 \<noteq> 0"

definition ctz :: "u64 \<Rightarrow> nat" where
  \<comment> \<open>\<^verbatim>\<open>__builtin_ctzll\<close>\<close>
  "ctz w = length (takeWhile (\<lambda>i. \<not> bit w i) [0..<64])"

section \<open>Initialisation\<close>

function pmm_init_region ::
  "nat \<Rightarrow> nat \<Rightarrow> 'a pmm_state_scheme \<Rightarrow> 'a pmm_state_scheme" where
  \<comment> \<open>the inner loop over one usable region; both bounds are page aligned\<close>
  "pmm_init_region addr end' st =
     (if addr < end' then
        let frame = addr div 4096 in
        if frame \<ge> PMM_MAX_FRAMES then st
        else pmm_init_region (addr + 4096) end'
               ((frame_clear st frame)\<lparr>total_frames := total_frames st + 1,
                                        free_frames := free_frames st + 1\<rparr>)
      else st)"
  by pat_completeness auto
termination by (relation "measure (\<lambda>(addr, end', st). end' - addr)") auto

definition pmm_init_entry ::
  "'a pmm_state_scheme \<Rightarrow> e820_entry \<Rightarrow> 'a pmm_state_scheme" where
  "pmm_init_entry st e =
     (if e820_type e \<noteq> 1 then st
      else let start = ALIGN_UP (e820_base e) PAGE_SIZE;
               end' = ALIGN_DOWN (e820_base e + e820_length e) PAGE_SIZE
           in if end' \<le> start then st
              else pmm_init_region (unat start) (unat end') st)"

definition reserve_frame :: "'a pmm_state_scheme \<Rightarrow> nat \<Rightarrow> 'a pmm_state_scheme" where
  \<comment> \<open>\<^verbatim>\<open>if (!frame_used(f)) { frame_set(f); free_frames--; }\<close>\<close>
  "reserve_frame st f =
     (if \<not> frame_used st f then (frame_set st f)\<lparr>free_frames := free_frames st - 1\<rparr> else st)"

function pmm_reserve_kernel ::
  "nat \<Rightarrow> nat \<Rightarrow> 'a pmm_state_scheme \<Rightarrow> 'a pmm_state_scheme" where
  "pmm_reserve_kernel a kend st =
     (if a < kend then pmm_reserve_kernel (a + 4096) kend (reserve_frame st (a div 4096))
      else st)"
  by pat_completeness auto
termination by (relation "measure (\<lambda>(a, kend, st). kend - a)") auto

definition pmm_init ::
  "'a pmm_state_scheme \<Rightarrow> boot_info \<Rightarrow> u64 \<Rightarrow> 'a pmm_state_scheme" where
  "pmm_init st bi kernel_end_phys =
     (let st1 = st\<lparr>pmm_bitmap := (\<lambda>_. - 1)\<rparr>;
          st2 = foldl pmm_init_entry st1 (take (unat (e820_count bi)) (e820_map bi));
          st3 = reserve_frame st2 0;
          kstart = ALIGN_DOWN 0x100000 PAGE_SIZE;
          kend = ALIGN_UP kernel_end_phys PAGE_SIZE
      in pmm_reserve_kernel (unat kstart) (unat kend) st3)"

section \<open>Allocation and release\<close>

function pmm_alloc_loop ::
  "nat \<Rightarrow> 'a pmm_state_scheme \<Rightarrow> u64 \<times> 'a pmm_state_scheme" where
  \<comment> \<open>the returned pointer, 0 for NULL, and the new state\<close>
  "pmm_alloc_loop wi st =
     (if wi < BITMAP_WORDS then
        let actual = (search_hint st + wi) mod BITMAP_WORDS in
        if pmm_bitmap st actual = - 1 then pmm_alloc_loop (wi + 1) st
        else
          let bit' = ctz (NOT (pmm_bitmap st actual));
              frame = actual * 64 + bit'
          in if frame \<ge> PMM_MAX_FRAMES then pmm_alloc_loop (wi + 1) st
             else
               let st1 = (frame_set st frame)\<lparr>free_frames := free_frames st - 1,
                                              search_hint := actual\<rparr>;
                   phys = of_nat frame * PAGE_SIZE
               in (phys, st1\<lparr>mem := memset (mem st1) phys 0 4096\<rparr>)
      else (0, st))"
  by pat_completeness auto
termination by (relation "measure (\<lambda>(wi, st). BITMAP_WORDS - wi)") auto

definition pmm_alloc :: "'a pmm_state_scheme \<Rightarrow> u64 \<times> 'a pmm_state_scheme" where
  "pmm_alloc st = pmm_alloc_loop 0 st"

definition pmm_free_page :: "'a pmm_state_scheme \<Rightarrow> u64 \<Rightarrow> 'a pmm_state_scheme" where
  "pmm_free_page st phys =
     (let frame = unat (phys div PAGE_SIZE) in
      if frame = 0 \<or> frame \<ge> PMM_MAX_FRAMES then st
      else if \<not> frame_used st frame then st
      else (frame_clear st frame)\<lparr>free_frames := free_frames st + 1\<rparr>)"

definition pmm_free_pages :: "'a pmm_state_scheme \<Rightarrow> u64" where
  "pmm_free_pages st = free_frames st"

definition pmm_total_pages :: "'a pmm_state_scheme \<Rightarrow> u64" where
  "pmm_total_pages st = total_frames st"

declare pmm_init_region.simps [simp del] pmm_reserve_kernel.simps [simp del]
  pmm_alloc_loop.simps [simp del]

section \<open>The set of free frames\<close>

definition free_set :: "'a pmm_state_scheme \<Rightarrow> nat set" where
  "free_set st = {f. f < PMM_MAX_FRAMES \<and> \<not> frame_used st f}"

definition pmm_inv :: "'a pmm_state_scheme \<Rightarrow> bool" where
  "pmm_inv st \<longleftrightarrow> free_frames st = of_nat (card (free_set st)) \<and> frame_used st 0"

lemma frame_used_bit: "frame_used st f \<longleftrightarrow> bit (pmm_bitmap st (f div 64)) (f mod 64)"
  by (simp add: frame_used_def bit_iff_and_push_bit_not_eq_0)

lemma frame_eq_divmod: "f div 64 = g div 64 \<and> f mod 64 = g mod 64 \<longleftrightarrow> f = (g :: nat)"
  by (metis div_mult_mod_eq)

lemma frame_used_frame_set [simp]:
  "frame_used (frame_set st f) g \<longleftrightarrow> g = f \<or> frame_used st g"
  using frame_eq_divmod [of f g]
  by (auto simp: frame_used_bit frame_set_def bit_simps)

lemma frame_used_frame_clear [simp]:
  "frame_used (frame_clear st f) g \<longleftrightarrow> g \<noteq> f \<and> frame_used st g"
  using frame_eq_divmod [of f g]
  by (auto simp: frame_used_bit frame_clear_def bit_simps)

lemma frame_used_more [simp]:
  "frame_used (st\<lparr>total_frames := n\<rparr>) g = frame_used st g"
  "frame_used (st\<lparr>free_frames := n\<rparr>) g = frame_used st g"
  "frame_used (st\<lparr>search_hint := h\<rparr>) g = frame_used st g"
  "frame_used (st\<lparr>mem := m\<rparr>) g = frame_used st g"
  by (simp_all add: frame_used_def)

lemma frame_set_fields [frame_simps, simp]:
  "free_frames (frame_set st f) = free_frames st"
  "total_frames (frame_set st f) = total_frames st"
  "search_hint (frame_set st f) = search_hint st"
  "mem (frame_set st f) = mem st"
  "free_frames (frame_clear st f) = free_frames st"
  "total_frames (frame_clear st f) = total_frames st"
  "search_hint (frame_clear st f) = search_hint st"
  "mem (frame_clear st f) = mem st"
  by (simp_all add: frame_set_def frame_clear_def)

lemma finite_free_set [simp]: "finite (free_set st)"
  by (simp add: free_set_def)

lemma card_free_set_le: "card (free_set st) \<le> 1048576"
proof -
  have "free_set st \<subseteq> {..<1048576}" by (auto simp: free_set_def PMM_MAX_FRAMES_def)
  then show ?thesis by (metis card_lessThan card_mono finite_lessThan)
qed

lemma ctz_bit:
  assumes "w \<noteq> 0"
  shows "ctz w < 64 \<and> bit w (ctz w)"
proof -
  have "\<exists>n. bit w n" by (rule ccontr) (use assms bit_word_eqI [of w 0] in auto)
  then obtain n where n: "bit w n" ..
  then have n64: "n < 64" using bit_imp_le_length [OF n] by simp
  have "ctz w < length [0..<64]"
    unfolding ctz_def
  proof (rule ccontr)
    assume "\<not> length (takeWhile (\<lambda>i. \<not> bit w i) [0..<64]) < length [0..<64]"
    then have "takeWhile (\<lambda>i. \<not> bit w i) [0..<64] = [0..<64]"
      by (metis linorder_not_less takeWhile_eq_take take_all)
    then show False using n n64 by (metis atLeast_upt lessThan_iff takeWhile_eq_all_conv)
  qed
  then show ?thesis
    using nth_length_takeWhile [of "\<lambda>i. \<not> bit w i" "[0..<64]"] by (simp add: ctz_def)
qed

lemma ctz_least: "bit w n \<Longrightarrow> ctz w \<le> n"
proof (rule ccontr)
  assume "bit w n" "\<not> ctz w \<le> n"
  then have "n < length (takeWhile (\<lambda>i. \<not> bit w i) [0..<64])" by (simp add: ctz_def)
  then have "[0..<64] ! n \<in> set (takeWhile (\<lambda>i. \<not> bit w i) [0..<64])" "n < 64"
    using takeWhile_nth nth_mem length_takeWhile_le [of _ "[0..<64]"]
    by (metis, metis length_upt minus_nat.diff_0 order_less_le_trans)
  then show False using \<open>bit w n\<close> set_takeWhileD by fastforce
qed

section \<open>Allocation\<close>

definition alloc_result ::
  "'a pmm_state_scheme \<Rightarrow> nat \<Rightarrow> u64 \<times> 'a pmm_state_scheme" where
  \<comment> \<open>what a successful allocation of frame \<open>f\<close> returns\<close>
  "alloc_result st f =
     (of_nat f * PAGE_SIZE,
      (frame_set st f)\<lparr>free_frames := free_frames st - 1, search_hint := f div 64,
         mem := fill (mem st) (of_nat f * PAGE_SIZE) 4096 0\<rparr>)"

lemma pmm_alloc_loop_cases:
  "(pmm_alloc_loop wi st = (0, st) \<and>
      (\<forall>k. wi \<le> k \<and> k < BITMAP_WORDS \<longrightarrow>
         pmm_bitmap st ((search_hint st + k) mod BITMAP_WORDS) = - 1)) \<or>
   (\<exists>f \<in> free_set st. pmm_alloc_loop wi st = alloc_result st f)"
proof (induction wi st rule: pmm_alloc_loop.induct)
  case (1 wi st)
  define w where "w = (search_hint st + wi) mod BITMAP_WORDS"
  have w: "w < BITMAP_WORDS" by (simp add: w_def kdefs)
  show ?case
  proof (cases "wi < BITMAP_WORDS")
    case False
    then show ?thesis by (auto simp: pmm_alloc_loop.simps)
  next
    case wi: True
    show ?thesis
    proof (cases "pmm_bitmap st w = - 1")
      case True
      then have "pmm_alloc_loop wi st = pmm_alloc_loop (wi + 1) st"
        using wi by (subst pmm_alloc_loop.simps) (simp add: w_def)
      moreover have "\<And>k. wi \<le> k \<longleftrightarrow> k = wi \<or> wi + 1 \<le> k" by auto
      ultimately show ?thesis
        using "1.IH"(1) [OF wi w_def True] True by (auto simp: w_def)
    next
      case False
      define b where "b = ctz (NOT (pmm_bitmap st w))"
      define f where "f = w * 64 + b"
      have "NOT (pmm_bitmap st w) \<noteq> 0"
        using False by (metis bit.compl_zero bit.double_compl)
      then have b: "b < 64" "\<not> bit (pmm_bitmap st w) b"
        using ctz_bit [of "NOT (pmm_bitmap st w)"] by (auto simp: b_def bit_not_iff)
      have fw: "f div 64 = w" "f mod 64 = b" using b by (simp_all add: f_def)
      have f: "f < PMM_MAX_FRAMES" using w b by (simp add: f_def kdefs)
      have "pmm_alloc_loop wi st = alloc_result st f"
        using wi False f
        by (subst pmm_alloc_loop.simps)
          (simp add: w_def [symmetric] b_def [symmetric] f_def [symmetric] Let_def
            alloc_result_def memset_fill fw)
      moreover have "f \<in> free_set st"
        using f b by (simp add: free_set_def frame_used_bit fw)
      ultimately show ?thesis by blast
    qed
  qed
qed

lemma free_frame_word:
  assumes "f \<in> free_set st"
  shows "\<exists>k<BITMAP_WORDS. pmm_bitmap st ((search_hint st + k) mod BITMAP_WORDS) \<noteq> - 1"
proof -
  have "f div 64 < BITMAP_WORDS" using assms by (auto simp: free_set_def kdefs)
  then obtain k where "k < BITMAP_WORDS" "(search_hint st + k) mod BITMAP_WORDS = f div 64"
    by (rule mod_offset)
  moreover have "pmm_bitmap st (f div 64) \<noteq> - 1"
    using assms by (auto simp: free_set_def frame_used_bit)
  ultimately show ?thesis by metis
qed

lemma pmm_alloc_cases:
  obtains (oom) "free_set st = {}" "pmm_alloc st = (0, st)"
  | (frame) f where "f \<in> free_set st" "pmm_alloc st = alloc_result st f"
proof -
  consider "pmm_alloc st = (0, st)" "\<And>k. k < BITMAP_WORDS \<Longrightarrow>
         pmm_bitmap st ((search_hint st + k) mod BITMAP_WORDS) = - 1"
    | f where "f \<in> free_set st" "pmm_alloc st = alloc_result st f"
    using pmm_alloc_loop_cases [of 0 st] by (auto simp: pmm_alloc_def)
  then show thesis
  proof cases
    case 1
    then have "free_set st = {}" using free_frame_word [of _ st] by blast
    then show thesis using 1 oom by blast
  next
    case 2
    then show thesis using frame by blast
  qed
qed

lemma free_set_upd [simp]:
  "free_set (frame_set st f) = free_set st - {f}"
  "free_set (st\<lparr>free_frames := n\<rparr>) = free_set st"
  "free_set (st\<lparr>total_frames := n\<rparr>) = free_set st"
  "free_set (st\<lparr>search_hint := h\<rparr>) = free_set st"
  "free_set (st\<lparr>mem := m\<rparr>) = free_set st"
  by (auto simp: free_set_def)

lemma free_set_clear:
  "f < PMM_MAX_FRAMES \<Longrightarrow> free_set (frame_clear st f) = insert f (free_set st)"
  by (auto simp: free_set_def)

lemma frame_ptr_unat:
  "f < PMM_MAX_FRAMES \<Longrightarrow> unat (of_nat f * PAGE_SIZE) = f * 4096"
  by (simp add: kdefs unat_word_ariths unat_of_nat)

lemma of_nat_card_pos_minus_1:
  "f \<in> A \<Longrightarrow> finite A \<Longrightarrow> (of_nat (card (A - {f})) :: u64) = of_nat (card A) - 1"
proof -
  assume f: "f \<in> A" "finite A"
  then have "card A = Suc (card (A - {f}))" by (metis card_Suc_Diff1)
  then show ?thesis by simp
qed

lemma alloc_result_inv:
  "pmm_inv st \<Longrightarrow> f \<in> free_set st \<Longrightarrow> pmm_inv (snd (alloc_result st f))"
  by (simp add: pmm_inv_def alloc_result_def of_nat_card_pos_minus_1
      del: card_Diff_insert)

lemma alloc_result_ptr:
  assumes "pmm_inv st" "f \<in> free_set st"
  shows "0 < f" "fst (alloc_result st f) \<noteq> 0" "unat (fst (alloc_result st f)) = f * 4096"
proof -
  show "0 < f" using assms by (auto simp: pmm_inv_def free_set_def intro!: gr0I)
  have f: "f < PMM_MAX_FRAMES" using assms by (simp add: free_set_def)
  then show u: "unat (fst (alloc_result st f)) = f * 4096"
    by (simp add: alloc_result_def frame_ptr_unat)
  show "fst (alloc_result st f) \<noteq> 0" using u \<open>0 < f\<close> by (metis mult_is_0 neq0_conv unat_0
    zero_neq_numeral)
qed

text \<open>
  C10: pmm_alloc returns NULL only when no frame is free (the circular search from the hint
  misses none); otherwise it returns the address of a frame that was free, takes exactly
  that frame out of the free set, zeroes exactly its 4096 bytes and decrements the counter,
  and the state keeps the allocator invariant.
\<close>

theorem pmm_alloc_correct:
  assumes "pmm_inv st" "pmm_alloc st = (p, st')"
  shows "(p = 0 \<and> st' = st \<and> free_set st = {}) \<or>
    (\<exists>f \<in> free_set st. unat p = f * 4096 \<and> p \<noteq> 0 \<and> free_set st' = free_set st - {f} \<and>
       (\<forall>x. mem st' x = (if unat (x - p) < 4096 then 0 else mem st x)) \<and>
       free_frames st' = free_frames st - 1 \<and> pmm_inv st')"
proof (cases st rule: pmm_alloc_cases)
  case oom
  then show ?thesis using assms by simp
next
  case (frame f)
  with assms have r: "alloc_result st f = (p, st')" by simp
  from r have "free_set st' = free_set st - {f}" "free_frames st' = free_frames st - 1"
    "\<forall>x. mem st' x = (if unat (x - p) < 4096 then 0 else mem st x)"
    by (auto simp: alloc_result_def fill_def)
  moreover have "unat p = f * 4096" "p \<noteq> 0" "pmm_inv st'"
    using alloc_result_ptr [OF assms(1) frame(1)] alloc_result_inv [OF assms(1) frame(1)] r
    by simp_all
  ultimately show ?thesis using frame(1) by blast
qed

definition pmm_all_used :: pmm_state where
  \<comment> \<open>the state in which every frame is marked used\<close>
  "pmm_all_used =
     \<lparr>mem = (\<lambda>_. 0), pmm_bitmap = (\<lambda>_. - 1), total_frames = 0, free_frames = 0,
      search_hint = 0\<rparr>"

lemma pmm_all_used [simp]:
  "frame_used pmm_all_used f" "free_set pmm_all_used = {}" "free_frames pmm_all_used = 0"
  by (auto simp: frame_used_bit pmm_all_used_def free_set_def)

definition pmm_one_free :: pmm_state where
  \<comment> \<open>only frame 3 is free\<close>
  "pmm_one_free = (frame_clear pmm_all_used 3)\<lparr>free_frames := 1\<rparr>"

lemma pmm_one_free [simp]: "free_set pmm_one_free = {3}" "pmm_inv pmm_one_free"
proof -
  show "free_set pmm_one_free = {3}"
    by (simp add: pmm_one_free_def free_set_clear PMM_MAX_FRAMES_def)
  then show "pmm_inv pmm_one_free" by (simp add: pmm_inv_def) (simp add: pmm_one_free_def)
qed

theorem pmm_alloc_correct_witness:
  "pmm_inv pmm_one_free \<and> unat (fst (pmm_alloc pmm_one_free)) = 12288 \<and>
   free_set (snd (pmm_alloc pmm_one_free)) = {}"
  using pmm_alloc_correct [of pmm_one_free "fst (pmm_alloc pmm_one_free)"
      "snd (pmm_alloc pmm_one_free)"] by auto

section \<open>Release\<close>

text \<open>
  pmm_free_page puts exactly the frame of the given address back into the free set and
  counts it when the frame is in range, not frame 0 and in use; a double free, frame 0 or
  an out-of-range address leaves the whole state unchanged; the invariant is kept.
\<close>

theorem pmm_free_page_correct:
  fixes st :: "'a pmm_state_scheme" and p :: u64
  assumes "pmm_inv st"
  defines "f \<equiv> unat p div 4096"
  shows "(if 0 < f \<and> f < PMM_MAX_FRAMES \<and> f \<notin> free_set st
          then free_set (pmm_free_page st p) = insert f (free_set st) \<and>
               free_frames (pmm_free_page st p) = free_frames st + 1 \<and>
               mem (pmm_free_page st p) = mem st
          else pmm_free_page st p = st) \<and>
         pmm_inv (pmm_free_page st p)"
proof -
  have f: "unat (p div PAGE_SIZE) = f" by (simp add: f_def kdefs unat_div)
  show ?thesis
  proof (cases "0 < f \<and> f < PMM_MAX_FRAMES \<and> f \<notin> free_set st")
    case True
    then have used: "frame_used st f" by (simp add: free_set_def)
    then have st': "pmm_free_page st p =
        (frame_clear st f)\<lparr>free_frames := free_frames st + 1\<rparr>"
      using True f by (simp add: pmm_free_page_def)
    have fs: "free_set (pmm_free_page st p) = insert f (free_set st)"
      using True by (simp add: st' free_set_clear)
    then have "pmm_inv (pmm_free_page st p)"
      using assms(1) True by (simp add: pmm_inv_def) (simp add: st')
    with True fs show ?thesis by (simp add: st')
  next
    case False
    then have "pmm_free_page st p = st"
      using f by (auto simp: pmm_free_page_def free_set_def)
    with False assms(1) show ?thesis by auto
  qed
qed

theorem pmm_free_page_correct_witness:
  "pmm_inv pmm_one_free \<and> free_set (pmm_free_page pmm_one_free 8192) = {2, 3} \<and>
   pmm_free_page pmm_one_free 12288 = pmm_one_free"
  using pmm_free_page_correct [of pmm_one_free 8192]
    pmm_free_page_correct [of pmm_one_free 12288]
  by (simp add: PMM_MAX_FRAMES_def)

section \<open>Initialisation\<close>

definition frames_between :: "nat \<Rightarrow> nat \<Rightarrow> nat set" where
  "frames_between a b = {f. a div 4096 \<le> f \<and> f < b div 4096 \<and> f < PMM_MAX_FRAMES}"

definition entry_frames :: "e820_entry \<Rightarrow> nat set" where
  \<comment> \<open>the whole frames inside a usable region\<close>
  "entry_frames e =
     (if e820_type e = 1
      then frames_between (unat (ALIGN_UP (e820_base e) PAGE_SIZE))
             (unat (ALIGN_DOWN (e820_base e + e820_length e) PAGE_SIZE))
      else {})"

lemma finite_frames [simp]: "finite (frames_between a b)" "finite (entry_frames e)"
  by (simp_all add: frames_between_def entry_frames_def)

lemma frames_between_step:
  assumes "4096 dvd a" "4096 dvd b" "a < b" "a div 4096 < PMM_MAX_FRAMES"
  shows "frames_between a b = insert (a div 4096) (frames_between (a + 4096) b)"
    and "a div 4096 \<notin> frames_between (a + 4096) b"
proof -
  have "a div 4096 < b div 4096" using assms(1-3) by auto
  moreover have s: "(a + 4096) div 4096 = Suc (a div 4096)" by simp
  ultimately show "frames_between a b = insert (a div 4096) (frames_between (a + 4096) b)"
    using assms(4) unfolding frames_between_def s by auto
  show "a div 4096 \<notin> frames_between (a + 4096) b" unfolding frames_between_def s by simp
qed

lemma pmm_init_region_eq:
  assumes "4096 dvd a" "4096 dvd b"
  shows "free_set (pmm_init_region a b st) = free_set st \<union> frames_between a b \<and>
    free_frames (pmm_init_region a b st) =
      free_frames st + of_nat (card (frames_between a b)) \<and>
    mem (pmm_init_region a b st) = mem st"
  using assms
proof (induction a b st rule: pmm_init_region.induct)
  case (1 a b st)
  consider "a < b" "a div 4096 < PMM_MAX_FRAMES" | "a < b" "\<not> a div 4096 < PMM_MAX_FRAMES"
    | "\<not> a < b" by blast
  then show ?case
  proof cases
    case 1
    then show ?thesis
      using "1.IH" [OF 1(1) refl] "1.prems" frames_between_step [OF "1.prems" 1]
      by (simp add: pmm_init_region.simps [of a b] free_set_clear ac_simps)
  next
    case 2
    then have "frames_between a b = {}" by (auto simp: frames_between_def)
    with 2 show ?thesis by (simp add: pmm_init_region.simps)
  next
    case 3
    then have "frames_between a b = {}"
      by (auto simp: frames_between_def not_less dest: div_le_mono [where k = 4096])
    with 3 show ?thesis by (simp add: pmm_init_region.simps)
  qed
qed

lemma page_aligned: "4096 dvd unat (ALIGN_DOWN x PAGE_SIZE)" "4096 dvd unat (ALIGN_UP x PAGE_SIZE)"
proof -
  show "4096 dvd unat (ALIGN_DOWN x PAGE_SIZE)" for x
    by (simp add: PAGE_SIZE_def unat_page_down)
  from this [of "x + PAGE_SIZE - 1"] show "4096 dvd unat (ALIGN_UP x PAGE_SIZE)"
    by (simp add: ALIGN_UP_def ALIGN_DOWN_def)
qed

lemma pmm_init_entry_eq:
  "free_set (pmm_init_entry st e) = free_set st \<union> entry_frames e \<and>
   free_frames (pmm_init_entry st e) = free_frames st + of_nat (card (entry_frames e)) \<and>
   mem (pmm_init_entry st e) = mem st"
proof -
  let ?s = "ALIGN_UP (e820_base e) PAGE_SIZE"
    and ?e = "ALIGN_DOWN (e820_base e + e820_length e) PAGE_SIZE"
  have "?e \<le> ?s \<Longrightarrow> frames_between (unat ?s) (unat ?e) = {}"
    by (auto simp: frames_between_def word_le_nat_alt dest: div_le_mono [where k = 4096])
  then show ?thesis
    using pmm_init_region_eq [OF page_aligned(2) page_aligned(1),
        of "e820_base e" "e820_base e + e820_length e" st]
    by (auto simp: pmm_init_entry_def entry_frames_def Let_def)
qed

lemma pmm_init_entries_eq:
  "free_set (foldl pmm_init_entry st es) = free_set st \<union> (\<Union>e\<in>set es. entry_frames e) \<and>
   free_frames (foldl pmm_init_entry st es) =
     free_frames st + of_nat (\<Sum>e\<leftarrow>es. card (entry_frames e))"
  by (induction es arbitrary: st) (auto simp: pmm_init_entry_eq)

definition count_ok :: "'a pmm_state_scheme \<Rightarrow> bool" where
  "count_ok st \<longleftrightarrow> free_frames st = of_nat (card (free_set st))"

lemma reserve_frame_eq:
  assumes "f < PMM_MAX_FRAMES"
  shows "free_set (reserve_frame st f) = free_set st - {f} \<and>
    (count_ok st \<longrightarrow> count_ok (reserve_frame st f)) \<and>
    (frame_used (reserve_frame st f) g \<longleftrightarrow> g = f \<or> frame_used st g)"
proof (cases "frame_used st f")
  case True
  then show ?thesis by (auto simp: reserve_frame_def free_set_def)
next
  case False
  then have "f \<in> free_set st" using assms by (simp add: free_set_def)
  with False show ?thesis
    by (auto simp: reserve_frame_def count_ok_def of_nat_card_pos_minus_1
        simp del: card_Diff_insert)
qed

lemma pmm_reserve_kernel_eq:
  assumes "4096 dvd a" "4096 dvd k" "k \<le> 4294967296"
  shows "free_set (pmm_reserve_kernel a k st) = free_set st - frames_between a k \<and>
    (count_ok st \<longrightarrow> count_ok (pmm_reserve_kernel a k st)) \<and>
    (frame_used st g \<longrightarrow> frame_used (pmm_reserve_kernel a k st) g)"
  using assms
proof (induction a k st rule: pmm_reserve_kernel.induct)
  case (1 a k st)
  show ?case
  proof (cases "a < k")
    case True
    then have f: "a div 4096 < PMM_MAX_FRAMES" using "1.prems" by (simp add: kdefs)
    show ?thesis
      using "1.IH" [OF True] "1.prems" True frames_between_step(1) [OF "1.prems"(1,2) True f]
        reserve_frame_eq [OF f, of st]
      by (auto simp: pmm_reserve_kernel.simps [of a k])
  next
    case False
    then have "frames_between a k = {}"
      by (auto simp: frames_between_def not_less dest: div_le_mono [where k = 4096])
    with False show ?thesis by (simp add: pmm_reserve_kernel.simps)
  qed
qed

lemma card_UN_entries:
  assumes "\<And>i j. i < j \<Longrightarrow> j < length es \<Longrightarrow> entry_frames (es ! i) \<inter> entry_frames (es ! j) = {}"
  shows "card (\<Union>e\<in>set es. entry_frames e) = (\<Sum>e\<leftarrow>es. card (entry_frames e))"
  using assms
proof (induction es)
  case Nil
  show ?case by simp
next
  case (Cons e es)
  have "entry_frames e \<inter> entry_frames e' = {}" if "e' \<in> set es" for e'
    using that Cons.prems [of 0] by (force simp: in_set_conv_nth)
  moreover have "card (\<Union>e\<in>set es. entry_frames e) = (\<Sum>e\<leftarrow>es. card (entry_frames e))"
    using Cons.prems [of "Suc _" "Suc _"] by (intro Cons.IH) simp
  ultimately show ?case by (subst list.simps) (simp add: card_Un_disjoint Int_UN_distrib)
qed


definition demo_e820 :: boot_info where
  \<comment> \<open>one usable region of 4 MB at 1 MB and one reserved region\<close>
  "demo_e820 =
     \<lparr>magic = 0xB007B007, e820_count = 2,
      e820_map = [\<lparr>e820_base = 0x100000, e820_length = 0x400000, e820_type = 1, acpi_attrs = 0\<rparr>,
                  \<lparr>e820_base = 0xF0000, e820_length = 0x10000, e820_type = 2, acpi_attrs = 0\<rparr>],
      kernel_phys_start = 0x100000, kernel_phys_end = 0x200000,
      fb_addr = 0, fb_width = 0, fb_height = 0, fb_pitch = 0, fb_bpp = 0\<rparr>"


text \<open>
  Overlapping usable regions are counted twice: the counter then exceeds the number of
  free frames, because the region loop does not test whether a frame is already free.
\<close>

lemma pmm_init_overlap_counts_twice:
  defines "e \<equiv> \<lparr>e820_base = 0x400000, e820_length = 0x1000, e820_type = 1, acpi_attrs = 0\<rparr>"
  shows "free_frames (foldl pmm_init_entry pmm_all_used [e, e]) = 2 \<and>
    free_set (foldl pmm_init_entry pmm_all_used [e, e]) = {1024}"
proof -
  have "entry_frames e = {1024}"
    by (auto simp: e_def entry_frames_def frames_between_def PMM_MAX_FRAMES_def
        PAGE_SIZE_def ALIGN_UP_def ALIGN_DOWN_def)
  then show ?thesis using pmm_init_entries_eq [of pmm_all_used "[e, e]"] by simp
qed

section \<open>The allocator interface\<close>

fun alloc_n :: "('s \<Rightarrow> u64 \<times> 's) \<Rightarrow> nat \<Rightarrow> 's \<Rightarrow> u64 list \<times> 's" where
  \<comment> \<open>up to \<open>n\<close> allocations in a row, stopping at the first NULL\<close>
  "alloc_n alloc 0 s = ([], s)"
| "alloc_n alloc (Suc n) s =
     (case alloc s of (p, s1) \<Rightarrow>
        if p = 0 then ([], s1)
        else case alloc_n alloc n s1 of (ps, s2) \<Rightarrow> (p # ps, s2))"

locale frame_allocator =
  fixes alloc :: "'s \<Rightarrow> u64 \<times> 's"
    and release :: "'s \<Rightarrow> u64 \<Rightarrow> 's"
    and avail :: "'s \<Rightarrow> nat set"
    and inv :: "'s \<Rightarrow> bool"
  assumes alloc_null: "inv s \<Longrightarrow> alloc s = (0, s') \<Longrightarrow> s' = s \<and> avail s = {}"
    and alloc_ptr: "inv s \<Longrightarrow> alloc s = (p, s') \<Longrightarrow> p \<noteq> 0 \<Longrightarrow>
      \<exists>f \<in> avail s. unat p = f * 4096 \<and> avail s' = avail s - {f} \<and> inv s'"
    and release_ptr: "inv s \<Longrightarrow> unat p = f * 4096 \<Longrightarrow> 0 < f \<Longrightarrow> f < 1048576 \<Longrightarrow> f \<notin> avail s \<Longrightarrow>
      avail (release s p) = insert f (avail s) \<and> inv (release s p)"
    and avail_range: "inv s \<Longrightarrow> avail s \<subseteq> {0<..<1048576}"
begin

lemma finite_avail: "inv s \<Longrightarrow> finite (avail s)"
  by (meson avail_range finite_greaterThanLessThan finite_subset)

lemma alloc_n_spec:
  "inv s \<Longrightarrow> alloc_n alloc n s = (ps, s') \<Longrightarrow>
     distinct ps \<and> length ps = min n (card (avail s)) \<and> inv s' \<and>
     (\<lambda>p. unat p div 4096) ` set ps \<subseteq> avail s \<and>
     avail s' = avail s - (\<lambda>p. unat p div 4096) ` set ps"
proof (induction n arbitrary: s ps)
  case 0
  then show ?case by simp
next
  case (Suc n)
  obtain p s1 where a: "alloc s = (p, s1)" by force
  show ?case
  proof (cases "p = 0")
    case True
    with Suc.prems a alloc_null [of s s1] show ?thesis by auto
  next
    case False
    then obtain f where f: "f \<in> avail s" "unat p = f * 4096" "avail s1 = avail s - {f}" "inv s1"
      using alloc_ptr [OF Suc.prems(1) a] by blast
    obtain qs where q: "alloc_n alloc n s1 = (qs, s')" "ps = p # qs"
      using Suc.prems(2) a False by (auto split: prod.splits)
    note ih = Suc.IH [OF f(4) q(1)]
    have "p \<notin> set qs" using ih f by force
    moreover have "card (avail s) = Suc (card (avail s1))"
      using f(1,3) finite_avail [OF Suc.prems(1)] by (metis card_Suc_Diff1)
    ultimately show ?thesis using ih f q(2) by auto
  qed
qed

lemma alloc_release:
  assumes "inv s" "alloc s = (p, s')" "p \<noteq> 0"
  shows "avail (release s' p) = avail s" "inv (release s' p)"
proof -
  obtain f where f: "f \<in> avail s" "unat p = f * 4096" "avail s' = avail s - {f}" "inv s'"
    using alloc_ptr [OF assms] by blast
  have "0 < f" "f < 1048576" using f(1) avail_range [OF assms(1)] by auto
  then show "avail (release s' p) = avail s" "inv (release s' p)"
    using release_ptr [OF f(4,2)] f(1,3) by auto
qed

end

lemma pmm_alloc_ptr:
  assumes "pmm_inv st" "pmm_alloc st = (p, st')" "p \<noteq> 0"
  shows "\<exists>f \<in> free_set st. unat p = f * 4096 \<and> free_set st' = free_set st - {f} \<and> pmm_inv st'"
proof (cases st rule: pmm_alloc_cases)
  case oom
  then show ?thesis using assms by simp
next
  case (frame f)
  with assms have r: "alloc_result st f = (p, st')" by simp
  then have "free_set st' = free_set st - {f}" by (auto simp: alloc_result_def)
  then show ?thesis
    using alloc_result_ptr(3) [OF assms(1) frame(1)] alloc_result_inv [OF assms(1) frame(1)]
      frame(1) r by (metis fst_conv snd_conv)
qed

lemma pmm_release_ptr:
  assumes "pmm_inv st" "unat p = f * 4096" "0 < f" "f < 1048576" "f \<notin> free_set st"
  shows "free_set (pmm_free_page st p) = insert f (free_set st) \<and> pmm_inv (pmm_free_page st p)"
proof -
  have f: "unat (p div PAGE_SIZE) = f" using assms(2) by (simp add: kdefs unat_div)
  have "frame_used st f" "f < PMM_MAX_FRAMES"
    using assms(4,5) by (simp_all add: free_set_def PMM_MAX_FRAMES_def)
  then have "pmm_free_page st p = (frame_clear st f)\<lparr>free_frames := free_frames st + 1\<rparr>"
    using assms(3) f by (simp add: pmm_free_page_def)
  with assms \<open>f < PMM_MAX_FRAMES\<close> show ?thesis by (simp add: pmm_inv_def free_set_clear)
qed

interpretation pm: frame_allocator pmm_alloc pmm_free_page free_set pmm_inv
proof unfold_locales
  fix s s' :: "'a pmm_state_scheme"
  assume "pmm_inv s" "pmm_alloc s = (0, s')"
  then show "s' = s \<and> free_set s = {}"
    by (cases s rule: pmm_alloc_cases)
      (auto dest: alloc_result_ptr(2))
next
  fix s s' :: "'a pmm_state_scheme" and p
  assume "pmm_inv s" "pmm_alloc s = (p, s')" "p \<noteq> 0"
  then show "\<exists>f\<in>free_set s. unat p = f * 4096 \<and> free_set s' = free_set s - {f} \<and> pmm_inv s'"
    by (rule pmm_alloc_ptr)
next
  fix s :: "'a pmm_state_scheme" and p :: u64 and f
  assume "pmm_inv s" "unat p = f * 4096" "0 < f" "f < 1048576" "f \<notin> free_set s"
  then show "free_set (pmm_free_page s p) = insert f (free_set s) \<and> pmm_inv (pmm_free_page s p)"
    by (rule pmm_release_ptr)
next
  fix s :: "'a pmm_state_scheme"
  assume "pmm_inv s"
  then show "free_set s \<subseteq> {0<..<1048576}"
    by (auto simp: pmm_inv_def free_set_def PMM_MAX_FRAMES_def intro!: gr0I)
qed

text \<open>
  n allocations in a row return pairwise distinct frames, all of them free before, and
  as many as there are free frames up to n; the frames handed out are exactly the ones
  that leave the free set.
\<close>

theorem pmm_alloc_n_distinct:
  assumes "pmm_inv st" "alloc_n pmm_alloc n st = (ps, st')"
  shows "distinct ps \<and> length ps = min n (card (free_set st)) \<and> pmm_inv st' \<and>
    (\<lambda>p. unat p div 4096) ` set ps \<subseteq> free_set st \<and>
    free_set st' = free_set st - (\<lambda>p. unat p div 4096) ` set ps"
  using pm.alloc_n_spec [OF assms] .

theorem pmm_alloc_n_distinct_witness:
  "pmm_inv pmm_one_free \<and> length (fst (alloc_n pmm_alloc 5 pmm_one_free)) = 1"
  using pmm_alloc_n_distinct [of pmm_one_free 5 "fst (alloc_n pmm_alloc 5 pmm_one_free)"
      "snd (alloc_n pmm_alloc 5 pmm_one_free)"] by simp

end
