(* ===== verification/Vmm.thy ===== *)
theory Vmm
  imports Pmm
begin

text \<open>
  The virtual memory manager, \<^verbatim>\<open>kernel/mm/vmm.c\<close>, \<^verbatim>\<open>vmm.h\<close> and \<^verbatim>\<open>vmm_ext.c\<close>:
  four-level x86-64 page tables stored in physical frames that come from the frame
  allocator.  Tables are read and written in the byte memory with 64-bit accesses at their
  physical addresses.  The TLB is not part of the model, so \<^verbatim>\<open>invlpg\<close> has no counterpart;
  an endless \<^verbatim>\<open>cli; hlt\<close> is the value \<^const>\<open>None\<close>.
\<close>

section \<open>Constants\<close>

definition VMM_PRESENT :: u64 where [kdefs]: "VMM_PRESENT = 0x1"
definition VMM_WRITABLE :: u64 where [kdefs]: "VMM_WRITABLE = 0x2"
definition VMM_USER :: u64 where [kdefs]: "VMM_USER = 0x4"
definition VMM_PWT :: u64 where [kdefs]: "VMM_PWT = 0x8"
definition VMM_PCD :: u64 where [kdefs]: "VMM_PCD = 0x10"
definition VMM_HUGE :: u64 where [kdefs]: "VMM_HUGE = 0x80"
definition VMM_GLOBAL :: u64 where [kdefs]: "VMM_GLOBAL = 0x100"
definition VMM_NO_EXEC :: u64 where [kdefs]: "VMM_NO_EXEC = 0x8000000000000000"

definition VMM_KERNEL_RW :: u64 where
  [kdefs]: "VMM_KERNEL_RW = VMM_PRESENT OR VMM_WRITABLE OR VMM_GLOBAL"
definition VMM_USER_RW :: u64 where
  [kdefs]: "VMM_USER_RW = VMM_PRESENT OR VMM_WRITABLE OR VMM_USER"
definition VMM_MMIO :: u64 where
  [kdefs]: "VMM_MMIO = VMM_PRESENT OR VMM_WRITABLE OR VMM_PCD OR VMM_PWT OR VMM_GLOBAL"

definition VMM_PHYS_MASK :: u64 where [kdefs]: "VMM_PHYS_MASK = 0x000FFFFFFFFFF000"
definition KERNEL_VIRT_BASE :: u64 where [kdefs]: "KERNEL_VIRT_BASE = 0xFFFFFFFF80000000"

definition PML4_IDX :: "u64 \<Rightarrow> u64" where "PML4_IDX v = drop_bit 39 v AND 0x1FF"
definition PDPT_IDX :: "u64 \<Rightarrow> u64" where "PDPT_IDX v = drop_bit 30 v AND 0x1FF"
definition PD_IDX :: "u64 \<Rightarrow> u64" where "PD_IDX v = drop_bit 21 v AND 0x1FF"
definition PT_IDX :: "u64 \<Rightarrow> u64" where "PT_IDX v = drop_bit 12 v AND 0x1FF"

definition MSR_EFER :: u32 where [kdefs]: "MSR_EFER = 0xC0000080"
definition EFER_NXE :: u64 where [kdefs]: "EFER_NXE = 0x800"

section \<open>State\<close>

record vmm_state = pmm_state +
  kernel_pml4 :: u64
  cr3 :: u64
  msrs :: "u32 \<Rightarrow> u64"

definition rdmsr :: "'a vmm_state_scheme \<Rightarrow> u32 \<Rightarrow> u64" where
  "rdmsr st r = msrs st r"

definition wrmsr :: "'a vmm_state_scheme \<Rightarrow> u32 \<Rightarrow> u64 \<Rightarrow> 'a vmm_state_scheme" where
  "wrmsr st r v = st\<lparr>msrs := (msrs st)(r := v)\<rparr>"

definition cpu_enable_nxe :: "'a vmm_state_scheme \<Rightarrow> 'a vmm_state_scheme" where
  "cpu_enable_nxe st = wrmsr st MSR_EFER (rdmsr st MSR_EFER OR EFER_NXE)"

section \<open>Page table walks\<close>

definition read_entry :: "memory \<Rightarrow> u64 \<Rightarrow> u64 \<Rightarrow> u64" where
  \<comment> \<open>\<^verbatim>\<open>table[idx]\<close>\<close>
  "read_entry m table idx = load64 m (table + 8 * idx)"

definition write_entry :: "memory \<Rightarrow> u64 \<Rightarrow> u64 \<Rightarrow> u64 \<Rightarrow> memory" where
  \<comment> \<open>\<^verbatim>\<open>table[idx] = v\<close>\<close>
  "write_entry m table idx v = store64 m (table + 8 * idx) v"

definition get_or_create ::
  "'a pmm_state_scheme \<Rightarrow> u64 \<Rightarrow> u64 \<Rightarrow> u64 \<Rightarrow> u64 \<times> 'a pmm_state_scheme" where
  "get_or_create st table idx flags =
     (if read_entry (mem st) table idx AND VMM_PRESENT = 0 then
        (case pmm_alloc st of (page, st1) \<Rightarrow>
           if page = 0 then (0, st1)
           else let st2 = st1\<lparr>mem := write_entry (mem st1) table idx (page OR flags)\<rparr>
                in (read_entry (mem st2) table idx AND VMM_PHYS_MASK, st2))
      else (read_entry (mem st) table idx AND VMM_PHYS_MASK, st))"

definition vmm_map ::
  "'a pmm_state_scheme \<Rightarrow> u64 \<Rightarrow> u64 \<Rightarrow> u64 \<Rightarrow> u64 \<Rightarrow> 'a pmm_state_scheme" where
  "vmm_map st pml4 virt phys flags =
     (let mid_flags = VMM_PRESENT OR VMM_WRITABLE OR (flags AND VMM_USER) in
      case get_or_create st pml4 (PML4_IDX virt) mid_flags of (pdpt, st1) \<Rightarrow>
      if pdpt = 0 then st1
      else case get_or_create st1 pdpt (PDPT_IDX virt) mid_flags of (pd, st2) \<Rightarrow>
      if pd = 0 then st2
      else case get_or_create st2 pd (PD_IDX virt) mid_flags of (pt, st3) \<Rightarrow>
      if pt = 0 then st3
      else st3\<lparr>mem := write_entry (mem st3) pt (PT_IDX virt)
                  ((phys AND VMM_PHYS_MASK) OR flags)\<rparr>)"

definition page_count :: "u64 \<Rightarrow> nat" where
  \<comment> \<open>\<^verbatim>\<open>ALIGN_UP(size, PAGE_SIZE) / PAGE_SIZE\<close>\<close>
  "page_count sz = unat (ALIGN_UP sz PAGE_SIZE div PAGE_SIZE)"

definition vmm_map_range ::
  "'a pmm_state_scheme \<Rightarrow> u64 \<Rightarrow> u64 \<Rightarrow> u64 \<Rightarrow> u64 \<Rightarrow> u64 \<Rightarrow> 'a pmm_state_scheme" where
  "vmm_map_range st pml4 virt phys sz flags =
     foldl (\<lambda>s i. vmm_map s pml4 (virt + of_nat i * PAGE_SIZE) (phys + of_nat i * PAGE_SIZE) flags)
       st [0..<page_count sz]"

definition vmm_unmap :: "'a pmm_state_scheme \<Rightarrow> u64 \<Rightarrow> u64 \<Rightarrow> 'a pmm_state_scheme" where
  "vmm_unmap st pml4 virt =
     (let e4 = read_entry (mem st) pml4 (PML4_IDX virt) in
      if e4 AND VMM_PRESENT = 0 then st
      else let pdpt = e4 AND VMM_PHYS_MASK; e3 = read_entry (mem st) pdpt (PDPT_IDX virt) in
      if e3 AND VMM_PRESENT = 0 then st
      else let pd = e3 AND VMM_PHYS_MASK; e2 = read_entry (mem st) pd (PD_IDX virt) in
      if e2 AND VMM_PRESENT = 0 then st
      else let pt = e2 AND VMM_PHYS_MASK
           in st\<lparr>mem := write_entry (mem st) pt (PT_IDX virt) 0\<rparr>)"

definition vmm_translate :: "'a pmm_state_scheme \<Rightarrow> u64 \<Rightarrow> u64 \<Rightarrow> u64" where
  "vmm_translate st pml4 virt =
     (let e4 = read_entry (mem st) pml4 (PML4_IDX virt) in
      if e4 AND VMM_PRESENT = 0 then 0
      else let pdpt = e4 AND VMM_PHYS_MASK; e3 = read_entry (mem st) pdpt (PDPT_IDX virt) in
      if e3 AND VMM_PRESENT = 0 then 0
      else if e3 AND VMM_HUGE \<noteq> 0 then (e3 AND 0x000FFFFFC0000000) OR (virt AND 0x3FFFFFFF)
      else let pd = e3 AND VMM_PHYS_MASK; e2 = read_entry (mem st) pd (PD_IDX virt) in
      if e2 AND VMM_PRESENT = 0 then 0
      else if e2 AND VMM_HUGE \<noteq> 0 then (e2 AND 0x000FFFFFFFE00000) OR (virt AND 0x1FFFFF)
      else let pt = e2 AND VMM_PHYS_MASK; e1 = read_entry (mem st) pt (PT_IDX virt) in
      if e1 AND VMM_PRESENT = 0 then 0
      else (e1 AND VMM_PHYS_MASK) OR (virt AND 0xFFF))"

definition vmm_switch :: "'a vmm_state_scheme \<Rightarrow> u64 \<Rightarrow> 'a vmm_state_scheme" where
  "vmm_switch st pml4 = st\<lparr>cr3 := pml4\<rparr>"

definition vmm_create_address_space ::
  "'a vmm_state_scheme \<Rightarrow> u64 \<times> 'a vmm_state_scheme" where
  "vmm_create_address_space st =
     (case pmm_alloc st of (page, st1) \<Rightarrow>
        if page = 0 then (0, st1)
        else (page, foldl (\<lambda>s i. s\<lparr>mem := write_entry (mem s) page (of_nat i)
                (read_entry (mem s) (kernel_pml4 s) (of_nat i))\<rparr>) st1 [256..<512]))"

definition vmm_init :: "'a vmm_state_scheme \<Rightarrow> 'a vmm_state_scheme option" where
  "vmm_init st =
     (case pmm_alloc st of (pml4_page, st1) \<Rightarrow>
        if pml4_page = 0 then None
        else
          let st2 = st1\<lparr>kernel_pml4 := pml4_page\<rparr>;
              st3 = foldl (\<lambda>s i. vmm_map s (kernel_pml4 s)
                      (KERNEL_VIRT_BASE + of_nat i * PAGE_SIZE) (of_nat i * PAGE_SIZE) VMM_KERNEL_RW)
                      st2 [0..<32768];
              st4 = foldl (\<lambda>s i. vmm_map s (kernel_pml4 s)
                      (of_nat i * PAGE_SIZE) (of_nat i * PAGE_SIZE) VMM_KERNEL_RW)
                      st3 [0..<512];
              st5 = cpu_enable_nxe st4
          in Some (vmm_switch st5 (kernel_pml4 st5)))"

section \<open>Extensions (vmm_ext.c)\<close>

definition vmm_map_kernel ::
  "'a vmm_state_scheme \<Rightarrow> u64 \<Rightarrow> u64 \<Rightarrow> u64 \<Rightarrow> 'a vmm_state_scheme" where
  "vmm_map_kernel st virt phys flags = vmm_map st (kernel_pml4 st) virt phys flags"

definition vmm_alloc_map ::
  "'a pmm_state_scheme \<Rightarrow> u64 \<Rightarrow> u64 \<Rightarrow> u64 \<Rightarrow> u64 \<times> 'a pmm_state_scheme" where
  "vmm_alloc_map st pml4 virt flags =
     (case pmm_alloc st of (phys, st1) \<Rightarrow>
        if phys = 0 then (0, st1) else (phys, vmm_map st1 pml4 virt phys flags))"

fun vmm_alloc_pages ::
  "'a pmm_state_scheme \<Rightarrow> u64 \<Rightarrow> u64 \<Rightarrow> u64 \<Rightarrow> nat list \<Rightarrow> int \<times> 'a pmm_state_scheme" where
  \<comment> \<open>the loop of \<^verbatim>\<open>vmm_alloc_range\<close> over the page numbers\<close>
  "vmm_alloc_pages st pml4 virt flags [] = (0, st)"
| "vmm_alloc_pages st pml4 virt flags (i # is) =
     (case vmm_alloc_map st pml4 (virt + of_nat i * PAGE_SIZE) flags of (phys, st1) \<Rightarrow>
        if phys = 0 then (- 1, st1) else vmm_alloc_pages st1 pml4 virt flags is)"

definition vmm_alloc_range ::
  "'a pmm_state_scheme \<Rightarrow> u64 \<Rightarrow> u64 \<Rightarrow> u64 \<Rightarrow> u64 \<Rightarrow> int \<times> 'a pmm_state_scheme" where
  "vmm_alloc_range st pml4 virt sz flags =
     vmm_alloc_pages st pml4 virt flags [0..<page_count sz]"

definition vmm_free_range ::
  "'a pmm_state_scheme \<Rightarrow> u64 \<Rightarrow> u64 \<Rightarrow> u64 \<Rightarrow> 'a pmm_state_scheme" where
  "vmm_free_range st pml4 virt sz =
     foldl (\<lambda>s i. let va = virt + of_nat i * PAGE_SIZE; phys = vmm_translate s pml4 va in
              if phys \<noteq> 0 then pmm_free_page (vmm_unmap s pml4 va) phys else s)
       st [0..<page_count sz]"

section \<open>The rest of the state\<close>

lemma pmm_alloc_more [frame_simps]: "pmm_state.more (snd (pmm_alloc st)) = pmm_state.more st"
  by (cases st rule: pmm_alloc_cases) (simp_all add: alloc_result_def frame_set_def)

lemma get_or_create_more [frame_simps]:
  "pmm_state.more (snd (get_or_create st t i fl)) = pmm_state.more st"
  using pmm_alloc_more [of st] by (auto simp: get_or_create_def Let_def split: prod.split)

lemma get_or_create_moreD:
  "get_or_create st t i fl = (r, st') \<Longrightarrow> pmm_state.more st' = pmm_state.more st"
  using get_or_create_more [of st t i fl] by simp

lemma vmm_map_more [frame_simps]:
  "pmm_state.more (vmm_map st pml4 virt phys flags) = pmm_state.more st"
  by (auto simp: vmm_map_def Let_def split: prod.splits dest!: get_or_create_moreD)

section \<open>Page-granular memory facts\<close>

definition page_ptr :: "u64 \<Rightarrow> bool" where
  \<comment> \<open>a page-aligned, non-NULL physical address below 4 GB\<close>
  "page_ptr t \<longleftrightarrow> t \<noteq> 0 \<and> 4096 dvd unat t \<and> unat t div 4096 < PMM_MAX_FRAMES"

lemma entry_unat:
  assumes "page_ptr t" "i < 512"
  shows "unat (t + 8 * i) = unat t + 8 * unat i"
proof -
  have "unat i < 512" using assms(2) by (simp add: word_less_nat_alt)
  moreover have "unat t < 4294967296"
    using assms(1) by (auto simp: page_ptr_def PMM_MAX_FRAMES_def)
  ultimately show ?thesis by (simp add: unat_word_ariths)
qed

lemma entry_aligned: "page_ptr t \<Longrightarrow> i < 512 \<Longrightarrow> 8 dvd unat (t + 8 * i)"
proof -
  assume a: "page_ptr t" "i < 512"
  then have "8 dvd unat t" using dvd_trans [of 8 4096 "unat t"] by (simp add: page_ptr_def)
  then show ?thesis by (simp add: entry_unat [OF a])
qed

lemma entry_eq_iff:
  assumes "page_ptr t" "i < 512" "page_ptr t'" "j < 512"
  shows "t + 8 * i = t' + 8 * j \<longleftrightarrow> t = t' \<and> i = j"
proof
  assume e: "t + 8 * i = t' + 8 * j"
  have ij: "unat i < 512" "unat j < 512"
    using assms(2,4) by (simp_all add: word_less_nat_alt)
  obtain a b where ab: "unat t = 4096 * a" "unat t' = 4096 * b"
    using assms(1,3) by (auto simp: page_ptr_def dvd_def)
  have "unat t + 8 * unat i = unat t' + 8 * unat j"
    using e entry_unat [OF assms(1,2)] entry_unat [OF assms(3,4)] by simp
  then have e': "4096 * a + 8 * unat i = 4096 * b + 8 * unat j" by (simp only: ab)
  have "(4096 * a + 8 * unat i) div 4096 = a" "(4096 * b + 8 * unat j) div 4096 = b"
    using ij by simp_all
  then have "a = b" using e' by simp
  then have "a = b \<and> unat i = unat j" using e' by simp
  then show "t = t' \<and> i = j" using ab by (simp add: u64_eq_iff_unat)
qed auto

lemma read_write_entry [mem_simps]:
  assumes "page_ptr t" "i < 512" "page_ptr t'" "j < 512"
  shows "read_entry (write_entry m t i v) t' j = (if t = t' \<and> i = j then v else read_entry m t' j)"
proof (cases "t + 8 * i = t' + 8 * j")
  case True
  then have "t = t' \<and> i = j" using entry_eq_iff [OF assms] by blast
  then show ?thesis by (simp add: read_entry_def write_entry_def load64_store64_same)
next
  case False
  then have "\<not> (t = t' \<and> i = j)" by auto
  with False show ?thesis
    by (auto simp: read_entry_def write_entry_def load64_store64_other entry_aligned assms)
qed

lemma entry_byte_offset:
  assumes "page_ptr t" "page_ptr t'" "i < 512" "k < 8"
  shows "unat (t' + 8 * i + of_nat k - t) < 4096 \<longleftrightarrow> t' = t"
proof -
  have i: "unat i < 512" using assms(3) by (simp add: word_less_nat_alt)
  have lt: "unat t < 4294967296" "unat t' < 4294967296"
    using assms(1,2) by (auto simp: page_ptr_def PMM_MAX_FRAMES_def)
  have u: "unat (t' + 8 * i + of_nat k) = unat t' + 8 * unat i + k"
    using entry_unat [OF assms(2,3)] lt i assms(4) by (simp add: unat_add_of_nat)
  obtain a b where ab: "unat t = 4096 * a" "unat t' = 4096 * b"
    using assms(1,2) by (auto simp: page_ptr_def dvd_def)
  show ?thesis
  proof
    assume "unat (t' + 8 * i + of_nat k - t) < 4096"
    then have "(if unat t \<le> unat t' + 8 * unat i + k then unat t' + 8 * unat i + k - unat t
        else unat t' + 8 * unat i + k + 18446744073709551616 - unat t) < 4096"
      by (simp add: unat_sub_if_size u word_size word_le_nat_alt split: if_splits)
    then have "unat t \<le> unat t' + 8 * unat i + k"
      "unat t' + 8 * unat i + k < unat t + 4096"
      using lt by (simp_all split: if_splits)
    moreover have "8 * unat i + k < 4096" using i assms(4) by simp
    ultimately have "4096 * a < 4096 * (b + 1)" "4096 * b < 4096 * (a + 1)"
      by (simp_all add: ab)
    then have "a = b" by simp
    then show "t' = t" using ab by (simp add: u64_eq_iff_unat)
  next
    assume "t' = t"
    then have "t' + 8 * i + of_nat k - t = of_nat (8 * unat i + k)" by simp
    moreover have "unat (of_nat (8 * unat i + k) :: u64) = 8 * unat i + k"
      using i assms(4) by (intro unat_of_nat_u64) simp
    ultimately show "unat (t' + 8 * i + of_nat k - t) < 4096" using i assms(4) by simp
  qed
qed

lemma load64_zero: "(\<And>k. k < 8 \<Longrightarrow> m (a + of_nat k) = 0) \<Longrightarrow> load64 m a = 0"
  using load64_cong [of m a "\<lambda>_. 0"] by (simp add: load64_def)

lemma read_entry_fill [mem_simps]:
  assumes "page_ptr t" "page_ptr t'" "i < 512"
  shows "read_entry (fill m t 4096 0) t' i = (if t' = t then 0 else read_entry m t' i)"
proof (cases "t' = t")
  case True
  then show ?thesis
    using entry_byte_offset [OF assms]
    by (simp add: read_entry_def fill_def load64_zero)
next
  case False
  then show ?thesis
    using entry_byte_offset [OF assms]
    by (auto simp: read_entry_def fill_def intro!: load64_cong)
qed

section \<open>The table tree and the abstract mapping\<close>

abbreviation present :: "u64 \<Rightarrow> bool" where
  "present e \<equiv> e AND VMM_PRESENT \<noteq> 0"

fun table_at :: "memory \<Rightarrow> u64 \<Rightarrow> u64 list \<Rightarrow> u64 option" where
  \<comment> \<open>the table reached from \<open>t\<close> by a path of entry indices\<close>
  "table_at m t [] = Some t"
| "table_at m t (i # is) =
     (let e = read_entry m t i in
      if present e then table_at m (e AND VMM_PHYS_MASK) is else None)"

definition leaf :: "memory \<Rightarrow> u64 \<Rightarrow> u64 list \<Rightarrow> u64 \<Rightarrow> u64" where
  \<comment> \<open>the last-level entry, 0 where the tables leading to it are missing\<close>
  "leaf m root p i = (case table_at m root p of None \<Rightarrow> 0 | Some t \<Rightarrow> read_entry m t i)"

definition path_ok :: "u64 list \<Rightarrow> bool" where
  "path_ok p \<longleftrightarrow> length p \<le> 3 \<and> (\<forall>i \<in> set p. i < 512)"

text \<open>
  The tree invariant of one address space: every table reachable in at most three steps is
  a frame in use, no two paths lead to the same table, and no entry above the last level
  has the huge-page bit.
\<close>

definition pt_wf :: "'a pmm_state_scheme \<Rightarrow> u64 \<Rightarrow> bool" where
  "pt_wf st root \<longleftrightarrow>
     (\<forall>p t. path_ok p \<and> table_at (mem st) root p = Some t \<longrightarrow>
        page_ptr t \<and> frame_used st (unat t div 4096)) \<and>
     (\<forall>p q t. path_ok p \<and> path_ok q \<and> table_at (mem st) root p = Some t \<and>
        table_at (mem st) root q = Some t \<longrightarrow> p = q) \<and>
     (\<forall>p t i. path_ok p \<and> length p \<le> 2 \<and> table_at (mem st) root p = Some t \<and> i < 512 \<and>
        present (read_entry (mem st) t i) \<longrightarrow> read_entry (mem st) t i AND VMM_HUGE = 0)"

lemma pt_wf_table:
  "pt_wf st root \<Longrightarrow> path_ok p \<Longrightarrow> table_at (mem st) root p = Some t \<Longrightarrow>
     page_ptr t \<and> frame_used st (unat t div 4096)"
  unfolding pt_wf_def by blast

lemma pt_wf_inj:
  "pt_wf st root \<Longrightarrow> path_ok p \<Longrightarrow> path_ok q \<Longrightarrow> table_at (mem st) root p = Some t \<Longrightarrow>
     table_at (mem st) root q = Some t \<Longrightarrow> p = q"
  unfolding pt_wf_def by blast

lemma pt_wf_huge:
  "pt_wf st root \<Longrightarrow> path_ok p \<Longrightarrow> length p \<le> 2 \<Longrightarrow> table_at (mem st) root p = Some t \<Longrightarrow>
     i < 512 \<Longrightarrow> present (read_entry (mem st) t i) \<Longrightarrow> read_entry (mem st) t i AND VMM_HUGE = 0"
  unfolding pt_wf_def by blast

lemma path_ok_snoc: "path_ok (p @ [i]) \<longleftrightarrow> length p \<le> 2 \<and> path_ok p \<and> i < 512"
  by (auto simp: path_ok_def)

lemma path_ok_snocD: "path_ok (p @ [i]) \<Longrightarrow> path_ok p"
  by (simp add: path_ok_snoc)

lemma table_at_snoc:
  "table_at m t (p @ [i]) =
     (case table_at m t p of None \<Rightarrow> None
      | Some t' \<Rightarrow> let e = read_entry m t' i in
          if present e then Some (e AND VMM_PHYS_MASK) else None)"
  by (induction p arbitrary: t) (auto simp: Let_def)

text \<open>Zeroing a frame that is not in use changes no table of the tree.\<close>

lemma table_at_fill:
  assumes wf: "pt_wf st root" and f: "page_ptr f" "\<not> frame_used st (unat f div 4096)"
    and p: "path_ok p"
  shows "table_at (fill (mem st) f 4096 0) root p = table_at (mem st) root p"
  using p
proof (induction p rule: rev_induct)
  case Nil
  show ?case by simp
next
  case (snoc i p)
  then have ok: "path_ok p" "i < 512" by (simp_all add: path_ok_snoc)
  show ?case
  proof (cases "table_at (mem st) root p")
    case None
    with snoc.IH [OF ok(1)] show ?thesis by (simp add: table_at_snoc)
  next
    case (Some t)
    then have "page_ptr t" "t \<noteq> f" using pt_wf_table [OF wf ok(1)] f(2) by auto
    with snoc.IH [OF ok(1)] Some ok(2) f(1) show ?thesis
      by (simp add: table_at_snoc read_entry_fill)
  qed
qed

text \<open>Writing the entry \<open>i\<close> of the table at path \<open>p\<close> changes only what lies below it.\<close>

lemma table_at_write_other:
  assumes wf: "pt_wf st root" and t: "table_at (mem st) root p = Some t"
    and ok: "path_ok p" "i < 512" and q: "path_ok q" "take (Suc (length p)) q \<noteq> p @ [i]"
  shows "table_at (write_entry (mem st) t i v) root q = table_at (mem st) root q"
  using q
proof (induction q rule: rev_induct)
  case Nil
  show ?case by simp
next
  case (snoc j q)
  then have okq: "path_ok q" "j < 512" by (simp_all add: path_ok_snoc)
  have neq: "take (Suc (length p)) q \<noteq> p @ [i]"
  proof
    assume e: "take (Suc (length p)) q = p @ [i]"
    then have "Suc (length p) \<le> length q"
      by (metis length_append_singleton length_take min.cobounded1)
    with e snoc.prems(2) show False by simp
  qed
  note ih = snoc.IH [OF okq(1) neq]
  show ?case
  proof (cases "table_at (mem st) root q")
    case None
    with ih show ?thesis by (simp add: table_at_snoc)
  next
    case (Some t')
    have "page_ptr t" "page_ptr t'"
      using pt_wf_table [OF wf ok(1) t] pt_wf_table [OF wf okq(1) Some] by auto
    moreover have "\<not> (t = t' \<and> i = j)"
    proof
      assume "t = t' \<and> i = j"
      then have "q = p \<and> i = j" using pt_wf_inj [OF wf okq(1) ok(1) Some] t by simp
      with snoc.prems(2) show False by simp
    qed
    ultimately show ?thesis using ih Some ok(2) okq(2)
      by (simp add: table_at_snoc read_write_entry del: de_Morgan_conj)
  qed
qed

lemma table_at_append:
  "table_at m t (p @ q) = Option.bind (table_at m t p) (\<lambda>t'. table_at m t' q)"
  by (induction p arbitrary: t) (auto simp: Let_def)

section \<open>Entry values\<close>

lemma phys_mask_eq: "VMM_PHYS_MASK = NOT (mask 12) AND mask 52"
  by (simp add: kdefs mask_eq_exp_minus_1)

lemma page_ptr_mask: "page_ptr t \<Longrightarrow> t AND VMM_PHYS_MASK = t"
proof -
  assume t: "page_ptr t"
  then have "unat t < 4294967296" by (auto simp: page_ptr_def PMM_MAX_FRAMES_def)
  then have "int (unat t) < 4294967296" by linarith
  then have "uint t < 2 ^ 52" by simp
  then have m: "t AND mask 52 = t" by (simp only: mask_eq_iff)
  have "unat (t AND NOT (mask 12)) = unat t"
    using t by (simp only: and_not_mask_eq unat_push_drop page_ptr_def) simp
  then have "t AND NOT (mask 12) = t" by (simp only: u64_eq_iff_unat)
  then have "(t AND NOT (mask 12)) AND mask 52 = t" using m by (simp only:)
  then show ?thesis by (simp only: phys_mask_eq and.assoc)
qed

definition flags_ok :: "u64 \<Rightarrow> bool" where
  \<comment> \<open>flag bits only, present, not huge\<close>
  "flags_ok fl \<longleftrightarrow> present fl \<and> fl AND VMM_PHYS_MASK = 0 \<and> fl AND VMM_HUGE = 0"

lemma entry_value:
  assumes "page_ptr page" "flags_ok fl"
  shows "(page OR fl) AND VMM_PHYS_MASK = page" "present (page OR fl)"
    "(page OR fl) AND VMM_HUGE = 0"
proof -
  show "(page OR fl) AND VMM_PHYS_MASK = page"
    using assms by (simp add: bit.conj_disj_distrib2 page_ptr_mask flags_ok_def)
  show "present (page OR fl)"
    using assms by (simp add: bit.conj_disj_distrib2 flags_ok_def or_eq_0_iff)
  have "(page AND VMM_PHYS_MASK) AND VMM_HUGE = page AND (VMM_PHYS_MASK AND VMM_HUGE)"
    by (simp only: and.assoc)
  then have "page AND VMM_HUGE = page AND (VMM_PHYS_MASK AND VMM_HUGE)"
    by (simp only: page_ptr_mask [OF assms(1)])
  also have "VMM_PHYS_MASK AND VMM_HUGE = 0" by (simp add: kdefs)
  finally show "(page OR fl) AND VMM_HUGE = 0"
    using assms(2) by (simp add: bit.conj_disj_distrib2 flags_ok_def)
qed

lemma mid_flags_ok: "flags_ok (VMM_PRESENT OR VMM_WRITABLE OR (fl AND VMM_USER))"
proof -
  have "VMM_USER AND VMM_PHYS_MASK = 0" "VMM_USER AND VMM_HUGE = 0"
    "VMM_USER AND VMM_PRESENT = 0" by (simp_all add: kdefs)
  then have "(fl AND VMM_USER) AND VMM_PHYS_MASK = 0" "(fl AND VMM_USER) AND VMM_HUGE = 0"
    by (simp_all add: and.assoc)
  moreover have "VMM_PRESENT AND VMM_PHYS_MASK = 0" "VMM_WRITABLE AND VMM_PHYS_MASK = 0"
    "VMM_PRESENT AND VMM_HUGE = 0" "VMM_WRITABLE AND VMM_HUGE = 0"
    "VMM_PRESENT AND VMM_PRESENT = 1" by (simp_all add: kdefs)
  ultimately show ?thesis
    by (simp add: flags_ok_def bit.conj_disj_distrib2 or_eq_0_iff)
qed

section \<open>Adding one table\<close>

lemma pt_wf_cong:
  assumes wf: "pt_wf st root"
    and ta: "\<And>q. path_ok q \<Longrightarrow> table_at (mem st') root q = table_at (mem st) root q"
    and rd: "\<And>q x j. path_ok q \<Longrightarrow> length q \<le> 2 \<Longrightarrow> table_at (mem st) root q = Some x \<Longrightarrow> j < 512 \<Longrightarrow>
        read_entry (mem st') x j = read_entry (mem st) x j"
    and u: "\<And>g. frame_used st g \<Longrightarrow> frame_used st' g"
  shows "pt_wf st' root"
  unfolding pt_wf_def
proof (intro conjI allI impI; elim conjE)
  fix p t assume a: "path_ok p" "table_at (mem st') root p = Some t"
  then have "table_at (mem st) root p = Some t" using ta by simp
  from pt_wf_table [OF wf a(1) this] show "page_ptr t" "frame_used st' (unat t div 4096)"
    using u by auto
next
  fix p q t assume "path_ok p" "path_ok q" "table_at (mem st') root p = Some t"
    "table_at (mem st') root q = Some t"
  then show "p = q" using pt_wf_inj [OF wf] ta by simp
next
  fix p t i
  assume a: "path_ok p" "length p \<le> 2" "table_at (mem st') root p = Some t" "i < 512"
    "present (read_entry (mem st') t i)"
  then have t: "table_at (mem st) root p = Some t" using ta by simp
  from a(5) pt_wf_huge [OF wf a(1,2) t a(4)] show "read_entry (mem st') t i AND VMM_HUGE = 0"
    by (simp add: rd [OF a(1,2) t a(4)])
qed

lemma pt_wf_fill:
  assumes wf: "pt_wf st root" and f: "page_ptr f" "\<not> frame_used st (unat f div 4096)"
    and m: "mem st1 = fill (mem st) f 4096 0"
    and u: "\<And>g. frame_used st g \<Longrightarrow> frame_used st1 g"
  shows "pt_wf st1 root"
proof (rule pt_wf_cong [OF wf])
  fix q assume q: "path_ok q"
  then show "table_at (mem st1) root q = table_at (mem st) root q"
    using table_at_fill [OF wf f] by (simp add: m)
next
  fix q x j assume "path_ok q" "table_at (mem st) root q = Some x" "j < (512 :: u64)"
  moreover from this have "page_ptr x" "x \<noteq> f" using pt_wf_table [OF wf] f(2) by auto
  ultimately show "read_entry (mem st1) x j = read_entry (mem st) x j"
    using f(1) by (simp add: m read_entry_fill)
qed (rule u)

text \<open>
  One step of the mapping code seen from the tree: the new table, zeroed, in use and
  outside the tree, is hung below the absent entry \<open>i\<close> of the table at \<open>p\<close>.
\<close>

definition hangs ::
  "'a pmm_state_scheme \<Rightarrow> 'a pmm_state_scheme \<Rightarrow> u64 \<Rightarrow> u64 list \<Rightarrow> u64 \<Rightarrow> u64 \<Rightarrow> u64 \<Rightarrow> u64 \<Rightarrow> bool" where
  "hangs st st2 root p t i page fl \<longleftrightarrow>
     pt_wf st root \<and> table_at (mem st) root p = Some t \<and> path_ok (p @ [i]) \<and>
     \<not> present (read_entry (mem st) t i) \<and>
     page_ptr page \<and> frame_used st (unat page div 4096) \<and>
     (\<forall>q. path_ok q \<longrightarrow> table_at (mem st) root q \<noteq> Some page) \<and>
     (\<forall>j<512. read_entry (mem st) page j = 0) \<and> flags_ok fl \<and>
     mem st2 = write_entry (mem st) t i (page OR fl) \<and>
     (\<forall>g. frame_used st2 g = frame_used st g)"

lemma hangsD:
  assumes "hangs st st2 root p t i page fl"
  shows "pt_wf st root" "table_at (mem st) root p = Some t" "path_ok p" "i < 512" "length p \<le> 2"
    "\<not> present (read_entry (mem st) t i)" "page_ptr page" "frame_used st (unat page div 4096)"
    "flags_ok fl" "mem st2 = write_entry (mem st) t i (page OR fl)"
    "\<And>q. path_ok q \<Longrightarrow> table_at (mem st) root q \<noteq> Some page"
    "\<And>j. j < 512 \<Longrightarrow> read_entry (mem st) page j = 0"
    "\<And>g. frame_used st2 g = frame_used st g"
  using assms by (auto simp: hangs_def path_ok_snoc)

lemma hangs_ptr:
  assumes "hangs st st2 root p t i page fl"
  shows "page_ptr t" "t \<noteq> page"
proof -
  note h = hangsD [OF assms]
  show "page_ptr t" using pt_wf_table [OF h(1,3,2)] by simp
  show "t \<noteq> page" using h(11) [OF h(3)] h(2) by auto
qed

lemma hangs_read:
  assumes "hangs st st2 root p t i page fl" "page_ptr x" "j < 512"
  shows "read_entry (mem st2) x j = (if t = x \<and> i = j then page OR fl else read_entry (mem st) x j)"
  using assms(2,3) by (simp add: hangsD(10) [OF assms(1)] read_write_entry hangs_ptr(1) [OF assms(1)]
      hangsD(4) [OF assms(1)])

lemma hangs_read_page:
  assumes "hangs st st2 root p t i page fl" "j < 512"
  shows "read_entry (mem st2) page j = 0"
  using assms(2) hangs_ptr(2) [OF assms(1)]
  by (simp add: hangs_read [OF assms(1) hangsD(7) [OF assms(1)]] hangsD(12) [OF assms(1)])

lemma hangs_other:
  assumes "hangs st st2 root p t i page fl" "path_ok q" "take (Suc (length p)) q \<noteq> p @ [i]"
  shows "table_at (mem st2) root q = table_at (mem st) root q"
  using table_at_write_other [OF hangsD(1,2,3,4) [OF assms(1)] assms(2,3)]
  by (simp add: hangsD(10) [OF assms(1)])

lemma hangs_new:
  assumes "hangs st st2 root p t i page fl"
  shows "table_at (mem st2) root (p @ [i]) = Some page"
proof -
  note h = hangsD [OF assms]
  have "table_at (mem st2) root p = Some t"
    using hangs_other [OF assms h(3)] h(2) by simp
  then show ?thesis
    by (simp add: table_at_snoc hangs_read [OF assms hangs_ptr(1) [OF assms] h(4)]
        entry_value [OF h(7,9)] Let_def)
qed

lemma hangs_below:
  assumes "hangs st st2 root p t i page fl" "path_ok (p @ [i] @ q)" "q \<noteq> []"
  shows "table_at (mem st2) root (p @ [i] @ q) = None"
proof -
  obtain j q' where q: "q = j # q'" using assms(3) by (cases q) auto
  have "j < 512" using assms(2) by (simp add: q path_ok_def)
  then have "table_at (mem st2) page q = None"
    by (simp add: q hangs_read_page [OF assms(1)] Let_def)
  moreover have "table_at (mem st2) root ((p @ [i]) @ q) =
      Option.bind (Some page) (\<lambda>t'. table_at (mem st2) t' q)"
    by (subst table_at_append) (simp only: hangs_new [OF assms(1)])
  ultimately show ?thesis by simp
qed

lemma take_eqE:
  assumes "take n q = a"
  obtains r where "q = a @ r"
  using append_take_drop_id [of n q] assms that by metis

lemma hangs_cases:
  assumes "hangs st st2 root p t i page fl" "path_ok q"
  shows "table_at (mem st2) root q =
    (if q = p @ [i] then Some page
     else if take (Suc (length p)) q = p @ [i] then None else table_at (mem st) root q)"
proof -
  consider "q = p @ [i]" | r where "q = p @ [i] @ r" "r \<noteq> []"
    | "take (Suc (length p)) q \<noteq> p @ [i]"
  proof (cases "take (Suc (length p)) q = p @ [i]")
    case True
    then obtain r where "q = (p @ [i]) @ r" by (rule take_eqE)
    then show ?thesis using that(1,2) by (cases "r = []") simp_all
  qed (rule that(3))
  then show ?thesis
  proof cases
    case 1
    then show ?thesis by (simp add: hangs_new [OF assms(1)])
  next
    case 2
    then show ?thesis using hangs_below [OF assms(1)] assms(2) by auto
  next
    case 3
    then show ?thesis using hangs_other [OF assms 3] by auto
  qed
qed

lemma hangs_keep:
  assumes "hangs st st2 root p t i page fl" "path_ok q" "table_at (mem st) root q = Some x"
  shows "table_at (mem st2) root q = Some x"
proof -
  note h = hangsD [OF assms(1)]
  have "take (Suc (length p)) q \<noteq> p @ [i]"
  proof
    assume "take (Suc (length p)) q = p @ [i]"
    then obtain r where q: "q = (p @ [i]) @ r" by (rule take_eqE)
    have "table_at (mem st) root ((p @ [i]) @ r) = None"
      using h(6) by (simp only: table_at_append table_at_snoc) (simp add: h(2) Let_def)
    with q assms(3) show False by simp
  qed
  then show ?thesis using hangs_other [OF assms(1,2)] assms(3) by simp
qed

lemma hangs_table_origin:
  assumes "hangs st st2 root p t i page fl" "path_ok q" "table_at (mem st2) root q = Some x"
  shows "(x = page \<and> q = p @ [i]) \<or> (x \<noteq> page \<and> table_at (mem st) root q = Some x)"
  using assms(3) hangsD(11) [OF assms(1,2)]
  unfolding hangs_cases [OF assms(1,2)] by (auto split: if_splits)

lemma hangs_wf:
  assumes "hangs st st2 root p t i page fl"
  shows "pt_wf st2 root"
  unfolding pt_wf_def
proof (intro conjI allI impI; elim conjE)
  note h = hangsD [OF assms]
  fix q x assume a: "path_ok q" "table_at (mem st2) root q = Some x"
  then have "x = page \<or> table_at (mem st) root q = Some x"
    using hangs_table_origin [OF assms] by blast
  then show "page_ptr x" "frame_used st2 (unat x div 4096)"
    using pt_wf_table [OF h(1) a(1)] h(7,8) by (auto simp: h(13))
next
  note h = hangsD [OF assms]
  fix q q' x
  assume a: "path_ok q" "path_ok q'" "table_at (mem st2) root q = Some x"
    "table_at (mem st2) root q' = Some x"
  show "q = q'"
    using hangs_table_origin [OF assms a(1,3)] hangs_table_origin [OF assms a(2,4)]
      pt_wf_inj [OF h(1) a(1,2)] by blast
next
  note h = hangsD [OF assms]
  fix q x j
  assume a: "path_ok q" "length q \<le> 2" "table_at (mem st2) root q = Some x" "j < 512"
    "present (read_entry (mem st2) x j)"
  from hangs_table_origin [OF assms a(1,3)]
  show "read_entry (mem st2) x j AND VMM_HUGE = 0"
  proof (elim disjE conjE)
    assume "x = page"
    then show ?thesis using a(4) by (simp add: hangs_read_page [OF assms])
  next
    assume x: "table_at (mem st) root q = Some x"
    then have px: "page_ptr x" using pt_wf_table [OF h(1) a(1)] by simp
    show ?thesis
    proof (cases "t = x \<and> i = j")
      case True
      then show ?thesis using entry_value(3) [OF h(7,9)] by (simp add: hangs_read [OF assms px a(4)])
    next
      case False
      then have "read_entry (mem st2) x j = read_entry (mem st) x j"
        by (simp add: hangs_read [OF assms px a(4)] del: de_Morgan_conj)
      then show ?thesis using pt_wf_huge [OF h(1) a(1,2) x a(4)] a(5) by simp
    qed
  qed
qed

lemma hangs_leaf:
  assumes "hangs st st2 root p t i page fl" "path_ok q" "length q = 3" "j < 512"
  shows "leaf (mem st2) root q j = leaf (mem st) root q j"
proof (cases "table_at (mem st) root q")
  case None
  then have "table_at (mem st2) root q = None \<or> table_at (mem st2) root q = Some page"
    by (simp add: hangs_cases [OF assms(1,2)])
  then show ?thesis using None hangs_read_page [OF assms(1,4)] by (auto simp: leaf_def)
next
  case (Some x)
  note h = hangsD [OF assms(1)]
  have "x \<noteq> t" using pt_wf_inj [OF h(1) assms(2) h(3) Some] h(2,5) assms(3) by auto
  moreover have "page_ptr x" using pt_wf_table [OF h(1) assms(2) Some] by simp
  ultimately show ?thesis
    using hangs_keep [OF assms(1,2) Some] Some assms(4)
    by (simp add: leaf_def hangs_read [OF assms(1)])
qed


section \<open>Mapping\<close>

text \<open>
  What a step of the mapping code may change: it keeps both invariants and every leaf
  entry, takes at most \<open>n\<close> frames and gives none back.
\<close>

definition tables :: "'a pmm_state_scheme \<Rightarrow> u64 \<Rightarrow> nat set" where
  \<comment> \<open>the frames of the tables of an address space\<close>
  "tables st root = {unat t div 4096 | p t. path_ok p \<and> table_at (mem st) root p = Some t}"

definition data_kept :: "u64 \<Rightarrow> 'a pmm_state_scheme \<Rightarrow> 'a pmm_state_scheme \<Rightarrow> bool" where
  \<comment> \<open>only tables and frames that were free are written, and new tables come from free frames\<close>
  "data_kept root st st' \<longleftrightarrow>
     (\<forall>x. unat x div 4096 \<notin> free_set st \<union> tables st root \<longrightarrow> mem st' x = mem st x) \<and>
     tables st' root \<subseteq> tables st root \<union> (free_set st - free_set st')"

lemma data_kept_trans:
  assumes "data_kept root st st1" "data_kept root st1 st2" "free_set st1 \<subseteq> free_set st" "free_set st2 \<subseteq> free_set st1"
  shows "data_kept root st st2"
proof -
  have t: "tables st1 root \<subseteq> tables st root \<union> free_set st" using assms(1) by (auto simp: data_kept_def)
  show ?thesis
    unfolding data_kept_def
  proof (intro conjI allI impI)
    fix x :: u64 assume x: "unat x div 4096 \<notin> free_set st \<union> tables st root"
    then have "unat x div 4096 \<notin> free_set st1 \<union> tables st1 root" using t assms(3) by auto
    then show "mem st2 x = mem st x" using x assms(1,2) by (auto simp: data_kept_def)
  next
    show "tables st2 root \<subseteq> tables st root \<union> (free_set st - free_set st2)"
      using assms unfolding data_kept_def by blast
  qed
qed

lemma store64_range:
  assumes "unat a + 8 \<le> 18446744073709551616" "unat x < unat a \<or> unat a + 8 \<le> unat x"
  shows "store64 m a v x = m x"
proof -
  have "unat (x - a) = (if unat a \<le> unat x then unat x - unat a else unat x + 18446744073709551616 - unat a)"
    by (simp add: unat_sub_if' word_le_nat_alt)
  then have "\<not> x - a < 8" using assms by (simp add: word_less_nat_alt split: if_splits)
  then show ?thesis by (simp add: store64_def)
qed

lemma write_entry_other:
  assumes "page_ptr t" "i < 512" "unat x div 4096 \<noteq> unat t div 4096"
  shows "write_entry m t i v x = m x"
proof -
  have u: "unat (t + 8 * i) = unat t + 8 * unat i" by (rule entry_unat [OF assms(1,2)])
  have i: "unat i < 512" using assms(2) by (simp add: word_less_nat_alt)
  obtain a where a: "unat t = 4096 * a" "a < 1048576" using assms(1) by (auto simp: page_ptr_def PMM_MAX_FRAMES_def)
  have "unat x < unat t \<or> unat t + 4096 \<le> unat x"
  proof (rule ccontr)
    assume "\<not> ?thesis"
    then have "unat x div 4096 = a" using a(1) by (intro div_nat_eqI) simp_all
    then show False using assms(3) a(1) by simp
  qed
  then show ?thesis unfolding write_entry_def using u i a by (intro store64_range) auto
qed

lemma fill_page_other:
  assumes "page_ptr t" "unat x div 4096 \<noteq> unat t div 4096"
  shows "fill m t 4096 c x = m x"
proof -
  obtain a where a: "unat t = 4096 * a" "a < 1048576" using assms(1) by (auto simp: page_ptr_def PMM_MAX_FRAMES_def)
  have "\<not> (unat t \<le> unat x \<and> unat x < unat t + 4096)"
  proof
    assume "unat t \<le> unat x \<and> unat x < unat t + 4096"
    then have "unat x div 4096 = a" using a(1) by (intro div_nat_eqI) simp_all
    then show False using assms(2) a(1) by simp
  qed
  then show ?thesis using a by (subst fill_range) auto
qed

definition grown :: "nat \<Rightarrow> u64 \<Rightarrow> 'a pmm_state_scheme \<Rightarrow> 'a pmm_state_scheme \<Rightarrow> bool" where
  "grown n root st st' \<longleftrightarrow>
     pmm_inv st' \<and> pt_wf st' root \<and> free_set st' \<subseteq> free_set st \<and>
     card (free_set st) \<le> card (free_set st') + n \<and> data_kept root st st' \<and>
     (\<forall>q j. path_ok q \<longrightarrow> length q = 3 \<longrightarrow> j < 512 \<longrightarrow>
        leaf (mem st') root q j = leaf (mem st) root q j)"

lemma grown_refl: "pmm_inv st \<Longrightarrow> pt_wf st root \<Longrightarrow> grown n root st st"
  by (simp add: grown_def data_kept_def)

lemma grown_trans: "grown m root st st1 \<Longrightarrow> grown n root st1 st2 \<Longrightarrow> grown (m + n) root st st2"
  using data_kept_trans [of root st st1 st2] unfolding grown_def by auto

lemma frame_used_mem [simp]: "frame_used (st\<lparr>mem := m\<rparr>) f = frame_used st f"
  by (simp add: frame_used_def)

lemma alloc_keeps_tree:
  assumes inv: "pmm_inv st" and wf: "pt_wf st root" and f: "f \<in> free_set st"
  defines "page \<equiv> fst (alloc_result st f)" and "st1 \<equiv> snd (alloc_result st f)"
  shows "pmm_inv st1" "pt_wf st1 root" "page \<noteq> 0" "page_ptr page" "unat page = f * 4096"
    "free_set st1 = free_set st - {f}" "mem st1 = fill (mem st) page 4096 0"
    "frame_used st1 g \<longleftrightarrow> g = f \<or> frame_used st g"
    "path_ok q \<Longrightarrow> table_at (mem st1) root q = table_at (mem st) root q"
    "path_ok q \<Longrightarrow> table_at (mem st) root q = Some x \<Longrightarrow> page_ptr x \<and> x \<noteq> page"
    "path_ok q \<Longrightarrow> j < 512 \<Longrightarrow> leaf (mem st1) root q j = leaf (mem st) root q j"
proof -
  note ptr = alloc_result_ptr [OF inv f]
  show pp: "page_ptr page"
    using ptr f by (auto simp: page_ptr_def page_def free_set_def)
  have unused: "\<not> frame_used st (unat page div 4096)"
    using ptr f by (auto simp: page_def free_set_def)
  show m1: "mem st1 = fill (mem st) page 4096 0" by (simp add: st1_def page_def alloc_result_def)
  show u1: "frame_used st1 g \<longleftrightarrow> g = f \<or> frame_used st g" for g
    by (simp add: st1_def alloc_result_def)
  show ta: "table_at (mem st1) root q = table_at (mem st) root q" if "path_ok q" for q
    using table_at_fill [OF wf pp unused that] by (simp add: m1)
  show "pmm_inv st1" using alloc_result_inv [OF inv f] by (simp add: st1_def)
  show "page \<noteq> 0" "unat page = f * 4096" using ptr by (simp_all add: page_def)
  show "free_set st1 = free_set st - {f}" by (simp add: st1_def alloc_result_def)
  show "pt_wf st1 root" using pt_wf_fill [OF wf pp unused m1] u1 by blast
  show keep: "page_ptr x \<and> x \<noteq> page" if "path_ok q" "table_at (mem st) root q = Some x" for q x
    using pt_wf_table [OF wf that] unused by auto
  show "leaf (mem st1) root q j = leaf (mem st) root q j" if "path_ok q" "j < 512" for q j
    unfolding leaf_def ta [OF that(1)] using keep [OF that(1)] that(2) pp
    by (auto simp: m1 read_entry_fill split: option.split)
qed

lemma get_or_create_absent:
  assumes inv: "pmm_inv st" and wf: "pt_wf st root" and t: "table_at (mem st) root p = Some t"
    and ok: "path_ok (p @ [i])" and ab: "\<not> present (read_entry (mem st) t i)"
    and f: "f \<in> free_set st" and fl: "flags_ok fl"
  defines "page \<equiv> fst (alloc_result st f)" and "st1 \<equiv> snd (alloc_result st f)"
  shows "hangs st1 (st1\<lparr>mem := write_entry (mem st1) t i (page OR fl)\<rparr>) root p t i page fl"
proof -
  note a = alloc_keeps_tree [OF inv wf f, folded page_def st1_def]
  have okp: "path_ok p" "i < 512" using ok by (simp_all add: path_ok_snoc)
  have t': "page_ptr t" "t \<noteq> page" using a(10) [OF okp(1) t] by simp_all
  then have "\<not> present (read_entry (mem st1) t i)"
    using ab a(4) okp(2) by (simp add: a(7) read_entry_fill)
  moreover have "table_at (mem st1) root q \<noteq> Some page" if "path_ok q" for q
    using a(9,10) [OF that] by auto
  moreover have "read_entry (mem st1) page j = 0" if "j < 512" for j
    using that a(4) by (simp add: a(7) read_entry_fill)
  ultimately show ?thesis
    using fl t ok a(2,4,5) a(9) [OF okp(1)] by (simp add: hangs_def a(8))
qed

lemma hangs_data_kept:
  fixes fl :: u64
  assumes inv: "pmm_inv st" and wf: "pt_wf st root" and t: "table_at (mem st) root p = Some t"
    and ok: "path_ok (p @ [i])" and f: "f \<in> free_set st"
  defines "page \<equiv> fst (alloc_result st f)" and "st1 \<equiv> snd (alloc_result st f)"
  defines "st2 \<equiv> st1\<lparr>mem := write_entry (mem st1) t i (page OR fl)\<rparr>"
  assumes h: "hangs st1 st2 root p t i page fl"
  shows "data_kept root st st2"
  unfolding data_kept_def
proof (intro conjI allI impI subsetI)
  note a = alloc_keeps_tree [OF inv wf f, folded page_def st1_def]
  have okp: "path_ok p" "i < 512" using ok by (simp_all add: path_ok_snoc)
  have t': "page_ptr t" using a(10) [OF okp(1) t] by simp
  fix x :: u64 assume "unat x div 4096 \<notin> free_set st \<union> tables st root"
  then have "unat x div 4096 \<noteq> unat t div 4096" "unat x div 4096 \<noteq> unat page div 4096"
    using t okp(1) f a(5) by (auto simp: tables_def)
  then show "mem st2 x = mem st x"
    using t' okp(2) a(4) by (simp add: st2_def a(7) write_entry_other fill_page_other)
next
  note a = alloc_keeps_tree [OF inv wf f, folded page_def st1_def]
  fix g assume "g \<in> tables st2 root"
  then obtain q x where q: "path_ok q" "table_at (mem st2) root q = Some x" "g = unat x div 4096"
    by (auto simp: tables_def)
  have fs: "free_set st2 = free_set st - {f}" by (simp add: st2_def a(6))
  from hangs_table_origin [OF h q(1,2)] show "g \<in> tables st root \<union> (free_set st - free_set st2)"
  proof
    assume "x = page \<and> q = p @ [i]"
    then show ?thesis using q(3) a(5) f fs by simp
  next
    assume "x \<noteq> page \<and> table_at (mem st1) root q = Some x"
    then have "table_at (mem st) root q = Some x" using a(9) [OF q(1)] by simp
    then show ?thesis using q(1,3) by (auto simp: tables_def)
  qed
qed

lemma get_or_create_ok:
  assumes inv: "pmm_inv st" and wf: "pt_wf st root" and t: "table_at (mem st) root p = Some t"
    and ok: "path_ok (p @ [i])" and fl: "flags_ok fl"
    and g: "get_or_create st t i fl = (r, st')"
  shows "grown 1 root st st'" "r = 0 \<Longrightarrow> free_set st = {}"
    "r \<noteq> 0 \<Longrightarrow> table_at (mem st') root (p @ [i]) = Some r"
proof -
  have "grown 1 root st st' \<and> (r = 0 \<longrightarrow> free_set st = {}) \<and>
    (r \<noteq> 0 \<longrightarrow> table_at (mem st') root (p @ [i]) = Some r)"
  proof (cases "present (read_entry (mem st) t i)")
    case True
    then have r: "st' = st" "table_at (mem st) root (p @ [i]) = Some r"
      using g t by (auto simp: get_or_create_def table_at_snoc Let_def)
    then have "r \<noteq> 0" using pt_wf_table [OF wf ok] by (auto simp: page_ptr_def)
    then show ?thesis using r grown_refl [OF inv wf] by simp
  next
    case False
    show ?thesis
    proof (cases st rule: pmm_alloc_cases)
      case oom
      then have "r = 0" "st' = st" using g False by (simp_all add: get_or_create_def)
      then show ?thesis using oom grown_refl [OF inv wf] by simp
    next
      case (frame f)
      note a = alloc_keeps_tree [OF inv wf frame(1)]
      note h = get_or_create_absent [OF inv wf t ok False frame(1) fl]
      let ?page = "fst (alloc_result st f)" and ?st1 = "snd (alloc_result st f)"
      have "pmm_alloc st = (?page, ?st1)" using frame by simp
      then have st': "st' = ?st1\<lparr>mem := write_entry (mem ?st1) t i (?page OR fl)\<rparr>"
        and r: "r = read_entry (mem st') t i AND VMM_PHYS_MASK"
        using g False a(3) by (auto simp: get_or_create_def Let_def split_beta)
      have "i < 512" using ok by (simp add: path_ok_snoc)
      then have "r = ?page"
        using hangs_read [OF h hangs_ptr(1) [OF h], of i] entry_value(1) [OF hangsD(7) [OF h] fl]
        by (simp add: r st')
      moreover have "card (free_set st) \<le> card (free_set st') + 1"
        using frame(1) by (simp add: st' a(6) card.remove del: card_Diff_insert)
      moreover have "data_kept root st st'"
        unfolding st' by (rule hangs_data_kept [OF inv wf t ok frame(1) h])
      ultimately show ?thesis
        using hangs_wf [OF h] hangs_new [OF h] hangs_leaf [OF h] a
        by (auto simp: grown_def st' pmm_inv_def)
    qed
  qed
  then show "grown 1 root st st'" "r = 0 \<Longrightarrow> free_set st = {}"
    "r \<noteq> 0 \<Longrightarrow> table_at (mem st') root (p @ [i]) = Some r" by simp_all
qed

text \<open>The virtual page number and the four indices carry the same information.\<close>

definition virt_page :: "u64 \<Rightarrow> u64" where
  "virt_page v = take_bit 36 (drop_bit 12 v)"

definition vpath :: "u64 \<Rightarrow> u64 list" where
  "vpath v = [PML4_IDX v, PDPT_IDX v, PD_IDX v]"

lemma idx_take_bit:
  "PML4_IDX v = take_bit 9 (drop_bit 39 v)" "PDPT_IDX v = take_bit 9 (drop_bit 30 v)"
  "PD_IDX v = take_bit 9 (drop_bit 21 v)" "PT_IDX v = take_bit 9 (drop_bit 12 v)"
proof -
  have "(0x1FF :: u64) = mask 9" by (simp add: mask_eq_exp_minus_1)
  then show "PML4_IDX v = take_bit 9 (drop_bit 39 v)" "PDPT_IDX v = take_bit 9 (drop_bit 30 v)"
    "PD_IDX v = take_bit 9 (drop_bit 21 v)" "PT_IDX v = take_bit 9 (drop_bit 12 v)"
    by (simp_all add: PML4_IDX_def PDPT_IDX_def PD_IDX_def PT_IDX_def take_bit_eq_mask)
qed

lemma take_bit_9_lt: "take_bit 9 (x :: u64) < 512"
proof -
  have "unat (take_bit 9 x) < 512" by (simp add: take_bit_eq_mod unat_mod)
  then show ?thesis by (simp add: word_less_nat_alt)
qed

lemma idx_lt [simp]: "PML4_IDX v < 512" "PDPT_IDX v < 512" "PD_IDX v < 512" "PT_IDX v < 512"
  by (simp_all add: idx_take_bit take_bit_9_lt)

lemma path_ok_vpath [simp]: "path_ok (vpath v)" "length (vpath v) = 3"
  by (simp_all add: path_ok_def vpath_def)

lemma idx_eq_bits:
  fixes v w :: u64
  assumes "take_bit 9 (drop_bit k v) = take_bit 9 (drop_bit k w)" "k \<le> n" "n < k + 9"
  shows "bit v n = bit w n"
proof -
  have "bit (take_bit 9 (drop_bit k v)) (n - k) = bit (take_bit 9 (drop_bit k w)) (n - k)"
    by (simp only: assms(1))
  moreover have "n - k < 9" using assms(2,3) by linarith
  ultimately show ?thesis using assms(2) by (simp add: bit_take_bit_iff bit_drop_bit_eq)
qed

lemma virt_page_idx: "virt_page v = virt_page w \<longleftrightarrow> vpath v = vpath w \<and> PT_IDX v = PT_IDX w"
proof
  assume e: "virt_page v = virt_page w"
  have b: "bit v n = bit w n" if "12 \<le> n" "n < 48" for n
  proof -
    have "bit (virt_page v) (n - 12) = bit (virt_page w) (n - 12)" by (simp only: e)
    moreover have "n - 12 < 36" using that by linarith
    ultimately show ?thesis
      using that(1) by (simp add: virt_page_def bit_take_bit_iff bit_drop_bit_eq)
  qed
  have "take_bit 9 (drop_bit k v) = take_bit 9 (drop_bit k w)" if "12 \<le> k" "k \<le> 39" for k
    using that by (intro bit_eqI) (auto simp: bit_take_bit_iff bit_drop_bit_eq b)
  then show "vpath v = vpath w \<and> PT_IDX v = PT_IDX w" by (simp add: vpath_def idx_take_bit)
next
  assume e: "vpath v = vpath w \<and> PT_IDX v = PT_IDX w"
  have "bit v (n + 12) = bit w (n + 12)" if n: "n < 36" for n
  proof -
    consider "n < 9" | "9 \<le> n" "n < 18" | "18 \<le> n" "n < 27" | "27 \<le> n" "n < 36"
      using n not_less by blast
    then show ?thesis
      using e idx_eq_bits [of 12 v w "n + 12"] idx_eq_bits [of 21 v w "n + 12"]
        idx_eq_bits [of 30 v w "n + 12"] idx_eq_bits [of 39 v w "n + 12"]
      by cases (simp_all add: vpath_def idx_take_bit)
  qed
  then show "virt_page v = virt_page w"
    by (intro bit_eqI) (auto simp: virt_page_def bit_take_bit_iff bit_drop_bit_eq add.commute)
qed

definition page_entry :: "'a pmm_state_scheme \<Rightarrow> u64 \<Rightarrow> u64 \<Rightarrow> u64" where
  \<comment> \<open>the abstract address space: the leaf entry of the page of \<open>v\<close>, 0 if unmapped\<close>
  "page_entry st root v = leaf (mem st) root (vpath v) (PT_IDX v)"

definition entry_phys :: "u64 \<Rightarrow> u64 \<Rightarrow> u64" where
  "entry_phys e v = (if present e then (e AND VMM_PHYS_MASK) OR (v AND 0xFFF) else 0)"

lemma vmm_translate_entry:
  assumes wf: "pt_wf st root"
  shows "vmm_translate st root v = entry_phys (page_entry st root v) v"
proof -
  define e4 where "e4 = read_entry (mem st) root (PML4_IDX v)"
  define e3 where "e3 = read_entry (mem st) (e4 AND VMM_PHYS_MASK) (PDPT_IDX v)"
  define e2 where "e2 = read_entry (mem st) (e3 AND VMM_PHYS_MASK) (PD_IDX v)"
  have "present e4 \<Longrightarrow> present e3 \<Longrightarrow> e3 AND VMM_HUGE = 0"
    using pt_wf_huge [OF wf, of "[PML4_IDX v]" _ "PDPT_IDX v"]
    by (simp add: e4_def e3_def Let_def path_ok_def)
  moreover have "present e4 \<Longrightarrow> present e3 \<Longrightarrow> present e2 \<Longrightarrow> e2 AND VMM_HUGE = 0"
    using pt_wf_huge [OF wf, of "[PML4_IDX v, PDPT_IDX v]" _ "PD_IDX v"]
    by (simp add: e4_def e3_def e2_def Let_def path_ok_def)
  ultimately show ?thesis
    by (simp add: vmm_translate_def page_entry_def entry_phys_def leaf_def vpath_def Let_def
        flip: e4_def e3_def e2_def)
qed

text \<open>Writing a last-level entry changes that entry and no table.\<close>

lemma write_leaf:
  fixes e :: u64
  assumes wf: "pt_wf st root" and t: "table_at (mem st) root (vpath w) = Some t"
  defines "st' \<equiv> st\<lparr>mem := write_entry (mem st) t (PT_IDX w) e\<rparr>"
  shows "pt_wf st' root"
    "page_entry st' root v = (if virt_page v = virt_page w then e else page_entry st root v)"
    "path_ok q \<Longrightarrow> table_at (mem st') root q = table_at (mem st) root q"
proof -
  show ta: "table_at (mem st') root q = table_at (mem st) root q" if "path_ok q" for q
  proof -
    have "length (take (Suc (length (vpath w))) q) < length (vpath w @ [PT_IDX w])"
      using that by (simp add: path_ok_def)
    then have "take (Suc (length (vpath w))) q \<noteq> vpath w @ [PT_IDX w]" by (metis nat_neq_iff)
    then show ?thesis
      using table_at_write_other [OF wf t _ _ that, of "PT_IDX w"] by (simp add: st'_def)
  qed
  have pt: "page_ptr t" using pt_wf_table [OF wf _ t] by simp
  have rd: "read_entry (mem st') x j =
      (if q = vpath w \<and> j = PT_IDX w then e else read_entry (mem st) x j)"
    if "path_ok q" "table_at (mem st) root q = Some x" "j < 512" for q x j
  proof -
    have "x = t \<longleftrightarrow> q = vpath w" using pt_wf_inj [OF wf that(1) _ that(2)] t that(2) by auto
    then show ?thesis using pt_wf_table [OF wf that(1,2)] pt that(3)
      by (auto simp: st'_def read_write_entry)
  qed
  show "pt_wf st' root"
  proof (rule pt_wf_cong [OF wf ta])
    fix q x j
    assume "path_ok q" "length q \<le> 2" "table_at (mem st) root q = Some x" "j < (512 :: u64)"
    moreover from this have "q \<noteq> vpath w" by auto
    ultimately show "read_entry (mem st') x j = read_entry (mem st) x j" by (simp add: rd)
  qed (simp_all add: st'_def)
  show "page_entry st' root v = (if virt_page v = virt_page w then e else page_entry st root v)"
    using rd [of "vpath v" _ "PT_IDX v"] t
    by (auto simp: page_entry_def leaf_def ta virt_page_idx split: option.split)
qed

text \<open>
  Walking the tables for mapping \<open>virt\<close>: either all three tables exist afterwards, or the
  allocator had fewer than three frames.
\<close>

lemma vmm_map_walk:
  assumes inv: "pmm_inv st" and wf: "pt_wf st root"
  obtains (oom) st' where "vmm_map st root virt phys fl = st'" "grown 3 root st st'"
      "card (free_set st) < 3"
  | (mapped) st3 pt where "grown 3 root st st3" "table_at (mem st3) root (vpath virt) = Some pt"
      "vmm_map st root virt phys fl =
         st3\<lparr>mem := write_entry (mem st3) pt (PT_IDX virt) ((phys AND VMM_PHYS_MASK) OR fl)\<rparr>"
proof -
  let ?mid = "VMM_PRESENT OR VMM_WRITABLE OR (fl AND VMM_USER)"
  have ok: "path_ok ([] @ [PML4_IDX virt])" "path_ok ([PML4_IDX virt] @ [PDPT_IDX virt])"
    "path_ok ([PML4_IDX virt, PDPT_IDX virt] @ [PD_IDX virt])" by (simp_all add: path_ok_def)
  obtain r1 s1 where g1: "get_or_create st root (PML4_IDX virt) ?mid = (r1, s1)" by fastforce
  have t0: "table_at (mem st) root [] = Some root" by simp
  note a1 = get_or_create_ok [OF inv wf t0 ok(1) mid_flags_ok g1]
  then have w1: "pmm_inv s1" "pt_wf s1 root" by (simp_all add: grown_def)
  show thesis
  proof (cases "r1 = 0")
    case True
    then show ?thesis
      using oom [of s1] a1 g1 grown_trans [OF a1(1) grown_refl [OF w1, of 2]]
      by (simp add: vmm_map_def numeral_3_eq_3)
  next
    case r1: False
    obtain r2 s2 where g2: "get_or_create s1 r1 (PDPT_IDX virt) ?mid = (r2, s2)" by fastforce
    have t1: "table_at (mem s1) root [PML4_IDX virt] = Some r1"
      using a1(3) [OF r1] by (simp only: append.simps)
    note a2 = get_or_create_ok [OF w1 t1 ok(2) mid_flags_ok g2]
    then have w2: "pmm_inv s2" "pt_wf s2 root" by (simp_all add: grown_def)
    note gr2 = grown_trans [OF a1(1) a2(1)]
    show ?thesis
    proof (cases "r2 = 0")
      case True
      then have "card (free_set st) < 3" using a1(1) a2(2) by (auto simp: grown_def)
      then show ?thesis
        using oom [of s2] g1 g2 r1 True grown_trans [OF gr2 grown_refl [OF w2, of 1]]
        by (simp add: vmm_map_def numeral_3_eq_3)
    next
      case r2: False
      obtain r3 s3 where g3: "get_or_create s2 r2 (PD_IDX virt) ?mid = (r3, s3)" by fastforce
      have t2: "table_at (mem s2) root [PML4_IDX virt, PDPT_IDX virt] = Some r2"
        using a2(3) [OF r2] by (simp only: append.simps)
      note a3 = get_or_create_ok [OF w2 t2 ok(3) mid_flags_ok g3]
      have gr3: "grown 3 root st s3" using grown_trans [OF gr2 a3(1)] by (simp add: numeral_3_eq_3)
      have "r3 = 0 \<Longrightarrow> card (free_set st) < 3" using gr2 a3(2) by (auto simp: grown_def)
      moreover have "r3 \<noteq> 0 \<Longrightarrow> table_at (mem s3) root (vpath virt) = Some r3"
        using a3(3) by (simp add: vpath_def)
      ultimately show ?thesis
        using oom [of s3] mapped [of s3 r3] g1 g2 g3 r1 r2 gr3
        by (cases "r3 = 0") (simp_all add: vmm_map_def numeral_3_eq_3)
    qed
  qed
qed

lemma grown_page_entry: "grown n root st st' \<Longrightarrow> page_entry st' root v = page_entry st root v"
  by (simp add: grown_def page_entry_def)

text \<open>The effect of \<^verbatim>\<open>vmm_map\<close> on the abstract address space.\<close>

lemma vmm_map_entry:
  fixes virt phys fl :: u64
  assumes "pmm_inv st" "pt_wf st root"
  defines "st' \<equiv> vmm_map st root virt phys fl"
  shows "pmm_inv st' \<and> pt_wf st' root \<and> free_set st' \<subseteq> free_set st \<and>
    card (free_set st) \<le> card (free_set st') + 3 \<and>
    ((\<forall>v. page_entry st' root v = (if virt_page v = virt_page virt
           then (phys AND VMM_PHYS_MASK) OR fl else page_entry st root v)) \<or>
     card (free_set st) < 3 \<and> (\<forall>v. page_entry st' root v = page_entry st root v))"
  using assms(1,2)
proof (cases rule: vmm_map_walk [where virt = virt and phys = phys and fl = fl])
  case (oom s)
  then show ?thesis using grown_page_entry [OF oom(2)] by (simp add: st'_def grown_def)
next
  case (mapped s3 pt)
  have "pt_wf s3 root" using mapped(1) by (simp add: grown_def)
  note w = write_leaf [OF this mapped(2), where e = "(phys AND VMM_PHYS_MASK) OR fl"]
  show ?thesis
    using w(1) mapped(1) unfolding st'_def mapped(3) w(2) grown_page_entry [OF mapped(1)]
    by (simp add: grown_def pmm_inv_def)
qed

lemma vmm_map_data:
  assumes "pmm_inv st" "pt_wf st root"
  shows "data_kept root st (vmm_map st root virt phys fl)"
  using assms
proof (cases rule: vmm_map_walk [where virt = virt and phys = phys and fl = fl])
  case (oom s)
  then show ?thesis by (simp add: grown_def)
next
  case (mapped s3 pt)
  let ?s = "s3\<lparr>mem := write_entry (mem s3) pt (PT_IDX virt) ((phys AND VMM_PHYS_MASK) OR fl)\<rparr>"
  have wf: "pt_wf s3 root" and g: "data_kept root st s3" "free_set s3 \<subseteq> free_set st"
    using mapped(1) by (simp_all add: grown_def)
  have v: "path_ok (vpath virt)" by simp
  have "tables ?s root = tables s3 root"
    unfolding tables_def using write_leaf(3) [OF wf mapped(2)] by (auto; metis)
  moreover have "mem ?s x = mem s3 x" if "unat x div 4096 \<notin> tables s3 root" for x
    using that pt_wf_table [OF wf v mapped(2)] mapped(2) v
    by (simp, intro write_entry_other) (auto simp: tables_def)
  ultimately have "data_kept root s3 ?s" by (simp add: data_kept_def)
  then show ?thesis unfolding mapped(3) using data_kept_trans [OF g(1) _ g(2)] by simp
qed

lemma map_entry_phys:
  assumes "fl AND VMM_PHYS_MASK = 0" "present fl"
  shows "entry_phys ((phys AND VMM_PHYS_MASK) OR fl) v = (phys AND VMM_PHYS_MASK) OR (v AND 0xFFF)"
proof -
  have "((phys AND VMM_PHYS_MASK) OR fl) AND VMM_PHYS_MASK = phys AND VMM_PHYS_MASK"
    using assms(1) by (simp add: bit.conj_disj_distrib2 and.assoc)
  moreover have "present ((phys AND VMM_PHYS_MASK) OR fl)"
    using assms(2) by (simp add: bit.conj_disj_distrib2 or_eq_0_iff)
  ultimately show ?thesis by (simp add: entry_phys_def)
qed

text \<open>
  C8: vmm_map followed by vmm_translate.  On a well-formed tree, mapping a page with present
  flag bits makes every address of that page translate to the given frame plus the page
  offset, unless the allocator had fewer than three free frames; every address of another
  page keeps its translation in either case, as do all addresses when the mapping fails;
  the tree and the allocator stay well formed and at most three frames are taken.
\<close>

theorem vmm_map_correct:
  fixes virt phys flags :: u64
  assumes "pmm_inv st" "pt_wf st pml4" "flags AND VMM_PHYS_MASK = 0" "flags AND VMM_PRESENT \<noteq> 0"
  defines "st' \<equiv> vmm_map st pml4 virt phys flags"
  shows "pmm_inv st' \<and> pt_wf st' pml4 \<and> free_set st' \<subseteq> free_set st \<and>
    card (free_set st) \<le> card (free_set st') + 3 \<and>
    (\<forall>v. virt_page v \<noteq> virt_page virt \<longrightarrow> vmm_translate st' pml4 v = vmm_translate st pml4 v) \<and>
    ((\<forall>v. virt_page v = virt_page virt \<longrightarrow>
        vmm_translate st' pml4 v = (phys AND VMM_PHYS_MASK) OR (v AND 0xFFF)) \<or>
     card (free_set st) < 3 \<and> (\<forall>v. vmm_translate st' pml4 v = vmm_translate st pml4 v))"
proof -
  note e = vmm_map_entry [OF assms(1,2), of virt phys flags, folded st'_def]
  then have wf: "pt_wf st' pml4" by simp
  show ?thesis
    using e unfolding vmm_translate_entry [OF wf] vmm_translate_entry [OF assms(2)]
    by (elim conjE disjE) (simp_all add: map_entry_phys [OF assms(3,4)])
qed

section \<open>Unmapping\<close>

lemma vmm_unmap_walk:
  "vmm_unmap st root v =
     (case table_at (mem st) root (vpath v) of None \<Rightarrow> st
      | Some pt \<Rightarrow> st\<lparr>mem := write_entry (mem st) pt (PT_IDX v) 0\<rparr>)"
  by (simp add: vmm_unmap_def vpath_def Let_def)

lemma vmm_unmap_entry:
  fixes virt :: u64
  assumes "pt_wf st root"
  defines "st' \<equiv> vmm_unmap st root virt"
  shows "pt_wf st' root \<and> page_entry st' root v =
    (if virt_page v = virt_page virt then 0 else page_entry st root v)"
proof (cases "table_at (mem st) root (vpath virt)")
  case None
  then have "st' = st" by (simp add: st'_def vmm_unmap_walk)
  moreover have "virt_page v = virt_page virt \<Longrightarrow> page_entry st root v = 0"
    using None by (simp add: virt_page_idx page_entry_def leaf_def)
  ultimately show ?thesis using assms(1) by simp
next
  case (Some pt)
  then show ?thesis using write_leaf [OF assms(1) Some] by (simp add: st'_def vmm_unmap_walk)
qed

text \<open>
  vmm_unmap makes exactly the addresses of one page untranslatable: they translate to 0
  afterwards, every address of another page keeps its translation, no frame changes hands
  and the tree stays well formed, whether or not the page was mapped.
\<close>

theorem vmm_unmap_correct:
  fixes virt :: u64
  assumes "pt_wf st pml4"
  defines "st' \<equiv> vmm_unmap st pml4 virt"
  shows "pt_wf st' pml4 \<and> free_set st' = free_set st \<and> free_frames st' = free_frames st \<and>
    vmm_translate st' pml4 v =
      (if virt_page v = virt_page virt then 0 else vmm_translate st pml4 v)"
proof -
  note e = vmm_unmap_entry [OF assms(1), of virt v, folded st'_def]
  have "free_set st' = free_set st \<and> free_frames st' = free_frames st"
    by (simp add: st'_def vmm_unmap_walk split: option.split)
  then show ?thesis
    using e by (simp add: vmm_translate_entry assms(1) entry_phys_def)
qed

section \<open>Address spaces\<close>

text \<open>The copy loop of \<^verbatim>\<open>vmm_create_address_space\<close> and what it does to the entries.\<close>

definition copy_upper :: "'a vmm_state_scheme \<Rightarrow> u64 \<Rightarrow> nat list \<Rightarrow> 'a vmm_state_scheme" where
  "copy_upper st page js = foldl (\<lambda>s i. s\<lparr>mem := write_entry (mem s) page (of_nat i)
     (read_entry (mem s) (kernel_pml4 s) (of_nat i))\<rparr>) st js"

lemma of_nat_u64_lt: "n < 2 ^ 64 \<Longrightarrow> of_nat n < (of_nat 512 :: u64) \<longleftrightarrow> n < 512"
  by (simp add: word_less_nat_alt unat_of_nat_u64)

lemma of_nat_eq_idx: "n < 512 \<Longrightarrow> of_nat n = (i :: u64) \<longleftrightarrow> n = unat i"
  by (auto simp: unat_of_nat_u64)

lemma copy_upper_read:
  assumes "page_ptr page" "page_ptr (kernel_pml4 st)" "kernel_pml4 st \<noteq> page"
    "\<forall>i\<in>set js. i < 512" "page_ptr t" "j < 512"
  shows "read_entry (mem (copy_upper st page js)) t j =
    (if t = page \<and> unat j \<in> set js then read_entry (mem st) (kernel_pml4 st) j
     else read_entry (mem st) t j)"
  using assms(2-4)
proof (induction js arbitrary: st)
  case Nil
  then show ?case by (simp add: copy_upper_def)
next
  case (Cons i js)
  define s where "s = st\<lparr>mem := write_entry (mem st) page (of_nat i)
     (read_entry (mem st) (kernel_pml4 st) (of_nat i))\<rparr>"
  have i: "i < 512" "(of_nat i :: u64) < 512"
    using Cons.prems(3) of_nat_u64_lt [of i] by simp_all
  have e: "page = t \<and> of_nat i = j \<longleftrightarrow> t = page \<and> unat j = i"
    using of_nat_eq_idx [OF i(1), of j] by auto
  have rd: "read_entry (mem s) x k = (if page = x \<and> of_nat i = k
      then read_entry (mem st) (kernel_pml4 st) (of_nat i) else read_entry (mem st) x k)"
    if "page_ptr x" "k < 512" for x k
    using that assms(1) i(2) by (simp add: s_def read_write_entry)
  have k: "kernel_pml4 s = kernel_pml4 st" by (simp add: s_def)
  have "copy_upper st page (i # js) = copy_upper s page js" by (simp add: copy_upper_def s_def)
  moreover have "read_entry (mem s) (kernel_pml4 st) j = read_entry (mem st) (kernel_pml4 st) j"
    using rd [OF Cons.prems(1) assms(6)] Cons.prems(2) by simp
  ultimately show ?case
    using Cons.IH [of s] Cons.prems rd [OF assms(5,6)] e by (auto simp: k)
qed

lemma copy_upper_pmm:
  "pmm_bitmap (copy_upper st page js) = pmm_bitmap st"
  "free_frames (copy_upper st page js) = free_frames st"
  "kernel_pml4 (copy_upper st page js) = kernel_pml4 st"
  unfolding copy_upper_def by (induction js arbitrary: st) simp_all

lemma table_at_same:
  assumes wf: "pt_wf st root" and q: "path_ok q"
    and rd: "\<And>t j. page_ptr t \<Longrightarrow> frame_used st (unat t div 4096) \<Longrightarrow> j < 512 \<Longrightarrow>
      read_entry m t j = read_entry (mem st) t j"
  shows "table_at m root q = table_at (mem st) root q"
  using q
proof (induction q rule: rev_induct)
  case (snoc j q)
  then have "path_ok q" "j < 512" by (simp_all add: path_ok_snoc)
  then show ?case
    using snoc.IH rd pt_wf_table [OF wf] by (auto simp: table_at_snoc split: option.split)
qed simp

text \<open>
  A new top-level table whose upper half repeats the kernel's and whose lower half is empty
  forms a well-formed tree that agrees with the kernel's above the split.
\<close>

lemma shared_upper:
  assumes wf: "pt_wf st kern" and page: "page_ptr page" "\<not> frame_used st (unat page div 4096)"
    and u: "\<And>g. frame_used st' g \<longleftrightarrow> g = unat page div 4096 \<or> frame_used st g"
    and r1: "\<And>j. j < 512 \<Longrightarrow> read_entry (mem st') page j =
        (if 256 \<le> unat j then read_entry (mem st) kern j else 0)"
    and r2: "\<And>t j. page_ptr t \<Longrightarrow> t \<noteq> page \<Longrightarrow> j < 512 \<Longrightarrow>
        read_entry (mem st') t j = read_entry (mem st) t j"
  shows "pt_wf st' page" "pt_wf st' kern"
    "page_entry st' page v = (if 256 \<le> unat (PML4_IDX v) then page_entry st kern v else 0)"
    "page_entry st' kern v = page_entry st kern v"
proof -
  have rd: "read_entry (mem st') t j = read_entry (mem st) t j"
    if "page_ptr t" "frame_used st (unat t div 4096)" "j < 512" for t j
    using r2 [OF that(1) _ that(3)] that(2) page(2) by auto
  note ta = table_at_same [OF wf _ rd]
  have top: "page_ptr kern" "frame_used st (unat kern div 4096)"
    using pt_wf_table [OF wf, of "[]"] by (simp_all add: path_ok_def)
  have keep: "page_ptr t \<and> frame_used st (unat t div 4096) \<and> t \<noteq> page"
    if "path_ok q" "table_at (mem st) kern q = Some t" for q t
    using pt_wf_table [OF wf that] page(2) by auto
  show wfk: "pt_wf st' kern" by (rule pt_wf_cong [OF wf ta]) (use keep rd u in auto)
  have new: "table_at (mem st') page (i # q) =
      (if 256 \<le> unat i then table_at (mem st) kern (i # q) else None)" if "path_ok (i # q)" for i q
  proof -
    have "i < 512" using that by (simp add: path_ok_def)
    then show ?thesis
      using ta [OF that] rd [OF top] by (auto simp: r1 Let_def split: if_splits)
  qed
  show "pt_wf st' page"
    unfolding pt_wf_def
  proof (intro conjI allI impI; elim conjE)
    fix q t assume "path_ok q" "table_at (mem st') page q = Some t"
    then show "page_ptr t" "frame_used st' (unat t div 4096)"
      using page(1) u keep [of q t] new by (cases q; auto split: if_splits)+
  next
    fix q q' t
    assume "path_ok q" "path_ok q'" "table_at (mem st') page q = Some t"
      "table_at (mem st') page q' = Some t"
    then show "q = q'"
      using keep [of q t] keep [of q' t] new pt_wf_inj [OF wf, of q q' t]
      by (cases q; cases q'; auto split: if_splits)
  next
    fix q t j
    assume a: "path_ok q" "length q \<le> 2" "table_at (mem st') page q = Some t" "j < 512"
      "present (read_entry (mem st') t j)"
    show "read_entry (mem st') t j AND VMM_HUGE = 0"
    proof (cases q)
      case Nil
      then have t: "t = page" using a(3) by simp
      then have "present (read_entry (mem st) kern j)" "256 \<le> unat j"
        using a(5) r1 [OF a(4)] by (simp_all split: if_splits)
      then show ?thesis
        using pt_wf_huge [OF wf, of "[]" kern j] a(4) t by (simp add: r1 path_ok_def)
    next
      case (Cons i p)
      then have t: "table_at (mem st) kern q = Some t" using a new by (auto split: if_splits)
      then show ?thesis
        using keep [OF a(1) t] r2 [of t j] a(4,5) pt_wf_huge [OF wf a(1,2) t a(4)] by auto
    qed
  qed
  have lf: "leaf (mem st') r (vpath v) (PT_IDX v) = leaf (mem st) kern (vpath v) (PT_IDX v)"
    if "table_at (mem st') r (vpath v) = table_at (mem st) kern (vpath v)" for r
    using that keep [of "vpath v"] rd by (auto simp: leaf_def split: option.split)
  show "page_entry st' kern v = page_entry st kern v"
    using lf ta by (simp add: page_entry_def)
  show "page_entry st' page v = (if 256 \<le> unat (PML4_IDX v) then page_entry st kern v else 0)"
  proof (cases "256 \<le> unat (PML4_IDX v)")
    case True
    then have "table_at (mem st') page (vpath v) = table_at (mem st) kern (vpath v)"
      using new [of "PML4_IDX v" "[PDPT_IDX v, PD_IDX v]"] path_ok_vpath(1) [of v]
      by (simp add: vpath_def del: table_at.simps)
    then show ?thesis using True lf by (simp add: page_entry_def)
  next
    case False
    then show ?thesis
      using new [of "PML4_IDX v" "[PDPT_IDX v, PD_IDX v]"] path_ok_vpath(1) [of v]
      by (simp add: page_entry_def vpath_def leaf_def del: table_at.simps)
  qed
qed

text \<open>
  C9: vmm_create_address_space returns NULL only when no frame is free and then changes
  nothing.  Otherwise it turns one free frame into a top-level table whose lower half is
  unmapped and through which every upper-half address translates as it does through the
  kernel's table; the kernel's own translations are unchanged, and both trees and the
  allocator are well formed afterwards.
\<close>

theorem vmm_create_address_space_correct:
  assumes "pmm_inv st" "pt_wf st (kernel_pml4 st)" "vmm_create_address_space st = (page, st')"
  shows "page = 0 \<and> st' = st \<and> free_set st = {} \<or>
    page \<noteq> 0 \<and> pmm_inv st' \<and> unat page div 4096 \<in> free_set st \<and>
    free_set st' = free_set st - {unat page div 4096} \<and>
    pt_wf st' page \<and> pt_wf st' (kernel_pml4 st) \<and>
    (\<forall>v. vmm_translate st' page v =
       (if PML4_IDX v < 256 then 0 else vmm_translate st (kernel_pml4 st) v)) \<and>
    (\<forall>v. vmm_translate st' (kernel_pml4 st) v = vmm_translate st (kernel_pml4 st) v)"
  supply upt_rec_numeral [simp del]
proof (cases st rule: pmm_alloc_cases)
  case oom
  then show ?thesis using assms(3) by (simp add: vmm_create_address_space_def)
next
  case (frame f)
  note ptr = alloc_result_ptr [OF assms(1) frame(1)]
  let ?st1 = "snd (alloc_result st f)"
  have page: "page = fst (alloc_result st f)" and st': "st' = copy_upper ?st1 page [256..<512]"
    using assms(3) frame(2) ptr(2)
    by (auto simp: vmm_create_address_space_def copy_upper_def split_beta)
  have f: "unat page div 4096 = f" "page \<noteq> 0" using ptr by (simp_all add: page)
  have pp: "page_ptr page" and un: "\<not> frame_used st (unat page div 4096)"
    using ptr frame(1) by (auto simp: page_ptr_def page free_set_def)
  have k: "kernel_pml4 ?st1 = kernel_pml4 st" by (simp add: alloc_result_def frame_set_def)
  have m1: "mem ?st1 = fill (mem st) page 4096 0" by (simp add: page alloc_result_def)
  have used: "frame_used st' g \<longleftrightarrow> g = unat page div 4096 \<or> frame_used st g" for g
    unfolding f st' frame_used_def copy_upper_pmm
    unfolding frame_used_def [symmetric] by (simp add: alloc_result_def)
  have kern: "page_ptr (kernel_pml4 st)" "kernel_pml4 st \<noteq> page"
    using pt_wf_table [OF assms(2), of "[]"] un by (auto simp: path_ok_def)
  have rd: "read_entry (mem st') t j = (if t = page
      then if 256 \<le> unat j then read_entry (mem st) (kernel_pml4 st) j else 0
      else read_entry (mem st) t j)" if "page_ptr t" "j < 512" for t j
  proof -
    have "unat j < 512" using that(2) by (simp add: word_less_nat_alt)
    moreover have "read_entry (mem st') t j =
        (if t = page \<and> unat j \<in> set [256..<512] then read_entry (mem ?st1) (kernel_pml4 st) j
         else read_entry (mem ?st1) t j)"
      unfolding st' k [symmetric] using kern pp that
      by (intro copy_upper_read) (simp_all add: k)
    ultimately show ?thesis
      using kern pp that by (simp add: m1 read_entry_fill)
  qed
  have fs: "free_set st' = free_set st - {unat page div 4096}"
    using used by (auto simp: free_set_def)
  have "free_frames st' = free_frames ?st1" by (simp add: st' copy_upper_pmm)
  then have "pmm_inv st'"
    using alloc_result_inv [OF assms(1) frame(1)] assms(1)
    unfolding pmm_inv_def used fs by (simp add: f alloc_result_def)
  note sh = shared_upper [OF assms(2) pp un, of st', OF used]
  have wf: "pt_wf st' page" "pt_wf st' (kernel_pml4 st)" using sh(1,2) rd pp by simp_all
  have idx: "PML4_IDX v < 256 \<longleftrightarrow> \<not> 256 \<le> unat (PML4_IDX v)" for v
    by (simp add: word_less_nat_alt not_le)
  have "page_entry st' page v =
      (if 256 \<le> unat (PML4_IDX v) then page_entry st (kernel_pml4 st) v else 0)"
    "page_entry st' (kernel_pml4 st) v = page_entry st (kernel_pml4 st) v" for v
    using sh(3,4) rd pp by simp_all
  then show ?thesis
    using f frame(1) fs \<open>pmm_inv st'\<close> wf
    by (simp add: vmm_translate_entry wf assms(2) idx entry_phys_def)
qed

section \<open>A concrete state\<close>

definition vmm_demo :: vmm_state where
  \<comment> \<open>zeroed memory, frames 3 to 6 free, an empty top-level table in frame 1\<close>
  "vmm_demo = (foldl frame_clear
     \<lparr>mem = (\<lambda>_. 0), pmm_bitmap = (\<lambda>_. - 1), total_frames = 4, free_frames = 4, search_hint = 0,
      kernel_pml4 = 4096, cr3 = 4096, msrs = (\<lambda>_. 0)\<rparr> [3, 4, 5, 6])"

lemma read_entry_zero: "read_entry (\<lambda>_. 0) t i = 0"
  by (simp add: read_entry_def load64_zero)

lemma empty_pt_wf:
  assumes "mem st = (\<lambda>_. 0)" "page_ptr root" "frame_used st (unat root div 4096)"
  shows "pt_wf st root"
proof -
  have "table_at (mem st) root p = (if p = [] then Some root else None)" for p
    by (cases p) (simp_all add: assms(1) read_entry_zero Let_def)
  then show ?thesis
    using assms by (auto simp: pt_wf_def read_entry_zero split: if_splits)
qed

lemma vmm_demo [simp]:
  "free_set vmm_demo = {3, 4, 5, 6}" "pmm_inv vmm_demo" "kernel_pml4 vmm_demo = 4096"
  "pt_wf vmm_demo 4096" "vmm_translate vmm_demo 4096 v = 0"
proof -
  have u: "frame_used vmm_demo f \<longleftrightarrow> f \<notin> {3, 4, 5, 6}" for f
    unfolding vmm_demo_def by simp (auto simp: frame_used_bit)
  have m: "mem vmm_demo = (\<lambda>_. 0)" "free_frames vmm_demo = 4"
    by (simp_all add: vmm_demo_def frame_clear_def)
  show fs: "free_set vmm_demo = {3, 4, 5, 6}" by (auto simp: free_set_def u PMM_MAX_FRAMES_def)
  show "pmm_inv vmm_demo" unfolding pmm_inv_def fs by (simp add: u m)
  show "kernel_pml4 vmm_demo = 4096" by (simp add: vmm_demo_def frame_clear_def)
  show "pt_wf vmm_demo 4096"
    by (rule empty_pt_wf) (simp_all add: m u page_ptr_def PMM_MAX_FRAMES_def)
  show "vmm_translate vmm_demo 4096 v = 0"
    by (simp add: vmm_translate_def m read_entry_zero)
qed

theorem vmm_map_correct_witness:
  "pmm_inv vmm_demo \<and> pt_wf vmm_demo 4096 \<and>
   vmm_translate (vmm_map vmm_demo 4096 0x400000 0x9000 VMM_USER_RW) 4096 0x400123 = 0x9123"
proof -
  have "VMM_USER_RW AND VMM_PHYS_MASK = 0" "VMM_USER_RW AND VMM_PRESENT \<noteq> 0"
    by (simp_all add: kdefs)
  moreover have "virt_page 0x400123 = virt_page 0x400000" by (simp add: virt_page_def)
  moreover have "(0x9000 AND VMM_PHYS_MASK) OR (0x400123 AND 0xFFF) = 0x9123"
    by (simp add: kdefs)
  ultimately show ?thesis
    using vmm_map_correct [of vmm_demo 4096 VMM_USER_RW 4194304 36864] by auto
qed

theorem vmm_unmap_correct_witness:
  "pt_wf vmm_demo 4096 \<and> vmm_translate (vmm_unmap vmm_demo 4096 0x400000) 4096 0x400123 = 0"
  using vmm_unmap_correct [of vmm_demo 4096 4194304 4194595] by simp

theorem vmm_create_address_space_correct_witness:
  "pmm_inv vmm_demo \<and> pt_wf vmm_demo (kernel_pml4 vmm_demo) \<and>
   fst (vmm_create_address_space vmm_demo) \<noteq> 0 \<and>
   pt_wf (snd (vmm_create_address_space vmm_demo)) (fst (vmm_create_address_space vmm_demo))"
  using vmm_create_address_space_correct [of vmm_demo "fst (vmm_create_address_space vmm_demo)"
      "snd (vmm_create_address_space vmm_demo)"] by simp

end
