(* ===== verification/Chains.thy ===== *)
theory Chains
  imports Prelude
begin

text \<open>
  Linked structures in a store: NULL-terminated singly and doubly linked lists, and the
  circular doubly linked list of the scheduler, each related to the list of the addresses
  it goes through.  The links are the functions \<open>nx\<close> and \<open>pv\<close> from address to address;
  NULL is the address 0.
\<close>

section \<open>Singly linked lists\<close>

fun chain :: "(u64 \<Rightarrow> u64) \<Rightarrow> u64 \<Rightarrow> u64 list \<Rightarrow> bool" where
  "chain nx a [] \<longleftrightarrow> a = 0"
| "chain nx a (p # ps) \<longleftrightarrow> a = p \<and> p \<noteq> 0 \<and> chain nx (nx p) ps"

lemma chain_0 [simp]: "chain nx 0 ps \<longleftrightarrow> ps = []"
  by (cases ps) auto

lemma chain_append_tail: "chain nx a (ps @ qs) \<Longrightarrow> \<exists>b. chain nx b qs"
  by (induction ps arbitrary: a) auto

lemma chain_unique: "chain nx a ps \<Longrightarrow> chain nx a qs \<Longrightarrow> ps = qs"
  by (induction ps arbitrary: a qs) (case_tac qs; auto)+

lemma chain_distinct: "chain nx a ps \<Longrightarrow> distinct ps"
proof (induction ps arbitrary: a)
  case (Cons p ps)
  have "p \<notin> set ps"
  proof
    assume "p \<in> set ps"
    then obtain us vs where ps: "ps = us @ p # vs" by (auto dest: split_list)
    have "chain nx (nx p) (us @ p # vs)" using Cons.prems ps by simp
    then obtain b where "chain nx b (p # vs)" using chain_append_tail by blast
    then have "chain nx (nx p) vs" by simp
    with Cons.prems have "vs = ps" using chain_unique by auto
    with ps show False by (metis length_Cons length_append not_add_less2 less_Suc_eq)
  qed
  with Cons show ?case by auto
qed simp

lemma chain_upd [simp]: "p \<notin> set ps \<Longrightarrow> chain (nx(p := v)) a ps \<longleftrightarrow> chain nx a ps"
  by (induction ps arbitrary: a) auto

lemma chain_cong: "(\<And>p. p \<in> set ps \<Longrightarrow> nx' p = nx p) \<Longrightarrow> chain nx' a ps \<longleftrightarrow> chain nx a ps"
  by (induction ps arbitrary: a) auto

lemma chain_not_0: "chain nx a ps \<Longrightarrow> 0 \<notin> set ps"
  by (induction ps arbitrary: a) auto

section \<open>Doubly linked lists\<close>

fun dchain :: "(u64 \<Rightarrow> u64) \<Rightarrow> (u64 \<Rightarrow> u64) \<Rightarrow> u64 \<Rightarrow> u64 \<Rightarrow> u64 list \<Rightarrow> bool" where
  \<comment> \<open>\<open>q\<close> is the address before the first element\<close>
  "dchain nx pv q a [] \<longleftrightarrow> a = 0"
| "dchain nx pv q a (p # ps) \<longleftrightarrow> a = p \<and> p \<noteq> 0 \<and> pv p = q \<and> dchain nx pv p (nx p) ps"

lemma dchain_chain: "dchain nx pv q a ps \<Longrightarrow> chain nx a ps"
  by (induction ps arbitrary: q a) auto

lemma dchain_0 [simp]: "dchain nx pv q 0 ps \<longleftrightarrow> ps = []"
  by (cases ps) auto

lemma dchain_hd: "dchain nx pv q a ps \<Longrightarrow> a = (case ps of [] \<Rightarrow> 0 | p # _ \<Rightarrow> p)"
  by (cases ps) auto

lemma dchain_cong:
  "(\<And>p. p \<in> set ps \<Longrightarrow> nx' p = nx p) \<Longrightarrow> (\<And>p. p \<in> set ps \<Longrightarrow> pv' p = pv p) \<Longrightarrow>
     dchain nx' pv' q a ps \<longleftrightarrow> dchain nx pv q a ps"
  by (induction ps arbitrary: q a) auto

text \<open>Putting \<open>h\<close> in front of the list.\<close>

lemma dchain_push:
  assumes "dchain nx pv 0 a ps" "h \<noteq> 0" "h \<notin> set ps"
  shows "dchain (nx(h := a)) (if a \<noteq> 0 then (pv(h := 0))(a := h) else pv(h := 0)) 0 h (h # ps)"
proof (cases ps)
  case Nil
  then show ?thesis using assms by simp
next
  case (Cons p qs)
  then have d: "p \<notin> set qs" "h \<noteq> p" "h \<notin> set qs" "a = p"
    using chain_distinct [OF dchain_chain [OF assms(1)]] assms by auto
  have "dchain (nx(h := p)) ((pv(h := 0))(p := h)) p b qs \<longleftrightarrow> dchain nx pv p b qs" for b
    by (rule dchain_cong) (use d in auto)
  then show ?thesis using Cons assms d by simp
qed

text \<open>Taking \<open>h\<close> out of the list.\<close>

lemma dchain_links:
  assumes "dchain nx pv q a (xs @ h # ys)"
  shows "pv h = (if xs = [] then q else last xs)" "nx h = (if ys = [] then 0 else hd ys)"
    "a = (if xs = [] then h else hd xs)"
  using assms
proof (induction xs arbitrary: q a)
  case Nil
  { case 1 then show ?case by simp }
  { case 2 then show ?case by (cases ys) auto }
  { case 3 then show ?case by simp }
next
  case (Cons x xs)
  { case 1 with Cons.IH(1) [of x "nx x"] show ?case by (cases xs) auto }
  { case 2 with Cons.IH(2) [of x "nx x"] show ?case by auto }
  { case 3 then show ?case by simp }
qed

lemma dchain_skip:
  assumes "dchain nx pv h b ys" "h \<notin> set ys" "distinct ys"
  shows "dchain (nx(h := v)) (if b \<noteq> 0 then (pv(h := w))(b := q) else pv(h := w)) q b ys"
proof (cases ys)
  case Nil
  then show ?thesis using assms by simp
next
  case (Cons p qs)
  then have d: "p \<notin> set qs" "h \<noteq> p" "h \<notin> set qs" "b = p" using assms by auto
  have "dchain (nx(h := v)) ((pv(h := w))(p := q)) p c qs \<longleftrightarrow> dchain nx pv p c qs" for c
    by (rule dchain_cong) (use d in auto)
  then show ?thesis using Cons assms d by simp
qed

lemma dchain_remove_gen:
  assumes "dchain nx pv q a (xs @ h # ys)" "distinct (q # xs @ h # ys)"
  shows "dchain ((if xs \<noteq> [] then nx(last xs := nx h) else nx)(h := 0))
    ((if nx h \<noteq> 0 then pv(nx h := if xs = [] then q else last xs) else pv)(h := 0)) q
    (if xs = [] then nx h else a) (xs @ ys)"
  using assms
proof (induction xs arbitrary: q a)
  case Nil
  then have d: "dchain nx pv h (nx h) ys" "h \<notin> set ys" "distinct ys" by auto
  have "nx h \<noteq> 0 \<Longrightarrow> nx h \<in> set ys" using d(1) by (cases ys) auto
  then have "nx h \<noteq> h" if "nx h \<noteq> 0" using d(2) that by auto
  then have "nx h \<noteq> 0 \<Longrightarrow> (pv(nx h := q))(h := 0) = (pv(h := 0))(nx h := q)"
    by (intro fun_upd_twist) simp
  then show ?case
    using dchain_skip [OF d, of 0 0 q]
    by (cases "nx h = 0") (simp_all only: if_True if_False simp_thms append_Nil)
next
  case (Cons x xs)
  let ?nx = "(if xs \<noteq> [] then nx(last xs := nx h) else nx)(h := 0)"
  let ?nx' = "(nx(last (x # xs) := nx h))(h := 0)"
  let ?pv = "(if nx h \<noteq> 0 then pv(nx h := last (x # xs)) else pv)(h := 0)"
  have "dchain nx pv x (nx x) (xs @ h # ys)" "distinct (x # xs @ h # ys)" using Cons.prems by auto
  from Cons.IH [OF this]
  have ih: "dchain ?nx ?pv x (if xs = [] then nx h else nx x) (xs @ ys)"
    by (simp only: last.simps)
  have xh: "x \<noteq> h" "x \<notin> set xs" "x \<notin> set ys" using Cons.prems(2) by auto
  have "?nx' p = ?nx p" if "p \<in> set (xs @ ys)" for p
    using that xh by (cases "xs = []") auto
  then have "dchain ?nx' ?pv x b (xs @ ys) \<longleftrightarrow> dchain ?nx ?pv x b (xs @ ys)" for b
    by (rule dchain_cong) (assumption, rule refl)
  with ih have 1: "dchain ?nx' ?pv x (if xs = [] then nx h else nx x) (xs @ ys)" by blast
  have "nx h \<noteq> 0 \<Longrightarrow> nx h \<in> set ys"
    using dchain_links(2) [OF Cons.prems(1)] by (metis list.set_sel(1))
  then have "nx h \<noteq> 0 \<Longrightarrow> nx h \<noteq> x" using xh by auto
  then have 2: "?pv x = pv x" using xh(1) by (cases "nx h = 0") auto
  have "xs \<noteq> [] \<Longrightarrow> last xs \<noteq> x" using xh(2) last_in_set [of xs] by auto
  then have 3: "?nx' x = (if xs = [] then nx h else nx x)" using xh(1) by (cases "xs = []") auto
  have "dchain ?nx' ?pv q x (x # xs @ ys)"
    using 1 Cons.prems(1) unfolding append_Cons dchain.simps 2 3 by blast
  moreover have "a = x" using Cons.prems(1) by simp
  ultimately show ?case by (simp only: list.simps(3) not_False_eq_True if_True if_False append_Cons)
qed

lemma dchain_remove:
  assumes "dchain nx pv 0 a (xs @ h # ys)"
  shows "dchain ((if pv h \<noteq> 0 then nx(pv h := nx h) else nx)(h := 0))
    ((if nx h \<noteq> 0 then pv(nx h := pv h) else pv)(h := 0)) 0
    (if pv h \<noteq> 0 then a else nx h) (xs @ ys)"
proof -
  have c: "chain nx a (xs @ h # ys)" using dchain_chain [OF assms] .
  have "distinct (0 # xs @ h # ys)" using chain_distinct [OF c] chain_not_0 [OF c] by simp
  from dchain_remove_gen [OF assms this] show ?thesis
    using dchain_links(1) [OF assms] chain_not_0 [OF c]
    by (cases xs rule: rev_cases) (simp_all split: if_splits)
qed

end
