(* ===== verification/Heap.thy ===== *)
theory Heap
  imports Vmm Chains "HOL-Library.Monad_Syntax"
begin

text \<open>
  The kernel heap, \<^verbatim>\<open>kernel/mm/heap.c\<close>: slab caches for requests up to 2048 bytes and a
  best-fit list of page-granule blocks above that, both grown from the window at
  \<^verbatim>\<open>HEAP_VIRT_BASE\<close>.

  Header structures are kept field by field in stores indexed by their address: the word
  at offset 0, which both header types use for their magic number, in \<open>hmagic\<close>, the other
  fields in \<open>slabs\<close> (with the bitmap that follows the header) and \<open>larges\<close>.  The bytes
  that clients see are the byte memory \<open>vmem\<close>.  A loop that follows a list is a
  \<^theory_text>\<open>partial_function\<close>: \<^const>\<open>None\<close> means that it does not end.
\<close>

section \<open>Constants and data\<close>

definition LARGE_THRESHOLD :: u64 where [kdefs]: "LARGE_THRESHOLD = 2048"
definition HEAP_MAGIC_FREE :: u64 where [kdefs]: "HEAP_MAGIC_FREE = 0xDEADC0DEDEADC0DE"
definition HEAP_MAGIC_ALLOC :: u64 where [kdefs]: "HEAP_MAGIC_ALLOC = 0xA110CA11A110CA11"
definition SLAB_PAGE_MAGIC :: u64 where [kdefs]: "SLAB_PAGE_MAGIC = 0x5AB000005AB00000"
definition LARGE_HDR_SIZE :: u64 where [kdefs]: "LARGE_HDR_SIZE = 32"
definition SLAB_HDR_SIZE :: u64 where [kdefs]: "SLAB_HDR_SIZE = 32"
definition HEAP_VIRT_BASE :: u64 where [kdefs]: "HEAP_VIRT_BASE = 0xFFFFFF8000000000"
definition HEAP_MAX_SIZE :: u64 where [kdefs]: "HEAP_MAX_SIZE = 256 * 1024 * 1024"
definition SLAB_MIN_ORDER :: nat where [kdefs]: "SLAB_MIN_ORDER = 4"
definition SLAB_MAX_ORDER :: nat where [kdefs]: "SLAB_MAX_ORDER = 11"
definition SLAB_CLASSES :: nat where [kdefs]: "SLAB_CLASSES = SLAB_MAX_ORDER - SLAB_MIN_ORDER + 1"

record large_hdr =
  lh_size :: u64
  lh_next :: u64
  lh_prev :: u64

record slab_page =
  sp_order :: u8
  sp_obj_size :: u16
  sp_capacity :: u16
  sp_free_count :: u16
  sp_first_free :: u16
  sp_next :: u64
  sp_bitmap :: "nat \<Rightarrow> u64"

record heap_state = vmm_state +
  vmem :: memory
  hmagic :: "u64 \<Rightarrow> u64"
  slabs :: "u64 \<Rightarrow> slab_page"
  larges :: "u64 \<Rightarrow> large_hdr"
  slab_classes :: "nat \<Rightarrow> u64"
  large_free_list :: u64
  heap_cursor :: u64
  heap_limit :: u64

definition set_slab :: "'a heap_state_scheme \<Rightarrow> u64 \<Rightarrow> (slab_page \<Rightarrow> slab_page) \<Rightarrow> 'a heap_state_scheme" where
  "set_slab st p f = st\<lparr>slabs := (slabs st)(p := f (slabs st p))\<rparr>"

definition set_large :: "'a heap_state_scheme \<Rightarrow> u64 \<Rightarrow> (large_hdr \<Rightarrow> large_hdr) \<Rightarrow> 'a heap_state_scheme" where
  "set_large st h f = st\<lparr>larges := (larges st)(h := f (larges st h))\<rparr>"

definition set_magic :: "'a heap_state_scheme \<Rightarrow> u64 \<Rightarrow> u64 \<Rightarrow> 'a heap_state_scheme" where
  "set_magic st a v = st\<lparr>hmagic := (hmagic st)(a := v)\<rparr>"

lemma set_slab_sel [simp]:
  "slabs (set_slab st p f) = (slabs st)(p := f (slabs st p))" "hmagic (set_slab st p f) = hmagic st"
  "larges (set_slab st p f) = larges st" "slab_classes (set_slab st p f) = slab_classes st"
  "large_free_list (set_slab st p f) = large_free_list st"
  "heap_cursor (set_slab st p f) = heap_cursor st" "vmem (set_slab st p f) = vmem st"
  by (simp_all add: set_slab_def)

lemma set_large_sel [simp]:
  "larges (set_large st p g) = (larges st)(p := g (larges st p))" "hmagic (set_large st p g) = hmagic st"
  "slabs (set_large st p g) = slabs st" "slab_classes (set_large st p g) = slab_classes st"
  "large_free_list (set_large st p g) = large_free_list st"
  "heap_cursor (set_large st p g) = heap_cursor st" "vmem (set_large st p g) = vmem st"
  by (simp_all add: set_large_def)

lemma set_magic_sel [simp]:
  "hmagic (set_magic st p v) = (hmagic st)(p := v)" "slabs (set_magic st p v) = slabs st"
  "larges (set_magic st p v) = larges st" "slab_classes (set_magic st p v) = slab_classes st"
  "large_free_list (set_magic st p v) = large_free_list st"
  "heap_cursor (set_magic st p v) = heap_cursor st" "vmem (set_magic st p v) = vmem st"
  by (simp_all add: set_magic_def)

section \<open>Slab geometry\<close>

definition slab_bitmap_words :: "u16 \<Rightarrow> nat" where
  "slab_bitmap_words cap = (unat cap + 63) div 64"

definition slab_data_off :: "u16 \<Rightarrow> u16 \<Rightarrow> nat" where
  \<comment> \<open>offset of the first object of a page with this capacity and object size\<close>
  "slab_data_off cap obj_size =
     unat (ALIGN_UP (SLAB_HDR_SIZE + of_nat (slab_bitmap_words cap * 8)) (ucast obj_size))"

definition slab_object :: "u64 \<Rightarrow> slab_page \<Rightarrow> nat \<Rightarrow> u64" where
  "slab_object p sp idx =
     p + of_nat (slab_data_off (sp_capacity sp) (sp_obj_size sp)) +
       of_nat (idx * unat (sp_obj_size sp))"

partial_function (option) slab_fit :: "u16 \<Rightarrow> u16 \<Rightarrow> u16 option" where
  \<comment> \<open>shrink the capacity until header, bitmap and objects fit\<close>
  "slab_fit obj_size cap =
     (if slab_data_off cap obj_size + unat cap * unat obj_size \<le> 4096 then Some cap
      else slab_fit obj_size (cap - 1))"

declare slab_fit.simps [code]

section \<open>Growing the heap\<close>

fun heap_map_loop :: "'a heap_state_scheme \<Rightarrow> nat \<Rightarrow> nat \<Rightarrow> bool \<times> 'a heap_state_scheme" where
  \<comment> \<open>map \<open>n\<close> more pages, the next one being page \<open>i\<close> of the new region.  The frame was zeroed by \<^verbatim>\<open>pmm_alloc\<close> and
      shows in virtual memory through the new mapping.  The mapping itself needs frames for tables and fails silently
      without them; the next access then faults, which \<open>vmem\<close> does not show: theory HeapPages states when every page is mapped\<close>
  "heap_map_loop st i 0 = (True, st)"
| "heap_map_loop st i (Suc n) =
     (case pmm_alloc st of (phys, st1) \<Rightarrow>
        if phys = 0 then (False, st1)
        else
          let va = heap_cursor st1 + of_nat i * PAGE_SIZE;
              st2 = vmm_map_kernel st1 va phys (VMM_KERNEL_RW OR VMM_NO_EXEC);
              st3 = st2\<lparr>vmem := fill (vmem st2) va 4096 0\<rparr>
          in heap_map_loop st3 (Suc i) n)"

definition heap_map_pages :: "'a heap_state_scheme \<Rightarrow> u64 \<Rightarrow> u64 \<times> 'a heap_state_scheme" where
  "heap_map_pages st count =
     (let bytes = count * PAGE_SIZE in
      if HEAP_VIRT_BASE + HEAP_MAX_SIZE < heap_cursor st + bytes then (0, st)
      else case heap_map_loop st 0 (unat count) of (ok, st1) \<Rightarrow>
        if \<not> ok then (0, st1)
        else (heap_cursor st1, st1\<lparr>heap_cursor := heap_cursor st1 + bytes,
                                    heap_limit := heap_cursor st1 + bytes\<rparr>))"

section \<open>Slab allocator\<close>

definition slab_new_page :: "'a heap_state_scheme \<Rightarrow> nat \<Rightarrow> (u64 \<times> 'a heap_state_scheme) option" where
  "slab_new_page st order =
     (case heap_map_pages st 1 of (sp, st1) \<Rightarrow>
        if sp = 0 then Some (0, st1)
        else
          let obj_size = of_nat (2 ^ order);
              cap_est = of_nat (unat (PAGE_SIZE - SLAB_HDR_SIZE) div unat obj_size)
          in do {
            cap \<leftarrow> slab_fit obj_size cap_est;
            Some (sp, set_slab (set_magic st1 sp SLAB_PAGE_MAGIC) sp
              (\<lambda>s. s\<lparr>sp_order := of_nat order, sp_obj_size := obj_size, sp_capacity := cap,
                     sp_free_count := cap, sp_first_free := 0, sp_next := 0,
                     sp_bitmap := (\<lambda>w. if w < slab_bitmap_words cap then 0
                                       else sp_bitmap s w)\<rparr>))
          })"

partial_function (option) slab_find :: "'a heap_state_scheme \<Rightarrow> u64 \<Rightarrow> u64 option" where
  \<comment> \<open>the first page of a class list with a free slot, 0 if there is none\<close>
  "slab_find st p =
     (if p \<noteq> 0 \<and> sp_free_count (slabs st p) = 0 then slab_find st (sp_next (slabs st p))
      else Some p)"

declare slab_find.simps [code]

fun slab_scan :: "slab_page \<Rightarrow> nat \<Rightarrow> nat \<Rightarrow> nat list \<Rightarrow> nat option" where
  \<comment> \<open>the slot the bitmap search starting at word \<open>wi\<close> takes\<close>
  "slab_scan sp wi words [] = None"
| "slab_scan sp wi words (w # ws) =
     (let actual_w = (wi + w) mod words; free_mask = NOT (sp_bitmap sp actual_w) in
      if free_mask = 0 then slab_scan sp wi words ws
      else let idx = actual_w * 64 + ctz free_mask in
           if unat (sp_capacity sp) \<le> idx then slab_scan sp wi words ws else Some idx)"

definition slab_take :: "'a heap_state_scheme \<Rightarrow> u64 \<Rightarrow> u64 \<times> 'a heap_state_scheme" where
  \<comment> \<open>the second half of \<^verbatim>\<open>slab_alloc\<close>: take a slot of page \<open>p\<close>\<close>
  "slab_take st p =
     (let sp = slabs st p; words = slab_bitmap_words (sp_capacity sp);
          wi = unat (sp_first_free sp) div 64
      in case slab_scan sp wi words [0..<words] of
           None \<Rightarrow> (0, st)
         | Some idx \<Rightarrow>
             (slab_object p sp idx,
              set_slab st p (\<lambda>s. s\<lparr>
                sp_bitmap := (sp_bitmap s)(idx div 64 := sp_bitmap s (idx div 64) OR push_bit (idx mod 64) 1),
                sp_free_count := sp_free_count s - 1, sp_first_free := of_nat idx\<rparr>)))"

definition slab_alloc :: "'a heap_state_scheme \<Rightarrow> nat \<Rightarrow> (u64 \<times> 'a heap_state_scheme) option" where
  "slab_alloc st order =
     (let cls = order - SLAB_MIN_ORDER in
      do {
        sp \<leftarrow> slab_find st (slab_classes st cls);
        if sp \<noteq> 0 then Some (slab_take st sp)
        else do {
          (sp, st1) \<leftarrow> slab_new_page st order;
          if sp = 0 then Some (0, st1)
          else
            let st2 = set_slab st1 sp (\<lambda>s. s\<lparr>sp_next := slab_classes st1 cls\<rparr>);
                st3 = st2\<lparr>slab_classes := (slab_classes st2)(cls := sp)\<rparr>
            in Some (slab_take st3 sp)
        }
      })"

definition slab_free :: "'a heap_state_scheme \<Rightarrow> u64 \<Rightarrow> bool \<times> 'a heap_state_scheme" where
  "slab_free st ptr =
     (let p = ALIGN_DOWN ptr PAGE_SIZE; sp = slabs st p in
      if hmagic st p \<noteq> SLAB_PAGE_MAGIC then (False, st)
      else
        let objects = p + of_nat (slab_data_off (sp_capacity sp) (sp_obj_size sp)) in
        if ptr < objects then (False, st)
        else let byte_off = ptr - objects in
          if byte_off mod ucast (sp_obj_size sp) \<noteq> 0 then (False, st)
          else let idx = unat (byte_off div ucast (sp_obj_size sp)) mod 2 ^ 16 in
            if unat (sp_capacity sp) \<le> idx then (False, st)
            else if sp_bitmap sp (idx div 64) AND push_bit (idx mod 64) 1 = 0 then (True, st)
            else (True, set_slab st p (\<lambda>s. s\<lparr>
                sp_bitmap := (sp_bitmap s)(idx div 64 := sp_bitmap s (idx div 64) AND NOT (push_bit (idx mod 64) 1)),
                sp_free_count := sp_free_count s + 1,
                sp_first_free := (if of_nat idx < sp_first_free s then of_nat idx
                                  else sp_first_free s)\<rparr>)))"

section \<open>Large allocator\<close>

definition large_insert_free :: "'a heap_state_scheme \<Rightarrow> u64 \<Rightarrow> 'a heap_state_scheme" where
  "large_insert_free st hdr =
     (let st1 = set_magic st hdr HEAP_MAGIC_FREE;
          st2 = set_large st1 hdr (\<lambda>h. h\<lparr>lh_next := large_free_list st1, lh_prev := 0\<rparr>);
          st3 = (if large_free_list st2 \<noteq> 0
                 then set_large st2 (large_free_list st2) (\<lambda>h. h\<lparr>lh_prev := hdr\<rparr>) else st2)
      in st3\<lparr>large_free_list := hdr\<rparr>)"

definition large_remove_free :: "'a heap_state_scheme \<Rightarrow> u64 \<Rightarrow> 'a heap_state_scheme" where
  "large_remove_free st hdr =
     (let prev = lh_prev (larges st hdr);
          st1 = (if prev \<noteq> 0
                 then set_large st prev (\<lambda>h. h\<lparr>lh_next := lh_next (larges st hdr)\<rparr>)
                 else st\<lparr>large_free_list := lh_next (larges st hdr)\<rparr>);
          next = lh_next (larges st1 hdr);
          st2 = (if next \<noteq> 0
                 then set_large st1 next (\<lambda>h. h\<lparr>lh_prev := lh_prev (larges st1 hdr)\<rparr>) else st1)
      in set_large st2 hdr (\<lambda>h. h\<lparr>lh_next := 0, lh_prev := 0\<rparr>))"

partial_function (option) large_best :: "'a heap_state_scheme \<Rightarrow> u64 \<Rightarrow> u64 \<Rightarrow> u64 \<Rightarrow> u64 option" where
  \<comment> \<open>the best-fit search from \<open>h\<close>, the best block so far being \<open>best\<close>\<close>
  "large_best st tot h best =
     (if h = 0 then Some best
      else large_best st tot (lh_next (larges st h))
        (if tot \<le> lh_size (larges st h) \<and>
            (best = 0 \<or> lh_size (larges st h) < lh_size (larges st best)) then h else best))"

declare large_best.simps [code]

definition large_carve :: "'a heap_state_scheme \<Rightarrow> u64 \<Rightarrow> u64 \<Rightarrow> u64 \<times> 'a heap_state_scheme" where
  \<comment> \<open>the second half of \<^verbatim>\<open>large_alloc\<close>: split block \<open>best\<close> and hand it out\<close>
  "large_carve st best tot =
     (let st1 = (if tot + PAGE_SIZE + LARGE_HDR_SIZE \<le> lh_size (larges st best) then
                   let rem = best + tot;
                       s1 = set_large st rem (\<lambda>h. h\<lparr>lh_size := lh_size (larges st best) - tot\<rparr>);
                       s2 = set_large s1 best (\<lambda>h. h\<lparr>lh_size := tot\<rparr>)
                   in large_insert_free s2 rem
                 else st);
          st2 = set_magic st1 best HEAP_MAGIC_ALLOC;
          st3 = set_large st2 best (\<lambda>h. h\<lparr>lh_next := 0, lh_prev := 0\<rparr>)
      in (best + LARGE_HDR_SIZE, st3))"

definition large_alloc :: "'a heap_state_scheme \<Rightarrow> u64 \<Rightarrow> (u64 \<times> 'a heap_state_scheme) option" where
  "large_alloc st sz =
     (let tot = ALIGN_UP (sz + LARGE_HDR_SIZE) PAGE_SIZE in
      do {
        best \<leftarrow> large_best st tot (large_free_list st) 0;
        if best = 0 then
          let pages = tot div PAGE_SIZE in
          (case heap_map_pages st pages of (best, st1) \<Rightarrow>
             if best = 0 then Some (0, st1)
             else
               let st2 = set_large st1 best
                     (\<lambda>h. h\<lparr>lh_size := pages * PAGE_SIZE, lh_next := 0, lh_prev := 0\<rparr>);
                   st3 = set_magic st2 best HEAP_MAGIC_FREE
               in Some (large_carve st3 best tot))
        else Some (large_carve (large_remove_free st best) best tot)
      })"

definition large_free :: "'a heap_state_scheme \<Rightarrow> u64 \<Rightarrow> 'a heap_state_scheme" where
  "large_free st ptr =
     (let hdr = ptr - LARGE_HDR_SIZE in
      if hmagic st hdr = HEAP_MAGIC_FREE then st
      else if hmagic st hdr \<noteq> HEAP_MAGIC_ALLOC then st
      else large_insert_free st hdr)"

section \<open>Public interface\<close>

definition heap_init :: "'a heap_state_scheme \<Rightarrow> 'a heap_state_scheme" where
  "heap_init st =
     (let st1 = st\<lparr>heap_cursor := HEAP_VIRT_BASE, heap_limit := HEAP_VIRT_BASE,
                   large_free_list := 0,
                   slab_classes := (\<lambda>i. if i < SLAB_CLASSES then 0 else slab_classes st i)\<rparr>;
          st2 = snd (heap_map_pages st1 4);
          init = HEAP_VIRT_BASE;
          st3 = set_large st2 init (\<lambda>h. h\<lparr>lh_size := 4 * PAGE_SIZE, lh_next := 0, lh_prev := 0\<rparr>);
          st4 = set_magic st3 init HEAP_MAGIC_FREE
      in st4\<lparr>large_free_list := init\<rparr>)"

function kmalloc_order :: "nat \<Rightarrow> u64 \<Rightarrow> nat" where
  "kmalloc_order order sz =
     (if 2 ^ order < unat sz \<and> order \<le> SLAB_MAX_ORDER then kmalloc_order (Suc order) sz else order)"
  by pat_completeness auto

termination kmalloc_order
  by (relation "measure (\<lambda>(order, sz). Suc SLAB_MAX_ORDER - order)") auto

declare kmalloc_order.simps [simp del]

definition kmalloc :: "'a heap_state_scheme \<Rightarrow> u64 \<Rightarrow> (u64 \<times> 'a heap_state_scheme) option" where
  "kmalloc st sz =
     (if sz = 0 then Some (0, st)
      else if sz \<le> LARGE_THRESHOLD \<and> kmalloc_order SLAB_MIN_ORDER sz \<le> SLAB_MAX_ORDER
           then slab_alloc st (kmalloc_order SLAB_MIN_ORDER sz)
      else large_alloc st sz)"

definition kzalloc :: "'a heap_state_scheme \<Rightarrow> u64 \<Rightarrow> (u64 \<times> 'a heap_state_scheme) option" where
  "kzalloc st sz = do {
     (p, st1) \<leftarrow> kmalloc st sz;
     Some (p, if p \<noteq> 0 then st1\<lparr>vmem := memset (vmem st1) p 0 (unat sz)\<rparr> else st1)
   }"

definition kfree :: "'a heap_state_scheme \<Rightarrow> u64 \<Rightarrow> 'a heap_state_scheme" where
  "kfree st ptr =
     (if ptr = 0 then st
      else case slab_free st ptr of (done_, st1) \<Rightarrow> if done_ then st1 else large_free st1 ptr)"

definition krealloc :: "'a heap_state_scheme \<Rightarrow> u64 \<Rightarrow> u64 \<Rightarrow> (u64 \<times> 'a heap_state_scheme) option" where
  "krealloc st ptr new_size =
     (if ptr = 0 then kmalloc st new_size
      else if new_size = 0 then Some (0, kfree st ptr)
      else
        let sp = ALIGN_DOWN ptr PAGE_SIZE;
            old_size = (if hmagic st sp = SLAB_PAGE_MAGIC then ucast (sp_obj_size (slabs st sp))
                        else lh_size (larges st (ptr - LARGE_HDR_SIZE)) - LARGE_HDR_SIZE)
        in if new_size \<le> old_size then Some (ptr, st)
           else do {
             (new_ptr, st1) \<leftarrow> kmalloc st new_size;
             if new_ptr = 0 then Some (0, st1)
             else
               let st2 = st1\<lparr>vmem := memcpy (vmem st1) new_ptr ptr (unat old_size)\<rparr>
               in Some (new_ptr, kfree st2 ptr)
           })"

end
