(* ===== verification/HeapInv.thy ===== *)
theory HeapInv
  imports Heap
begin

text \<open>
  The invariant of the kernel heap: which parts of the state growing the heap leaves alone,
  the geometry of slab pages, the blocks below the cursor with their two kinds of lists, and
  that allocation and release keep the invariant and change the set of live blocks as they
  should.
\<close>

section \<open>What growing the heap leaves alone\<close>

lemma heap_fields_more:
  assumes "pmm_state.more s = pmm_state.more t"
  shows "kernel_pml4 s = kernel_pml4 t" "vmem s = vmem t" "hmagic s = hmagic t"
    "slabs s = slabs t" "larges s = larges t" "slab_classes s = slab_classes t"
    "large_free_list s = large_free_list t" "heap_cursor s = heap_cursor t"
    "heap_limit s = heap_limit t"
  using assms by (cases s; cases t; simp)+

text \<open>The part of the heap state that only the allocator proper writes.\<close>

definition same_heap :: "'a heap_state_scheme \<Rightarrow> 'b heap_state_scheme \<Rightarrow> bool" where
  "same_heap s t \<longleftrightarrow> hmagic s = hmagic t \<and> slabs s = slabs t \<and> larges s = larges t \<and>
     slab_classes s = slab_classes t \<and> large_free_list s = large_free_list t"

definition heap_pages :: "nat \<Rightarrow> nat \<Rightarrow> u64 set" where
  "heap_pages a b = {v. a \<le> unat v \<and> unat v < b}"

lemma heap_map_loop_frame:
  assumes "heap_map_loop st i n = (ok, st')"
    "unat (heap_cursor st) + (i + n) * 4096 < 18446744073709551616"
  shows "same_heap st' st \<and> heap_cursor st' = heap_cursor st \<and> kernel_pml4 st' = kernel_pml4 st \<and>
    (\<forall>v. unat v < unat (heap_cursor st) + i * 4096 \<or>
         unat (heap_cursor st) + (i + n) * 4096 \<le> unat v \<longrightarrow> vmem st' v = vmem st v) \<and>
    (ok \<longrightarrow> (\<forall>v. unat (heap_cursor st) + i * 4096 \<le> unat v \<and>
         unat v < unat (heap_cursor st) + (i + n) * 4096 \<longrightarrow> vmem st' v = 0))"
  using assms
proof (induction n arbitrary: i st)
  case 0
  then show ?case by (auto simp: same_heap_def)
next
  case (Suc n)
  obtain phys st1 where al: "pmm_alloc st = (phys, st1)" by fastforce
  have m1: "pmm_state.more st1 = pmm_state.more st" using pmm_alloc_more [of st] al by simp
  note f1 = heap_fields_more [OF m1]
  show ?case
  proof (cases "phys = 0")
    case True
    then show ?thesis using Suc.prems(1) al f1 by (auto simp: same_heap_def)
  next
    case False
    define va where "va = heap_cursor st + of_nat i * PAGE_SIZE"
    define st2 where "st2 = vmm_map_kernel st1 va phys (VMM_KERNEL_RW OR VMM_NO_EXEC)"
    define st3 where "st3 = st2\<lparr>vmem := fill (vmem st2) va 4096 0\<rparr>"
    have "pmm_state.more st2 = pmm_state.more st"
      using m1 by (simp add: st2_def vmm_map_kernel_def vmm_map_more)
    note f2 = heap_fields_more [OF this]
    have 3: "heap_map_loop st3 (Suc i) n = (ok, st')"
      using Suc.prems(1) al False f1 by (simp add: st3_def st2_def va_def Let_def)
    have c3: "heap_cursor st3 = heap_cursor st" by (simp add: st3_def f2)
    have va: "unat va = unat (heap_cursor st) + i * 4096"
      using Suc.prems(2) unat_add_of_nat [of "heap_cursor st" "i * 4096"]
      by (simp add: va_def PAGE_SIZE_def)
    then have z3: "vmem st3 v = 0"
      if "unat (heap_cursor st) + i * 4096 \<le> unat v"
        "unat v < unat (heap_cursor st) + Suc i * 4096" for v
      using that Suc.prems(2) fill_range [of va 4096 "vmem st2" 0 v] by (auto simp: st3_def f2)
    have v3: "vmem st3 v = vmem st v"
      if "unat v < unat (heap_cursor st) + i * 4096 \<or>
        unat (heap_cursor st) + (i + Suc n) * 4096 \<le> unat v" for v
      using that va Suc.prems(2) fill_range [of va 4096 "vmem st2" 0 v]
      by (auto simp: st3_def f2)
    have bound: "unat (heap_cursor st3) + (Suc i + n) * 4096 < 18446744073709551616"
      using Suc.prems(2) by (simp add: c3)
    note ih = Suc.IH [OF 3 bound, unfolded c3]
    have "vmem st' v = 0" if "ok" "unat (heap_cursor st) + i * 4096 \<le> unat v"
      "unat v < unat (heap_cursor st) + (i + Suc n) * 4096" for v
    proof (cases "unat v < unat (heap_cursor st) + Suc i * 4096")
      case True
      then have "vmem st' v = vmem st3 v" using ih by blast
      then show ?thesis using z3 [OF that(2) True] by simp
    next
      case False
      then show ?thesis using ih that by auto
    qed
    moreover have "vmem st' v = vmem st v" if "unat v < unat (heap_cursor st) + i * 4096 \<or>
        unat (heap_cursor st) + (i + Suc n) * 4096 \<le> unat v" for v
    proof -
      have "unat v < unat (heap_cursor st) + Suc i * 4096 \<or>
          unat (heap_cursor st) + (Suc i + n) * 4096 \<le> unat v" using that by auto
      then have "vmem st' v = vmem st3 v" using ih by blast
      then show ?thesis using v3 [OF that] by simp
    qed
    moreover have "same_heap st3 st \<and> kernel_pml4 st3 = kernel_pml4 st"
      by (simp add: same_heap_def st3_def f2)
    ultimately show ?thesis using ih by (auto simp: same_heap_def)
  qed
qed

abbreviation heap_lo :: nat where "heap_lo \<equiv> 18446743523953737728"
abbreviation heap_hi :: nat where "heap_hi \<equiv> 18446743524222173184"

lemma heap_bounds: "unat HEAP_VIRT_BASE = heap_lo" "unat (HEAP_VIRT_BASE + HEAP_MAX_SIZE) = heap_hi"
  by (simp_all add: kdefs)

definition cursor_ok :: "'a heap_state_scheme \<Rightarrow> bool" where
  "cursor_ok st \<longleftrightarrow> heap_lo \<le> unat (heap_cursor st) \<and> unat (heap_cursor st) \<le> heap_hi \<and>
     4096 dvd unat (heap_cursor st)"

lemma heap_map_pages_cases:
  assumes "heap_map_pages st count = (p, st')" "cursor_ok st" "unat count < 100000000"
  shows "same_heap st' st" "kernel_pml4 st' = kernel_pml4 st" "cursor_ok st'"
    "unat v < unat (heap_cursor st) \<Longrightarrow> vmem st' v = vmem st v"
    "p = 0 \<Longrightarrow> heap_cursor st' = heap_cursor st"
    "p \<noteq> 0 \<Longrightarrow> p = heap_cursor st \<and>
       unat (heap_cursor st') = unat (heap_cursor st) + unat count * 4096"
    "p \<noteq> 0 \<Longrightarrow> unat (heap_cursor st) \<le> unat v \<Longrightarrow> unat v < unat (heap_cursor st') \<Longrightarrow> vmem st' v = 0"
proof -
  have b: "unat (heap_cursor st + count * PAGE_SIZE) = unat (heap_cursor st) + unat count * 4096"
    using assms(2,3) by (simp add: cursor_ok_def kdefs unat_word_ariths)
  have nz: "heap_cursor st \<noteq> 0" using assms(2) by (auto simp: cursor_ok_def)
  let ?guard = "HEAP_VIRT_BASE + HEAP_MAX_SIZE < heap_cursor st + count * PAGE_SIZE"
  obtain ok s where l: "heap_map_loop st 0 (unat count) = (ok, s)" by fastforce
  have "unat (heap_cursor st) + (0 + unat count) * 4096 < 18446744073709551616"
    using assms(2,3) by (simp add: cursor_ok_def)
  note f = heap_map_loop_frame [OF l this]
  have f1: "same_heap s st" "heap_cursor s = heap_cursor st" "kernel_pml4 s = kernel_pml4 st"
    and f2: "\<And>v. unat v < unat (heap_cursor st) \<Longrightarrow> vmem s v = vmem st v"
    and f3: "\<And>v. ok \<Longrightarrow> unat (heap_cursor st) \<le> unat v \<Longrightarrow>
      unat v < unat (heap_cursor st) + unat count * 4096 \<Longrightarrow> vmem s v = 0"
    using f by simp_all
  have dv: "4096 dvd unat (heap_cursor st) + unat count * 4096"
    using assms(2) by (intro dvd_add) (simp_all add: cursor_ok_def)
  have g: "\<not> ?guard \<longleftrightarrow> unat (heap_cursor st) + unat count * 4096 \<le> heap_hi"
    by (simp only: word_less_nat_alt b heap_bounds not_less)
  let ?s' = "s\<lparr>heap_cursor := heap_cursor s + count * PAGE_SIZE,
                heap_limit := heap_cursor s + count * PAGE_SIZE\<rparr>"
  consider (1) "p = 0" "st' = st" | (2) "p = 0" "st' = s"
    | (3) "ok" "p = heap_cursor st" "st' = ?s'"
      "unat (heap_cursor st') = unat (heap_cursor st) + unat count * 4096"
      "unat (heap_cursor st) + unat count * 4096 \<le> heap_hi"
  proof (cases "?guard \<or> \<not> ok")
    case True
    then show ?thesis
      using that(1,2) assms(1) l by (auto simp: heap_map_pages_def Let_def split: if_splits)
  next
    case False
    then have "p = heap_cursor s" "st' = ?s'"
      using assms(1) l by (auto simp: heap_map_pages_def Let_def)
    then show ?thesis using that(3) False g b f1(2) by simp
  qed
  note cs = this
  show "same_heap st' st" using cs f1 by cases (simp_all add: same_heap_def)
  show "kernel_pml4 st' = kernel_pml4 st" using cs f1 by cases simp_all
  show "cursor_ok st'"
    using cs
  proof cases
    case 3
    then show ?thesis using dv assms(2) by (simp add: cursor_ok_def)
  qed (use f1 assms(2) in \<open>simp_all add: cursor_ok_def\<close>)
  show "unat v < unat (heap_cursor st) \<Longrightarrow> vmem st' v = vmem st v"
    using cs f2 by cases simp_all
  show "p = 0 \<Longrightarrow> heap_cursor st' = heap_cursor st"
    using cs f1 nz by cases simp_all
  show "p \<noteq> 0 \<Longrightarrow> p = heap_cursor st \<and>
      unat (heap_cursor st') = unat (heap_cursor st) + unat count * 4096"
    using cs by cases simp_all
  show "p \<noteq> 0 \<Longrightarrow> unat (heap_cursor st) \<le> unat v \<Longrightarrow> unat v < unat (heap_cursor st') \<Longrightarrow> vmem st' v = 0"
  proof -
    assume a: "p \<noteq> 0" "unat (heap_cursor st) \<le> unat v" "unat v < unat (heap_cursor st')"
    from cs show "vmem st' v = 0"
    proof cases
      case 3
      then show ?thesis using f3 [of v] a by simp
    qed (use a in simp_all)
  qed
qed

section \<open>Slab pages\<close>

definition slab_cap :: "nat \<Rightarrow> u16" where
  \<comment> \<open>the capacities of the eight classes\<close>
  "slab_cap k = [252, 126, 63, 31, 15, 7, 3, 1] ! (k - 4)"

definition slab_shape :: "slab_page \<Rightarrow> nat \<Rightarrow> bool" where
  "slab_shape sp k \<longleftrightarrow> 4 \<le> k \<and> k \<le> 11 \<and> sp_order sp = of_nat k \<and>
     sp_obj_size sp = of_nat (2 ^ k) \<and> sp_capacity sp = slab_cap k"

lemma order_cases:
  assumes "4 \<le> k" "k \<le> (11 :: nat)"
  obtains "k = 4" | "k = 5" | "k = 6" | "k = 7" | "k = 8" | "k = 9" | "k = 10" | "k = 11"
  using assms by (metis (full_types) Suc_leI eval_nat_numeral(2,3) le_antisym not_less semiring_norm(26,27,28))

lemmas slab_geometry = slab_fit.simps slab_data_off_def slab_bitmap_words_def ALIGN_UP_def kdefs
  slab_cap_def

lemma slab_fit_cap:
  assumes "4 \<le> k" "k \<le> 11"
  shows "slab_fit (of_nat (2 ^ k)) (of_nat (unat (PAGE_SIZE - SLAB_HDR_SIZE) div 2 ^ k)) =
    Some (slab_cap k)"
  using assms by (cases k rule: order_cases) (simp_all add: slab_geometry)

lemma slab_data_off_cap:
  assumes "4 \<le> k" "k \<le> 11"
  shows "slab_data_off (slab_cap k) (of_nat (2 ^ k)) + unat (slab_cap k) * 2 ^ k = 4096"
    "2 ^ k dvd slab_data_off (slab_cap k) (of_nat (2 ^ k))"
    "40 \<le> slab_data_off (slab_cap k) (of_nat (2 ^ k))"
    "0 < unat (slab_cap k)" "unat (slab_cap k) \<le> 252" "16 dvd (2 :: nat) ^ k"
    "unat (of_nat (2 ^ k) :: u16) = 2 ^ k"
  using assms by (cases k rule: order_cases; simp add: slab_geometry)+

definition slab_used :: "slab_page \<Rightarrow> nat \<Rightarrow> bool" where
  "slab_used sp i \<longleftrightarrow> bit (sp_bitmap sp (i div 64)) (i mod 64)"

definition slab_slots :: "slab_page \<Rightarrow> nat set" where
  \<comment> \<open>the free slots\<close>
  "slab_slots sp = {i. i < unat (sp_capacity sp) \<and> \<not> slab_used sp i}"

definition slab_ok :: "slab_page \<Rightarrow> nat \<Rightarrow> bool" where
  "slab_ok sp k \<longleftrightarrow> slab_shape sp k \<and> unat (sp_free_count sp) = card (slab_slots sp)"

lemma finite_slab_slots [simp]: "finite (slab_slots sp)"
  by (simp add: slab_slots_def)

lemma slab_scan_cases:
  "slab_scan sp wi words ws = None \<and>
     (\<forall>w \<in> set ws. \<forall>i \<in> slab_slots sp. i div 64 \<noteq> (wi + w) mod words) \<or>
   (\<exists>i \<in> slab_slots sp. slab_scan sp wi words ws = Some i)"
proof (induction ws)
  case (Cons w ws)
  define a where "a = (wi + w) mod words"
  define m where "m = NOT (sp_bitmap sp a)"
  have none: "m = 0 \<or> unat (sp_capacity sp) \<le> a * 64 + ctz m \<Longrightarrow>
      \<forall>i \<in> slab_slots sp. i div 64 \<noteq> a"
  proof (intro ballI notI)
    fix i assume *: "m = 0 \<or> unat (sp_capacity sp) \<le> a * 64 + ctz m" "i \<in> slab_slots sp" "i div 64 = a"
    then have b: "bit m (i mod 64)" by (simp add: m_def slab_slots_def slab_used_def bit_not_iff)
    then have "m \<noteq> 0" by auto
    moreover have "i = a * 64 + i mod 64" using *(3) by (metis div_mult_mod_eq)
    moreover have "ctz m \<le> i mod 64" using ctz_least [OF b] .
    ultimately show False using *(1,2) by (simp add: slab_slots_def)
  qed
  show ?case
  proof (cases "m = 0 \<or> unat (sp_capacity sp) \<le> a * 64 + ctz m")
    case True
    then have "slab_scan sp wi words (w # ws) = slab_scan sp wi words ws"
      by (auto simp: Let_def simp flip: a_def m_def)
    then show ?thesis using Cons none [OF True] by (auto simp flip: a_def)
  next
    case False
    then have "slab_scan sp wi words (w # ws) = Some (a * 64 + ctz m)"
      by (simp add: Let_def flip: a_def m_def)
    moreover have "ctz m < 64" "bit m (ctz m)" using ctz_bit [of m] False by auto
    then have "a * 64 + ctz m \<in> slab_slots sp"
      using False by (simp add: slab_slots_def slab_used_def m_def bit_not_iff)
    ultimately show ?thesis by blast
  qed
qed simp

lemma slab_scan_total:
  assumes "slab_slots sp \<noteq> {}"
  shows "\<exists>i \<in> slab_slots sp. slab_scan sp wi (slab_bitmap_words (sp_capacity sp))
    [0..<slab_bitmap_words (sp_capacity sp)] = Some i"
proof -
  let ?n = "slab_bitmap_words (sp_capacity sp)"
  obtain i where i: "i \<in> slab_slots sp" using assms by auto
  then have "i div 64 < ?n" by (auto simp: slab_slots_def slab_bitmap_words_def)
  then obtain w where "w < ?n" "(wi + w) mod ?n = i div 64" by (rule mod_offset)
  then have "w \<in> set [0..<?n]" "i div 64 = (wi + w) mod ?n" by simp_all
  then show ?thesis using slab_scan_cases [of sp wi ?n "[0..<?n]"] i by blast
qed

definition slab_mark :: "nat \<Rightarrow> slab_page \<Rightarrow> slab_page" where
  "slab_mark i s = s\<lparr>sp_bitmap := (sp_bitmap s)(i div 64 := sp_bitmap s (i div 64) OR push_bit (i mod 64) 1),
     sp_free_count := sp_free_count s - 1, sp_first_free := of_nat i\<rparr>"

lemma slab_used_mark: "slab_used (slab_mark i s) j \<longleftrightarrow> j = i \<or> slab_used s j"
  using frame_eq_divmod [of i j] by (auto simp: slab_used_def slab_mark_def bit_simps)

lemma slab_mark_ok:
  assumes "slab_ok sp k" "i \<in> slab_slots sp"
  shows "slab_ok (slab_mark i sp) k" "slab_slots (slab_mark i sp) = slab_slots sp - {i}"
proof -
  show e: "slab_slots (slab_mark i sp) = slab_slots sp - {i}"
    by (auto simp: slab_slots_def slab_used_mark) (auto simp: slab_mark_def)
  have "0 < card (slab_slots sp)" using assms(2) by (auto simp: card_gt_0_iff)
  then have "sp_free_count sp \<noteq> 0" using assms(1) by (auto simp: slab_ok_def)
  then have "unat (sp_free_count sp - 1) = unat (sp_free_count sp) - 1"
    by (simp add: unat_minus_one)
  then show "slab_ok (slab_mark i sp) k"
    using assms by (simp add: slab_ok_def e slab_shape_def) (simp add: slab_mark_def)
qed

lemma slab_take_ok:
  assumes "slab_ok (slabs st p) k" "sp_free_count (slabs st p) \<noteq> 0"
  obtains i where "i \<in> slab_slots (slabs st p)"
    "slab_take st p = (slab_object p (slabs st p) i, set_slab st p (slab_mark i))"
proof -
  have "slab_slots (slabs st p) \<noteq> {}"
  proof
    assume "slab_slots (slabs st p) = {}"
    then have "unat (sp_free_count (slabs st p)) = 0" using assms(1) by (simp add: slab_ok_def)
    then show False using assms(2) by (simp add: unat_eq_0)
  qed
  from slab_scan_total [OF this, of "unat (sp_first_free (slabs st p)) div 64"]
  show thesis using that by (auto simp: slab_take_def Let_def slab_mark_def [abs_def])
qed

section \<open>The heap invariant\<close>

text \<open>
  The heap is a set \<open>B\<close> of blocks with pairwise disjoint spans below the cursor.  A block is
  a slab page or a large block, by the magic word at its base.  The slab pages of a class are
  linked from \<^verbatim>\<open>slab_classes\<close>, the free large blocks (but those in \<open>X\<close>, which an operation
  has taken off for the moment) from \<^verbatim>\<open>large_free_list\<close>.
\<close>

definition hlen :: "'a heap_state_scheme \<Rightarrow> u64 \<Rightarrow> nat" where
  "hlen st a = (if hmagic st a = SLAB_PAGE_MAGIC then 4096 else unat (lh_size (larges st a)))"

definition block_ok :: "'a heap_state_scheme \<Rightarrow> u64 \<Rightarrow> bool" where
  "block_ok st a \<longleftrightarrow> heap_lo \<le> unat a \<and> 4096 dvd unat a \<and> 4096 dvd hlen st a \<and> 4096 \<le> hlen st a \<and>
     unat a + hlen st a \<le> unat (heap_cursor st) \<and>
     hmagic st a \<in> {SLAB_PAGE_MAGIC, HEAP_MAGIC_ALLOC, HEAP_MAGIC_FREE} \<and>
     (hmagic st a = SLAB_PAGE_MAGIC \<longrightarrow> (\<exists>k. slab_ok (slabs st a) k))"

definition apart :: "u64 \<times> nat \<Rightarrow> u64 \<times> nat \<Rightarrow> bool" where
  "apart = (\<lambda>(a, n) (b, m). unat a + n \<le> unat b \<or> unat b + m \<le> unat a)"

definition classes_ok :: "'a heap_state_scheme \<Rightarrow> u64 set \<Rightarrow> bool" where
  "classes_ok st B \<longleftrightarrow> (\<forall>k. 4 \<le> k \<and> k \<le> 11 \<longrightarrow>
     (\<exists>ps. chain (\<lambda>p. sp_next (slabs st p)) (slab_classes st (k - 4)) ps \<and>
       set ps = {p \<in> B. hmagic st p = SLAB_PAGE_MAGIC \<and> slab_shape (slabs st p) k}))"

definition free_list_ok :: "'a heap_state_scheme \<Rightarrow> u64 set \<Rightarrow> u64 set \<Rightarrow> bool" where
  "free_list_ok st B X \<longleftrightarrow>
     (\<exists>fs. dchain (\<lambda>h. lh_next (larges st h)) (\<lambda>h. lh_prev (larges st h)) 0 (large_free_list st) fs \<and>
       set fs = {h \<in> B. hmagic st h = HEAP_MAGIC_FREE} - X)"

definition heap_inv :: "'a heap_state_scheme \<Rightarrow> u64 set \<Rightarrow> u64 set \<Rightarrow> bool" where
  "heap_inv st B X \<longleftrightarrow> cursor_ok st \<and> (\<forall>a \<in> B. block_ok st a) \<and>
     (\<forall>a \<in> B. \<forall>b \<in> B. a \<noteq> b \<longrightarrow> apart (a, hlen st a) (b, hlen st b)) \<and>
     classes_ok st B \<and> free_list_ok st B X"

definition blocks_of :: "'a heap_state_scheme \<Rightarrow> u64 \<Rightarrow> (u64 \<times> nat) set" where
  \<comment> \<open>the allocations inside a block, as address and length\<close>
  "blocks_of st a =
     (if hmagic st a = SLAB_PAGE_MAGIC
      then (\<lambda>i. (slab_object a (slabs st a) i, unat (sp_obj_size (slabs st a)))) `
             {i. i < unat (sp_capacity (slabs st a)) \<and> slab_used (slabs st a) i}
      else if hmagic st a = HEAP_MAGIC_ALLOC
      then {(a + LARGE_HDR_SIZE, unat (lh_size (larges st a)) - 32)} else {})"

definition live :: "'a heap_state_scheme \<Rightarrow> u64 set \<Rightarrow> (u64 \<times> nat) set" where
  "live st B = (\<Union>a \<in> B. blocks_of st a)"

lemma magic_neq [simp]:
  "HEAP_MAGIC_ALLOC \<noteq> SLAB_PAGE_MAGIC" "HEAP_MAGIC_FREE \<noteq> SLAB_PAGE_MAGIC"
  "HEAP_MAGIC_ALLOC \<noteq> HEAP_MAGIC_FREE" "SLAB_PAGE_MAGIC \<noteq> HEAP_MAGIC_ALLOC"
  "SLAB_PAGE_MAGIC \<noteq> HEAP_MAGIC_FREE" "HEAP_MAGIC_FREE \<noteq> HEAP_MAGIC_ALLOC"
  by (simp_all add: kdefs)

lemma page_dvd_16: "4096 dvd n \<Longrightarrow> 16 dvd (n :: nat)"
  by (rule dvd_trans [of 16 4096]) simp_all

lemma heap_invD:
  assumes "heap_inv st B X" "a \<in> B"
  shows "block_ok st a" "b \<in> B \<Longrightarrow> a \<noteq> b \<Longrightarrow> apart (a, hlen st a) (b, hlen st b)"
    "unat a < heap_hi" "a \<noteq> 0" "cursor_ok st"
proof -
  show "block_ok st a" "b \<in> B \<Longrightarrow> a \<noteq> b \<Longrightarrow> apart (a, hlen st a) (b, hlen st b)" "cursor_ok st"
    using assms by (auto simp: heap_inv_def)
  then show "unat a < heap_hi" "a \<noteq> 0"
    by (auto simp: block_ok_def cursor_ok_def)
qed

lemma slab_object_unat:
  assumes "slab_shape sp k" "i < unat (sp_capacity sp)" "unat a < heap_hi"
  shows "unat (slab_object a sp i) = unat a + slab_data_off (slab_cap k) (of_nat (2 ^ k)) + i * 2 ^ k"
    "slab_data_off (slab_cap k) (of_nat (2 ^ k)) + i * 2 ^ k + 2 ^ k \<le> 4096"
proof -
  note g = slab_data_off_cap [of k]
  have k: "4 \<le> k" "k \<le> 11" and sh: "sp_capacity sp = slab_cap k" "sp_obj_size sp = of_nat (2 ^ k)"
    using assms(1) by (simp_all add: slab_shape_def)
  have "(i + 1) * 2 ^ k \<le> unat (slab_cap k) * 2 ^ k"
    using assms(2) sh by (intro mult_right_mono) simp_all
  then show le: "slab_data_off (slab_cap k) (of_nat (2 ^ k)) + i * 2 ^ k + 2 ^ k \<le> 4096"
    using g(1) [OF k] by (simp add: algebra_simps)
  let ?d = "slab_data_off (slab_cap k) (of_nat (2 ^ k)) + i * 2 ^ k"
  have "?d \<le> 4096" using le by linarith
  then have "unat (a + of_nat ?d) = unat a + ?d" using assms(3) by (intro unat_add_of_nat) simp
  then show "unat (slab_object a sp i) = unat a + slab_data_off (slab_cap k) (of_nat (2 ^ k)) + i * 2 ^ k"
    by (simp only: slab_object_def sh g(7) [OF k] of_nat_add add.assoc)
qed

text \<open>Every allocation lies inside the span of its block, behind the header, 16-byte aligned.\<close>

lemma blocks_of_span:
  assumes "block_ok st a" "unat a < heap_hi" "(x, n) \<in> blocks_of st a"
  shows "unat a + 32 \<le> unat x" "unat x + n \<le> unat a + hlen st a" "16 dvd unat x" "0 < n"
proof -
  have "unat a + 32 \<le> unat x \<and> unat x + n \<le> unat a + hlen st a \<and> 16 dvd unat x \<and> 0 < n"
  proof (cases "hmagic st a = SLAB_PAGE_MAGIC")
    case True
    then obtain k where k: "slab_shape (slabs st a) k"
      using assms(1) by (auto simp: block_ok_def slab_ok_def)
    obtain i where i: "i < unat (sp_capacity (slabs st a))" "x = slab_object a (slabs st a) i"
      and n: "n = unat (sp_obj_size (slabs st a))"
      using assms(3) True by (auto simp: blocks_of_def)
    have k4: "4 \<le> k" "k \<le> 11" and "sp_obj_size (slabs st a) = of_nat (2 ^ k)"
      using k by (simp_all add: slab_shape_def)
    note g = slab_data_off_cap [OF k4] and u = slab_object_unat [OF k i(1) assms(2)]
    have "n = 2 ^ k" using n \<open>sp_obj_size _ = _\<close> g(7) by simp
    moreover have "16 dvd unat x"
      unfolding i(2) u(1)
      by (intro dvd_add dvd_mult g(6) page_dvd_16 dvd_trans [OF g(6) g(2)])
        (use assms(1) in \<open>simp add: block_ok_def\<close>)
    ultimately show ?thesis using u g(3) True unfolding i(2) by (simp add: hlen_def)
  next
    case False
    then have x: "x = a + 32" "n = unat (lh_size (larges st a)) - 32"
      using assms(3) by (auto simp: blocks_of_def kdefs split: if_splits)
    have "unat x = unat a + 32" using assms(2) unat_add_of_nat [of a 32] by (simp add: x)
    moreover have "16 dvd unat a" using assms(1) page_dvd_16 by (simp add: block_ok_def)
    then have "16 dvd unat a + 32" by (rule dvd_add) simp
    ultimately show ?thesis using assms(1) False by (simp add: x block_ok_def hlen_def)
  qed
  then show "unat a + 32 \<le> unat x" "unat x + n \<le> unat a + hlen st a" "16 dvd unat x" "0 < n"
    by simp_all
qed

lemma heap_inv_same:
  assumes "heap_inv st B X" "same_heap st' st" "cursor_ok st'"
    "unat (heap_cursor st) \<le> unat (heap_cursor st')"
  shows "heap_inv st' B X" "live st' B = live st B"
proof -
  have e: "hmagic st' = hmagic st" "slabs st' = slabs st" "larges st' = larges st"
    "slab_classes st' = slab_classes st" "large_free_list st' = large_free_list st"
    using assms(2) by (simp_all add: same_heap_def)
  have h: "hlen st' = hlen st" by (simp add: hlen_def fun_eq_iff e)
  have "block_ok st' a" if "a \<in> B" for a
    using heap_invD(1) [OF assms(1) that] assms(4) le_trans unfolding block_ok_def e h by blast
  moreover have "classes_ok st' B" "free_list_ok st' B X"
    using assms(1) unfolding heap_inv_def classes_ok_def free_list_ok_def e by blast+
  ultimately show "heap_inv st' B X"
    using assms(1,3) unfolding heap_inv_def h by blast
  show "live st' B = live st B" by (simp add: live_def blocks_of_def e)
qed

lemma slab_shape_unique: "slab_shape sp k \<Longrightarrow> slab_shape sp k' \<Longrightarrow> k = k'"
proof -
  assume "slab_shape sp k" "slab_shape sp k'"
  then have "(of_nat k :: u8) = of_nat k'" "k \<le> 11" "k' \<le> 11" by (auto simp: slab_shape_def)
  then have "unat (of_nat k :: u8) = unat (of_nat k' :: u8)" by simp
  with \<open>k \<le> 11\<close> \<open>k' \<le> 11\<close> show "k = k'" by (simp add: unat_of_nat)
qed

lemma live_change:
  assumes "p \<in> B" "\<And>a. a \<in> B \<Longrightarrow> a \<noteq> p \<Longrightarrow> blocks_of st' a = blocks_of st a"
  shows "live st' B = (\<Union>a \<in> B - {p}. blocks_of st a) \<union> blocks_of st' p"
proof -
  have "(\<Union>a \<in> B - {p}. blocks_of st' a) = (\<Union>a \<in> B - {p}. blocks_of st a)"
    using assms(2) by (intro SUP_cong) simp_all
  moreover have "live st' B = blocks_of st' p \<union> (\<Union>a \<in> B - {p}. blocks_of st' a)"
    unfolding live_def UN_insert [symmetric] insert_Diff [OF assms(1)] ..
  ultimately show ?thesis by (simp only: Un_commute)
qed

text \<open>Changing one slab page without changing its class or its link.\<close>

lemma slab_update:
  assumes inv: "heap_inv st B X" and p: "p \<in> B" "hmagic st p = SLAB_PAGE_MAGIC"
    and ok: "slab_ok (slabs st p) k" "slab_ok (f (slabs st p)) k"
    and nx: "sp_next (f (slabs st p)) = sp_next (slabs st p)"
  shows "heap_inv (set_slab st p f) B X"
    "live (set_slab st p f) B = (\<Union>a \<in> B - {p}. blocks_of st a) \<union> blocks_of (set_slab st p f) p"
proof -
  let ?st = "set_slab st p f"
  have h: "hlen ?st = hlen st" by (simp add: hlen_def fun_eq_iff)
  have "slab_shape (f (slabs st p)) j \<longleftrightarrow> slab_shape (slabs st p) j" for j
    using ok slab_shape_unique [of "f (slabs st p)" k j] slab_shape_unique [of "slabs st p" k j]
    by (auto simp: slab_ok_def)
  then have sh: "slab_shape (slabs ?st a) j \<longleftrightarrow> slab_shape (slabs st a) j" for a j
    by simp
  have nxe: "(\<lambda>p. sp_next (slabs ?st p)) = (\<lambda>p. sp_next (slabs st p))"
    using nx by (simp add: fun_eq_iff)
  have "classes_ok ?st B"
    using inv unfolding heap_inv_def classes_ok_def sh nxe set_slab_sel(2,4) by blast
  moreover have "free_list_ok ?st B X"
    using inv by (simp add: heap_inv_def free_list_ok_def)
  moreover have "block_ok ?st a" if "a \<in> B" for a
    using heap_invD(1) [OF inv that] ok(2) p(2) unfolding block_ok_def h
    by (cases "a = p") auto
  moreover have "cursor_ok ?st" using inv by (simp add: heap_inv_def cursor_ok_def)
  ultimately show "heap_inv ?st B X" using inv unfolding heap_inv_def h by blast
  show "live ?st B = (\<Union>a \<in> B - {p}. blocks_of st a) \<union> blocks_of ?st p"
    by (rule live_change [OF p(1)]) (simp add: blocks_of_def)
qed

text \<open>Taking a slot.\<close>

lemma blocks_of_mark:
  assumes "hmagic st p = SLAB_PAGE_MAGIC" "i \<in> slab_slots (slabs st p)"
  shows "blocks_of (set_slab st p (slab_mark i)) p =
    insert (slab_object p (slabs st p) i, unat (sp_obj_size (slabs st p))) (blocks_of st p)"
proof -
  have "slab_object p (slab_mark i sp) = slab_object p sp" for sp
    by (simp add: slab_object_def slab_mark_def fun_eq_iff)
  moreover have "{j. j < unat (sp_capacity (slabs st p)) \<and> slab_used (slab_mark i (slabs st p)) j} =
      insert i {j. j < unat (sp_capacity (slabs st p)) \<and> slab_used (slabs st p) j}"
    using assms(2) by (auto simp: slab_used_mark slab_slots_def)
  ultimately show ?thesis
    using assms(1) by (simp add: blocks_of_def) (simp add: slab_mark_def)
qed

lemma slab_objects_apart:
  assumes "slab_shape sp k" "i < unat (sp_capacity sp)" "j < unat (sp_capacity sp)" "i \<noteq> j"
    "unat a < heap_hi"
  shows "apart (slab_object a sp i, unat (sp_obj_size sp)) (slab_object a sp j, unat (sp_obj_size sp))"
proof -
  have k: "4 \<le> k" "k \<le> 11" "sp_obj_size sp = of_nat (2 ^ k)" using assms(1) by (simp_all add: slab_shape_def)
  have m: "x * 2 ^ k + 2 ^ k \<le> y * 2 ^ k" if "x < y" for x y :: nat
    using that mult_right_mono [of "Suc x" y "2 ^ k"] by simp
  note u = slab_object_unat(1) [OF assms(1) _ assms(5)]
  have sz: "unat (sp_obj_size sp) = 2 ^ k" using slab_data_off_cap(7) [OF k(1,2)] k(3) by simp
  show ?thesis
    using m [of i j] m [of j i] assms(4) u [OF assms(2)] u [OF assms(3)]
    unfolding apart_def sz by (simp add: nat_neq_iff) linarith
qed

lemma apart_sym: "apart u v \<Longrightarrow> apart v u"
  by (auto simp: apart_def)

lemma apart_mono:
  assumes "apart (a, n) (b, m)" "unat a \<le> unat x" "unat x + k \<le> unat a + n"
    "unat b \<le> unat y" "unat y + l \<le> unat b + m"
  shows "apart (x, k) (y, l)"
  using assms unfolding apart_def by simp linarith

lemma blocks_apart:
  assumes "heap_inv st B X" "a \<in> B" "b \<in> B" "a \<noteq> b" "u \<in> blocks_of st a" "v \<in> blocks_of st b"
  shows "apart u v"
proof -
  note A = heap_invD [OF assms(1,2)] and B = heap_invD [OF assms(1,3)]
  obtain x n y m where uv: "u = (x, n)" "v = (y, m)" by fastforce
  note s1 = blocks_of_span [OF A(1,3) assms(5) [unfolded uv(1)]]
  note s2 = blocks_of_span [OF B(1,3) assms(6) [unfolded uv(2)]]
  show ?thesis
    unfolding uv using s1 s2 by (intro apart_mono [OF A(2) [OF assms(3,4)]]) simp_all
qed

text \<open>The outcome of a request: NULL and nothing live changes, or one new block apart from all others.\<close>

definition alloc_post ::
  "'a heap_state_scheme \<Rightarrow> u64 set \<Rightarrow> u64 \<Rightarrow> nat \<Rightarrow> u64 \<Rightarrow> 'a heap_state_scheme \<Rightarrow> bool" where
  "alloc_post st B c n p st' \<longleftrightarrow> (\<exists>B'. heap_inv st' B' {} \<and>
     (\<forall>v. unat v < unat c \<longrightarrow> vmem st' v = vmem st v) \<and>
     unat c \<le> unat (heap_cursor st') \<and>
     (p = 0 \<and> live st' B' = live st B \<or>
      p \<noteq> 0 \<and> (\<exists>m \<ge> n. live st' B' = insert (p, m) (live st B) \<and>
         (\<forall>b \<in> live st B. apart (p, m) b) \<and> 16 dvd unat p \<and> heap_lo \<le> unat p \<and>
         unat p + m \<le> unat (heap_cursor st'))))"

lemma slab_take_post:
  assumes inv: "heap_inv st B {}" and p: "p \<in> B" "hmagic st p = SLAB_PAGE_MAGIC"
    and ok: "slab_ok (slabs st p) k" "sp_free_count (slabs st p) \<noteq> 0" and n: "n \<le> 2 ^ k"
    and r: "slab_take st p = (x, st')"
  shows "alloc_post st B (heap_cursor st) n x st'" "x \<noteq> 0"
proof -
  obtain i where i: "i \<in> slab_slots (slabs st p)"
    and r': "x = slab_object p (slabs st p) i" "st' = set_slab st p (slab_mark i)"
    using slab_take_ok [OF ok] r by (metis prod.inject)
  define m where "m = unat (sp_obj_size (slabs st p))"
  note P = heap_invD [OF inv p(1)]
  have sh: "slab_shape (slabs st p) k" using ok(1) by (simp add: slab_ok_def)
  then have "m = 2 ^ k" using slab_data_off_cap(7) [of k] by (simp add: m_def slab_shape_def)
  note u = slab_update [where f = "slab_mark i", OF inv p ok(1) slab_mark_ok(1) [OF ok(1) i]]
  have inv': "heap_inv st' B {}" and "live st' B =
      (\<Union>a \<in> B - {p}. blocks_of st a) \<union> insert (x, m) (blocks_of st p)"
    using u blocks_of_mark [OF p(2) i] by (simp_all add: r' m_def slab_mark_def)
  moreover have "live st B = (\<Union>a \<in> B - {p}. blocks_of st a) \<union> blocks_of st p"
    by (rule live_change [OF p(1)]) simp
  ultimately have lv: "live st' B = insert (x, m) (live st B)" by simp
  have xp: "(x, m) \<in> blocks_of st' p" using blocks_of_mark [OF p(2) i] by (simp add: r' m_def)
  have bo: "block_ok st' p" using heap_invD(1) [OF inv' p(1)] .
  note sp = blocks_of_span [OF bo P(3) xp]
  have "apart (x, m) b" if b: "b \<in> live st B" for b
  proof -
    obtain a where a: "a \<in> B" "b \<in> blocks_of st a" using b by (auto simp: live_def)
    show ?thesis
    proof (cases "a = p")
      case False
      then have "blocks_of st' a = blocks_of st a" by (simp add: r' blocks_of_def)
      with a(2) have "b \<in> blocks_of st' a" by simp
      then show ?thesis using blocks_apart [OF inv' p(1) a(1) False [symmetric] xp] by blast
    next
      case True
      then obtain j where j: "b = (slab_object p (slabs st p) j, m)"
        "j < unat (sp_capacity (slabs st p))" "slab_used (slabs st p) j"
        using a(2) p(2) by (auto simp: blocks_of_def m_def)
      then have "i \<noteq> j" "i < unat (sp_capacity (slabs st p))" using i by (auto simp: slab_slots_def)
      then show ?thesis using slab_objects_apart [OF sh _ j(2) _ P(3)] by (simp add: j(1) r' m_def)
    qed
  qed
  moreover have "heap_lo \<le> unat p" "unat p + hlen st' p \<le> unat (heap_cursor st')"
    using bo by (simp_all add: block_ok_def)
  moreover show "x \<noteq> 0" using sp(1) \<open>heap_lo \<le> unat p\<close> by auto
  ultimately show "alloc_post st B (heap_cursor st) n x st'"
    unfolding alloc_post_def using inv' lv sp \<open>m = 2 ^ k\<close> n
    by (intro exI [of _ B]) (auto simp: r' intro!: exI [of _ m])
qed

text \<open>A fresh slab page.\<close>

lemma slab_new_page_ok:
  assumes inv: "heap_inv st B {}" and k: "4 \<le> k" "k \<le> 11"
  obtains (oom) st1 where "slab_new_page st k = Some (0, st1)" "heap_inv st1 B {}"
      "live st1 B = live st B" "heap_cursor st1 = heap_cursor st"
      "\<And>v. unat v < unat (heap_cursor st) \<Longrightarrow> vmem st1 v = vmem st v"
  | (page) p st1 sp where "p = heap_cursor st" "p \<noteq> 0" "heap_inv st1 B {}" "live st1 B = live st B"
      "unat (heap_cursor st1) = unat p + 4096" "same_heap st1 st"
      "slab_new_page st k = Some (p, set_slab (set_magic st1 p SLAB_PAGE_MAGIC) p (\<lambda>_. sp))"
      "slab_ok sp k" "sp_free_count sp \<noteq> 0" "\<And>i. i < unat (sp_capacity sp) \<Longrightarrow> \<not> slab_used sp i"
      "\<And>v. unat v < unat (heap_cursor st) \<Longrightarrow> vmem st1 v = vmem st v"
proof -
  obtain p st1 where m: "heap_map_pages st 1 = (p, st1)" by fastforce
  have c: "cursor_ok st" using inv by (simp add: heap_inv_def)
  note f = heap_map_pages_cases [OF m c, simplified]
  have "unat (heap_cursor st) \<le> unat (heap_cursor st1)" using f(5,6) by (cases "p = 0") simp_all
  note i1 = heap_inv_same [OF inv f(1,3) this]
  show thesis
  proof (cases "p = 0")
    case True
    then show ?thesis using oom [of st1] m i1 f(4,5) by (simp add: slab_new_page_def)
  next
    case False
    define sp where "sp = (slabs st1 p)\<lparr>sp_order := of_nat k, sp_obj_size := of_nat (2 ^ k),
       sp_capacity := slab_cap k, sp_free_count := slab_cap k, sp_first_free := 0, sp_next := 0,
       sp_bitmap := (\<lambda>w. if w < slab_bitmap_words (slab_cap k) then 0
                         else sp_bitmap (slabs st1 p) w)\<rparr>"
    note g = slab_data_off_cap [OF k]
    have "i div 64 < slab_bitmap_words (slab_cap k)" if "i < unat (slab_cap k)" for i
      using that by (auto simp: slab_bitmap_words_def)
    then have unused: "\<not> slab_used sp i" if "i < unat (sp_capacity sp)" for i
      using that by (simp add: slab_used_def sp_def)
    then have "slab_slots sp = {..<unat (sp_capacity sp)}" by (auto simp: slab_slots_def)
    then have ok: "slab_ok sp k" using k by (simp add: slab_ok_def slab_shape_def sp_def)
    have fc: "sp_free_count sp \<noteq> 0" using g(4) by (auto simp: sp_def)
    have "slab_new_page st k = Some (p, set_slab (set_magic st1 p SLAB_PAGE_MAGIC) p (\<lambda>_. sp))"
      using m False slab_fit_cap [OF k] g(7)
      by (simp add: slab_new_page_def Let_def sp_def set_slab_def set_magic_def cong: if_cong)
    then show ?thesis
      using page [of p st1 sp] False f i1 ok fc unused by simp
  qed
qed

lemma slab_page_link:
  assumes inv: "heap_inv st B {}" and k: "4 \<le> k" "k \<le> 11"
    and p: "unat p + 4096 = unat (heap_cursor st)" "heap_lo \<le> unat p" "4096 dvd unat p"
      "\<And>a. a \<in> B \<Longrightarrow> unat a + hlen st a \<le> unat p"
    and sp: "slab_ok sp k" "\<And>i. i < unat (sp_capacity sp) \<Longrightarrow> \<not> slab_used sp i"
  defines "st' \<equiv> (set_slab (set_magic st p SLAB_PAGE_MAGIC) p
      (\<lambda>_. sp\<lparr>sp_next := slab_classes st (k - 4)\<rparr>))
      \<lparr>slab_classes := (slab_classes st)(k - 4 := p)\<rparr>"
  shows "heap_inv st' (insert p B) {}" "live st' (insert p B) = live st B"
proof -
  have pB: "p \<notin> B"
  proof
    assume "p \<in> B"
    then have "4096 \<le> hlen st p" using heap_invD(1) [OF inv] by (simp add: block_ok_def)
    with p(4) [OF \<open>p \<in> B\<close>] show False by simp
  qed
  have p0: "p \<noteq> 0" using p(2) by auto
  have h: "a \<noteq> p \<Longrightarrow> hlen st' a = hlen st a" "hlen st' p = 4096" for a
    by (simp_all add: hlen_def st'_def)
  have hB: "hlen st' a = hlen st a" if "a \<in> B" for a using that pB by (intro h(1)) auto
  have "block_ok st' a" if "a \<in> B" for a
    using heap_invD(1) [OF inv that] that pB unfolding block_ok_def
    by (cases "a = p") (simp_all add: h, simp_all add: st'_def)
  moreover have "block_ok st' p"
    using p sp(1) unfolding block_ok_def h
    by (auto simp: st'_def slab_ok_def slab_shape_def slab_slots_def slab_used_def)
  moreover have "apart (a, hlen st' a) (b, hlen st' b)"
    if "a \<in> insert p B" "b \<in> insert p B" "a \<noteq> b" for a b
    using that p(4) [of a] p(4) [of b] hB h(2) heap_invD(2) [OF inv, of a b] pB
    by (cases "a = p"; cases "b = p") (auto simp: apart_def)
  moreover have "free_list_ok st' (insert p B) {}"
  proof -
    have "{x \<in> insert p B. hmagic st' x = HEAP_MAGIC_FREE} = {x \<in> B. hmagic st x = HEAP_MAGIC_FREE}"
      using pB by (auto simp: st'_def)
    then show ?thesis using inv unfolding heap_inv_def free_list_ok_def by (simp add: st'_def)
  qed
  moreover have "classes_ok st' (insert p B)"
    unfolding classes_ok_def
  proof (intro allI impI)
    fix j :: nat assume j: "4 \<le> j \<and> j \<le> 11"
    then obtain ps where ps: "chain (\<lambda>p. sp_next (slabs st p)) (slab_classes st (j - 4)) ps"
      "set ps = {p \<in> B. hmagic st p = SLAB_PAGE_MAGIC \<and> slab_shape (slabs st p) j}"
      using inv by (auto simp: heap_inv_def classes_ok_def)
    have pps: "p \<notin> set ps" using ps(2) pB by simp
    have nx: "chain (\<lambda>p. sp_next (slabs st' p)) a ps = chain (\<lambda>p. sp_next (slabs st p)) a ps" for a
      by (rule chain_cong) (use pps in \<open>auto simp: st'_def\<close>)
    have sh: "slab_shape (slabs st' p) j \<longleftrightarrow> j = k"
      using sp(1) slab_shape_unique [of sp k j]
      by (auto simp: st'_def slab_ok_def slab_shape_def)
    have st': "set (if j = k then p # ps else ps) =
        {x \<in> insert p B. hmagic st' x = SLAB_PAGE_MAGIC \<and> slab_shape (slabs st' x) j}"
      using ps(2) sh pB by (auto simp: st'_def)
    have "chain (\<lambda>p. sp_next (slabs st' p)) (slab_classes st' (j - 4)) (if j = k then p # ps else ps)"
    proof (cases "j = k")
      case True
      then show ?thesis using ps(1) nx p0 by (simp add: st'_def)
    next
      case False
      then have "j - 4 \<noteq> k - 4" using j k by auto
      then show ?thesis using False ps(1) nx by (simp add: st'_def)
    qed
    then show "\<exists>ps. chain (\<lambda>p. sp_next (slabs st' p)) (slab_classes st' (j - 4)) ps \<and>
        set ps = {x \<in> insert p B. hmagic st' x = SLAB_PAGE_MAGIC \<and> slab_shape (slabs st' x) j}"
      using st' by blast
  qed
  moreover have "cursor_ok st'" using inv by (simp add: heap_inv_def cursor_ok_def st'_def)
  ultimately show "heap_inv st' (insert p B) {}" unfolding heap_inv_def by blast
  have "blocks_of st' a = blocks_of st a" if "a \<in> B" for a
    using that pB by (cases "a = p") (simp_all add: blocks_of_def st'_def)
  moreover have "blocks_of st' p = {}"
    using sp(2) by (auto simp: blocks_of_def st'_def slab_used_def)
  ultimately show "live st' (insert p B) = live st B" by (simp add: live_def)
qed

lemma slab_find_chain:
  "chain (\<lambda>p. sp_next (slabs st p)) a ps \<Longrightarrow> slab_find st a =
     Some (case List.find (\<lambda>p. sp_free_count (slabs st p) \<noteq> 0) ps of None \<Rightarrow> 0 | Some p \<Rightarrow> p)"
  by (induction ps arbitrary: a) (auto simp: slab_find.simps)

lemma alloc_post_trans:
  assumes "alloc_post st1 B1 (heap_cursor st1) n p st'" "live st1 B1 = live st B"
    "\<And>v. unat v < unat c \<Longrightarrow> vmem st1 v = vmem st v" "unat c \<le> unat (heap_cursor st1)"
  shows "alloc_post st B c n p st'"
proof -
  from assms(1) obtain B' where b: "heap_inv st' B' {}"
    "\<And>v. unat v < unat (heap_cursor st1) \<Longrightarrow> vmem st' v = vmem st1 v"
    "unat (heap_cursor st1) \<le> unat (heap_cursor st')"
    "p = 0 \<and> live st' B' = live st B \<or>
      p \<noteq> 0 \<and> (\<exists>m \<ge> n. live st' B' = insert (p, m) (live st B) \<and>
         (\<forall>b \<in> live st B. apart (p, m) b) \<and> 16 dvd unat p \<and> heap_lo \<le> unat p \<and>
         unat p + m \<le> unat (heap_cursor st'))"
    unfolding alloc_post_def assms(2) by blast
  have "vmem st' v = vmem st v" if "unat v < unat c" for v
    using b(2) [of v] assms(3) [OF that] that assms(4) by simp
  moreover have "unat c \<le> unat (heap_cursor st')" using assms(4) b(3) by (rule le_trans)
  ultimately show ?thesis unfolding alloc_post_def using b(1,4) by blast
qed

lemma slab_new_page_null: "slab_new_page st k = Some (0, st1) \<Longrightarrow> fst (heap_map_pages st 1) = 0"
  by (auto simp: slab_new_page_def Let_def bind_eq_Some_conv split: prod.splits if_splits)

lemma slab_alloc_post:
  assumes inv: "heap_inv st B {}" and k: "4 \<le> k" "k \<le> 11" and n: "n \<le> 2 ^ k"
  shows "\<exists>x st'. slab_alloc st k = Some (x, st') \<and> alloc_post st B (heap_cursor st) n x st' \<and>
    (x = 0 \<longrightarrow> fst (heap_map_pages st 1) = 0)"
proof -
  have k4: "k - SLAB_MIN_ORDER = k - 4" by (simp add: kdefs)
  obtain ps where ps: "chain (\<lambda>p. sp_next (slabs st p)) (slab_classes st (k - 4)) ps"
    "set ps = {p \<in> B. hmagic st p = SLAB_PAGE_MAGIC \<and> slab_shape (slabs st p) k}"
    using inv k by (auto simp: heap_inv_def classes_ok_def)
  note fd = slab_find_chain [OF ps(1)]
  show ?thesis
  proof (cases "List.find (\<lambda>p. sp_free_count (slabs st p) \<noteq> 0) ps")
    case (Some p)
    then have p: "p \<in> set ps" "sp_free_count (slabs st p) \<noteq> 0"
      by (auto simp: find_Some_iff)
    then have pB: "p \<in> B" "hmagic st p = SLAB_PAGE_MAGIC" "slab_shape (slabs st p) k" using ps(2) by auto
    then obtain k' where "slab_ok (slabs st p) k'"
      using heap_invD(1) [OF inv] by (auto simp: block_ok_def)
    then have "slab_ok (slabs st p) k"
      using slab_shape_unique [OF pB(3)] by (auto simp: slab_ok_def)
    from slab_take_post [OF inv pB(1,2) this p(2) n]
    show ?thesis using fd Some heap_invD(4) [OF inv pB(1)]
      by (cases "slab_take st p") (auto simp: slab_alloc_def k4 Let_def)
  next
    case None
    then have f0: "slab_find st (slab_classes st (k - 4)) = Some 0" using fd by simp
    from inv k show ?thesis
    proof (cases rule: slab_new_page_ok)
      case (oom st1)
      then show ?thesis
        using f0 slab_new_page_null [OF oom(1)] by (auto simp: slab_alloc_def k4 Let_def alloc_post_def)
    next
      case (page p st1 sp)
      define sp' where "sp' = sp\<lparr>sp_next := slab_classes st (k - 4)\<rparr>"
      define st3 where "st3 = (set_slab (set_magic st1 p SLAB_PAGE_MAGIC) p (\<lambda>_. sp'))
          \<lparr>slab_classes := (slab_classes st1)(k - 4 := p)\<rparr>"
      have sc: "slab_classes st1 = slab_classes st" using page(6) by (simp add: same_heap_def)
      have hl: "hlen st1 = hlen st" using page(6) by (simp add: same_heap_def hlen_def fun_eq_iff)
      have lo: "heap_lo \<le> unat p" "4096 dvd unat p"
        using inv page(1) by (simp_all add: heap_inv_def cursor_ok_def)
      have "unat a + hlen st1 a \<le> unat p" if "a \<in> B" for a
        using heap_invD(1) [OF inv that] by (simp add: block_ok_def hl page(1))
      note l = slab_page_link [OF page(3) k page(5) [symmetric] lo this page(8,10), unfolded sc]
      have inv3: "heap_inv st3 (insert p B) {}" "live st3 (insert p B) = live st B"
        using l page(4) by (simp_all add: st3_def sp'_def sc)
      have "slab_ok (slabs st3 p) k" "sp_free_count (slabs st3 p) \<noteq> 0"
        using page(8,9)
        by (simp_all add: st3_def sp'_def slab_ok_def slab_shape_def slab_slots_def slab_used_def)
      note tk = slab_take_post [OF inv3(1) _ _ this n]
      obtain x st' where r: "slab_take st3 p = (x, st')" by fastforce
      have "alloc_post st3 (insert p B) (heap_cursor st3) n x st'"
        using tk(1) [OF _ _ r] by (simp add: st3_def)
      then have "alloc_post st B (heap_cursor st) n x st'"
        by (rule alloc_post_trans) (use inv3(2) page(1,5,11) in \<open>simp_all add: st3_def\<close>)
      moreover have "x \<noteq> 0" using tk(2) [OF _ _ r] by (simp add: st3_def)
      moreover have "slab_alloc st k = Some (x, st')"
        using f0 page(2,7) r
        by (simp add: slab_alloc_def k4 Let_def set_slab_def set_magic_def st3_def sp'_def sc)
      ultimately show ?thesis by blast
    qed
  qed
qed

section \<open>Large blocks\<close>

abbreviation lnx :: "'a heap_state_scheme \<Rightarrow> u64 \<Rightarrow> u64" where
  "lnx st \<equiv> \<lambda>h. lh_next (larges st h)"

abbreviation lpv :: "'a heap_state_scheme \<Rightarrow> u64 \<Rightarrow> u64" where
  "lpv st \<equiv> \<lambda>h. lh_prev (larges st h)"

abbreviation lsz :: "'a heap_state_scheme \<Rightarrow> u64 \<Rightarrow> u64" where
  "lsz st \<equiv> \<lambda>h. lh_size (larges st h)"

text \<open>The search ends on a terminated list and finds a smallest block that is large enough.\<close>

lemma large_best_chain:
  assumes "chain (lnx st) h ps" "best \<noteq> 0 \<Longrightarrow> tot \<le> lsz st best"
  shows "\<exists>b. large_best st tot h best = Some b \<and>
    (b = best \<or> b \<in> set ps) \<and> (b \<noteq> 0 \<longrightarrow> tot \<le> lsz st b) \<and>
    (best \<noteq> 0 \<longrightarrow> b \<noteq> 0 \<and> lsz st b \<le> lsz st best) \<and>
    (\<forall>x \<in> set ps. tot \<le> lsz st x \<longrightarrow> b \<noteq> 0 \<and> lsz st b \<le> lsz st x)"
  using assms
proof (induction ps arbitrary: h best)
  case Nil
  then show ?case by (simp add: large_best.simps)
next
  case (Cons p ps)
  define best' where "best' = (if tot \<le> lsz st h \<and> (best = 0 \<or> lsz st h < lsz st best) then h else best)"
  have h: "h = p" "h \<noteq> 0" "chain (lnx st) (lnx st h) ps" using Cons.prems(1) by auto
  have b': "best' \<noteq> 0 \<Longrightarrow> tot \<le> lsz st best'" using Cons.prems(2) by (auto simp: best'_def)
  have step: "large_best st tot h best = large_best st tot (lnx st h) best'"
    using h(2) by (subst large_best.simps) (simp add: best'_def)
  obtain b where b: "large_best st tot (lnx st h) best' = Some b" "b = best' \<or> b \<in> set ps"
    "b \<noteq> 0 \<longrightarrow> tot \<le> lsz st b" "best' \<noteq> 0 \<longrightarrow> b \<noteq> 0 \<and> lsz st b \<le> lsz st best'"
    "\<forall>x \<in> set ps. tot \<le> lsz st x \<longrightarrow> b \<noteq> 0 \<and> lsz st b \<le> lsz st x"
    using Cons.IH [OF h(3) b'] by blast
  have "best \<noteq> 0 \<longrightarrow> best' \<noteq> 0 \<and> lsz st best' \<le> lsz st best"
    using h(2) by (auto simp: best'_def)
  moreover have "tot \<le> lsz st h \<longrightarrow> best' \<noteq> 0 \<and> lsz st best' \<le> lsz st h"
    using h(2) by (auto simp: best'_def not_less)
  moreover have "best' = best \<or> best' = p" using h(1) by (simp add: best'_def)
  ultimately show ?case
    unfolding step using b h(1) by (intro exI [of _ b]) (auto intro: order_trans)
qed

lemma large_insert_free_sel:
  fixes st :: "'a heap_state_scheme" and h :: u64
  defines "st' \<equiv> large_insert_free st h"
  shows "hmagic st' = (hmagic st)(h := HEAP_MAGIC_FREE)" "slabs st' = slabs st"
    "slab_classes st' = slab_classes st" "heap_cursor st' = heap_cursor st" "vmem st' = vmem st"
    "large_free_list st' = h" "lsz st' = lsz st"
    "lnx st' = (lnx st)(h := large_free_list st)"
    "lpv st' = (if large_free_list st \<noteq> 0 then ((lpv st)(h := 0))(large_free_list st := h)
                else (lpv st)(h := 0))"
  by (auto simp: st'_def large_insert_free_def Let_def fun_eq_iff)

lemma large_remove_free_sel:
  fixes st :: "'a heap_state_scheme" and h :: u64
  assumes "lpv st h \<noteq> h"
  defines "st' \<equiv> large_remove_free st h"
  shows "hmagic st' = hmagic st" "slabs st' = slabs st"
    "slab_classes st' = slab_classes st" "heap_cursor st' = heap_cursor st" "vmem st' = vmem st"
    "large_free_list st' = (if lpv st h \<noteq> 0 then large_free_list st else lnx st h)" "lsz st' = lsz st"
    "lnx st' = (if lpv st h \<noteq> 0 then (lnx st)(lpv st h := lnx st h) else lnx st)(h := 0)"
    "lpv st' = (if lnx st h \<noteq> 0 then (lpv st)(lnx st h := lpv st h) else lpv st)(h := 0)"
  using assms by (auto simp: large_remove_free_def Let_def fun_eq_iff)

text \<open>Rebuilding the invariant after a change of large blocks only.\<close>

lemma heap_inv_large:
  assumes inv: "heap_inv st B X"
    and e: "slabs st' = slabs st" "slab_classes st' = slab_classes st" "heap_cursor st' = heap_cursor st"
    and b: "\<And>a. a \<in> B' \<Longrightarrow> block_ok st' a"
    and ap: "\<And>a b. a \<in> B' \<Longrightarrow> b \<in> B' \<Longrightarrow> a \<noteq> b \<Longrightarrow> apart (a, hlen st' a) (b, hlen st' b)"
    and sl: "\<And>a. a \<in> B' \<and> hmagic st' a = SLAB_PAGE_MAGIC \<longleftrightarrow> a \<in> B \<and> hmagic st a = SLAB_PAGE_MAGIC"
    and fl: "free_list_ok st' B' X'"
  shows "heap_inv st' B' X'"
proof -
  have "{p \<in> B'. hmagic st' p = SLAB_PAGE_MAGIC \<and> slab_shape (slabs st p) k} =
      {p \<in> B. hmagic st p = SLAB_PAGE_MAGIC \<and> slab_shape (slabs st p) k}" for k
    using sl by blast
  then have "classes_ok st' B'" using inv unfolding heap_inv_def classes_ok_def e by simp
  moreover have "cursor_ok st'" using inv by (simp add: heap_inv_def cursor_ok_def e)
  ultimately show ?thesis using b ap fl unfolding heap_inv_def by blast
qed

lemma hlen_cong: "hmagic st' a = hmagic st a \<Longrightarrow> lsz st' a = lsz st a \<Longrightarrow> hlen st' a = hlen st a"
  by (simp add: hlen_def)

lemma large_remove_inv:
  assumes inv: "heap_inv st B {}" and b: "b \<in> B" "hmagic st b = HEAP_MAGIC_FREE"
  defines "st' \<equiv> large_remove_free st b"
  shows "heap_inv st' B {b}" "live st' B = live st B"
proof -
  obtain fs where fs: "dchain (lnx st) (lpv st) 0 (large_free_list st) fs"
    "set fs = {h \<in> B. hmagic st h = HEAP_MAGIC_FREE}"
    using inv by (auto simp: heap_inv_def free_list_ok_def)
  obtain xs ys where xy: "fs = xs @ b # ys" using b fs(2) split_list [of b fs] by auto
  note d = fs(1) [unfolded xy]
  have dist: "distinct (xs @ b # ys)" using chain_distinct [OF dchain_chain [OF d]] .
  have "lpv st b \<noteq> b"
    using dchain_links(1) [OF d] dist heap_invD(4) [OF inv b(1)] last_in_set [of xs] by auto
  note r = large_remove_free_sel [OF this, folded st'_def]
  have h: "hlen st' a = hlen st a" for a
    using fun_cong [OF r(7), of a] by (intro hlen_cong) (simp_all add: r(1))
  have "dchain (lnx st') (lpv st') 0 (large_free_list st') (xs @ ys)"
    using dchain_remove [OF d] unfolding r(6,8,9) .
  moreover have "set (xs @ ys) = {h \<in> B. hmagic st' h = HEAP_MAGIC_FREE} - {b}"
    using fs(2) dist unfolding xy r(1) by auto
  ultimately have "free_list_ok st' B {b}" unfolding free_list_ok_def by blast
  moreover have "block_ok st' a" if "a \<in> B" for a
    using heap_invD(1) [OF inv that] unfolding block_ok_def h r .
  ultimately show "heap_inv st' B {b}"
    using inv heap_invD(2) [OF inv] by (intro heap_inv_large [OF inv]) (simp_all add: r h)
  have "blocks_of st' a = blocks_of st a" for a
    using fun_cong [OF r(7), of a] by (simp add: blocks_of_def r)
  then show "live st' B = live st B" by (simp add: live_def)
qed

text \<open>Handing out a block that is off the list.\<close>

lemma large_mark_inv:
  assumes inv: "heap_inv st B {b}" and b: "b \<in> B" "hmagic st b = HEAP_MAGIC_FREE"
  defines "st' \<equiv> set_large (set_magic st b HEAP_MAGIC_ALLOC) b (\<lambda>h. h\<lparr>lh_next := 0, lh_prev := 0\<rparr>)"
  shows "heap_inv st' B {}"
    "live st' B = insert (b + LARGE_HDR_SIZE, unat (lsz st b) - 32) (live st B)"
    "blocks_of st' b = {(b + LARGE_HDR_SIZE, unat (lsz st b) - 32)}"
proof -
  have h: "hlen st' a = hlen st a" for a using b(2) by (simp add: hlen_def st'_def)
  obtain fs where fs: "dchain (lnx st) (lpv st) 0 (large_free_list st) fs"
    "set fs = {h \<in> B. hmagic st h = HEAP_MAGIC_FREE} - {b}"
    using inv by (auto simp: heap_inv_def free_list_ok_def)
  have bf: "b \<notin> set fs" using fs(2) by simp
  have "dchain (lnx st') (lpv st') 0 (large_free_list st') fs = dchain (lnx st) (lpv st) 0 (large_free_list st') fs"
    by (rule dchain_cong) (use bf in \<open>auto simp: st'_def\<close>)
  then have "dchain (lnx st') (lpv st') 0 (large_free_list st') fs" using fs(1) by (simp add: st'_def)
  moreover have "set fs = {h \<in> B. hmagic st' h = HEAP_MAGIC_FREE} - {}"
    using fs(2) by (auto simp: st'_def)
  ultimately have "free_list_ok st' B {}" unfolding free_list_ok_def by blast
  moreover have "block_ok st' a" if "a \<in> B" for a
    using heap_invD(1) [OF inv that] b(2) unfolding block_ok_def h
    by (cases "a = b") (simp_all add: st'_def)
  moreover have "a \<in> B \<and> hmagic st' a = SLAB_PAGE_MAGIC \<longleftrightarrow> a \<in> B \<and> hmagic st a = SLAB_PAGE_MAGIC" for a
    using b(2) by (simp add: st'_def)
  ultimately show "heap_inv st' B {}"
    using heap_invD(2) [OF inv] unfolding h [symmetric]
    by (intro heap_inv_large [OF inv]) (simp_all add: st'_def)
  show bl: "blocks_of st' b = {(b + LARGE_HDR_SIZE, unat (lsz st b) - 32)}"
    by (simp add: blocks_of_def st'_def)
  have "live st' B = (\<Union>a \<in> B - {b}. blocks_of st a) \<union> blocks_of st' b"
    by (rule live_change [OF b(1)]) (simp add: blocks_of_def st'_def)
  moreover have "live st B = (\<Union>a \<in> B - {b}. blocks_of st a) \<union> blocks_of st b"
    by (rule live_change [OF b(1)]) simp
  moreover have "blocks_of st b = {}" using b(2) by (simp add: blocks_of_def)
  ultimately show "live st' B = insert (b + LARGE_HDR_SIZE, unat (lsz st b) - 32) (live st B)"
    using bl by simp
qed

text \<open>Putting a block on the list: an allocated one, or one just made.\<close>

lemma large_insert_inv:
  assumes inv: "heap_inv st B X" and b: "b \<in> B" "hmagic st b = HEAP_MAGIC_ALLOC" "b \<notin> X"
  defines "st' \<equiv> large_insert_free st b"
  shows "heap_inv st' B X" "live st' B = (\<Union>a \<in> B - {b}. blocks_of st a)"
proof -
  note r = large_insert_free_sel [of st b, folded st'_def]
  have h: "hlen st' a = hlen st a" for a
    using fun_cong [OF r(7), of a] b(2) by (simp add: hlen_def r)
  obtain fs where fs: "dchain (lnx st) (lpv st) 0 (large_free_list st) fs"
    "set fs = {h \<in> B. hmagic st h = HEAP_MAGIC_FREE} - X"
    using inv by (auto simp: heap_inv_def free_list_ok_def)
  have "dchain (lnx st') (lpv st') 0 (large_free_list st') (b # fs)"
    using dchain_push [OF fs(1) heap_invD(4) [OF inv b(1)]] fs(2) b(2) unfolding r(6,8,9) by simp
  moreover have "set (b # fs) = {h \<in> B. hmagic st' h = HEAP_MAGIC_FREE} - X"
    using fs(2) b by (auto simp: r)
  ultimately have "free_list_ok st' B X" unfolding free_list_ok_def by blast
  moreover have "block_ok st' a" if "a \<in> B" for a
    using heap_invD(1) [OF inv that] b(2) unfolding block_ok_def h r
    by (cases "a = b") simp_all
  moreover have "a \<in> B \<and> hmagic st' a = SLAB_PAGE_MAGIC \<longleftrightarrow> a \<in> B \<and> hmagic st a = SLAB_PAGE_MAGIC" for a
    using b(2) by (simp add: r)
  ultimately show "heap_inv st' B X"
    using heap_invD(2) [OF inv] unfolding h [symmetric]
    by (intro heap_inv_large [OF inv]) (simp_all add: r)
  have "live st' B = (\<Union>a \<in> B - {b}. blocks_of st a) \<union> blocks_of st' b"
  proof (rule live_change [OF b(1)])
    fix a assume "a \<noteq> b"
    then show "blocks_of st' a = blocks_of st a"
      using fun_cong [OF r(7), of a] by (simp add: blocks_of_def r)
  qed
  then show "live st' B = (\<Union>a \<in> B - {b}. blocks_of st a)" by (simp add: blocks_of_def r)
qed

text \<open>Splitting a free block that is off the list.\<close>

lemma large_split_inv:
  assumes inv: "heap_inv st B {b}" and b: "b \<in> B" "hmagic st b = HEAP_MAGIC_FREE"
    and tot: "4096 dvd unat tot" "4096 \<le> unat tot" "unat tot + 4096 \<le> unat (lsz st b)"
  defines "rem \<equiv> b + tot"
  defines "s2 \<equiv> set_large (set_large st rem (\<lambda>h. h\<lparr>lh_size := lsz st b - tot\<rparr>)) b
      (\<lambda>h. h\<lparr>lh_size := tot\<rparr>)"
  defines "st' \<equiv> large_insert_free s2 rem"
  shows "heap_inv st' (insert rem B) {b}" "live st' (insert rem B) = live st B"
    "lsz st' b = tot" "hmagic st' b = HEAP_MAGIC_FREE"
proof -
  note P = heap_invD [OF inv b(1)]
  have hb: "hlen st b = unat (lsz st b)" using b(2) by (simp add: hlen_def)
  have span: "unat b + unat (lsz st b) \<le> heap_hi"
    using P(1,5) unfolding block_ok_def cursor_ok_def hb by simp
  have rem: "unat rem = unat b + unat tot"
    using span tot(3) by (simp add: rem_def unat_word_ariths)
  have rb: "rem \<noteq> b" using rem tot(2) by auto
  have rB: "rem \<notin> B"
  proof
    assume "rem \<in> B"
    then have "apart (b, hlen st b) (rem, hlen st rem)" "4096 \<le> hlen st rem"
      using P(2) rb heap_invD(1) [OF inv] by (auto simp: block_ok_def)
    then show False using rem tot hb by (simp add: apart_def)
  qed
  have r0: "rem \<noteq> 0" using rem tot(2) by auto
  note r = large_insert_free_sel [of s2 rem, folded st'_def]
  have szm: "unat (lsz st b - tot) = unat (lsz st b) - unat tot"
    using tot(3) by (intro unat_sub) (simp add: word_le_nat_alt)
  have sz: "lsz st' a = (if a = b then tot else if a = rem then lsz st b - tot else lsz st a)" for a
    using fun_cong [OF r(7), of a] rb by (simp add: s2_def)
  have mg: "hmagic st' = (hmagic st)(rem := HEAP_MAGIC_FREE)" by (simp add: r s2_def)
  show "lsz st' b = tot" "hmagic st' b = HEAP_MAGIC_FREE" using rb b(2) by (simp_all add: sz mg)
  have h: "a \<in> B \<Longrightarrow> a \<noteq> b \<Longrightarrow> hlen st' a = hlen st a" for a
    using rB by (cases "a = rem") (simp_all add: hlen_def sz mg)
  have h': "hlen st' b = unat tot" "hlen st' rem = unat (lsz st b) - unat tot"
    using rb b(2) by (simp_all add: hlen_def sz mg szm)
  obtain fs where fs: "dchain (lnx st) (lpv st) 0 (large_free_list st) fs"
    "set fs = {h \<in> B. hmagic st h = HEAP_MAGIC_FREE} - {b}"
    using inv by (auto simp: heap_inv_def free_list_ok_def)
  have e2: "lnx s2 = lnx st" "lpv s2 = lpv st" "large_free_list s2 = large_free_list st"
    by (simp_all add: s2_def fun_eq_iff)
  have "rem \<notin> set fs" using fs(2) rB by simp
  then have "dchain (lnx st') (lpv st') 0 (large_free_list st') (rem # fs)"
    using dchain_push [OF fs(1) r0] unfolding r(6,8,9) e2 by blast
  moreover have "set (rem # fs) = {h \<in> insert rem B. hmagic st' h = HEAP_MAGIC_FREE} - {b}"
    using fs(2) rB rb unfolding mg by auto
  ultimately have fl: "free_list_ok st' (insert rem B) {b}" unfolding free_list_ok_def by blast
  have cur: "heap_cursor st' = heap_cursor st" "slabs st' = slabs st" "slab_classes st' = slab_classes st"
    by (simp_all add: r s2_def)
  have d: "4096 dvd unat b" "4096 dvd unat (lsz st b)" using P(1) hb by (simp_all add: block_ok_def)
  have blk: "block_ok st' a" if aB: "a \<in> insert rem B" for a
  proof -
    consider "a = rem" | "a = b" | "a \<in> B" "a \<noteq> b" "a \<noteq> rem" using aB rB by blast
    then show ?thesis
    proof cases
      case 1
      then show ?thesis
        using P(1) tot d rem unfolding block_ok_def hb 1 h' cur
        by (simp add: mg)
    next
      case 2
      then show ?thesis
        using P(1) tot b(2) rb unfolding block_ok_def hb 2 h' cur by (simp add: mg)
    next
      case 3
      then show ?thesis
        using heap_invD(1) [OF inv 3(1)] unfolding block_ok_def h [OF 3(1,2)] cur by (simp add: mg)
    qed
  qed
  have ap: "apart (a, hlen st' a) (c, hlen st' c)"
    if "a \<in> insert rem B" "c \<in> insert rem B" "a \<noteq> c" for a c
  proof -
    have out: "apart (b, hlen st' b) (c, hlen st' c)" "apart (rem, hlen st' rem) (c, hlen st' c)"
      if "c \<in> B" "c \<noteq> b" for c
      using P(2) [OF that(1)] that(2) rem tot(3) unfolding h [OF that] h' hb by (auto simp: apart_def)
    have adj: "apart (b, hlen st' b) (rem, hlen st' rem)" by (simp add: apart_def rem h')
    have "apart (a, hlen st' a) (c, hlen st' c)" if "a \<in> B" "c \<in> B" "a \<noteq> b" "c \<noteq> b" "a \<noteq> c" for a c
      using heap_invD(2) [OF inv that(1,2,5)] that h by simp
    then show ?thesis using that out adj apart_sym rB by blast
  qed
  show "heap_inv st' (insert rem B) {b}"
    using rB b(2) by (intro heap_inv_large [OF inv cur(2,3,1) blk ap _ fl]) (auto simp: mg)
  have "blocks_of st' a = blocks_of st a" if "a \<in> B" for a
    using that rB b(2) by (cases "a = b"; cases "a = rem") (simp_all add: blocks_of_def mg sz cur)
  moreover have "blocks_of st' rem = {}" by (simp add: blocks_of_def mg)
  ultimately show "live st' (insert rem B) = live st B" by (simp add: live_def)
qed

lemma large_mark_post:
  assumes inv: "heap_inv st B {b}" and b: "b \<in> B" "hmagic st b = HEAP_MAGIC_FREE"
    and n: "n + 32 \<le> unat (lsz st b)"
  defines "st' \<equiv> set_large (set_magic st b HEAP_MAGIC_ALLOC) b (\<lambda>h. h\<lparr>lh_next := 0, lh_prev := 0\<rparr>)"
  shows "alloc_post st B (heap_cursor st) n (b + LARGE_HDR_SIZE) st'"
proof -
  let ?x = "b + LARGE_HDR_SIZE" and ?m = "unat (lsz st b) - 32"
  note i = large_mark_inv [OF inv b, folded st'_def]
  have xb: "(?x, ?m) \<in> blocks_of st' b" by (simp add: i(3))
  note P = heap_invD [OF i(1) b(1)]
  note sp = blocks_of_span [OF P(1,3) xb]
  have "apart (?x, ?m) c" if c: "c \<in> live st B" for c
  proof -
    obtain a where a: "a \<in> B" "c \<in> blocks_of st a" using c by (auto simp: live_def)
    then have "a \<noteq> b" using b(2) by (auto simp: blocks_of_def)
    moreover from this have "blocks_of st' a = blocks_of st a" by (simp add: blocks_of_def st'_def)
    ultimately show ?thesis using blocks_apart [OF i(1) b(1) a(1) _ xb] a(2) by simp
  qed
  moreover have "heap_lo \<le> unat b" "unat b + hlen st' b \<le> unat (heap_cursor st')"
    using P(1) by (simp_all add: block_ok_def)
  moreover have "?x \<noteq> 0" using sp(1) by (metis add_is_0 le_zero_eq numeral_neq_zero unat_0)
  ultimately show ?thesis
    unfolding alloc_post_def using i(1,2) sp n
    by (intro exI [of _ B]) (auto simp: st'_def intro!: exI [of _ ?m])
qed

lemma large_carve_post:
  assumes inv: "heap_inv st B {b}" and b: "b \<in> B" "hmagic st b = HEAP_MAGIC_FREE"
    and tot: "4096 dvd unat tot" "4096 \<le> unat tot" "unat tot \<le> unat (lsz st b)" "n + 32 \<le> unat tot"
    and r: "large_carve st b tot = (x, st')"
  shows "alloc_post st B (heap_cursor st) n x st'" "x \<noteq> 0"
proof -
  note P = heap_invD [OF inv b(1)]
  have "x = b + LARGE_HDR_SIZE" using r by (simp add: large_carve_def Let_def)
  moreover have "heap_lo \<le> unat b" "unat b + 4096 \<le> heap_hi" using P(1,5) unfolding block_ok_def cursor_ok_def by simp_all
  then have "unat (b + LARGE_HDR_SIZE) = unat b + 32" by (simp add: kdefs unat_word_ariths)
  ultimately show "x \<noteq> 0" by auto
  have "unat (lsz st b) \<le> heap_hi"
    using P(1,5) b(2) unfolding block_ok_def cursor_ok_def hlen_def by simp
  then have u: "unat (tot + PAGE_SIZE + LARGE_HDR_SIZE) = unat tot + 4128"
    using tot(3) by (simp add: kdefs unat_word_ariths)
  show "alloc_post st B (heap_cursor st) n x st'"
  proof (cases "tot + PAGE_SIZE + LARGE_HDR_SIZE \<le> lsz st b")
    case False
    then show ?thesis using r large_mark_post [OF inv b] tot(3,4) by (simp add: large_carve_def Let_def)
  next
    case True
    define s3 where "s3 = large_insert_free (set_large (set_large st (b + tot)
      (\<lambda>h. h\<lparr>lh_size := lsz st b - tot\<rparr>)) b (\<lambda>h. h\<lparr>lh_size := tot\<rparr>)) (b + tot)"
    have "unat tot + 4096 \<le> unat (lsz st b)" using True by (simp add: word_le_nat_alt u)
    note sp = large_split_inv [OF inv b tot(1,2) this, folded s3_def]
    have c: "heap_cursor s3 = heap_cursor st" "vmem s3 = vmem st"
      by (simp_all add: s3_def large_insert_free_sel)
    have "x = b + LARGE_HDR_SIZE" "st' = set_large (set_magic s3 b HEAP_MAGIC_ALLOC) b
        (\<lambda>h. h\<lparr>lh_next := 0, lh_prev := 0\<rparr>)"
      using r True by (simp_all add: large_carve_def Let_def s3_def)
    moreover have "b \<in> insert (b + tot) B" using b(1) by simp
    ultimately have "alloc_post s3 (insert (b + tot) B) (heap_cursor s3) n x st'"
      using large_mark_post [OF sp(1) _ sp(4)] sp(3) tot(4) by simp
    then show ?thesis by (rule alloc_post_trans) (simp_all add: sp(2) c)
  qed
qed

text \<open>A block made of freshly mapped pages.\<close>

lemma large_grow_inv:
  assumes inv: "heap_inv st B {}" and b: "unat b + unat sz = unat (heap_cursor st)" "heap_lo \<le> unat b"
      "4096 dvd unat b" "4096 dvd unat sz" "4096 \<le> unat sz"
      "\<And>a. a \<in> B \<Longrightarrow> unat a + hlen st a \<le> unat b"
  defines "st' \<equiv> set_magic (set_large st b (\<lambda>h. h\<lparr>lh_size := sz, lh_next := 0, lh_prev := 0\<rparr>))
      b HEAP_MAGIC_FREE"
  shows "heap_inv st' (insert b B) {b}" "live st' (insert b B) = live st B"
proof -
  have bB: "b \<notin> B"
  proof
    assume "b \<in> B"
    then have "4096 \<le> hlen st b" using heap_invD(1) [OF inv] by (simp add: block_ok_def)
    with b(6) [OF \<open>b \<in> B\<close>] show False by simp
  qed
  have hB: "hlen st' a = hlen st a" if "a \<in> B" for a
    using that bB by (cases "a = b") (simp_all add: hlen_def st'_def)
  have hb: "hlen st' b = unat sz" by (simp add: hlen_def st'_def)
  obtain fs where fs: "dchain (lnx st) (lpv st) 0 (large_free_list st) fs"
    "set fs = {h \<in> B. hmagic st h = HEAP_MAGIC_FREE}"
    using inv by (auto simp: heap_inv_def free_list_ok_def)
  have "dchain (lnx st') (lpv st') 0 (large_free_list st') fs = dchain (lnx st) (lpv st) 0 (large_free_list st') fs"
    by (rule dchain_cong) (use fs(2) bB in \<open>auto simp: st'_def\<close>)
  then have "dchain (lnx st') (lpv st') 0 (large_free_list st') fs" using fs(1) by (simp add: st'_def)
  moreover have "set fs = {h \<in> insert b B. hmagic st' h = HEAP_MAGIC_FREE} - {b}"
    using fs(2) bB by (auto simp: st'_def)
  ultimately have fl: "free_list_ok st' (insert b B) {b}" unfolding free_list_ok_def by blast
  have blk: "block_ok st' a" if "a \<in> insert b B" for a
  proof (cases "a = b")
    case True
    then show ?thesis using b unfolding block_ok_def True hb by (simp add: st'_def)
  next
    case False
    then have "a \<in> B" using that by simp
    then show ?thesis
      using heap_invD(1) [OF inv \<open>a \<in> B\<close>] False unfolding block_ok_def hB [OF \<open>a \<in> B\<close>]
      by (simp add: st'_def)
  qed
  have ap: "apart (a, hlen st' a) (c, hlen st' c)" if "a \<in> insert b B" "c \<in> insert b B" "a \<noteq> c" for a c
    using that b(6) [of a] b(6) [of c] hB hb heap_invD(2) [OF inv, of a c] bB
    by (cases "a = b"; cases "c = b") (auto simp: apart_def)
  show "heap_inv st' (insert b B) {b}"
    by (rule heap_inv_large [OF inv _ _ _ blk ap _ fl]) (use bB in \<open>auto simp: st'_def\<close>)
  have "blocks_of st' a = blocks_of st a" if "a \<in> B" for a
    using that bB by (cases "a = b") (simp_all add: blocks_of_def st'_def)
  moreover have "blocks_of st' b = {}" by (simp add: blocks_of_def st'_def)
  ultimately show "live st' (insert b B) = live st B" by (simp add: live_def)
qed

lemma large_total:
  assumes "unat sz \<le> 274877906944"
  defines "tot \<equiv> ALIGN_UP (sz + LARGE_HDR_SIZE) PAGE_SIZE"
  shows "4096 dvd unat tot" "unat sz + 32 \<le> unat tot" "4096 \<le> unat tot" "unat tot \<le> 274877915136"
    "unat (tot div PAGE_SIZE) * 4096 = unat tot" "unat (tot div PAGE_SIZE) < 100000000"
    "(tot div PAGE_SIZE) * PAGE_SIZE = tot"
proof -
  have u: "unat (sz + LARGE_HDR_SIZE) = unat sz + 32"
    using assms(1) by (simp add: kdefs unat_word_ariths)
  have t: "unat tot = (unat sz + 32 + 4095) div 4096 * 4096"
    using assms(1) unat_page_up [of "sz + LARGE_HDR_SIZE"] u by (simp add: tot_def PAGE_SIZE_def)
  show d: "4096 dvd unat tot" unfolding t by simp
  show ge: "unat sz + 32 \<le> unat tot" unfolding t by linarith
  show "4096 \<le> unat tot" using d ge by (intro dvd_imp_le) simp_all
  show b: "unat tot \<le> 274877915136" unfolding t using assms(1) by linarith
  have p: "unat (tot div PAGE_SIZE) = unat tot div 4096" by (simp add: unat_div PAGE_SIZE_def)
  show m: "unat (tot div PAGE_SIZE) * 4096 = unat tot" using d by (simp add: p)
  show "unat (tot div PAGE_SIZE) < 100000000" using b unfolding p by linarith
  have "unat ((tot div PAGE_SIZE) * PAGE_SIZE) = unat tot"
    using m b by (simp add: unat_word_ariths PAGE_SIZE_def)
  then show "(tot div PAGE_SIZE) * PAGE_SIZE = tot" by (simp only: u64_eq_iff_unat)
qed

lemma large_alloc_post:
  assumes inv: "heap_inv st B {}" and sz: "unat sz \<le> 274877906944"
  shows "\<exists>x st'. large_alloc st sz = Some (x, st') \<and> alloc_post st B (heap_cursor st) (unat sz) x st' \<and>
    (x = 0 \<longrightarrow> fst (heap_map_pages st (ALIGN_UP (sz + LARGE_HDR_SIZE) PAGE_SIZE div PAGE_SIZE)) = 0)"
proof -
  define tot where "tot = ALIGN_UP (sz + LARGE_HDR_SIZE) PAGE_SIZE"
  note t = large_total [OF sz, folded tot_def]
  obtain fs where fs: "dchain (lnx st) (lpv st) 0 (large_free_list st) fs"
    "set fs = {h \<in> B. hmagic st h = HEAP_MAGIC_FREE}"
    using inv by (auto simp: heap_inv_def free_list_ok_def)
  obtain b where b: "large_best st tot (large_free_list st) 0 = Some b" "b = 0 \<or> b \<in> set fs"
    "b \<noteq> 0 \<longrightarrow> tot \<le> lsz st b"
    using large_best_chain [OF dchain_chain [OF fs(1)], of 0 tot] by blast
  show ?thesis
  proof (cases "b = 0")
    case False
    then have bB: "b \<in> B" "hmagic st b = HEAP_MAGIC_FREE" "unat tot \<le> unat (lsz st b)"
      using b fs(2) by (auto simp: word_le_nat_alt)
    define s where "s = large_remove_free st b"
    note ri = large_remove_inv [OF inv bB(1,2), folded s_def]
    obtain xs ys where "fs = xs @ b # ys" using False b(2) split_list [of b fs] by auto
    with fs(1) have d: "dchain (lnx st) (lpv st) 0 (large_free_list st) (xs @ b # ys)" by simp
    have "lpv st b \<noteq> b"
      using dchain_links(1) [OF d] chain_distinct [OF dchain_chain [OF d]] False last_in_set [of xs]
      by auto
    note r = large_remove_free_sel [OF this, folded s_def]
    have m: "hmagic s b = HEAP_MAGIC_FREE" "lsz s b = lsz st b"
      using bB(2) fun_cong [OF r(7), of b] by (simp_all add: r(1))
    obtain x st' where c: "large_carve s b tot = (x, st')" by fastforce
    have "alloc_post s B (heap_cursor s) (unat sz) x st'" "x \<noteq> 0"
      using large_carve_post [OF ri(1) bB(1) m(1) t(1,3) _ t(2) c] bB(3) m(2) by simp_all
    moreover have "alloc_post st B (heap_cursor st) (unat sz) x st'"
      using calculation(1) by (rule alloc_post_trans) (simp_all add: ri(2) r)
    ultimately show ?thesis
      using b(1) False c by (simp add: large_alloc_def Let_def s_def flip: tot_def)
  next
    case True
    obtain p s where m: "heap_map_pages st (tot div PAGE_SIZE) = (p, s)" by fastforce
    have c: "cursor_ok st" using inv by (simp add: heap_inv_def)
    note f = heap_map_pages_cases [OF m c t(6)]
    have le: "unat (heap_cursor st) \<le> unat (heap_cursor s)"
      using f(5,6) by (cases "p = 0") simp_all
    note si = heap_inv_same [OF inv f(1,3) le]
    show ?thesis
    proof (cases "p = 0")
      case p0: True
      then have "alloc_post st B (heap_cursor st) (unat sz) 0 s"
        unfolding alloc_post_def using si f(4) le by blast
      then show ?thesis
        using b(1) True p0 m by (simp add: large_alloc_def Let_def flip: tot_def)
    next
      case p0: False
      then have p: "p = heap_cursor st" "unat p + unat tot = unat (heap_cursor s)"
        using f(6) t(5) by simp_all
      have lo: "heap_lo \<le> unat p" "4096 dvd unat p" using c by (simp_all add: cursor_ok_def p(1))
      have hl: "hlen s = hlen st" using f(1) by (simp add: same_heap_def hlen_def fun_eq_iff)
      have "unat a + hlen s a \<le> unat p" if "a \<in> B" for a
        using heap_invD(1) [OF inv that] by (simp add: block_ok_def hl p(1))
      note g = large_grow_inv [OF si(1) p(2) lo t(1,3) this]
      define s' where "s' = set_magic (set_large s p (\<lambda>h. h\<lparr>lh_size := tot, lh_next := 0, lh_prev := 0\<rparr>))
          p HEAP_MAGIC_FREE"
      obtain x st' where cv: "large_carve s' p tot = (x, st')" by fastforce
      have "alloc_post s' (insert p B) (heap_cursor s') (unat sz) x st'" "x \<noteq> 0"
        using large_carve_post [where st = s' and B = "insert p B" and b = p, OF _ _ _ t(1,3) _ t(2) cv] g(1)
        by (simp_all add: s'_def)
      moreover have "alloc_post st B (heap_cursor st) (unat sz) x st'"
        using calculation(1) by (rule alloc_post_trans) (use g(2) si(2) f(4) le in \<open>simp_all add: s'_def\<close>)
      ultimately show ?thesis
        using b(1) True p0 m cv t(7) by (simp add: large_alloc_def Let_def s'_def flip: tot_def)
    qed
  qed
qed

lemma kmalloc_order_spec:
  "order \<le> 12 \<Longrightarrow> order \<le> kmalloc_order order sz \<and>
     (unat sz \<le> 2 ^ 11 \<and> order \<le> 11 \<longrightarrow> kmalloc_order order sz \<le> 11) \<and>
     (kmalloc_order order sz \<le> 11 \<longrightarrow> unat sz \<le> 2 ^ kmalloc_order order sz)"
proof (induction order sz rule: kmalloc_order.induct)
  case (1 order sz)
  have m: "SLAB_MAX_ORDER = 11" by (simp add: kdefs)
  show ?case
  proof (cases "2 ^ order < unat sz \<and> order \<le> SLAB_MAX_ORDER")
    case True
    then have "kmalloc_order order sz = kmalloc_order (Suc order) sz"
      by (subst kmalloc_order.simps) simp
    moreover have "order \<noteq> 11 \<or> \<not> unat sz \<le> 2 ^ 11" using True by auto
    ultimately show ?thesis using "1.IH" [OF True] True by (auto simp: m)
  next
    case False
    then have "kmalloc_order order sz = order" by (subst kmalloc_order.simps) auto
    then show ?thesis using False by (auto simp: m)
  qed
qed

definition kmalloc_pages :: "u64 \<Rightarrow> u64" where
  \<comment> \<open>the pages an allocation maps when the free blocks do not serve it\<close>
  "kmalloc_pages sz = (if sz \<le> LARGE_THRESHOLD \<and> kmalloc_order SLAB_MIN_ORDER sz \<le> SLAB_MAX_ORDER then 1
     else ALIGN_UP (sz + LARGE_HDR_SIZE) PAGE_SIZE div PAGE_SIZE)"

lemma kmalloc_post:
  assumes inv: "heap_inv st B {}" and sz: "unat sz \<le> 274877906944"
  shows "\<exists>x st'. kmalloc st sz = Some (x, st') \<and> alloc_post st B (heap_cursor st) (unat sz) x st' \<and>
    (x = 0 \<and> sz \<noteq> 0 \<longrightarrow> fst (heap_map_pages st (kmalloc_pages sz)) = 0)"
proof -
  define k where "k = kmalloc_order SLAB_MIN_ORDER sz"
  note o = kmalloc_order_spec [of 4 sz, folded SLAB_MIN_ORDER_def k_def]
  show ?thesis
  proof (cases "sz = 0 \<or> \<not> (sz \<le> LARGE_THRESHOLD \<and> k \<le> SLAB_MAX_ORDER)")
    case True
    moreover have "alloc_post st B (heap_cursor st) 0 0 st" unfolding alloc_post_def using inv by auto
    ultimately show ?thesis
      using large_alloc_post [OF inv sz] by (auto simp: kmalloc_def kmalloc_pages_def simp flip: k_def)
  next
    case False
    then have "4 \<le> k" "k \<le> 11" "unat sz \<le> 2 ^ k" using o by (simp_all add: kdefs)
    then show ?thesis using slab_alloc_post [OF inv] False by (simp add: kmalloc_def kmalloc_pages_def flip: k_def)
  qed
qed

section \<open>Release\<close>

definition slab_unmark :: "nat \<Rightarrow> slab_page \<Rightarrow> slab_page" where
  "slab_unmark i s = s\<lparr>
     sp_bitmap := (sp_bitmap s)(i div 64 := sp_bitmap s (i div 64) AND NOT (push_bit (i mod 64) 1)),
     sp_free_count := sp_free_count s + 1,
     sp_first_free := (if of_nat i < sp_first_free s then of_nat i else sp_first_free s)\<rparr>"

lemma slab_used_unmark: "slab_used (slab_unmark i s) j \<longleftrightarrow> j \<noteq> i \<and> slab_used s j"
  using frame_eq_divmod [of i j] by (auto simp: slab_used_def slab_unmark_def bit_simps)

lemma slab_unmark_ok:
  assumes "slab_ok sp k" "i < unat (sp_capacity sp)" "slab_used sp i"
  shows "slab_ok (slab_unmark i sp) k"
proof -
  have e: "slab_slots (slab_unmark i sp) = insert i (slab_slots sp)"
    using assms(2) by (auto simp: slab_slots_def slab_used_unmark) (auto simp: slab_unmark_def)
  have i: "i \<notin> slab_slots sp" using assms(3) by (simp add: slab_slots_def)
  have "slab_slots sp \<subseteq> {..<unat (sp_capacity sp)}" by (auto simp: slab_slots_def)
  then have "card (slab_slots sp) \<le> unat (sp_capacity sp)"
    using card_mono [of "{..<unat (sp_capacity sp)}"] by fastforce
  moreover have "unat (sp_capacity sp) \<le> 252"
    using assms(1) slab_data_off_cap(5) [of k] by (simp add: slab_ok_def slab_shape_def)
  ultimately have "unat (sp_free_count sp) \<le> 252" using assms(1) by (simp add: slab_ok_def)
  then have "unat (sp_free_count sp + 1) = unat (sp_free_count sp) + 1" by (simp add: unat_word_ariths)
  then show ?thesis
    using assms(1) i by (simp add: slab_ok_def e slab_shape_def) (simp add: slab_unmark_def)
qed

lemma block_base:
  assumes "block_ok st a" "unat a < heap_hi" "(x, n) \<in> blocks_of st a"
    "unat x < unat a + 4096"
  shows "ALIGN_DOWN x PAGE_SIZE = a"
proof -
  note sp = blocks_of_span [OF assms(1-3)]
  obtain q where q: "unat a = q * 4096" using assms(1) by (auto simp: block_ok_def dvd_def mult.commute)
  have "unat x div 4096 = q" using sp(1) assms(4) q by (intro div_nat_eqI) simp_all
  then have "unat (ALIGN_DOWN x PAGE_SIZE) = unat a"
    using unat_page_down [of x] q by (simp add: PAGE_SIZE_def)
  then show ?thesis by (simp only: u64_eq_iff_unat)
qed

lemma slab_free_object:
  assumes ok: "slab_ok (slabs st a) k" and m: "hmagic st a = SLAB_PAGE_MAGIC" and a: "unat a < heap_hi"
    and i: "i < unat (sp_capacity (slabs st a))" "slab_used (slabs st a) i"
    and base: "ALIGN_DOWN (slab_object a (slabs st a) i) PAGE_SIZE = a"
  shows "slab_free st (slab_object a (slabs st a) i) = (True, set_slab st a (slab_unmark i))"
proof -
  let ?sp = "slabs st a"
  have sh: "slab_shape ?sp k" using ok by (simp add: slab_ok_def)
  then have k: "4 \<le> k" "k \<le> 11" and cap: "sp_capacity ?sp = slab_cap k"
    and obj: "sp_obj_size ?sp = of_nat (2 ^ k)" by (simp_all add: slab_shape_def)
  note g = slab_data_off_cap [OF k] and u = slab_object_unat [OF sh i(1) a]
  define d where "d = slab_data_off (slab_cap k) (of_nat (2 ^ k))"
  have "0 < (2 :: nat) ^ k" by simp
  then have iu: "i * 2 ^ k < 4096" using u(2) by linarith
  have ob: "slab_object a ?sp i = a + of_nat d + of_nat (i * 2 ^ k)"
    unfolding slab_object_def cap obj g(7) d_def ..
  have "unat (a + of_nat d) = unat a + d"
    using a u(2) unfolding d_def by (intro unat_add_of_nat) simp
  then have le: "\<not> slab_object a ?sp i < a + of_nat d"
    using u(1) by (simp add: word_less_nat_alt d_def)
  have off: "slab_object a ?sp i - (a + of_nat d) = of_nat (i * 2 ^ k)" by (simp add: ob)
  have uo: "unat (of_nat (i * 2 ^ k) :: u64) = i * 2 ^ k" using iu by (intro unat_of_nat_u64) simp
  have un: "unat (ucast (sp_obj_size ?sp) :: u64) = 2 ^ k"
    unfolding obj using g(7) k by (simp add: unsigned_ucast_eq take_bit_nat_eq_self_iff)
  have md: "(of_nat (i * 2 ^ k) :: u64) mod ucast (sp_obj_size ?sp) = 0"
    by (simp only: u64_eq_iff_unat unat_mod uo un) simp
  have dv: "unat ((of_nat (i * 2 ^ k) :: u64) div ucast (sp_obj_size ?sp)) = i"
    by (simp only: unat_div uo un) simp
  have i16: "i mod 2 ^ 16 = i" using i(1) g(5) cap by simp
  have "sp_bitmap ?sp (i div 64) AND push_bit (i mod 64) 1 \<noteq> 0"
    using i(2) by (simp add: slab_used_def bit_iff_and_push_bit_not_eq_0)
  moreover have d': "slab_data_off (sp_capacity ?sp) (sp_obj_size ?sp) = d"
    by (simp only: cap obj d_def)
  moreover have "(slab_object a ?sp i - (a + of_nat d)) mod ucast (sp_obj_size ?sp) = 0"
    by (simp only: off md)
  moreover have "unat ((slab_object a ?sp i - (a + of_nat d)) div ucast (sp_obj_size ?sp)) mod 2 ^ 16 = i"
    by (simp only: off dv i16)
  moreover have "\<not> unat (sp_capacity ?sp) \<le> i" using i(1) by simp
  ultimately show ?thesis
    using m le unfolding slab_free_def base Let_def slab_unmark_def [abs_def] d'
    by (simp only: if_True if_False simp_thms)
qed

lemma live_split:
  assumes "heap_inv st B X" "a \<in> B" "u \<in> blocks_of st a"
  shows "live st B - {u} = (\<Union>c \<in> B - {a}. blocks_of st c) \<union> (blocks_of st a - {u})"
proof -
  have "live st B = (\<Union>c \<in> B - {a}. blocks_of st c) \<union> blocks_of st a"
    by (rule live_change [OF assms(2)]) simp
  moreover have "u \<notin> (\<Union>c \<in> B - {a}. blocks_of st c)"
  proof
    assume "u \<in> (\<Union>c \<in> B - {a}. blocks_of st c)"
    then obtain c where c: "c \<in> B" "a \<noteq> c" "u \<in> blocks_of st c" by auto
    obtain x n where u: "u = (x, n)" by fastforce
    have "apart u u" using blocks_apart [OF assms(1,2) c(1,2) assms(3) c(3)] .
    moreover have "0 < n"
      using blocks_of_span(4) [OF heap_invD(1,3) [OF assms(1,2)]] assms(3) u by blast
    ultimately show False by (simp add: u apart_def)
  qed
  ultimately show ?thesis by blast
qed

lemma image_remove: "(\<And>j. j \<in> A \<Longrightarrow> i \<noteq> j \<Longrightarrow> f i \<noteq> f j) \<Longrightarrow> f ` (A - {i}) = f ` A - {f i}"
  by (auto simp: image_iff) metis

lemma blocks_of_unmark:
  assumes "hmagic st a = SLAB_PAGE_MAGIC" "slab_shape (slabs st a) k" "unat a < heap_hi"
    "i < unat (sp_capacity (slabs st a))"
  shows "blocks_of (set_slab st a (slab_unmark i)) a =
    blocks_of st a - {(slab_object a (slabs st a) i, unat (sp_obj_size (slabs st a)))}"
proof -
  have o: "slab_object a (slab_unmark i sp) = slab_object a sp" for sp
    by (simp add: slab_object_def slab_unmark_def fun_eq_iff)
  have inj: "slab_object a (slabs st a) i \<noteq> slab_object a (slabs st a) j"
    if "j < unat (sp_capacity (slabs st a))" "i \<noteq> j" for j
  proof
    assume e: "slab_object a (slabs st a) i = slab_object a (slabs st a) j"
    have "unat (sp_obj_size (slabs st a)) \<noteq> 0"
      using assms(2) slab_data_off_cap(7) [of k] by (auto simp: slab_shape_def)
    then show False
      using slab_objects_apart [OF assms(2,4) that assms(3)] unfolding e by (simp add: apart_def)
  qed
  have e: "{j. j < unat (sp_capacity (slabs st a)) \<and> slab_used (slab_unmark i (slabs st a)) j} =
      {j. j < unat (sp_capacity (slabs st a)) \<and> slab_used (slabs st a) j} - {i}"
    by (auto simp: slab_used_unmark)
  have f: "sp_capacity (slab_unmark i sp) = sp_capacity sp" "sp_obj_size (slab_unmark i sp) = sp_obj_size sp"
    for sp by (simp_all add: slab_unmark_def)
  show ?thesis
    unfolding blocks_of_def set_slab_sel fun_upd_same f o e using assms(1) inj
    by (simp only: if_True simp_thms) (rule image_remove, simp)
qed

lemma kfree_vmem: "vmem (kfree st p) = vmem st"
  by (simp add: kfree_def slab_free_def large_free_def large_insert_free_sel Let_def)

lemma kfree_inv:
  assumes inv: "heap_inv st B {}" and u: "(p, m) \<in> live st B"
  shows "heap_inv (kfree st p) B {} \<and> live (kfree st p) B = live st B - {(p, m)}"
proof -
  obtain a where a: "a \<in> B" "(p, m) \<in> blocks_of st a" using u by (auto simp: live_def)
  note A = heap_invD [OF inv a(1)]
  note sp = blocks_of_span [OF A(1,3) a(2)]
  have p0: "p \<noteq> 0" using sp(1) by (metis add_is_0 le_zero_eq numeral_neq_zero unat_0)
  show ?thesis
  proof (cases "hmagic st a = SLAB_PAGE_MAGIC")
    case True
    then obtain k where k: "slab_ok (slabs st a) k" using A(1) by (auto simp: block_ok_def)
    then have sh: "slab_shape (slabs st a) k" by (simp add: slab_ok_def)
    obtain i where i: "i < unat (sp_capacity (slabs st a))" "slab_used (slabs st a) i"
      "p = slab_object a (slabs st a) i" "m = unat (sp_obj_size (slabs st a))"
      using a(2) True by (auto simp: blocks_of_def)
    have "unat p < unat a + 4096" using sp(2,4) True by (simp add: hlen_def)
    then have "ALIGN_DOWN p PAGE_SIZE = a" using block_base [OF A(1,3) a(2)] by simp
    then have "kfree st p = set_slab st a (slab_unmark i)"
      using slab_free_object [OF k True A(3) i(1,2)] p0 by (simp add: kfree_def i(3))
    moreover note slab_update [where f = "slab_unmark i", OF inv a(1) True k slab_unmark_ok [OF k i(1,2)]]
    ultimately show ?thesis
      using live_split [OF inv a] blocks_of_unmark [OF True sh A(3) i(1)]
      by (simp add: i(3,4)) (simp add: slab_unmark_def)
  next
    case False
    then have al: "hmagic st a = HEAP_MAGIC_ALLOC" "p = a + LARGE_HDR_SIZE"
      using a(2) by (auto simp: blocks_of_def split: if_splits)
    then have "unat p = unat a + 32" using A(3) unat_add_of_nat [of a 32] by (simp add: kdefs)
    then have "ALIGN_DOWN p PAGE_SIZE = a" using block_base [OF A(1,3) a(2)] by simp
    then have "kfree st p = large_insert_free st a"
      using al p0 by (simp add: kfree_def slab_free_def large_free_def Let_def)
    moreover have "blocks_of st a - {(p, m)} = {}" using a(2) al by (auto simp: blocks_of_def)
    ultimately show ?thesis
      using large_insert_inv [OF inv a(1) al(1)] live_split [OF inv a] by (simp only: Un_empty_right) simp
  qed
qed

end
