(* ===== verification/HeapContract.thy ===== *)
theory HeapContract
  imports HeapInv
begin

text \<open>
  The contract of the kernel heap over its invariant: the set of live blocks, what
  \<^verbatim>\<open>kmalloc\<close>, \<^verbatim>\<open>kzalloc\<close>, \<^verbatim>\<open>kfree\<close> and \<^verbatim>\<open>krealloc\<close> do to it and to the contents of the
  blocks, and the interface the rest of the kernel relies on.
\<close>

section \<open>The contract of the heap\<close>

definition heap_ok :: "'a heap_state_scheme \<Rightarrow> (u64 \<times> nat) set \<Rightarrow> bool" where
  \<comment> \<open>the heap is well formed and \<open>L\<close> is the set of blocks handed out\<close>
  "heap_ok st L \<longleftrightarrow> (\<exists>B. heap_inv st B {} \<and> live st B = L)"

lemma heap_ok_span:
  assumes "heap_ok st L" "(p, m) \<in> L"
  shows "heap_lo \<le> unat p" "unat p + m \<le> unat (heap_cursor st)" "unat p + m \<le> heap_hi" "p \<noteq> 0"
proof -
  obtain B a where B: "heap_inv st B {}" "a \<in> B" "(p, m) \<in> blocks_of st a"
    using assms by (auto simp: heap_ok_def live_def)
  note A = heap_invD [OF B(1,2)]
  note sp = blocks_of_span [OF A(1,3) B(3)]
  show lo: "heap_lo \<le> unat p" and hi: "unat p + m \<le> unat (heap_cursor st)"
    using sp(1,2) A(1) by (simp_all add: block_ok_def)
  show "unat p + m \<le> heap_hi" using hi A(5) by (simp add: cursor_ok_def)
  show "p \<noteq> 0" using lo by auto
qed

lemma heap_ok_apart:
  assumes "heap_ok st L" "u \<in> L" "v \<in> L" "u \<noteq> v"
  shows "apart u v"
proof -
  obtain B where B: "heap_inv st B {}" "live st B = L" using assms(1) by (auto simp: heap_ok_def)
  obtain a where a: "a \<in> B" "u \<in> blocks_of st a" using B(2) assms(2) by (auto simp: live_def)
  obtain b where b: "b \<in> B" "v \<in> blocks_of st b" using B(2) assms(3) by (auto simp: live_def)
  show ?thesis
  proof (cases "a = b")
    case False
    then show ?thesis using blocks_apart [OF B(1) a(1) b(1) False a(2) b(2)] by simp
  next
    case True
    note A = heap_invD [OF B(1) a(1)]
    have sl: "hmagic st a = SLAB_PAGE_MAGIC"
      using a(2) b(2) True assms(4) by (auto simp: blocks_of_def split: if_splits)
    then obtain k where "slab_shape (slabs st a) k"
      using A(1) by (auto simp: block_ok_def slab_ok_def)
    then show ?thesis
      using a(2) b(2) assms(4) sl slab_objects_apart [OF _ _ _ _ A(3)]
      by (auto simp: blocks_of_def True [symmetric])
  qed
qed

abbreviation bytes :: "'a heap_state_scheme \<Rightarrow> u64 \<Rightarrow> nat \<Rightarrow> u8" where
  "bytes st p i \<equiv> vmem st (p + of_nat i)"

abbreviation alloc_limit :: nat where "alloc_limit \<equiv> 274877906944"

definition keeps :: "'a heap_state_scheme \<Rightarrow> 'a heap_state_scheme \<Rightarrow> (u64 \<times> nat) set \<Rightarrow> bool" where
  \<comment> \<open>the contents of every block of \<open>L\<close> are the same in both states\<close>
  "keeps st st' L \<longleftrightarrow> (\<forall>(p, m) \<in> L. \<forall>i < m. bytes st' p i = bytes st p i)"

lemma heap_ok_byte:
  assumes "heap_ok st L" "(p, m) \<in> L" "i < m"
  shows "unat (p + of_nat i) = unat p + i" "unat (p + of_nat i) < unat (heap_cursor st)"
proof -
  note sp = heap_ok_span [OF assms(1,2)]
  show "unat (p + of_nat i) = unat p + i" using sp(3) assms(3) by (intro unat_add_of_nat) simp
  then show "unat (p + of_nat i) < unat (heap_cursor st)" using sp(2) assms(3) by simp
qed

lemma kmalloc_ok:
  assumes "heap_ok st L" "unat sz \<le> alloc_limit"
  obtains (null) st' where "kmalloc st sz = Some (0, st')" "heap_ok st' L" "keeps st st' L"
      "\<And>v. unat v < heap_lo \<Longrightarrow> vmem st' v = vmem st v"
  | (block) p m st' where "kmalloc st sz = Some (p, st')" "p \<noteq> 0" "unat sz \<le> m"
      "heap_ok st' (insert (p, m) L)" "\<And>b. b \<in> L \<Longrightarrow> apart (p, m) b" "16 dvd unat p" "keeps st st' L"
      "\<And>v. unat v < heap_lo \<Longrightarrow> vmem st' v = vmem st v"
proof -
  obtain B where B: "heap_inv st B {}" "live st B = L" using assms(1) by (auto simp: heap_ok_def)
  obtain p st' where r: "kmalloc st sz = Some (p, st')"
    and a: "alloc_post st B (heap_cursor st) (unat sz) p st'"
    using kmalloc_post [OF B(1) assms(2)] by blast
  from a obtain B' where B': "heap_inv st' B' {}"
    "\<And>v. unat v < unat (heap_cursor st) \<Longrightarrow> vmem st' v = vmem st v"
    "p = 0 \<and> live st' B' = L \<or> p \<noteq> 0 \<and> (\<exists>m \<ge> unat sz. live st' B' = insert (p, m) L \<and>
       (\<forall>b \<in> L. apart (p, m) b) \<and> 16 dvd unat p)"
    unfolding alloc_post_def B(2) by blast
  have "keeps st st' L"
    unfolding keeps_def using B'(2) heap_ok_byte(2) [OF assms(1)] by blast
  note kp = this
  have "heap_lo \<le> unat (heap_cursor st)" using B(1) by (simp add: heap_inv_def cursor_ok_def)
  then have low: "\<And>v. unat v < heap_lo \<Longrightarrow> vmem st' v = vmem st v" using B'(2) by simp
  show thesis
  proof (cases "p = 0")
    case True
    then have "heap_ok st' L" using B'(1,3) by (auto simp: heap_ok_def)
    then show ?thesis using null r True kp low by simp
  next
    case False
    then obtain m where m: "unat sz \<le> m" "live st' B' = insert (p, m) L"
      "\<And>b. b \<in> L \<Longrightarrow> apart (p, m) b" "16 dvd unat p"
      using B'(3) by auto
    then have "heap_ok st' (insert (p, m) L)" using B'(1) by (auto simp: heap_ok_def)
    then show ?thesis using block [OF r False m(1) _ m(3,4) kp low] by blast
  qed
qed

text \<open>
  C4: kmalloc always returns, for every request up to 256 GB.  It answers NULL and leaves the
  set of live blocks as it was, or it answers a 16-byte aligned block of at least the
  requested size that overlaps none of the blocks handed out and not yet freed; in both cases
  the heap stays well formed and the contents of every live block are unchanged.
\<close>

theorem kmalloc_correct:
  assumes "heap_ok st L" "unat sz \<le> alloc_limit"
  shows "\<exists>p st'. kmalloc st sz = Some (p, st') \<and> keeps st st' L \<and>
    (if p = 0 then heap_ok st' L
     else \<exists>m \<ge> unat sz. heap_ok st' (insert (p, m) L) \<and> (\<forall>b \<in> L. apart (p, m) b) \<and> 16 dvd unat p)"
  using assms by (cases rule: kmalloc_ok) auto

text \<open>
  C5: kfree of a live block takes exactly that block out of the live set, whether it is a slab
  object or a large block, and touches no client data.
\<close>

theorem kfree_correct:
  assumes "heap_ok st L" "(p, m) \<in> L"
  shows "heap_ok (kfree st p) (L - {(p, m)}) \<and> vmem (kfree st p) = vmem st"
proof -
  obtain B where B: "heap_inv st B {}" "live st B = L" using assms(1) by (auto simp: heap_ok_def)
  then have "heap_ok (kfree st p) (L - {(p, m)})"
    using kfree_inv [OF B(1), of p m] assms(2) by (auto simp: heap_ok_def)
  then show ?thesis by (simp add: kfree_vmem)
qed

lemma kfree_ok: "heap_ok st L \<Longrightarrow> (p, m) \<in> L \<Longrightarrow> heap_ok (kfree st p) (L - {(p, m)})"
  unfolding heap_ok_def using kfree_inv by fastforce

lemma heap_ok_vmem [simp]: "heap_ok (st\<lparr>vmem := v\<rparr>) L = heap_ok st L"
proof -
  have "hlen (st\<lparr>vmem := v\<rparr>) = hlen st" by (simp add: hlen_def fun_eq_iff)
  then have "heap_inv (st\<lparr>vmem := v\<rparr>) B {} = heap_inv st B {}" for B
    by (simp add: heap_inv_def block_ok_def cursor_ok_def classes_ok_def free_list_ok_def)
  moreover have "live (st\<lparr>vmem := v\<rparr>) B = live st B" for B
    by (simp add: live_def blocks_of_def)
  ultimately show ?thesis by (simp add: heap_ok_def)
qed

lemma apart_bytes:
  assumes "apart (p, n) (q, m)" "i < n" "j < m"
    "unat (p + of_nat i) = unat p + i" "unat (q + of_nat j) = unat q + j"
  shows "p + of_nat i \<noteq> q + of_nat j"
proof
  assume "p + of_nat i = q + of_nat j"
  then have "unat p + i = unat q + j" using assms(4,5) by metis
  then show False using assms(1-3) by (auto simp: apart_def)
qed

text \<open>Writing inside one live block keeps the contents of the blocks apart from it.\<close>

lemma keeps_write:
  assumes "heap_ok st (insert (p, m) L)" "\<And>b. b \<in> L \<Longrightarrow> apart (p, m) b" "n \<le> m"
    "\<And>x. vmem st' x \<noteq> vmem st x \<Longrightarrow> \<exists>i<n. x = p + of_nat i"
  shows "keeps st st' L"
  unfolding keeps_def
proof (intro ballI, clarify)
  fix q k j assume q: "(q, k) \<in> L" "j < k"
  show "bytes st' q j = bytes st q j"
  proof (rule ccontr)
    assume "bytes st' q j \<noteq> bytes st q j"
    then obtain i where i: "i < n" "q + of_nat j = p + of_nat i" using assms(4) by blast
    have "i < m" using i(1) assms(3) by simp
    have "unat (p + of_nat i) = unat p + i" using heap_ok_byte(1) [OF assms(1) _ \<open>i < m\<close>] by simp
    moreover have "unat (q + of_nat j) = unat q + j"
      using heap_ok_byte(1) [OF assms(1) _ q(2)] q(1) by simp
    ultimately show False
      using apart_bytes [OF assms(2) [OF q(1)] \<open>i < m\<close> q(2)] i(2) by simp
  qed
qed

lemma keeps_trans: "keeps st st1 L \<Longrightarrow> keeps st1 st2 L \<Longrightarrow> keeps st st2 L"
  unfolding keeps_def by fastforce

lemma keeps_mono: "keeps s t A \<Longrightarrow> B \<subseteq> A \<Longrightarrow> keeps s t B"
  unfolding keeps_def by blast

lemma kzalloc_ok:
  assumes "heap_ok st L" "unat sz \<le> alloc_limit"
  shows "\<exists>p st'. kzalloc st sz = Some (p, st') \<and> keeps st st' L \<and>
    (if p = 0 then heap_ok st' L
     else \<exists>m \<ge> unat sz. heap_ok st' (insert (p, m) L) \<and> (\<forall>b \<in> L. apart (p, m) b) \<and>
            (\<forall>i < unat sz. bytes st' p i = 0))"
  using assms
proof (cases rule: kmalloc_ok)
  case (null st')
  then show ?thesis by (simp add: kzalloc_def)
next
  case (block p m st1)
  let ?st' = "st1\<lparr>vmem := memset (vmem st1) p 0 (unat sz)\<rparr>"
  note sp = heap_ok_span [OF block(4) insertI1]
  have ms: "vmem ?st' = fill (vmem st1) p (unat sz) 0" using assms(2) by (simp add: memset_fill)
  have up: "unat p + unat sz \<le> 18446744073709551616" using sp(3) block(3) by simp
  have by0: "bytes ?st' p i = 0" if "i < unat sz" for i
  proof -
    have "unat (p + of_nat i) = unat p + i" using that up by (intro unat_add_of_nat) simp
    then show ?thesis using that unfolding ms by (simp add: fill_range [OF up])
  qed
  have "keeps st1 ?st' L"
  proof (rule keeps_write [OF block(4,5,3)])
    fix x assume "vmem ?st' x \<noteq> vmem st1 x"
    then have "unat (x - p) < unat sz" unfolding ms by (auto simp: fill_def split: if_splits)
    moreover have "x = p + of_nat (unat (x - p))" by simp
    ultimately show "\<exists>i<unat sz. x = p + of_nat i" by blast
  qed
  then have "keeps st ?st' L" by (rule keeps_trans [OF block(7)])
  moreover have "kzalloc st sz = Some (p, ?st')" using block(1,2) by (simp add: kzalloc_def)
  moreover have "heap_ok ?st' (insert (p, m) L)" using block(4) by simp
  ultimately show ?thesis using by0 block(2,3,5) by (intro exI [of _ p] exI [of _ ?st']) auto
qed

text \<open>
  kzalloc returns what kmalloc returns, with every byte of the requested size zero, and
  the contents of the blocks already handed out unchanged.
\<close>

theorem kzalloc_correct:
  assumes "heap_ok st L" "unat sz \<le> alloc_limit"
  shows "\<exists>p st'. kzalloc st sz = Some (p, st') \<and> keeps st st' L \<and>
    (if p = 0 then heap_ok st' L
     else \<exists>m \<ge> unat sz. heap_ok st' (insert (p, m) L) \<and> (\<forall>b \<in> L. apart (p, m) b) \<and>
            (\<forall>i < unat sz. bytes st' p i = 0))"
  using assms by (rule kzalloc_ok)

lemma unat_ucast_u16: "unat (ucast (x :: u16) :: u64) = unat x"
proof -
  have "unat x < 65536" using unsigned_less [of x, where ?'a = nat] by simp
  then show ?thesis by (simp add: unsigned_ucast_eq take_bit_nat_eq_self)
qed

text \<open>The size that \<^verbatim>\<open>krealloc\<close> reads from the headers is the size of the live block.\<close>

lemma old_size_live:
  assumes "heap_ok st L" "(p, m) \<in> L"
  shows "unat (if hmagic st (ALIGN_DOWN p PAGE_SIZE) = SLAB_PAGE_MAGIC
      then ucast (sp_obj_size (slabs st (ALIGN_DOWN p PAGE_SIZE)))
      else lsz st (p - LARGE_HDR_SIZE) - LARGE_HDR_SIZE :: u64) = m"
proof -
  obtain B a where B: "heap_inv st B {}" "a \<in> B" "(p, m) \<in> blocks_of st a"
    using assms by (auto simp: heap_ok_def live_def)
  note A = heap_invD [OF B(1,2)]
  note sp = blocks_of_span [OF A(1,3) B(3)]
  show ?thesis
  proof (cases "hmagic st a = SLAB_PAGE_MAGIC")
    case True
    then have "unat p < unat a + 4096" using sp(2,4) by (simp add: hlen_def)
    then have "ALIGN_DOWN p PAGE_SIZE = a" using block_base [OF A(1,3) B(3)] by simp
    moreover have "m = unat (sp_obj_size (slabs st a))" using B(3) True by (auto simp: blocks_of_def)
    ultimately show ?thesis using True by (simp add: unat_ucast_u16)
  next
    case False
    then have al: "p = a + LARGE_HDR_SIZE" "m = unat (lsz st a) - 32"
      using B(3) by (auto simp: blocks_of_def split: if_splits)
    then have "unat p = unat a + 32" using A(3) unat_add_of_nat [of a 32] by (simp add: kdefs)
    then have "ALIGN_DOWN p PAGE_SIZE = a" using block_base [OF A(1,3) B(3)] by simp
    moreover have "4096 \<le> unat (lsz st a)" using A(1) False by (simp add: block_ok_def hlen_def)
    then have "unat (lsz st a - LARGE_HDR_SIZE) = unat (lsz st a) - 32"
      by (simp add: unat_sub_if' word_le_nat_alt kdefs)
    ultimately show ?thesis using False al by simp
  qed
qed

lemma krealloc_ok:
  assumes "heap_ok st L" "(p, m) \<in> L" "new_size \<noteq> 0" "unat new_size \<le> alloc_limit"
  shows "\<exists>q st'. krealloc st p new_size = Some (q, st') \<and> keeps st st' (L - {(p, m)}) \<and>
    (\<forall>v. unat v < heap_lo \<longrightarrow> vmem st' v = vmem st v) \<and>
    (if q = 0 then heap_ok st' L \<and> keeps st st' L
     else \<exists>k \<ge> unat new_size. heap_ok st' (insert (q, k) (L - {(p, m)})) \<and>
            (\<forall>b \<in> L - {(p, m)}. apart (q, k) b) \<and>
            (\<forall>i < min m (unat new_size). bytes st' q i = bytes st p i))"
proof -
  define old where "old = (if hmagic st (ALIGN_DOWN p PAGE_SIZE) = SLAB_PAGE_MAGIC
      then ucast (sp_obj_size (slabs st (ALIGN_DOWN p PAGE_SIZE)))
      else lsz st (p - LARGE_HDR_SIZE) - LARGE_HDR_SIZE :: u64)"
  have om: "unat old = m" using old_size_live [OF assms(1,2)] by (simp add: old_def)
  have p0: "p \<noteq> 0" using heap_ok_span(4) [OF assms(1,2)] .
  show ?thesis
  proof (cases "new_size \<le> old")
    case True
    then have "krealloc st p new_size = Some (p, st)"
      using p0 assms(3) by (simp add: krealloc_def Let_def flip: old_def)
    moreover have "insert (p, m) (L - {(p, m)}) = L" using assms(2) by auto
    moreover have "\<forall>b \<in> L - {(p, m)}. apart (p, m) b" using heap_ok_apart [OF assms(1,2)] by blast
    moreover have "unat new_size \<le> m" using True om by (simp add: word_le_nat_alt)
    ultimately show ?thesis
      using assms(1) p0 by (intro exI [of _ p] exI [of _ st]) (auto simp: keeps_def intro!: exI [of _ m])
  next
    case False
    then have big: "m < unat new_size" by (simp add: om word_le_nat_alt flip: word_less_nat_alt)
    from assms(1,4) show ?thesis
    proof (cases rule: kmalloc_ok)
      case (null st')
      then have "krealloc st p new_size = Some (0, st')"
        using p0 assms(3) False by (simp add: krealloc_def Let_def flip: old_def)
      then show ?thesis using null by (auto simp: keeps_def)
    next
      case (block q k st1)
      let ?st2 = "st1\<lparr>vmem := memcpy (vmem st1) q p m\<rparr>"
      have live2: "heap_ok ?st2 (insert (q, k) L)" using block(4) by simp
      have pL: "(p, m) \<in> insert (q, k) L" using assms(2) by simp
      have bt: "unat (q + of_nat i) = unat q + i" "unat (p + of_nat i) = unat p + i" if "i < m" for i
        using heap_ok_byte(1) [OF block(4), of q k i] heap_ok_byte(1) [OF block(4) pL that]
          that big block(3) by simp_all
      have ne: "p + of_nat i \<noteq> q + of_nat j" if "i < m" "j < m" for i j
        using apart_bytes [OF block(5) [OF assms(2)], of j i] bt that big block(3) by force
      have m64: "m \<le> 18446744073709551616" using big assms(4) by simp
      have cp: "vmem ?st2 = copied (vmem st1) q p m"
        using memcpy_copied [OF m64, of p q "vmem st1"] ne by simp
      have src: "bytes ?st2 q i = bytes st1 p i" if "i < m" for i
      proof -
        have "unat (of_nat i :: u64) = i" using that m64 by (intro unat_of_nat_u64) simp
        then show ?thesis using that unfolding cp by (simp add: copied_def)
      qed
      have k1: "keeps st1 ?st2 L"
      proof (rule keeps_write [OF block(4,5)])
        show "m \<le> k" using big block(3) by simp
        fix x assume "vmem ?st2 x \<noteq> vmem st1 x"
        then have "unat (x - q) < m" unfolding cp by (auto simp: copied_def split: if_splits)
        moreover have "x = q + of_nat (unat (x - q))" by simp
        ultimately show "\<exists>i<m. x = q + of_nat i" by blast
      qed
      have "(p, m) \<noteq> (q, k)" using block(3) big by auto
      then have "insert (q, k) L - {(p, m)} = insert (q, k) (L - {(p, m)})" by auto
      then have "heap_ok (kfree ?st2 p) (insert (q, k) (L - {(p, m)}))"
        using kfree_ok [OF live2 pL] by simp
      moreover have "keeps st (kfree ?st2 p) (L - {(p, m)})"
        using keeps_trans [OF block(7) k1] by (auto simp: keeps_def kfree_vmem)
      moreover have "bytes (kfree ?st2 p) q i = bytes st p i" if "i < m" for i
        using src [OF that] block(7) assms(2) that by (auto simp: kfree_vmem keeps_def)
      moreover have "vmem (kfree ?st2 p) v = vmem st v" if lo: "unat v < heap_lo" for v
      proof -
        have "\<not> unat (v - q) < m"
        proof
          assume j: "unat (v - q) < m"
          then have "unat (q + of_nat (unat (v - q))) = unat q + unat (v - q)" by (rule bt(1))
          then show False using lo heap_ok_span(1) [OF block(4) insertI1] by simp
        qed
        then have "vmem ?st2 v = vmem st1 v" unfolding cp by (simp add: copied_def)
        then show ?thesis using block(8) [OF lo] by (simp add: kfree_vmem)
      qed
      moreover have "krealloc st p new_size = Some (q, kfree ?st2 p)"
        using p0 assms(3) False block(1,2) by (simp add: krealloc_def Let_def om flip: old_def)
      ultimately show ?thesis using block(2,3,5) by (intro exI [of _ q] exI [of _ "kfree ?st2 p"]) auto
    qed
  qed
qed

text \<open>
  C6: krealloc of a live block returns.  For size 0 it frees the block and answers NULL.  For any other size, when it
  answers NULL the old block is still live; otherwise the old block is replaced by one of at least the new size that
  starts with the contents of the old one and overlaps no other.  Every other live block keeps its place and its contents.
\<close>

theorem krealloc_correct:
  assumes "heap_ok st L" "(p, m) \<in> L" "unat new_size \<le> alloc_limit"
  shows "\<exists>q st'. krealloc st p new_size = Some (q, st') \<and> keeps st st' (L - {(p, m)}) \<and>
    (if new_size = 0 then q = 0 \<and> heap_ok st' (L - {(p, m)})
     else if q = 0 then heap_ok st' L \<and> keeps st st' L
     else \<exists>k \<ge> unat new_size. heap_ok st' (insert (q, k) (L - {(p, m)})) \<and> (\<forall>b \<in> L - {(p, m)}. apart (q, k) b) \<and>
            (\<forall>i < min m (unat new_size). bytes st' q i = bytes st p i))"
proof (cases "new_size = 0")
  case True
  have "p \<noteq> 0" using heap_ok_span(4) [OF assms(1,2)] .
  then have "krealloc st p new_size = Some (0, kfree st p)" using True by (simp add: krealloc_def)
  then show ?thesis using True kfree_ok [OF assms(1,2)] by (simp add: keeps_def kfree_vmem)
next
  case False
  from krealloc_ok [OF assms(1,2) False assms(3)] False show ?thesis
    by (elim exE conjE) (intro exI conjI, assumption, auto split: if_splits)
qed

section \<open>The allocator interface\<close>

text \<open>
  A client's requests: allocate so many bytes, or free the \<open>n\<close>-th of the blocks it holds.
  \<open>serve\<close> runs them against an allocator and keeps the list of pointers the client holds.
\<close>

datatype heap_req = Req_alloc u64 | Req_free nat

fun serve :: "('s \<Rightarrow> u64 \<Rightarrow> (u64 \<times> 's) option) \<Rightarrow> ('s \<Rightarrow> u64 \<Rightarrow> 's) \<Rightarrow> 's \<Rightarrow> u64 list \<Rightarrow>
    heap_req list \<Rightarrow> (u64 list \<times> 's) option" where
  "serve al fr s ps [] = Some (ps, s)"
| "serve al fr s ps (Req_alloc n # rs) =
     Option.bind (al s n) (\<lambda>(p, s'). serve al fr s' (if p = 0 then ps else ps @ [p]) rs)"
| "serve al fr s ps (Req_free i # rs) =
     (if i < length ps then serve al fr (fr s (ps ! i)) (take i ps @ drop (Suc i) ps) rs
      else serve al fr s ps rs)"

definition req_ok :: "nat \<Rightarrow> heap_req \<Rightarrow> bool" where
  "req_ok limit r = (case r of Req_alloc n \<Rightarrow> unat n \<le> limit | Req_free _ \<Rightarrow> True)"

definition holds_blocks :: "('s \<Rightarrow> (u64 \<times> nat) set \<Rightarrow> bool) \<Rightarrow> 's \<Rightarrow> u64 list \<Rightarrow> bool" where
  \<comment> \<open>the pointers are exactly the live blocks, of some lengths, pairwise apart\<close>
  "holds_blocks ok s ps \<longleftrightarrow> (\<exists>bs. map fst bs = ps \<and> ok s (set bs) \<and> distinct bs \<and>
     (\<forall>i < length bs. \<forall>j < length bs. i \<noteq> j \<longrightarrow> apart (bs ! i) (bs ! j)))"

lemma remove_nth:
  assumes "i < length xs" "distinct xs"
  shows "set (take i xs @ drop (Suc i) xs) = set xs - {xs ! i}" "distinct (take i xs @ drop (Suc i) xs)"
proof -
  note e = id_take_nth_drop [OF assms(1)]
  have d: "distinct (take i xs @ xs ! i # drop (Suc i) xs)" by (fold e) (rule assms(2))
  have s: "set xs = insert (xs ! i) (set (take i xs) \<union> set (drop (Suc i) xs))"
    using arg_cong [OF e, of set] by simp
  show "set (take i xs @ drop (Suc i) xs) = set xs - {xs ! i}" unfolding s using d by auto
  show "distinct (take i xs @ drop (Suc i) xs)" using d by auto
qed

locale block_allocator =
  fixes ok :: "'s \<Rightarrow> (u64 \<times> nat) set \<Rightarrow> bool"
    and al :: "'s \<Rightarrow> u64 \<Rightarrow> (u64 \<times> 's) option"
    and fr :: "'s \<Rightarrow> u64 \<Rightarrow> 's"
    and limit :: nat
  assumes alloc_law: "ok s L \<Longrightarrow> unat n \<le> limit \<Longrightarrow>
      \<exists>p s'. al s n = Some (p, s') \<and>
        (if p = 0 then ok s' L
         else \<exists>m. ok s' (insert (p, m) L) \<and> (p, m) \<notin> L)"
    and free_law: "ok s L \<Longrightarrow> (p, m) \<in> L \<Longrightarrow> ok (fr s p) (L - {(p, m)})"
    and apart_law: "ok s L \<Longrightarrow> u \<in> L \<Longrightarrow> v \<in> L \<Longrightarrow> u \<noteq> v \<Longrightarrow> apart u v"
begin

lemma holds_blocksI: "ok s (set bs) \<Longrightarrow> distinct bs \<Longrightarrow> map fst bs = ps \<Longrightarrow> holds_blocks ok s ps"
  unfolding holds_blocks_def using apart_law by (metis nth_eq_iff_index_eq nth_mem)

lemma serve_holds:
  assumes "ok s (set bs)" "distinct bs" "list_all (req_ok limit) rs"
  shows "\<exists>ps s'. serve al fr s (map fst bs) rs = Some (ps, s') \<and> holds_blocks ok s' ps"
  using assms
proof (induction rs arbitrary: s bs)
  case Nil
  then show ?case using holds_blocksI by auto
next
  case (Cons r rs)
  show ?case
  proof (cases r)
    case (Req_alloc n)
    then have n: "unat n \<le> limit" using Cons.prems(3) by (simp add: req_ok_def)
    obtain p s' where a: "al s n = Some (p, s')"
      "if p = 0 then ok s' (set bs) else \<exists>m. ok s' (insert (p, m) (set bs)) \<and> (p, m) \<notin> set bs"
      using alloc_law [OF Cons.prems(1) n] by metis
    show ?thesis
    proof (cases "p = 0")
      case True
      then show ?thesis using a Req_alloc Cons.IH [of s' bs] Cons.prems(2,3) by simp
    next
      case False
      then obtain m where m: "ok s' (insert (p, m) (set bs))" "(p, m) \<notin> set bs" using a(2) by auto
      then show ?thesis
        using a(1) False Req_alloc Cons.IH [of s' "bs @ [(p, m)]"] Cons.prems(2,3) by simp
    qed
  next
    case (Req_free i)
    show ?thesis
    proof (cases "i < length bs")
      case True
      let ?bs = "take i bs @ drop (Suc i) bs"
      note r = remove_nth [OF True Cons.prems(2)]
      have "ok (fr s (fst (bs ! i))) (set bs - {bs ! i})"
        using free_law [OF Cons.prems(1), of "fst (bs ! i)" "snd (bs ! i)"] True by simp
      then show ?thesis
        using Cons.IH [of "fr s (fst (bs ! i))" ?bs, unfolded r(1)] r(2) Cons.prems(3) True Req_free
        by (simp add: take_map drop_map)
    next
      case False
      then show ?thesis using Req_free Cons by simp
    qed
  qed
qed

end

interpretation kheap: block_allocator heap_ok kmalloc kfree alloc_limit
proof
  fix s :: "'a heap_state_scheme" and L n assume a: "heap_ok s L" "unat (n :: u64) \<le> alloc_limit"
  then show "\<exists>p s'. kmalloc s n = Some (p, s') \<and> (if p = 0 then heap_ok s' L
      else \<exists>m. heap_ok s' (insert (p, m) L) \<and> (p, m) \<notin> L)"
  proof (cases rule: kmalloc_ok)
    case (block p m st')
    have "n \<noteq> 0" using block(1,2) by (auto simp: kmalloc_def)
    then have "0 < m" using block(3) by (metis bot_nat_0.not_eq_extremum le_zero_eq unat_eq_zero)
    then have "(p, m) \<notin> L" using block(5) by (force simp: apart_def)
    then show ?thesis using block by auto
  qed simp
next
  fix s :: "'a heap_state_scheme" and L p m assume "heap_ok s L" "(p, m) \<in> L"
  then show "heap_ok (kfree s p) (L - {(p, m)})" by (rule kfree_ok)
next
  fix s :: "'a heap_state_scheme" and L u v assume "heap_ok s L" "u \<in> L" "v \<in> L" "u \<noteq> v"
  then show "apart u v" by (rule heap_ok_apart)
qed

text \<open>
  C7: any sequence of allocations (of at most 256 GB each) and frees that a client issues to an
  empty heap runs to its end, and the blocks the client holds afterwards are exactly the
  live blocks of the heap and pairwise disjoint.
\<close>

theorem heap_requests_safe:
  assumes "heap_ok st {}" "list_all (req_ok alloc_limit) rs"
  shows "\<exists>ps st'. serve kmalloc kfree st [] rs = Some (ps, st') \<and> holds_blocks heap_ok st' ps"
  using kheap.serve_holds [of st "[]" rs] assms by simp

section \<open>Witnesses\<close>

definition heap_demo :: heap_state where
  \<comment> \<open>a free block of four pages and behind it an allocated block of one page\<close>
  "heap_demo = vmm_state.extend vmm_demo
     (heap_state.fields (\<lambda>_. 7)
       ((\<lambda>_. 0)(HEAP_VIRT_BASE := HEAP_MAGIC_FREE, HEAP_VIRT_BASE + 0x4000 := HEAP_MAGIC_ALLOC))
       (\<lambda>_. \<lparr>sp_order = 0, sp_obj_size = 0, sp_capacity = 0, sp_free_count = 0, sp_first_free = 0,
             sp_next = 0, sp_bitmap = (\<lambda>_. 0)\<rparr>)
       ((\<lambda>_. \<lparr>lh_size = 0, lh_next = 0, lh_prev = 0\<rparr>)
         (HEAP_VIRT_BASE := \<lparr>lh_size = 0x4000, lh_next = 0, lh_prev = 0\<rparr>,
          HEAP_VIRT_BASE + 0x4000 := \<lparr>lh_size = 0x1000, lh_next = 0, lh_prev = 0\<rparr>))
       (\<lambda>_. 0) HEAP_VIRT_BASE (HEAP_VIRT_BASE + 0x5000) (HEAP_VIRT_BASE + 0x5000))"

lemma heap_demo_sel:
  "vmem heap_demo = (\<lambda>_. 7)"
  "hmagic heap_demo =
     (\<lambda>_. 0)(HEAP_VIRT_BASE := HEAP_MAGIC_FREE, HEAP_VIRT_BASE + 0x4000 := HEAP_MAGIC_ALLOC)"
  "lh_size (larges heap_demo HEAP_VIRT_BASE) = 0x4000" "lh_next (larges heap_demo HEAP_VIRT_BASE) = 0"
  "lh_prev (larges heap_demo HEAP_VIRT_BASE) = 0"
  "lh_size (larges heap_demo (HEAP_VIRT_BASE + 0x4000)) = 0x1000"
  "slab_classes heap_demo = (\<lambda>_. 0)" "large_free_list heap_demo = HEAP_VIRT_BASE"
  "heap_cursor heap_demo = HEAP_VIRT_BASE + 0x5000"
  by (simp_all add: heap_demo_def heap_state.defs vmm_state.defs)

lemma heap_demo_ok: "heap_ok heap_demo {(HEAP_VIRT_BASE + 0x4020, 4064)}"
proof -
  let ?A = "HEAP_VIRT_BASE" and ?B = "HEAP_VIRT_BASE + 0x4000"
  have ne: "?A \<noteq> ?B" "?A \<noteq> 0" by (simp_all add: kdefs)
  have mg: "HEAP_MAGIC_FREE \<noteq> SLAB_PAGE_MAGIC" "HEAP_MAGIC_ALLOC \<noteq> SLAB_PAGE_MAGIC"
    "HEAP_MAGIC_ALLOC \<noteq> HEAP_MAGIC_FREE" by (simp_all add: kdefs)
  have l: "hlen heap_demo ?A = 0x4000" "hlen heap_demo ?B = 0x1000"
    using ne mg by (simp_all add: hlen_def heap_demo_sel)
  have u: "unat ?A = heap_lo" "unat ?B = heap_lo + 0x4000" "unat (HEAP_VIRT_BASE + 0x5000) = heap_lo + 0x5000"
    by (simp_all add: kdefs)
  have c: "cursor_ok heap_demo" by (simp add: cursor_ok_def heap_demo_sel kdefs)
  have b: "block_ok heap_demo ?A" "block_ok heap_demo ?B"
    unfolding block_ok_def l u heap_demo_sel(9) using ne mg by (simp_all add: heap_demo_sel(2))
  have cl: "classes_ok heap_demo {?A, ?B}"
    unfolding classes_ok_def heap_demo_sel(2,7) using ne mg by (auto intro: exI [of _ "[]"])
  have fr: "free_list_ok heap_demo {?A, ?B} {}"
    unfolding free_list_ok_def using ne
    by (intro exI [of _ "[?A]"]) (use mg in \<open>auto simp: heap_demo_sel\<close>)
  have "heap_inv heap_demo {?A, ?B} {}"
    unfolding heap_inv_def using b c cl fr by (simp add: apart_def l u)
  moreover have "live heap_demo {?A, ?B} = {(HEAP_VIRT_BASE + 0x4020, 4064)}"
    using ne mg by (simp add: live_def blocks_of_def heap_demo_sel) (simp add: kdefs)
  ultimately show ?thesis unfolding heap_ok_def by blast
qed

theorem kmalloc_correct_witness:
  "heap_ok heap_demo {(HEAP_VIRT_BASE + 0x4020, 4064)} \<and>
   (\<exists>p st'. kmalloc heap_demo 5000 = Some (p, st') \<and> (p = 0 \<or> 16 dvd unat p))"
proof -
  have "unat (5000 :: u64) \<le> alloc_limit" by simp
  note r = kmalloc_correct [OF heap_demo_ok this]
  show ?thesis by (rule conjI [OF heap_demo_ok], insert r, elim exE conjE, intro exI conjI)
    (assumption, auto split: if_splits)
qed

theorem kfree_correct_witness:
  "heap_ok heap_demo {(HEAP_VIRT_BASE + 0x4020, 4064)} \<and>
   heap_ok (kfree heap_demo (HEAP_VIRT_BASE + 0x4020)) {}"
  using kfree_correct [OF heap_demo_ok, of "HEAP_VIRT_BASE + 0x4020" 4064] heap_demo_ok by simp

theorem kzalloc_correct_witness:
  "heap_ok heap_demo {(HEAP_VIRT_BASE + 0x4020, 4064)} \<and>
   (\<exists>p st'. kzalloc heap_demo 100 = Some (p, st') \<and> (p = 0 \<or> bytes st' p 99 = 0))"
proof -
  have "unat (100 :: u64) \<le> alloc_limit" by simp
  note r = kzalloc_correct [OF heap_demo_ok this]
  show ?thesis by (rule conjI [OF heap_demo_ok], insert r, elim exE conjE, intro exI conjI)
    (assumption, auto dest: spec [of _ 99] split: if_splits)
qed

theorem krealloc_correct_witness:
  "heap_ok heap_demo {(HEAP_VIRT_BASE + 0x4020, 4064)} \<and>
   (\<exists>q st'. krealloc heap_demo (HEAP_VIRT_BASE + 0x4020) 9000 = Some (q, st') \<and>
     (q = 0 \<or> bytes st' q 17 = 7))"
proof -
  have "unat (9000 :: u64) \<le> alloc_limit" by simp
  note r = krealloc_correct [OF heap_demo_ok singletonI this]
  show ?thesis by (rule conjI [OF heap_demo_ok], insert r, elim exE conjE, intro exI conjI)
    (assumption, auto simp: heap_demo_sel dest: spec [of _ 17] split: if_splits)
qed

theorem heap_requests_safe_witness:
  "heap_ok (kfree heap_demo (HEAP_VIRT_BASE + 0x4020)) {} \<and>
   (\<exists>ps st'. serve kmalloc kfree (kfree heap_demo (HEAP_VIRT_BASE + 0x4020)) []
       [Req_alloc 40, Req_alloc 9000, Req_free 0, Req_alloc 3] = Some (ps, st') \<and> holds_blocks heap_ok st' ps)"
proof -
  have e: "heap_ok (kfree heap_demo (HEAP_VIRT_BASE + 0x4020)) {}"
    using kfree_ok [OF heap_demo_ok singletonI] by simp
  show ?thesis
    by (rule conjI [OF e heap_requests_safe [OF e]]) (simp add: req_ok_def)
qed

end
