(* ===== verification/AddrSpace.thy ===== *)
theory AddrSpace
  imports Vmm
begin

text \<open>
  The contents of an address space: what a list of freshly mapped pages looks like through the
  page tables, and that mapping pages disturbs neither other pages nor their contents.  The
  program loader and the memory-mapping system calls rest on these lemmas.
\<close>

section \<open>Fresh pages\<close>

type_synonym page_spec = "u64 \<times> u64 \<times> (nat \<Rightarrow> u8)"

definition page_at :: "'a pmm_state_scheme \<Rightarrow> u64 \<Rightarrow> nat \<Rightarrow> page_spec \<Rightarrow> bool" where
  \<comment> \<open>the page of an address is mapped to frame \<open>f\<close> with given flags and contents\<close>
  "page_at st root f p \<longleftrightarrow> (case p of (va, fl, c) \<Rightarrow>
     (\<forall>v. virt_page v = virt_page va \<longrightarrow> page_entry st root v = of_nat f * PAGE_SIZE OR fl) \<and>
     (\<forall>x. unat x div 4096 = f \<longrightarrow> mem st x = c (unat x mod 4096)))"

definition pages_mapped :: "u64 \<Rightarrow> 'a pmm_state_scheme \<Rightarrow> 'a pmm_state_scheme \<Rightarrow> page_spec list \<Rightarrow> bool" where
  \<comment> \<open>from \<open>st\<close> to \<open>st'\<close> exactly the pages listed were mapped, each to a frame of its own that was free\<close>
  "pages_mapped root st st' ps \<longleftrightarrow>
     pmm_inv st' \<and> pt_wf st' root \<and> free_set st' \<subseteq> free_set st \<and>
     card (free_set st) \<le> card (free_set st') + 4 * length ps \<and> data_kept root st st' \<and>
     (\<exists>fr. inj_on fr ((\<lambda>p. virt_page (fst p)) ` set ps) \<and>
        (\<forall>p \<in> set ps. fr (virt_page (fst p)) \<in> free_set st - free_set st' - tables st' root \<and>
           page_at st' root (fr (virt_page (fst p))) p)) \<and>
     (\<forall>v. virt_page v \<notin> (\<lambda>p. virt_page (fst p)) ` set ps \<longrightarrow> page_entry st' root v = page_entry st root v)"

lemma pages_mapped_Nil: "pmm_inv st \<Longrightarrow> pt_wf st root \<Longrightarrow> pages_mapped root st st []"
  by (simp add: pages_mapped_def data_kept_def)

lemma pages_mapped_other:
  assumes "pages_mapped root st st' ps" "\<forall>p \<in> set ps. virt_page v \<noteq> virt_page (fst p)"
  shows "page_entry st' root v = page_entry st root v"
proof -
  have "virt_page v \<notin> (\<lambda>p. virt_page (fst p)) ` set ps" using assms(2) by auto
  then show ?thesis using assms(1) unfolding pages_mapped_def by blast
qed

lemma pages_mapped_append:
  assumes "pages_mapped root st st1 ps" "pages_mapped root st1 st2 qs"
    "(\<lambda>p. virt_page (fst p)) ` set ps \<inter> (\<lambda>p. virt_page (fst p)) ` set qs = {}"
  shows "pages_mapped root st st2 (ps @ qs)"
proof -
  let ?pg = "\<lambda>p :: page_spec. virt_page (fst p)"
  note a = assms(1) [unfolded pages_mapped_def] and b = assms(2) [unfolded pages_mapped_def]
  have sub: "free_set st1 \<subseteq> free_set st" "free_set st2 \<subseteq> free_set st1" using a b by simp_all
  have d: "data_kept root st st1" "data_kept root st1 st2" using a b by simp_all
  obtain fa where fa: "inj_on fa (?pg ` set ps)"
    "\<forall>p \<in> set ps. fa (?pg p) \<in> free_set st - free_set st1 - tables st1 root \<and> page_at st1 root (fa (?pg p)) p" using a by blast
  obtain fb where fb: "inj_on fb (?pg ` set qs)"
    "\<forall>p \<in> set qs. fb (?pg p) \<in> free_set st1 - free_set st2 - tables st2 root \<and> page_at st2 root (fb (?pg p)) p" using b by blast
  define fr where "fr = (\<lambda>x. if x \<in> ?pg ` set ps then fa x else fb x)"
  have old: "fr (?pg p) \<in> free_set st - free_set st2 - tables st2 root \<and> page_at st2 root (fr (?pg p)) p \<and> fr (?pg p) \<notin> free_set st1"
    if p: "p \<in> set ps" for p
  proof -
    have f: "fr (?pg p) \<in> free_set st" "fr (?pg p) \<notin> free_set st1" "fr (?pg p) \<notin> tables st1 root" "page_at st1 root (fr (?pg p)) p"
      using fa(2) p by (auto simp: fr_def)
    have "fr (?pg p) \<notin> tables st2 root" using d(2) f(2,3) sub(2) unfolding data_kept_def by blast
    moreover have "page_entry st2 root v = page_entry st1 root v" if "virt_page v = ?pg p" for v
      using that assms(3) p b by (metis (no_types, lifting) disjoint_iff image_eqI)
    moreover have "mem st2 x = mem st1 x" if "unat x div 4096 = fr (?pg p)" for x
      using d(2) that f(2,3) by (simp add: data_kept_def)
    ultimately show ?thesis using f sub unfolding page_at_def by (auto split: prod.splits)
  qed
  have new: "fr (?pg p) \<in> free_set st - free_set st2 - tables st2 root \<and> page_at st2 root (fr (?pg p)) p \<and> fr (?pg p) \<in> free_set st1"
    if "p \<in> set qs" for p
  proof -
    have "fr (?pg p) = fb (?pg p)" using that assms(3) by (auto simp: fr_def)
    then show ?thesis using fb(2) that sub by auto
  qed
  have i1: "inj_on fr (?pg ` set ps)" using fa(1) by (auto simp: inj_on_def fr_def)
  have e: "fr x = fb x" if "x \<in> ?pg ` set qs" for x using that assms(3) by (auto simp: fr_def)
  have i2: "inj_on fr (?pg ` set qs)" using fb(1) inj_on_cong [of "?pg ` set qs" fr fb, OF e] by blast
  have o: "fr ` (?pg ` set ps) \<subseteq> - free_set st1" and n: "fr ` (?pg ` set qs) \<subseteq> free_set st1" using old new by blast+
  have inj: "inj_on fr (?pg ` set (ps @ qs))"
    unfolding set_append image_Un inj_on_Un using i1 i2 o n by blast
  have ka: "page_entry st1 root v = page_entry st root v" if "virt_page v \<notin> ?pg ` set ps" for v using a that by blast
  have kb: "page_entry st2 root v = page_entry st1 root v" if "virt_page v \<notin> ?pg ` set qs" for v using b that by blast
  have "page_entry st2 root v = page_entry st root v" if "virt_page v \<notin> ?pg ` set (ps @ qs)" for v
    using ka [of v] kb [of v] that by (simp add: image_Un)
  moreover have "\<forall>p \<in> set (ps @ qs). fr (?pg p) \<in> free_set st - free_set st2 - tables st2 root \<and> page_at st2 root (fr (?pg p)) p"
    using old new by auto
  moreover have "pmm_inv st2" "pt_wf st2 root" "card (free_set st) \<le> card (free_set st2) + 4 * length (ps @ qs)"
    using a b by simp_all
  ultimately show ?thesis
    unfolding pages_mapped_def using sub data_kept_trans [OF d sub] inj by (intro conjI exI [of _ fr] allI impI) simp_all
qed

text \<open>Memory outside the tables does not matter to the tables.\<close>

lemma entry_frame:
  assumes "page_ptr t" "i < 512" "k < 8"
  shows "unat (t + 8 * i + of_nat k) div 4096 = unat t div 4096"
proof -
  obtain a where a: "unat t = 4096 * a" "a < 1048576" using assms(1) by (auto simp: page_ptr_def PMM_MAX_FRAMES_def)
  have i: "unat i < 512" using assms(2) by (simp add: word_less_nat_alt)
  have "unat (t + 8 * i + of_nat k) = unat t + 8 * unat i + k"
    using entry_unat [OF assms(1,2)] a i assms(3) by (simp add: unat_add_of_nat)
  also have "\<dots> div 4096 = a" using a(1) i assms(3) by (intro div_nat_eqI) simp_all
  finally show ?thesis using a(1) by simp
qed

lemma tables_cong:
  assumes "\<And>q. path_ok q \<Longrightarrow> table_at (mem st') root q = table_at (mem st) root q"
  shows "tables st' root = tables st root"
  unfolding tables_def using assms by (intro Collect_cong) metis

lemma write_outside_tables:
  assumes wf: "pt_wf st root" and m: "\<forall>x. unat x div 4096 \<in> tables st root \<longrightarrow> m x = mem st x"
  shows "path_ok q \<Longrightarrow> table_at m root q = table_at (mem st) root q" "pt_wf (st\<lparr>mem := m\<rparr>) root"
    "page_entry (st\<lparr>mem := m\<rparr>) root v = page_entry st root v" "tables (st\<lparr>mem := m\<rparr>) root = tables st root"
proof -
  have rd: "read_entry m t j = read_entry (mem st) t j"
    if "path_ok q" "table_at (mem st) root q = Some t" "j < 512" for q t j
  proof -
    have "unat t div 4096 \<in> tables st root" using that by (auto simp: tables_def)
    then show ?thesis
      unfolding read_entry_def using pt_wf_table [OF wf that(1,2)] that(3)
      by (intro load64_cong m [rule_format]) (simp add: entry_frame)
  qed
  show ta: "table_at m root q = table_at (mem st) root q" if "path_ok q" for q
    using that
  proof (induction q rule: rev_induct)
    case (snoc j q)
    then have "path_ok q" "j < 512" by (simp_all add: path_ok_snoc)
    then show ?case using snoc.IH rd by (auto simp: table_at_snoc split: option.split)
  qed simp
  show "pt_wf (st\<lparr>mem := m\<rparr>) root" by (rule pt_wf_cong [OF wf]) (use ta rd in auto)
  show "tables (st\<lparr>mem := m\<rparr>) root = tables st root" using ta by (intro tables_cong) simp
  have v: "path_ok (vpath v)" by simp
  show "page_entry (st\<lparr>mem := m\<rparr>) root v = page_entry st root v"
    using ta [OF v] rd [OF v] by (simp add: page_entry_def leaf_def split: option.split)
qed

text \<open>One page: allocate a frame, map it, and write into the frame.\<close>

lemma map_page:
  assumes inv: "pmm_inv st" and wf: "pt_wf st root" and free: "4 \<le> card (free_set st)"
    and alloc: "pmm_alloc st = (phys, st1)" and st2: "st2 = vmm_map st1 root va phys fl"
    and m': "\<And>x. page_ptr phys \<Longrightarrow> unat x div 4096 \<noteq> unat phys div 4096 \<Longrightarrow> m x = mem st2 x"
    and c': "\<And>x. page_ptr phys \<Longrightarrow> unat x div 4096 = unat phys div 4096 \<Longrightarrow> mem st2 x = 0 \<Longrightarrow> m x = c (unat x mod 4096)"
  shows "pages_mapped root st (st2\<lparr>mem := m\<rparr>) [(va, fl, c)]" "phys \<noteq> 0"
proof -
  have "free_set st \<noteq> {}" using free by auto
  then obtain f where f: "f \<in> free_set st" "pmm_alloc st = alloc_result st f"
    by (cases st rule: pmm_alloc_cases) auto
  have r: "phys = fst (alloc_result st f)" "st1 = snd (alloc_result st f)" using f(2) alloc by (simp_all flip: f(2))
  note a = alloc_keeps_tree [OF inv wf f(1), folded r]
  show "phys \<noteq> 0" using a by simp
  note m = m' [OF a(4)]
  have uf: "unat phys div 4096 = f" using a(5) by simp
  have pf: "phys = of_nat f * PAGE_SIZE" by (simp add: r alloc_result_def)
  have t1: "tables st1 root = tables st root" using a(9) by (rule tables_cong)
  have ft: "f \<notin> tables st root" using pt_wf_table [OF wf] f(1) by (auto simp: tables_def free_set_def)
  have c1: "3 \<le> card (free_set st1)" using f(1) free by (simp add: a(6))
  note e = vmm_map_entry [OF a(1,2), of va phys fl, folded st2]
  note d = vmm_map_data [OF a(1,2), of va phys fl, folded st2]
  have e2: "page_entry st2 root v = (if virt_page v = virt_page va then (phys AND VMM_PHYS_MASK) OR fl else page_entry st1 root v)" for v
    using e c1 by auto
  have f1: "f \<notin> free_set st1" by (simp add: a(6))
  have ft2: "f \<notin> tables st2 root" using d f1 ft t1 by (auto simp: data_kept_def)
  have z: "mem st2 x = 0" if "unat x div 4096 = unat phys div 4096" for x
  proof -
    have "mem st2 x = mem st1 x" using d that f1 ft t1 uf by (simp add: data_kept_def)
    moreover have "unat phys \<le> unat x \<and> unat x < unat phys + 4096" using that a(5) by auto
    ultimately show ?thesis using a(5) f(1) by (simp add: a(7) fill_range free_set_def PMM_MAX_FRAMES_def)
  qed
  have wf2: "pt_wf st2 root" using e by simp
  have mt: "\<forall>x. unat x div 4096 \<in> tables st2 root \<longrightarrow> m x = mem st2 x"
    using ft2 uf by (intro allI impI m) auto
  note w = write_outside_tables [OF wf2 mt]
  have fs: "free_set (st2\<lparr>mem := m\<rparr>) = free_set st2" by (simp add: free_set_def)
  have sub: "free_set st2 \<subseteq> free_set st1" using e by simp
  have "data_kept root st (st2\<lparr>mem := m\<rparr>)"
    unfolding data_kept_def
  proof (intro conjI allI impI)
    fix x :: u64 assume x: "unat x div 4096 \<notin> free_set st \<union> tables st root"
    then have nf: "unat x div 4096 \<noteq> f" using f(1) by auto
    then have "m x = mem st2 x" using m uf by simp
    also have "\<dots> = mem st1 x" using d x t1 a(6) by (auto simp: data_kept_def)
    also have "\<dots> = mem st x" using nf uf a(4) by (simp add: a(7) fill_page_other)
    finally show "mem (st2\<lparr>mem := m\<rparr>) x = mem st x" by simp
  next
    show "tables (st2\<lparr>mem := m\<rparr>) root \<subseteq> tables st root \<union> (free_set st - free_set (st2\<lparr>mem := m\<rparr>))"
      using d t1 a(6) unfolding fs w(4) by (auto simp: data_kept_def)
  qed
  moreover have "pmm_inv (st2\<lparr>mem := m\<rparr>)" using e by (simp add: pmm_inv_def)
  moreover have "card (free_set st) \<le> card (free_set st2) + 4" using e [THEN conjunct2, THEN conjunct2, THEN conjunct2, THEN conjunct1] f(1)
    by (simp add: a(6))
  moreover have "page_at (st2\<lparr>mem := m\<rparr>) root f (va, fl, c)"
    using c' [OF a(4) _ z] uf pf a(4) by (simp add: page_at_def w(3) e2 page_ptr_mask)
  moreover have "page_entry (st2\<lparr>mem := m\<rparr>) root v = page_entry st root v" if "virt_page v \<noteq> virt_page va" for v
    using that a(11) [of "vpath v" "PT_IDX v"] unfolding w(3) e2 by (simp add: page_entry_def)
  ultimately show "pages_mapped root st (st2\<lparr>mem := m\<rparr>) [(va, fl, c)]"
    unfolding pages_mapped_def using w(2) sub f(1) f1 ft2 a(6) by (auto simp: fs w(4) intro!: exI [of _ "\<lambda>_. f"])
qed

text \<open>What a program sees.\<close>

definition user_byte :: "'a pmm_state_scheme \<Rightarrow> u64 \<Rightarrow> u64 \<Rightarrow> u8" where
  "user_byte st root v = mem st (vmm_translate st root v)"

lemma frame_offset:
  assumes "f < PMM_MAX_FRAMES"
  shows "unat ((of_nat f * PAGE_SIZE) OR (v AND 0xFFF)) = f * 4096 + unat v mod 4096"
proof -
  have fp: "unat (of_nat f * PAGE_SIZE :: u64) = f * 4096" by (rule frame_ptr_unat [OF assms])
  have m: "(v AND 0xFFF) = take_bit 12 v" by (simp add: take_bit_eq_mask mask_eq_exp_minus_1)
  have "(of_nat f * PAGE_SIZE) AND (v AND 0xFFF) = (0 :: u64)"
  proof (rule bit_word_eqI)
    fix n assume "n < LENGTH(64)"
    have "of_nat f * PAGE_SIZE = push_bit 12 (of_nat f :: u64)" by (simp add: PAGE_SIZE_def push_bit_eq_mult)
    then show "bit ((of_nat f * PAGE_SIZE) AND (v AND 0xFFF)) n = bit (0 :: u64) n"
      by (simp add: m bit_simps)
  qed
  then have "(of_nat f * PAGE_SIZE) OR (v AND 0xFFF) = of_nat f * PAGE_SIZE + (v AND 0xFFF)"
    by (simp add: disjunctive_add_eq_or)
  moreover have "unat (v AND 0xFFF) = unat v mod 4096" by (simp add: m take_bit_eq_mod unat_mod)
  ultimately show ?thesis
    using assms fp by (simp add: unat_word_ariths PMM_MAX_FRAMES_def)
qed

lemma mask_parts: "a AND m = 0 \<Longrightarrow> a AND NOT m = (a :: u64)" "a AND m = a \<Longrightarrow> a AND NOT m = (0 :: u64)"
proof -
  have "a = (a AND m) OR (a AND NOT m)" by (rule bit_word_eqI) (auto simp: bit_simps)
  then show "a AND m = 0 \<Longrightarrow> a AND NOT m = a" by (metis or.left_neutral)
  have "(a AND m) AND NOT m = 0" by (rule bit_word_eqI) (auto simp: bit_simps)
  then show "a AND m = a \<Longrightarrow> a AND NOT m = 0" by (simp only:)
qed

lemma mapped_frame:
  assumes "pt_wf st' root" "pmm_inv st" "pt_wf st root" "f \<in> free_set st" "page_at st' root f (va, fl, c)" "virt_page v = virt_page va"
    "fl AND VMM_PHYS_MASK = 0" "fl AND VMM_PRESENT \<noteq> 0"
  shows "unat (vmm_translate st' root v) = f * 4096 + unat v mod 4096" "page_entry st' root v AND NOT VMM_PHYS_MASK = fl"
proof -
  note pp = alloc_keeps_tree(4,5) [OF assms(2-4)]
  have mask: "of_nat f * PAGE_SIZE AND VMM_PHYS_MASK = of_nat f * PAGE_SIZE"
    using page_ptr_mask [OF pp(1)] by (simp add: alloc_result_def)
  have e: "page_entry st' root v = of_nat f * PAGE_SIZE OR fl" using assms(5,6) by (simp add: page_at_def)
  have t: "vmm_translate st' root v = (of_nat f * PAGE_SIZE) OR (v AND 0xFFF)"
    using map_entry_phys [OF assms(7,8), of "of_nat f * PAGE_SIZE" v] by (simp add: vmm_translate_entry [OF assms(1)] e mask)
  have "f < PMM_MAX_FRAMES" using assms(4) by (simp add: free_set_def)
  from frame_offset [OF this, of v, folded t] show "unat (vmm_translate st' root v) = f * 4096 + unat v mod 4096" .
  have "fl AND NOT VMM_PHYS_MASK = fl" "of_nat f * PAGE_SIZE AND NOT VMM_PHYS_MASK = 0"
    using mask_parts [of fl VMM_PHYS_MASK] mask_parts [of "of_nat f * PAGE_SIZE" VMM_PHYS_MASK] assms(7) mask by simp_all
  then show "page_entry st' root v AND NOT VMM_PHYS_MASK = fl" by (simp add: e bit.conj_disj_distrib2)
qed

lemma page_view:
  assumes "pages_mapped root st st' ps" "(va, fl, c) \<in> set ps" "pmm_inv st" "pt_wf st root"
    "virt_page v = virt_page va" "fl AND VMM_PHYS_MASK = 0" "fl AND VMM_PRESENT \<noteq> 0"
  shows "user_byte st' root v = c (unat v mod 4096)" "vmm_translate st' root v \<noteq> 0"
    "page_entry st' root v AND NOT VMM_PHYS_MASK = fl"
proof -
  have wf: "pt_wf st' root" using assms(1) by (simp add: pages_mapped_def)
  obtain f where f: "f \<in> free_set st" "page_at st' root f (va, fl, c)"
    using assms(1,2) unfolding pages_mapped_def by blast
  note u = mapped_frame [OF wf assms(3,4) f assms(5-7)]
  have "0 < f" using alloc_result_ptr(1) [OF assms(3) f(1)] .
  then show "vmm_translate st' root v \<noteq> 0" using u(1) by (metis add_is_0 mult_is_0 neq0_conv unat_0 zero_neq_numeral)
  have "unat (vmm_translate st' root v) div 4096 = f" using u(1) by simp
  then show "user_byte st' root v = c (unat v mod 4096)"
    using f(2) u(1) by (simp add: user_byte_def page_at_def)
  show "page_entry st' root v AND NOT VMM_PHYS_MASK = fl" by (rule u(2))
qed

lemma page_frames:
  assumes "pages_mapped root st st' ps" "pmm_inv st" "pt_wf st root"
    "\<forall>p \<in> set ps. fst (snd p) AND VMM_PHYS_MASK = 0 \<and> fst (snd p) AND VMM_PRESENT \<noteq> 0"
    "virt_page v \<in> (\<lambda>p. virt_page (fst p)) ` set ps"
  shows "unat (vmm_translate st' root v) div 4096 \<in> free_set st - free_set st' - tables st' root"
    "virt_page w \<in> (\<lambda>p. virt_page (fst p)) ` set ps \<Longrightarrow>
       unat (vmm_translate st' root v) div 4096 = unat (vmm_translate st' root w) div 4096 \<Longrightarrow> virt_page v = virt_page w"
proof -
  let ?pg = "\<lambda>p :: page_spec. virt_page (fst p)"
  have wf: "pt_wf st' root" using assms(1) by (simp add: pages_mapped_def)
  obtain fr where fr: "inj_on fr (?pg ` set ps)"
    "\<forall>p \<in> set ps. fr (?pg p) \<in> free_set st - free_set st' - tables st' root \<and> page_at st' root (fr (?pg p)) p"
    using assms(1) unfolding pages_mapped_def by blast
  have t: "unat (vmm_translate st' root x) div 4096 = fr (virt_page x) \<and> fr (virt_page x) \<in> free_set st - free_set st' - tables st' root"
    if x: "virt_page x \<in> ?pg ` set ps" for x
  proof -
    obtain va fl c where p: "(va, fl, c) \<in> set ps" "virt_page x = virt_page va" using x by auto
    have f: "fr (virt_page va) \<in> free_set st - free_set st' - tables st' root" "page_at st' root (fr (virt_page va)) (va, fl, c)"
      using fr(2) p(1) by fastforce+
    then have f1: "fr (virt_page va) \<in> free_set st" by simp
    have "fl AND VMM_PHYS_MASK = 0" "fl AND VMM_PRESENT \<noteq> 0" using assms(4) p(1) by fastforce+
    from mapped_frame(1) [OF wf assms(2,3) f1 f(2) p(2) this] show ?thesis using f(1) p(2) by simp
  qed
  show "unat (vmm_translate st' root v) div 4096 \<in> free_set st - free_set st' - tables st' root" using t [OF assms(5)] by simp
  show "virt_page v = virt_page w" if "virt_page w \<in> ?pg ` set ps"
    "unat (vmm_translate st' root v) div 4096 = unat (vmm_translate st' root w) div 4096"
    using t [OF assms(5)] t [OF that(1)] that fr(1) assms(5) by (metis inj_onD)
qed

lemma other_view:
  assumes "pages_mapped root st st' ps" "pt_wf st root" "virt_page v \<notin> (\<lambda>p. virt_page (fst p)) ` set ps"
    "unat (vmm_translate st root v) div 4096 \<notin> free_set st \<union> tables st root"
  shows "user_byte st' root v = user_byte st root v"
proof -
  have "pt_wf st' root" "page_entry st' root v = page_entry st root v" using assms(1,3) by (simp_all add: pages_mapped_def)
  then have "vmm_translate st' root v = vmm_translate st root v" using assms(2) by (simp add: vmm_translate_entry)
  then show ?thesis
    using assms(1,4) unfolding pages_mapped_def data_kept_def user_byte_def by metis
qed

text \<open>None of this depends on the rest of the state.\<close>

lemma view_cong:
  assumes "mem st' = mem st"
  shows "vmm_translate st' root v = vmm_translate st root v" "page_entry st' root v = page_entry st root v"
    "user_byte st' root v = user_byte st root v" "tables st' root = tables st root"
proof -
  show t: "vmm_translate st' root v = vmm_translate st root v" by (simp only: vmm_translate_def assms)
  show "page_entry st' root v = page_entry st root v" by (simp only: page_entry_def assms)
  show "user_byte st' root v = user_byte st root v" by (simp only: user_byte_def t assms)
  show "tables st' root = tables st root" by (simp only: tables_def assms)
qed

lemma pmm_cong:
  assumes "mem st' = mem st" "pmm_bitmap st' = pmm_bitmap st" "free_frames st' = free_frames st"
  shows "frame_used st' f = frame_used st f" "free_set st' = free_set st" "pmm_inv st' = pmm_inv st"
    "pt_wf st' root = pt_wf st root"
proof -
  show u: "frame_used st' f = frame_used st f" for f by (simp only: frame_used_def assms)
  show fs: "free_set st' = free_set st" by (simp only: free_set_def u)
  show "pmm_inv st' = pmm_inv st" by (simp only: pmm_inv_def fs u assms)
  show "pt_wf st' root = pt_wf st root" by (simp only: pt_wf_def u assms)
qed

section \<open>Ranges of user pages\<close>

lemma virt_page_unat: "unat (virt_page v) = unat v div 4096 mod 68719476736"
proof -
  have "unat (virt_page v) = take_bit 36 (unat (drop_bit 12 v))"
    by (simp add: virt_page_def unsigned_take_bit_eq)
  then show ?thesis by (simp add: unsigned_drop_bit_eq drop_bit_eq_div take_bit_eq_mod unat_div)
qed

lemma user_page_inj:
  assumes "unat v < 281474976710656" "unat w < 281474976710656"
  shows "virt_page v = virt_page w \<longleftrightarrow> unat v div 4096 = unat w div 4096"
proof -
  have "unat v div 4096 < 68719476736" "unat w div 4096 < 68719476736" using assms by (simp_all add: less_mult_imp_div_less)
  then show ?thesis by (simp add: u64_eq_iff_unat virt_page_unat)
qed

lemma page_addr:
  assumes "unat va + n * 4096 \<le> 281474976710656" "i < n"
  shows "unat (va + of_nat i * PAGE_SIZE) = unat va + i * 4096"
proof -
  have "i * 4096 \<le> n * 4096" using assms(2) by simp
  then have "unat va + i * 4096 < 18446744073709551616" using assms(1) by linarith
  then show ?thesis using unat_add_of_nat [of va "i * 4096"] by (simp add: PAGE_SIZE_def)
qed

lemma page_index:
  assumes "4096 dvd unat va" "unat va + n * 4096 \<le> 281474976710656" "i < n" "unat v < 281474976710656"
  shows "virt_page v = virt_page (va + of_nat i * PAGE_SIZE) \<longleftrightarrow>
    unat va + i * 4096 \<le> unat v \<and> unat v < unat va + (i + 1) * 4096"
proof -
  obtain k where k: "unat va = 4096 * k" using assms(1) by (auto simp: dvd_def)
  have u: "unat (va + of_nat i * PAGE_SIZE) = 4096 * (k + i)" using page_addr [OF assms(2,3)] k by simp
  have "i * 4096 < n * 4096" using assms(3) by simp
  then have "unat (va + of_nat i * PAGE_SIZE) < 281474976710656" unfolding u using k assms(2) by simp
  then have "virt_page v = virt_page (va + of_nat i * PAGE_SIZE) \<longleftrightarrow> unat v div 4096 = k + i"
    using user_page_inj [OF assms(4)] u by simp
  also have "\<dots> \<longleftrightarrow> unat va + i * 4096 \<le> unat v \<and> unat v < unat va + (i + 1) * 4096"
    unfolding k using div_nat_eqI [of 4096 "k + i" "unat v"] by auto
  finally show ?thesis .
qed

lemma pages_distinct:
  assumes "4096 dvd unat va" "unat va + n * 4096 \<le> 281474976710656"
  shows "distinct (map (\<lambda>i. virt_page (va + of_nat i * PAGE_SIZE)) [0..<n])"
proof -
  have "i = j" if "i < n" "j < n" "virt_page (va + of_nat i * PAGE_SIZE) = virt_page (va + of_nat j * PAGE_SIZE)" for i j
  proof -
    have "i * 4096 < n * 4096" using that(1) by simp
    then have "unat (va + of_nat i * PAGE_SIZE) < 281474976710656" using page_addr [OF assms(2) that(1)] assms(2) by linarith
    from page_index [OF assms that(2) this] show ?thesis
      using that(3) page_addr [OF assms(2) that(1)] by simp
  qed
  then show ?thesis by (auto simp: distinct_map inj_on_def)
qed

text \<open>\<^verbatim>\<open>vmm_alloc_range\<close> with four frames per page free maps zeroed pages.\<close>

lemma vmm_alloc_pages_mapped:
  assumes "pmm_inv st" "pt_wf st root" "4 * length is \<le> card (free_set st)"
    "distinct (map (\<lambda>i. virt_page (va + of_nat i * PAGE_SIZE)) is)"
  shows "\<exists>st'. vmm_alloc_pages st root va fl is = (0, st') \<and>
    pages_mapped root st st' (map (\<lambda>i. (va + of_nat i * PAGE_SIZE, fl, \<lambda>_. 0)) is)"
  using assms
proof (induction "is" arbitrary: st)
  case Nil
  then show ?case by (simp add: pages_mapped_Nil)
next
  case (Cons i "is")
  let ?va = "va + of_nat i * PAGE_SIZE"
  obtain phys st1 where a: "pmm_alloc st = (phys, st1)" by fastforce
  define st2 where "st2 = vmm_map st1 root ?va phys fl"
  have "4 \<le> card (free_set st)" using Cons.prems(3) by simp
  note m = map_page [OF Cons.prems(1,2) this a st2_def refl, where c = "\<lambda>_. 0"]
  have p: "pages_mapped root st st2 [(?va, fl, \<lambda>_. 0)]" using m(1) by simp
  then have "pmm_inv st2" "pt_wf st2 root" "4 * length is \<le> card (free_set st2)"
    using Cons.prems(3) by (auto simp: pages_mapped_def)
  from Cons.IH [OF this] Cons.prems(4) obtain st' where
    r: "vmm_alloc_pages st2 root va fl is = (0, st')"
      "pages_mapped root st2 st' (map (\<lambda>i. (va + of_nat i * PAGE_SIZE, fl, \<lambda>_. 0)) is)" by auto
  have "pages_mapped root st st' ([(?va, fl, \<lambda>_. 0)] @ map (\<lambda>i. (va + of_nat i * PAGE_SIZE, fl, \<lambda>_. 0)) is)"
    using Cons.prems(4) by (intro pages_mapped_append [OF p r(2)]) auto
  moreover have "vmm_alloc_pages st root va fl (i # is) = (0, st')"
    using r(1) m(2) a by (simp add: vmm_alloc_map_def st2_def)
  ultimately show ?case by simp
qed

end
