(* ===== verification/HeapPages.thy ===== *)
theory HeapPages
  imports HeapContract AddrSpace
begin

text \<open>
  The heap together with the frame allocator and the page tables: growing the heap maps every
  new page to a frame of its own, initialisation establishes the heap invariant, and the
  allocator interface the other components use is the contract of this heap.
\<close>

section \<open>Pages of the heap window\<close>

lemma heap_page_inj:
  assumes "heap_lo \<le> unat v" "unat v < heap_hi" "heap_lo \<le> unat w" "unat w < heap_hi"
  shows "virt_page v = virt_page w \<longleftrightarrow> unat v div 4096 = unat w div 4096"
proof -
  have m: "unat (virt_page x) + 4503530907893760 = unat x div 4096"
    if "heap_lo \<le> unat x" "unat x < heap_hi" for x
  proof -
    let ?q = "unat x div 4096"
    have "4503599493152768 \<le> ?q" "?q < 4503599493218304" using that by linarith+
    then have "?q div 68719476736 = 65535" by (intro div_nat_eqI) simp_all
    then show ?thesis
      using div_mult_mod_eq [of ?q 68719476736] unfolding virt_page_unat by linarith
  qed
  show ?thesis using m [OF assms(1,2)] m [OF assms(3,4)] by (simp add: u64_eq_iff_unat) linarith
qed

lemma heap_flags: "(VMM_KERNEL_RW OR VMM_NO_EXEC) AND VMM_PHYS_MASK = 0"
  "(VMM_KERNEL_RW OR VMM_NO_EXEC) AND VMM_PRESENT \<noteq> 0"
  by (simp_all add: kdefs)

text \<open>
  With four frames per page available, every page of the loop is mapped, each to a frame of
  its own that was free before.
\<close>

lemma heap_map_loop_vm:
  assumes "heap_map_loop st i n = (ok, st')" "pmm_inv st" "pt_wf st (kernel_pml4 st)"
    "4 * n \<le> card (free_set st)" "heap_lo \<le> unat (heap_cursor st)"
    "unat (heap_cursor st) + (i + n) * 4096 \<le> heap_hi"
  shows "ok \<and> pmm_inv st' \<and> pt_wf st' (kernel_pml4 st) \<and> free_set st' \<subseteq> free_set st \<and>
    (\<exists>fs. length fs = n \<and> distinct fs \<and> set fs \<subseteq> free_set st - free_set st' \<and>
      (\<forall>k v. k < n \<longrightarrow> virt_page v = virt_page (heap_cursor st + of_nat (i + k) * PAGE_SIZE) \<longrightarrow>
         page_entry st' (kernel_pml4 st) v =
           (of_nat (fs ! k) * PAGE_SIZE AND VMM_PHYS_MASK) OR (VMM_KERNEL_RW OR VMM_NO_EXEC))) \<and>
    (\<forall>v. (\<forall>k<n. virt_page v \<noteq> virt_page (heap_cursor st + of_nat (i + k) * PAGE_SIZE)) \<longrightarrow>
       page_entry st' (kernel_pml4 st) v = page_entry st (kernel_pml4 st) v)"
  using assms
proof (induction n arbitrary: i st)
  case 0
  then show ?case by simp
next
  case (Suc n)
  let ?root = "kernel_pml4 st" and ?fl = "VMM_KERNEL_RW OR VMM_NO_EXEC"
  have "free_set st \<noteq> {}" using Suc.prems(4) by auto
  then obtain f where f: "f \<in> free_set st" "pmm_alloc st = alloc_result st f"
    by (cases st rule: pmm_alloc_cases) auto
  define phys where "phys = fst (alloc_result st f)"
  define st1 where "st1 = snd (alloc_result st f)"
  note a = alloc_keeps_tree [OF Suc.prems(2,3) f(1), folded phys_def st1_def]
  have m1: "pmm_state.more st1 = pmm_state.more st"
    using pmm_alloc_more [of st] f(2) by (simp add: st1_def)
  note f1 = heap_fields_more [OF m1]
  define va where "va = heap_cursor st + of_nat i * PAGE_SIZE"
  define st2 where "st2 = vmm_map_kernel st1 va phys ?fl"
  define st3 where "st3 = st2\<lparr>vmem := fill (vmem st2) va 4096 0\<rparr>"
  have st2: "st2 = vmm_map st1 ?root va phys ?fl" by (simp add: st2_def vmm_map_kernel_def f1)
  have c1: "card (free_set st1) = card (free_set st) - 1"
    using f(1) by (simp add: a(6))
  note e = vmm_map_entry [OF a(1,2), of va phys ?fl, folded st2]
  have s2: "pmm_inv st2" "pt_wf st2 ?root" "free_set st2 \<subseteq> free_set st1"
    "card (free_set st1) \<le> card (free_set st2) + 3"
    and e2: "\<And>v. page_entry st2 ?root v = (if virt_page v = virt_page va
        then (phys AND VMM_PHYS_MASK) OR ?fl else page_entry st1 ?root v)"
    using e c1 Suc.prems(4) by auto
  have "pmm_state.more st2 = pmm_state.more st"
    using m1 by (simp add: st2 vmm_map_more)
  note f2 = heap_fields_more [OF this]
  have 3: "heap_map_loop st3 (Suc i) n = (ok, st')"
    using Suc.prems(1) f(2) a(3) f1
    by (simp add: st3_def st2_def va_def Let_def phys_def st1_def split_beta)
  have k3: "kernel_pml4 st3 = ?root" "heap_cursor st3 = heap_cursor st" by (simp_all add: st3_def f2)
  have fs3: "free_set st3 = free_set st2" by (simp add: st3_def free_set_def frame_used_def)
  have inv3: "pmm_inv st3" using s2(1) by (simp add: pmm_inv_def fs3) (simp add: st3_def frame_used_def)
  have wf3: "pt_wf st3 ?root"
    by (rule pt_wf_cong [OF s2(2)]) (simp_all add: st3_def frame_used_def)
  have pe3: "page_entry st3 ?root v = page_entry st2 ?root v" for v
    by (simp add: page_entry_def st3_def)
  have pe1: "page_entry st1 ?root v = page_entry st ?root v" for v
    by (simp add: page_entry_def a(11))
  have "4 * n \<le> card (free_set st3)" using Suc.prems(4) s2(4) c1 by (simp add: fs3)
  then obtain fs where ih: "ok" "pmm_inv st'" "pt_wf st' ?root" "free_set st' \<subseteq> free_set st3"
    "length fs = n" "distinct fs" "set fs \<subseteq> free_set st3 - free_set st'"
    and ih1: "\<And>k v. k < n \<Longrightarrow> virt_page v = virt_page (heap_cursor st + of_nat (Suc i + k) * PAGE_SIZE) \<Longrightarrow>
         page_entry st' ?root v = (of_nat (fs ! k) * PAGE_SIZE AND VMM_PHYS_MASK) OR ?fl"
    and ih2: "\<And>v. \<forall>k<n. virt_page v \<noteq> virt_page (heap_cursor st + of_nat (Suc i + k) * PAGE_SIZE) \<Longrightarrow>
         page_entry st' ?root v = page_entry st3 ?root v"
    using Suc.IH [OF 3 inv3, unfolded k3] wf3 Suc.prems(5,6) by auto
  have ua: "unat (heap_cursor st + of_nat k * PAGE_SIZE) = unat (heap_cursor st) + k * 4096"
    if "k < i + Suc n" for k
    using Suc.prems(6) that unat_add_of_nat [of "heap_cursor st" "k * 4096"] by (simp add: PAGE_SIZE_def)
  have other: "virt_page va \<noteq> virt_page (heap_cursor st + of_nat (Suc i + k) * PAGE_SIZE)" if "k < n" for k
    using that Suc.prems(5,6) ua [of i] ua [of "Suc i + k"]
    by (subst heap_page_inj) (simp_all add: va_def)
  have phys: "phys = of_nat f * PAGE_SIZE" by (simp add: phys_def alloc_result_def)
  have "f \<notin> free_set st1" by (simp add: a(6))
  then have "f \<notin> free_set st'" "f \<notin> set fs" using ih(4,7) s2(3) fs3 by auto
  moreover have "set fs \<subseteq> free_set st - free_set st'" using ih(7) s2(3) fs3 a(6) by auto
  ultimately have fs: "length (f # fs) = Suc n" "distinct (f # fs)"
    "set (f # fs) \<subseteq> free_set st - free_set st'" using ih(5,6) f(1) by auto
  have new: "page_entry st' ?root v = (of_nat ((f # fs) ! k) * PAGE_SIZE AND VMM_PHYS_MASK) OR ?fl"
    if "k < Suc n" "virt_page v = virt_page (heap_cursor st + of_nat (i + k) * PAGE_SIZE)" for k v
  proof (cases k)
    case 0
    then have v: "virt_page v = virt_page va" using that(2) by (simp add: va_def)
    then have "page_entry st' ?root v = page_entry st3 ?root v" using other by (intro ih2) simp
    then show ?thesis using 0 v by (simp add: pe3 e2 phys)
  next
    case (Suc j)
    then show ?thesis using ih1 [of j v] that by simp
  qed
  have old: "page_entry st' ?root v = page_entry st ?root v"
    if "\<forall>k<Suc n. virt_page v \<noteq> virt_page (heap_cursor st + of_nat (i + k) * PAGE_SIZE)" for v
  proof -
    have "virt_page v \<noteq> virt_page va" using that by (auto simp: va_def)
    moreover have "\<forall>k<n. virt_page v \<noteq> virt_page (heap_cursor st + of_nat (Suc i + k) * PAGE_SIZE)"
      using that by (metis Suc_less_eq add_Suc_shift)
    ultimately show ?thesis using ih2 by (simp add: pe3 e2 pe1)
  qed
  have "free_set st' \<subseteq> free_set st" using ih(4) fs3 s2(3) a(6) by auto
  then show ?case using ih(1-3) fs new old by blast
qed

lemma heap_map_pages_vm:
  assumes "heap_map_pages st count = (p, st')" "pmm_inv st" "pt_wf st (kernel_pml4 st)" "cursor_ok st"
    "4 * unat count \<le> card (free_set st)" "unat (heap_cursor st) + unat count * 4096 \<le> heap_hi"
  shows "p = heap_cursor st" "pmm_inv st'" "pt_wf st' (kernel_pml4 st)" "unat count < 100000000"
    "\<exists>fs. length fs = unat count \<and> distinct fs \<and> set fs \<subseteq> free_set st - free_set st' \<and>
      (\<forall>k v. k < unat count \<longrightarrow> virt_page v = virt_page (heap_cursor st + of_nat k * PAGE_SIZE) \<longrightarrow>
         vmm_translate st' (kernel_pml4 st) v = (of_nat (fs ! k) * PAGE_SIZE) OR (v AND 0xFFF))"
    "\<forall>v. (\<forall>k<unat count. virt_page v \<noteq> virt_page (heap_cursor st + of_nat k * PAGE_SIZE)) \<longrightarrow>
       vmm_translate st' (kernel_pml4 st) v = vmm_translate st (kernel_pml4 st) v"
proof -
  let ?root = "kernel_pml4 st" and ?fl = "VMM_KERNEL_RW OR VMM_NO_EXEC"
  show small: "unat count < 100000000" using assms(6,4) by (simp add: cursor_ok_def)
  obtain ok s where l: "heap_map_loop st 0 (unat count) = (ok, s)" by fastforce
  have lo: "heap_lo \<le> unat (heap_cursor st)" using assms(4) by (simp add: cursor_ok_def)
  note vm = heap_map_loop_vm [OF l assms(2,3,5) lo, unfolded add_0, OF assms(6)]
  note ok = vm [THEN conjunct1]
  from vm [THEN conjunct2, THEN conjunct2, THEN conjunct2, THEN conjunct2, THEN conjunct1]
  obtain fl where fl0: "length fl = unat count \<and> distinct fl \<and> set fl \<subseteq> free_set st - free_set s \<and>
      (\<forall>k v. k < unat count \<longrightarrow> virt_page v = virt_page (heap_cursor st + of_nat k * PAGE_SIZE) \<longrightarrow>
      page_entry s ?root v = (of_nat (fl ! k) * PAGE_SIZE AND VMM_PHYS_MASK) OR ?fl)"
    by (rule exE)
  have "unat (heap_cursor st + count * PAGE_SIZE) = unat (heap_cursor st) + unat count * 4096"
    using assms(4) small by (simp add: cursor_ok_def kdefs unat_word_ariths)
  then have g: "\<not> HEAP_VIRT_BASE + HEAP_MAX_SIZE < heap_cursor st + count * PAGE_SIZE"
    using assms(6) by (simp add: word_less_nat_alt heap_bounds not_less)
  have bound: "unat (heap_cursor st) + (0 + unat count) * 4096 < 18446744073709551616"
    using assms(6) by simp
  have cs: "heap_cursor s = heap_cursor st" using heap_map_loop_frame [OF l bound] by simp
  have r: "p = heap_cursor st" "st' = s\<lparr>heap_cursor := heap_cursor s + count * PAGE_SIZE,
      heap_limit := heap_cursor s + count * PAGE_SIZE\<rparr>"
    using assms(1) l ok g cs by (auto simp: heap_map_pages_def Let_def)
  show "p = heap_cursor st" by (rule r(1))
  have fs: "free_set st' = free_set s" by (simp add: r free_set_def frame_used_def)
  show "pmm_inv st'" using vm [THEN conjunct2, THEN conjunct1]
    by (simp add: pmm_inv_def fs) (simp add: r frame_used_def)
  note wfs = vm [THEN conjunct2, THEN conjunct2, THEN conjunct1]
  show wf: "pt_wf st' ?root"
    by (rule pt_wf_cong [OF wfs]) (simp_all add: r frame_used_def)
  have pe: "page_entry st' ?root v = page_entry s ?root v" for v by (simp add: page_entry_def r)
  note fl = fl0 [THEN conjunct1] fl0 [THEN conjunct2, THEN conjunct1]
    fl0 [THEN conjunct2, THEN conjunct2, THEN conjunct1]
  note pg = fl0 [THEN conjunct2, THEN conjunct2, THEN conjunct2, rule_format]
  have tr: "vmm_translate st' ?root v = (of_nat (fl ! k) * PAGE_SIZE) OR (v AND 0xFFF)"
    if "k < unat count" "virt_page v = virt_page (heap_cursor st + of_nat k * PAGE_SIZE)" for k v
  proof -
    have "fl ! k \<in> set fl" using that(1) fl(1) by simp
    then have "fl ! k \<in> free_set st" using fl(3) by blast
    from alloc_keeps_tree(4) [OF assms(2,3) this]
    have "of_nat (fl ! k) * PAGE_SIZE AND VMM_PHYS_MASK = of_nat (fl ! k) * PAGE_SIZE"
      by (simp add: page_ptr_mask alloc_result_def)
    then show ?thesis
      unfolding vmm_translate_entry [OF wf] pe pg [OF that]
      using map_entry_phys [OF heap_flags, of "of_nat (fl ! k) * PAGE_SIZE" v] by (simp only:)
  qed
  show "\<exists>fs. length fs = unat count \<and> distinct fs \<and> set fs \<subseteq> free_set st - free_set st' \<and>
      (\<forall>k v. k < unat count \<longrightarrow> virt_page v = virt_page (heap_cursor st + of_nat k * PAGE_SIZE) \<longrightarrow>
         vmm_translate st' ?root v = (of_nat (fs ! k) * PAGE_SIZE) OR (v AND 0xFFF))"
    unfolding fs by (rule exI [of _ fl]) (intro conjI allI impI fl tr; assumption)
  show "\<forall>v. (\<forall>k<unat count. virt_page v \<noteq> virt_page (heap_cursor st + of_nat k * PAGE_SIZE)) \<longrightarrow>
       vmm_translate st' ?root v = vmm_translate st ?root v"
    unfolding vmm_translate_entry [OF wf] vmm_translate_entry [OF assms(3)] pe
  proof (intro allI impI)
    fix v assume h: "\<forall>k<unat count. virt_page v \<noteq> virt_page (heap_cursor st + of_nat k * PAGE_SIZE)"
    show "entry_phys (page_entry s ?root v) v = entry_phys (page_entry st ?root v) v"
      unfolding vm [THEN conjunct2, THEN conjunct2, THEN conjunct2, THEN conjunct2, THEN conjunct2,
        THEN spec, THEN mp, OF h] ..
  qed
qed

text \<open>
  growing the heap.  When four frames per page are free and the window has room,
  heap_map_pages returns the old cursor; afterwards every address of the k-th new page
  translates to the k-th of a list of distinct frames that were free before, every other page
  translates as before, and the allocator and the kernel page tables are well formed.
\<close>

theorem heap_map_pages_correct:
  assumes "pmm_inv st" "pt_wf st (kernel_pml4 st)" "cursor_ok st" "4 * unat count \<le> card (free_set st)"
    "unat (heap_cursor st) + unat count * 4096 \<le> heap_hi" "heap_map_pages st count = (p, st')"
  shows "p = heap_cursor st \<and> pmm_inv st' \<and> pt_wf st' (kernel_pml4 st) \<and>
    (\<exists>fs. length fs = unat count \<and> distinct fs \<and> set fs \<subseteq> free_set st - free_set st' \<and>
      (\<forall>k v. k < unat count \<longrightarrow> virt_page v = virt_page (p + of_nat k * PAGE_SIZE) \<longrightarrow>
         vmm_translate st' (kernel_pml4 st) v = (of_nat (fs ! k) * PAGE_SIZE) OR (v AND 0xFFF))) \<and>
    (\<forall>v. (\<forall>k<unat count. virt_page v \<noteq> virt_page (p + of_nat k * PAGE_SIZE)) \<longrightarrow>
       vmm_translate st' (kernel_pml4 st) v = vmm_translate st (kernel_pml4 st) v)"
  unfolding heap_map_pages_vm(1) [OF assms(6,1-5)]
  by (intro conjI heap_map_pages_vm [OF assms(6,1-5)] refl)

section \<open>Initialisation\<close>

text \<open>
  heap_init on a machine with at least sixteen free frames establishes the heap
  invariant with no live block.
\<close>

theorem heap_init_correct:
  assumes "pmm_inv st" "pt_wf st (kernel_pml4 st)" "16 \<le> card (free_set st)"
  shows "heap_ok (heap_init st) {}"
proof -
  define st1 where "st1 = st\<lparr>heap_cursor := HEAP_VIRT_BASE, heap_limit := HEAP_VIRT_BASE,
     large_free_list := 0, slab_classes := (\<lambda>i. if i < SLAB_CLASSES then 0 else slab_classes st i)\<rparr>"
  have fs1: "free_set st1 = free_set st" by (simp add: st1_def free_set_def frame_used_def)
  have i1: "pmm_inv st1" using assms(1) by (simp add: pmm_inv_def fs1) (simp add: st1_def frame_used_def)
  have w1: "pt_wf st1 (kernel_pml4 st1)"
    by (rule pt_wf_cong) (use assms(2) in \<open>simp_all add: st1_def frame_used_def\<close>)
  have c1: "cursor_ok st1" by (simp add: cursor_ok_def st1_def heap_bounds)
  have u1: "unat (heap_cursor st1) = heap_lo" by (simp add: st1_def heap_bounds)
  obtain p st2 where m: "heap_map_pages st1 4 = (p, st2)" by fastforce
  have p: "p = heap_cursor st1"
    using heap_map_pages_vm(1) [OF m i1 w1 c1] assms(3) u1 by (simp add: fs1)
  then have "p \<noteq> 0" using u1 by auto
  note f = heap_map_pages_cases [OF m c1, simplified]
  have inv1: "heap_inv st1 {} {}"
    using c1 by (auto simp: heap_inv_def classes_ok_def free_list_ok_def st1_def kdefs)
  have le: "unat (heap_cursor st1) \<le> unat (heap_cursor st2)" using f(6) \<open>p \<noteq> 0\<close> by simp
  note inv2 = heap_inv_same [OF inv1 f(1,3) le]
  have b: "unat HEAP_VIRT_BASE + unat (4 * PAGE_SIZE) = unat (heap_cursor st2)"
    using f(6) \<open>p \<noteq> 0\<close> u1 by (simp add: heap_bounds PAGE_SIZE_def)
  note g = large_grow_inv [OF inv2(1) b]
  define s where "s = set_magic (set_large st2 HEAP_VIRT_BASE
      (\<lambda>h. h\<lparr>lh_size := 4 * PAGE_SIZE, lh_next := 0, lh_prev := 0\<rparr>)) HEAP_VIRT_BASE HEAP_MAGIC_FREE"
  have s: "heap_inv s {HEAP_VIRT_BASE} {HEAP_VIRT_BASE}" "live s {HEAP_VIRT_BASE} = {}"
    using g inv2(2) by (simp_all add: s_def heap_bounds PAGE_SIZE_def live_def)
  have hi: "heap_init st = s\<lparr>large_free_list := HEAP_VIRT_BASE\<rparr>"
    using m by (simp add: heap_init_def Let_def s_def st1_def)
  have h: "hlen (heap_init st) = hlen s" by (simp add: hi hlen_def fun_eq_iff)
  have "HEAP_VIRT_BASE \<noteq> 0" by (simp add: kdefs)
  then have "free_list_ok (heap_init st) {HEAP_VIRT_BASE} {}"
    unfolding free_list_ok_def by (intro exI [of _ "[HEAP_VIRT_BASE]"]) (auto simp: hi s_def)
  then have "heap_inv (heap_init st) {HEAP_VIRT_BASE} {}"
    using heap_invD(1,2) [OF s(1)] unfolding h [symmetric]
    by (intro heap_inv_large [OF s(1)]) (simp_all add: hi block_ok_def h [unfolded hi])
  moreover have "live (heap_init st) {HEAP_VIRT_BASE} = {}"
    by (simp add: live_def blocks_of_def hi s_def)
  ultimately show ?thesis unfolding heap_ok_def by blast
qed

section \<open>Witnesses\<close>

definition pages_demo :: heap_state where
  \<comment> \<open>zeroed memory, frames 3 to 18 free, an empty top-level table in frame 1\<close>
  "pages_demo = foldl frame_clear
     (vmm_state.extend \<lparr>mem = (\<lambda>_. 0), pmm_bitmap = (\<lambda>_. - 1), total_frames = 16, free_frames = 16,
       search_hint = 0, kernel_pml4 = 4096, cr3 = 4096, msrs = (\<lambda>_. 0)\<rparr>
     (heap_state.fields (\<lambda>_. 0) (\<lambda>_. 0)
       (\<lambda>_. \<lparr>sp_order = 0, sp_obj_size = 0, sp_capacity = 0, sp_free_count = 0, sp_first_free = 0,
             sp_next = 0, sp_bitmap = (\<lambda>_. 0)\<rparr>)
       (\<lambda>_. \<lparr>lh_size = 0, lh_next = 0, lh_prev = 0\<rparr>)
       (\<lambda>_. 0) 0 HEAP_VIRT_BASE HEAP_VIRT_BASE)) [3..<19]"

lemma frame_clear_sel:
  "mem (foldl frame_clear s fs) = mem s" "free_frames (foldl frame_clear s fs) = free_frames s"
  "pmm_state.more (foldl frame_clear s fs) = pmm_state.more s"
  by (induction fs arbitrary: s) (simp_all add: frame_clear_def)

lemma frame_clear_fold:
  "frame_used (foldl frame_clear s fs) g \<longleftrightarrow> frame_used s g \<and> g \<notin> set fs"
  by (induction fs arbitrary: s) auto

lemma pages_demo [simp]:
  "free_set pages_demo = {3..<19}" "pmm_inv pages_demo" "kernel_pml4 pages_demo = 4096"
  "pt_wf pages_demo 4096" "heap_cursor pages_demo = HEAP_VIRT_BASE" "cursor_ok pages_demo"
proof -
  have u: "frame_used pages_demo f \<longleftrightarrow> f \<notin> {3..<19}" for f
    unfolding pages_demo_def frame_clear_fold
    by (simp add: frame_used_bit vmm_state.defs del: upt_rec_numeral)
  have m: "mem pages_demo = (\<lambda>_. 0)" "free_frames pages_demo = 16"
    unfolding pages_demo_def frame_clear_sel by (simp_all add: vmm_state.defs)
  note hf = heap_fields_more [OF frame_clear_sel(3)]
  show fs: "free_set pages_demo = {3..<19}" by (auto simp: free_set_def u PMM_MAX_FRAMES_def)
  show "pmm_inv pages_demo" unfolding pmm_inv_def fs by (simp add: u m)
  show "kernel_pml4 pages_demo = 4096" unfolding pages_demo_def hf by (simp add: vmm_state.defs)
  show "pt_wf pages_demo 4096"
    by (rule empty_pt_wf) (simp_all add: m u page_ptr_def PMM_MAX_FRAMES_def)
  show "heap_cursor pages_demo = HEAP_VIRT_BASE"
    unfolding pages_demo_def hf by (simp add: vmm_state.defs heap_state.defs)
  then show "cursor_ok pages_demo" by (simp add: cursor_ok_def heap_bounds)
qed

theorem heap_map_pages_correct_witness:
  "pmm_inv pages_demo \<and> pt_wf pages_demo (kernel_pml4 pages_demo) \<and> cursor_ok pages_demo \<and>
   fst (heap_map_pages pages_demo 4) = HEAP_VIRT_BASE"
  using heap_map_pages_correct [of pages_demo 4 "fst (heap_map_pages pages_demo 4)"
      "snd (heap_map_pages pages_demo 4)"]
  by (simp add: heap_bounds)

theorem heap_init_correct_witness:
  "pmm_inv pages_demo \<and> pt_wf pages_demo (kernel_pml4 pages_demo) \<and> heap_ok (heap_init pages_demo) {}"
  using heap_init_correct [of pages_demo] by simp

end
