(* ===== verification/Gdt.thy ===== *)
theory Gdt
  imports Prelude
begin

text \<open>
  Segment descriptors and the task state segment (\<^verbatim>\<open>kernel/arch/x86_64/gdt.c\<close>) and the
  interrupt descriptor table (\<^verbatim>\<open>kernel/arch/x86_64/idt.c\<close>).  Tables are lists of entries with
  the packed fields of the source; the 16-byte TSS descriptor overlays entries 5 and 6 of the
  GDT, as the union in the source does.  \<open>seg_base\<close>, \<open>seg_limit\<close>, \<open>tss_base\<close> and
  \<open>gate_target\<close> are how the processor reads the entries.  The \<^verbatim>\<open>lgdt\<close>, \<^verbatim>\<open>ltr\<close> and
  \<^verbatim>\<open>lidt\<close> instructions load the table registers of the state; segment reloads are not
  modelled.
\<close>

section \<open>Segment descriptors\<close>

definition GDT_NULL :: nat where [kdefs]: "GDT_NULL = 0"
definition GDT_KERNEL_CODE :: nat where [kdefs]: "GDT_KERNEL_CODE = 1"
definition GDT_KERNEL_DATA :: nat where [kdefs]: "GDT_KERNEL_DATA = 2"
definition GDT_USER_DATA :: nat where [kdefs]: "GDT_USER_DATA = 3"
definition GDT_USER_CODE :: nat where [kdefs]: "GDT_USER_CODE = 4"
definition GDT_TSS_LOW :: nat where [kdefs]: "GDT_TSS_LOW = 5"
definition GDT_TSS_HIGH :: nat where [kdefs]: "GDT_TSS_HIGH = 6"
definition GDT_ENTRIES :: nat where [kdefs]: "GDT_ENTRIES = 7"

definition SEL_KERNEL_CODE :: u64 where [kdefs]: "SEL_KERNEL_CODE = push_bit 3 (of_nat GDT_KERNEL_CODE)"
definition SEL_KERNEL_DATA :: u64 where [kdefs]: "SEL_KERNEL_DATA = push_bit 3 (of_nat GDT_KERNEL_DATA)"
definition SEL_USER_DATA :: u64 where [kdefs]: "SEL_USER_DATA = push_bit 3 (of_nat GDT_USER_DATA) OR 3"
definition SEL_USER_CODE :: u64 where [kdefs]: "SEL_USER_CODE = push_bit 3 (of_nat GDT_USER_CODE) OR 3"
definition SEL_TSS :: u64 where [kdefs]: "SEL_TSS = push_bit 3 (of_nat GDT_TSS_LOW)"

record tss64 =
  tss_rsp0 :: u64
  tss_rsp1 :: u64
  tss_rsp2 :: u64
  tss_ist :: "u64 list"
  iopb_offset :: u16

record gdt_entry =
  limit_low :: u16
  base_low :: u16
  base_mid :: u8
  access :: u8
  gran :: u8
  base_high :: u8

record gdt_state =
  gdt :: "gdt_entry list"
  tss :: tss64
  gdtr_limit :: u16
  gdtr_base :: u64
  task_register :: u64

definition zero_entry :: gdt_entry where
  "zero_entry = \<lparr>limit_low = 0, base_low = 0, base_mid = 0, access = 0, gran = 0, base_high = 0\<rparr>"

definition zero_tss :: tss64 where
  "zero_tss = \<lparr>tss_rsp0 = 0, tss_rsp1 = 0, tss_rsp2 = 0, tss_ist = replicate 7 0, iopb_offset = 0\<rparr>"

definition SIZEOF_TSS :: nat where [kdefs]: "SIZEOF_TSS = 104"

definition gdt_set_entry :: "gdt_entry list \<Rightarrow> nat \<Rightarrow> u32 \<Rightarrow> u32 \<Rightarrow> u8 \<Rightarrow> u8 \<Rightarrow> gdt_entry list" where
  "gdt_set_entry g idx base limit acc gr = g[idx :=
     \<lparr>limit_low = ucast (limit AND 0xFFFF), base_low = ucast (base AND 0xFFFF),
      base_mid = ucast (drop_bit 16 base AND 0xFF), access = acc,
      gran = ucast ((drop_bit 16 limit AND 0x0F) OR (ucast gr AND 0xF0)),
      base_high = ucast (drop_bit 24 base AND 0xFF)\<rparr>]"

definition gdt_set_ist :: "tss64 \<Rightarrow> u8 \<Rightarrow> u64 \<Rightarrow> tss64" where
  "gdt_set_ist t slot stack_top =
     (if slot < 1 \<or> slot > 7 then t
      else t\<lparr>tss_ist := (tss_ist t)[unat slot - 1 := stack_top]\<rparr>)"

definition gdt_set_kernel_stack :: "tss64 \<Rightarrow> u64 \<Rightarrow> tss64" where
  "gdt_set_kernel_stack t stack_top = t\<lparr>tss_rsp0 := stack_top\<rparr>"

definition gdt_set_tss :: "gdt_entry list \<Rightarrow> u64 \<Rightarrow> u32 \<Rightarrow> gdt_entry list" where
  \<comment> \<open>the TSS descriptor written over entries 5 and 6\<close>
  "gdt_set_tss g base limit = g[GDT_TSS_LOW :=
     \<lparr>limit_low = ucast (limit AND 0xFFFF), base_low = ucast (base AND 0xFFFF),
      base_mid = ucast (drop_bit 16 base AND 0xFF), access = 0x89,
      gran = ucast (drop_bit 16 limit AND 0x0F), base_high = ucast (drop_bit 24 base AND 0xFF)\<rparr>,
     GDT_TSS_HIGH :=
     \<lparr>limit_low = ucast (ucast (drop_bit 32 base) :: u32),
      base_low = ucast (drop_bit 16 (ucast (drop_bit 32 base) :: u32)),
      base_mid = 0, access = 0, gran = 0, base_high = 0\<rparr>]"

definition gdt_init :: "u64 \<Rightarrow> u64 \<Rightarrow> gdt_state" where
  \<comment> \<open>the arguments are the link addresses of the tables \<open>gdt\<close> and \<open>tss\<close>\<close>
  "gdt_init gdt_addr tss_addr =
     (let g0 = replicate GDT_ENTRIES zero_entry;
          g1 = gdt_set_entry g0 GDT_NULL 0 0 0 0;
          g2 = gdt_set_entry g1 GDT_KERNEL_CODE 0 0xFFFFF 0x9A 0x20;
          g3 = gdt_set_entry g2 GDT_KERNEL_DATA 0 0xFFFFF 0x92 0x00;
          g4 = gdt_set_entry g3 GDT_USER_DATA 0 0xFFFFF 0xF2 0x00;
          g5 = gdt_set_entry g4 GDT_USER_CODE 0 0xFFFFF 0xFA 0x20;
          g6 = gdt_set_tss g5 tss_addr (of_nat (SIZEOF_TSS - 1))
      in \<lparr>gdt = g6, tss = zero_tss\<lparr>iopb_offset := of_nat SIZEOF_TSS\<rparr>,
          gdtr_limit = of_nat (GDT_ENTRIES * 8 - 1), gdtr_base = gdt_addr, task_register = SEL_TSS\<rparr>)"

section \<open>Interrupt gates\<close>

record idt_entry =
  off_low :: u16
  gate_cs :: u16
  gate_ist :: u8
  gate_attr :: u8
  off_mid :: u16
  off_high :: u32

record 'h idt_state =
  idt :: "idt_entry list"
  idtr_limit :: u16
  idtr_base :: u64
  handlers :: "'h option list"

definition idt_set_entry :: "idt_entry list \<Rightarrow> u8 \<Rightarrow> u64 \<Rightarrow> u8 \<Rightarrow> u8 \<Rightarrow> idt_entry list" where
  "idt_set_entry t vec handler ist attr = t[unat vec :=
     \<lparr>off_low = ucast (handler AND 0xFFFF), gate_cs = 0x08, gate_ist = ist, gate_attr = attr,
      off_mid = ucast (drop_bit 16 handler AND 0xFFFF), off_high = ucast (drop_bit 32 handler)\<rparr>]"

definition idt_set_handler :: "('h, 'a) idt_state_scheme \<Rightarrow> u8 \<Rightarrow> 'h option \<Rightarrow> ('h, 'a) idt_state_scheme" where
  "idt_set_handler st vec h = st\<lparr>handlers := (handlers st)[unat vec := h]\<rparr>"

datatype 'h dispatch = Handle 'h | Halt | Ignore

definition isr_dispatch :: "('h, 'a) idt_state_scheme \<Rightarrow> u64 \<Rightarrow> 'h dispatch" where
  "isr_dispatch st vec =
     (case handlers st ! unat vec of
        Some h \<Rightarrow> Handle h
      | None \<Rightarrow> if vec < 32 then Halt else Ignore)"

fun idt_fill :: "idt_entry list \<Rightarrow> (nat \<Rightarrow> u64) \<Rightarrow> nat \<Rightarrow> nat \<Rightarrow> idt_entry list" where
  "idt_fill t stubs i 0 = t"
| "idt_fill t stubs i (Suc n) = idt_fill (idt_set_entry t (of_nat i) (stubs i) 0 0x8E) stubs (Suc i) n"

definition idt_init :: "(nat \<Rightarrow> u64) \<Rightarrow> u64 \<Rightarrow> ('h, 'a) idt_state_scheme \<Rightarrow> ('h, 'a) idt_state_scheme" where
  "idt_init isr_stub_table idt_addr st =
     st\<lparr>idt := idt_fill (idt st) isr_stub_table 0 256,
        idtr_limit := of_nat (256 * 16 - 1), idtr_base := idt_addr\<rparr>"

section \<open>How the processor reads the tables\<close>

definition seg_base :: "gdt_entry \<Rightarrow> u32" where
  "seg_base e = ucast (base_low e) OR push_bit 16 (ucast (base_mid e)) OR push_bit 24 (ucast (base_high e))"

definition seg_limit :: "gdt_entry \<Rightarrow> u32" where
  "seg_limit e = ucast (limit_low e) OR push_bit 16 (ucast (gran e) AND 0x0F)"

definition seg_dpl :: "gdt_entry \<Rightarrow> u8" where
  "seg_dpl e = drop_bit 5 (access e) AND 3"

definition tss_base :: "gdt_entry \<Rightarrow> gdt_entry \<Rightarrow> u64" where
  "tss_base lo hi = ucast (seg_base lo) OR
     push_bit 32 (ucast (limit_low hi) OR push_bit 16 (ucast (base_low hi)))"

definition gate_target :: "idt_entry \<Rightarrow> u64" where
  "gate_target e = ucast (off_low e) OR push_bit 16 (ucast (off_mid e)) OR push_bit 32 (ucast (off_high e))"

section \<open>Encoding and decoding agree\<close>

lemma and_masks:
  "(x :: 'a :: len word) AND 0xFFFF = take_bit 16 x" "x AND 0xFF = take_bit 8 x" "x AND 0x0F = take_bit 4 x"
  by (simp_all add: take_bit_eq_mask mask_eq_exp_minus_1)

lemma bit_u8_lt: "bit (x :: u8) n \<Longrightarrow> n < 8" and bit_u16_lt: "bit (y :: u16) n \<Longrightarrow> n < 16"
  and bit_u32_lt: "bit (z :: u32) n \<Longrightarrow> n < 32" and bit_u64_lt: "bit (v :: u64) n \<Longrightarrow> n < 64"
  by (drule bit_imp_le_length; simp)+

lemma seg_base_encode32: "seg_base
     \<lparr>limit_low = l, base_low = ucast (b AND 0xFFFF), base_mid = ucast (drop_bit 16 b AND 0xFF), access = a,
      gran = g, base_high = ucast (drop_bit 24 b AND 0xFF)\<rparr> = (b :: u32)"
  unfolding seg_base_def and_masks
  by (rule bit_word_eqI, rename_tac n, case_tac "n < 24") (auto simp: bit_simps dest: bit_u32_lt)

lemma seg_base_encode64: "seg_base
     \<lparr>limit_low = l, base_low = ucast (b AND 0xFFFF), base_mid = ucast (drop_bit 16 b AND 0xFF), access = a,
      gran = g, base_high = ucast (drop_bit 24 b AND 0xFF)\<rparr> = ucast (b :: u64)"
  unfolding seg_base_def and_masks
  by (rule bit_word_eqI, rename_tac n, case_tac "n < 24") (auto simp: bit_simps dest: bit_u64_lt)

lemma seg_limit_encode: "seg_limit
     \<lparr>limit_low = ucast (l AND 0xFFFF), base_low = b, base_mid = m, access = a,
      gran = ucast ((drop_bit 16 l AND 0x0F) OR (ucast gr AND 0xF0)), base_high = h\<rparr> = take_bit 20 (l :: u32)"
proof -
  have n: "(0xF0 :: u32) = push_bit 4 0xF" by simp
  show ?thesis
    unfolding seg_limit_def and_masks n
    by (rule bit_word_eqI) (auto simp: bit_simps simp del: push_bit_numeral)
qed

text \<open>
  the processor reads back from a segment descriptor the base that gdt_set_entry was given
  and the low 20 bits of the limit, and no other descriptor changes.
\<close>

theorem gdt_set_entry_roundtrip:
  assumes "idx < length g"
  shows "seg_base (gdt_set_entry g idx base limit acc gr ! idx) = base \<and>
    seg_limit (gdt_set_entry g idx base limit acc gr ! idx) = take_bit 20 limit \<and>
    access (gdt_set_entry g idx base limit acc gr ! idx) = acc \<and>
    (\<forall>i. i \<noteq> idx \<longrightarrow> gdt_set_entry g idx base limit acc gr ! i = g ! i)"
  using assms by (simp add: gdt_set_entry_def seg_base_encode32 seg_limit_encode)

theorem gdt_set_entry_roundtrip_witness:
  "seg_base (gdt_set_entry (replicate GDT_ENTRIES zero_entry) 2 0x12345678 0xFFFFF 0x92 0 ! 2) = 0x12345678"
  using gdt_set_entry_roundtrip [of 2 "replicate GDT_ENTRIES zero_entry" 305419896 1048575 146 0]
  by (simp add: kdefs)

lemma tss_base_encode:
  "tss_base (gdt_set_tss g base limit ! GDT_TSS_LOW) (gdt_set_tss g base limit ! GDT_TSS_HIGH) = base"
  if "6 < length g"
proof -
  have "ucast (ucast base :: u32) OR push_bit 32
      (ucast (ucast (ucast (drop_bit 32 base) :: u32) :: u16) OR
       push_bit 16 (ucast (ucast (drop_bit 16 (ucast (drop_bit 32 base) :: u32)) :: u16))) = base"
    by (rule bit_word_eqI, rename_tac n, case_tac "n < 48") (auto simp: bit_simps dest: bit_u64_lt)
  then show ?thesis
    using that by (simp add: gdt_set_tss_def tss_base_def GDT_TSS_LOW_def GDT_TSS_HIGH_def seg_base_encode64)
qed

text \<open>
  C40: after gdt_init the five segment descriptors and the TSS descriptor are those the kernel
  needs: kernel segments at privilege 0, user segments at privilege 3, the TSS descriptor
  decoding to the address and size of the TSS, the selectors that SYSRET derives from
  \<open>STAR[63:48] = 0x10\<close> naming the user data and user code descriptors.
\<close>

theorem gdt_init_correct:
  "let st = gdt_init ga ta in length (gdt st) = GDT_ENTRIES \<and>
    map (seg_dpl \<circ> (\<lambda>i. gdt st ! i)) [GDT_KERNEL_CODE, GDT_KERNEL_DATA, GDT_USER_DATA, GDT_USER_CODE] = [0, 0, 3, 3] \<and>
    tss_base (gdt st ! GDT_TSS_LOW) (gdt st ! GDT_TSS_HIGH) = ta \<and>
    seg_limit (gdt st ! GDT_TSS_LOW) = 103 \<and>
    unat (gdtr_limit st) + 1 = 8 * length (gdt st) \<and> gdtr_base st = ga \<and> task_register st = SEL_TSS \<and>
    (0x10 + 8) OR 3 = SEL_USER_DATA \<and> (0x10 + 16) OR 3 = SEL_USER_CODE"
proof -
  define st where "st = gdt_init ga ta"
  let ?g = "gdt_set_entry (gdt_set_entry (gdt_set_entry (gdt_set_entry (gdt_set_entry
      (replicate GDT_ENTRIES zero_entry) GDT_NULL 0 0 0 0) GDT_KERNEL_CODE 0 0xFFFFF 0x9A 0x20)
      GDT_KERNEL_DATA 0 0xFFFFF 0x92 0x00) GDT_USER_DATA 0 0xFFFFF 0xF2 0x00) GDT_USER_CODE 0 0xFFFFF 0xFA 0x20"
  have g: "gdt st = gdt_set_tss ?g ta 103" by (simp add: st_def gdt_init_def Let_def kdefs)
  have l: "length ?g = 7" by (simp add: gdt_set_entry_def kdefs)
  have "tss_base (gdt st ! GDT_TSS_LOW) (gdt st ! GDT_TSS_HIGH) = ta"
    unfolding g by (rule tss_base_encode) (simp add: l)
  moreover have "seg_limit (gdt st ! GDT_TSS_LOW) = 103"
    unfolding g by (simp add: gdt_set_tss_def gdt_set_entry_def kdefs seg_limit_def)
  moreover have "map (seg_dpl \<circ> (\<lambda>i. gdt st ! i))
      [GDT_KERNEL_CODE, GDT_KERNEL_DATA, GDT_USER_DATA, GDT_USER_CODE] = [0, 0, 3, 3]"
    unfolding g by (simp add: gdt_set_tss_def gdt_set_entry_def kdefs seg_dpl_def)
  moreover have "length (gdt st) = 7" unfolding g by (simp add: gdt_set_tss_def l)
  ultimately show ?thesis
    unfolding Let_def st_def [symmetric]
    by (simp add: kdefs) (simp add: st_def gdt_init_def Let_def kdefs)
qed

lemma gate_encode: "gate_target
     \<lparr>off_low = ucast (h AND 0xFFFF), gate_cs = c, gate_ist = i, gate_attr = a,
      off_mid = ucast (drop_bit 16 h AND 0xFFFF), off_high = ucast (drop_bit 32 h)\<rparr> = (h :: u64)"
  unfolding gate_target_def and_masks
  by (rule bit_word_eqI, rename_tac n, case_tac "n < 32") (auto simp: bit_simps dest: bit_u64_lt)

lemma idt_fill_nth:
  "length t = 256 \<Longrightarrow> i + n \<le> 256 \<Longrightarrow> j < 256 \<Longrightarrow>
   gate_target (idt_fill t stubs i n ! j) =
     (if i \<le> j \<and> j < i + n then stubs j else gate_target (t ! j)) \<and>
   gate_cs (idt_fill t stubs i n ! j) = (if i \<le> j \<and> j < i + n then 8 else gate_cs (t ! j)) \<and>
   gate_attr (idt_fill t stubs i n ! j) = (if i \<le> j \<and> j < i + n then 0x8E else gate_attr (t ! j)) \<and>
   length (idt_fill t stubs i n) = 256"
proof (induction t stubs i n rule: idt_fill.induct)
  case (2 t stubs i n)
  have "unat (of_nat i :: u8) = i" using 2(3) by (simp add: unat_of_nat)
  then show ?case using 2 by (cases "i = j") (auto simp: idt_set_entry_def gate_encode nth_list_update)
qed auto

text \<open>
  after idt_init every one of the 256 vectors is a 64-bit interrupt gate in the kernel code
  segment whose target is the vector's entry stub.
\<close>

theorem idt_init_correct:
  assumes "length (idt st) = 256" "v < 256"
  shows "gate_target (idt (idt_init stubs ia st) ! v) = stubs v \<and>
    gate_cs (idt (idt_init stubs ia st) ! v) = 0x08 \<and> gate_attr (idt (idt_init stubs ia st) ! v) = 0x8E \<and>
    unat (idtr_limit (idt_init stubs ia st)) + 1 = 16 * 256"
  using idt_fill_nth [OF assms(1), of 0 256 v stubs] assms(2) by (simp add: idt_init_def)

definition idt_demo :: "nat idt_state" where
  "idt_demo = \<lparr>idt = replicate 256 \<lparr>off_low = 0, gate_cs = 0, gate_ist = 0, gate_attr = 0, off_mid = 0, off_high = 0\<rparr>,
     idtr_limit = 0, idtr_base = 0, handlers = replicate 256 None\<rparr>"

theorem idt_init_correct_witness:
  "length (idt idt_demo) = 256 \<and>
   gate_target (idt (idt_init (\<lambda>i. 0xFFFFFFFF80100000 + of_nat i * 16) 0x1000 idt_demo) ! 14) = 0xFFFFFFFF801000E0"
proof -
  have l: "length (idt idt_demo) = 256" by (simp add: idt_demo_def)
  show ?thesis
    using idt_init_correct [OF l, of 14 "\<lambda>i. 18446744071563116544 + of_nat i * 16" 4096] l by simp
qed

end
