(* ===== verification/Sched.thy ===== *)
theory Sched
  imports HeapContract Gdt "HOL-Library.Monad_Syntax"
begin

text \<open>
  The scheduler (\<^verbatim>\<open>kernel/sched/sched.c\<close>, \<^verbatim>\<open>sched.h\<close>, \<^verbatim>\<open>sched_switch.asm\<close>) and the timer that
  drives it (\<^verbatim>\<open>kernel/arch/x86_64/timer.c\<close>).

  Task structures live in kernel heap blocks.  They are modelled as a typed store \<open>tasks\<close>
  from addresses to records, separate from the byte contents of the other heap blocks, which
  the heap contract keeps apart.  The store is total: the cell at address 0 is the identity-mapped
  low page, which the source reads and writes when it unlinks a task that is not linked.

  Operations return the new state.  An operation that may switch tasks also returns whether it
  did; after a switch the processor runs the new current task, and what is left of the call
  (restoring the interrupt flag) belongs to the suspended task.  \<^const>\<open>None\<close> is a call that
  never returns: a panic or a walk of the run queue that does not end.
\<close>

section \<open>State\<close>

datatype task_state = TASK_CREATED | TASK_READY | TASK_RUNNING | TASK_BLOCKED | TASK_ZOMBIE | TASK_DEAD

record cpu_state =
  r15 :: u64
  r14 :: u64
  r13 :: u64
  r12 :: u64
  rbx :: u64
  rbp :: u64
  rsp :: u64

definition MAX_FDS :: nat where [kdefs]: "MAX_FDS = 64"
definition DEFAULT_TIMESLICE :: u64 where [kdefs]: "DEFAULT_TIMESLICE = 20"
definition KSTACK_SIZE :: u64 where [kdefs]: "KSTACK_SIZE = 16 * 1024"
definition SLEEP_LIST_MAX :: nat where [kdefs]: "SLEEP_LIST_MAX = 256"
definition SIZEOF_TASK :: u64 where [kdefs]: "SIZEOF_TASK = 720"

record task =
  t_pid :: u32
  t_ppid :: u32
  t_name :: string
  t_cpu :: cpu_state
  t_kernel_stack :: u64
  t_user_stack :: u64
  t_rip_entry :: u64
  t_cr3 :: u64
  t_state :: task_state
  t_priority :: u32
  t_time_slice :: u64
  t_total_ticks :: u64
  t_wake_tick :: u64
  t_mmap_cursor :: u64
  t_ai_weight :: u64
  t_tensor_mem :: u64
  t_numa_node :: u32
  t_next :: u64
  t_prev :: u64
  t_fds :: "u64 list"

definition zero_cpu :: cpu_state where
  "zero_cpu = \<lparr>r15 = 0, r14 = 0, r13 = 0, r12 = 0, rbx = 0, rbp = 0, rsp = 0\<rparr>"

definition zero_task :: task where
  "zero_task = \<lparr>t_pid = 0, t_ppid = 0, t_name = '''', t_cpu = zero_cpu, t_kernel_stack = 0, t_user_stack = 0,
     t_rip_entry = 0, t_cr3 = 0, t_state = TASK_CREATED, t_priority = 0, t_time_slice = 0, t_total_ticks = 0,
     t_wake_tick = 0, t_mmap_cursor = 0, t_ai_weight = 0, t_tensor_mem = 0, t_numa_node = 0,
     t_next = 0, t_prev = 0, t_fds = replicate MAX_FDS 0\<rparr>"

text \<open>Addresses the linker fixes.\<close>

record link_syms =
  sym_sched_exit :: u64
  sym_ring3_enter_first :: u64
  sym_idle_fn :: u64

record sched_state = heap_state +
  tasks :: "u64 \<Rightarrow> task"
  idle_task :: u64
  current_task :: u64
  run_queue_head :: u64
  next_pid :: u32
  sched_tick_count :: u64
  in_sched :: bool
  sleep_list :: "u64 list"
  cpu_tss :: tss64
  syscall_kernel_rsp :: u64
  cpu_regs :: cpu_state
  irq_enabled :: bool
  tick_count :: u64

definition set_task :: "'a sched_state_scheme \<Rightarrow> u64 \<Rightarrow> (task \<Rightarrow> task) \<Rightarrow> 'a sched_state_scheme" where
  "set_task st t f = st\<lparr>tasks := (tasks st)(t := f (tasks st t))\<rparr>"

lemma set_task_sel [simp]:
  "tasks (set_task st t f) = (tasks st)(t := f (tasks st t))"
  "idle_task (set_task st t f) = idle_task st" "current_task (set_task st t f) = current_task st"
  "run_queue_head (set_task st t f) = run_queue_head st" "next_pid (set_task st t f) = next_pid st"
  "sched_tick_count (set_task st t f) = sched_tick_count st" "in_sched (set_task st t f) = in_sched st"
  "sleep_list (set_task st t f) = sleep_list st" "irq_enabled (set_task st t f) = irq_enabled st"
  "tick_count (set_task st t f) = tick_count st" "cpu_regs (set_task st t f) = cpu_regs st"
  "cr3 (set_task st t f) = cr3 st" "vmem (set_task st t f) = vmem st"
  by (simp_all add: set_task_def)

definition irq_save :: "'a sched_state_scheme \<Rightarrow> bool \<times> 'a sched_state_scheme" where
  "irq_save st = (irq_enabled st, st\<lparr>irq_enabled := False\<rparr>)"

definition irq_restore :: "'a sched_state_scheme \<Rightarrow> bool \<Rightarrow> 'a sched_state_scheme" where
  "irq_restore st flags = st\<lparr>irq_enabled := flags\<rparr>"

section \<open>Run queue\<close>

definition run_queue_add :: "'a sched_state_scheme \<Rightarrow> u64 \<Rightarrow> 'a sched_state_scheme" where
  "run_queue_add st t =
     (let st1 =
        (if run_queue_head st = 0 then
           (set_task (set_task st t (\<lambda>k. k\<lparr>t_next := t\<rparr>)) t (\<lambda>k. k\<lparr>t_prev := t\<rparr>))\<lparr>run_queue_head := t\<rparr>
         else
           let tail = t_prev (tasks st (run_queue_head st));
               s1 = set_task st tail (\<lambda>k. k\<lparr>t_next := t\<rparr>);
               s2 = set_task s1 t (\<lambda>k. k\<lparr>t_prev := tail\<rparr>);
               s3 = set_task s2 t (\<lambda>k. k\<lparr>t_next := run_queue_head s2\<rparr>)
           in set_task s3 (run_queue_head s3) (\<lambda>k. k\<lparr>t_prev := t\<rparr>))
      in set_task st1 t (\<lambda>k. k\<lparr>t_state := TASK_READY\<rparr>))"

definition run_queue_remove :: "'a sched_state_scheme \<Rightarrow> u64 \<Rightarrow> 'a sched_state_scheme" where
  "run_queue_remove st t =
     (let st1 =
        (if t_next (tasks st t) = t then st\<lparr>run_queue_head := 0\<rparr>
         else
           let s1 = set_task st (t_prev (tasks st t)) (\<lambda>k. k\<lparr>t_next := t_next (tasks st t)\<rparr>);
               s2 = set_task s1 (t_next (tasks s1 t)) (\<lambda>k. k\<lparr>t_prev := t_prev (tasks s1 t)\<rparr>)
           in if run_queue_head s2 = t then s2\<lparr>run_queue_head := t_next (tasks s2 t)\<rparr> else s2)
      in set_task st1 t (\<lambda>k. k\<lparr>t_prev := 0, t_next := 0\<rparr>))"

section \<open>Task creation\<close>

definition task_name :: "string \<Rightarrow> string" where
  "task_name name = take (min (strlen name) 31) name"

definition sched_alloc_task ::
  "'a sched_state_scheme \<Rightarrow> string \<Rightarrow> u32 \<Rightarrow> (u64 \<times> 'a sched_state_scheme) option" where
  "sched_alloc_task st name priority = do {
     (t, st1) \<leftarrow> kzalloc st SIZEOF_TASK;
     if t = 0 then Some (0, st1)
     else do {
       let ppid = (if current_task st1 \<noteq> 0 then t_pid (tasks st1 (current_task st1)) else 0);
       let st2 = set_task st1 t (\<lambda>_. zero_task\<lparr>t_pid := next_pid st1, t_ppid := ppid, t_priority := priority,
         t_state := TASK_CREATED, t_time_slice := DEFAULT_TIMESLICE, t_next := 0, t_prev := 0,
         t_name := task_name name\<rparr>);
       (kstack, st3) \<leftarrow> kmalloc (st2\<lparr>next_pid := next_pid st1 + 1\<rparr>) KSTACK_SIZE;
       if kstack = 0 then Some (0, kfree st3 t)
       else Some (t, set_task st3 t (\<lambda>k. k\<lparr>t_kernel_stack := ALIGN_DOWN (kstack + KSTACK_SIZE) 16,
                                           t_cr3 := cr3 st3\<rparr>))
     }
   }"

definition push_frame :: "'a sched_state_scheme \<Rightarrow> u64 \<Rightarrow> u64 \<Rightarrow> u64 \<Rightarrow> 'a sched_state_scheme" where
  \<comment> \<open>two words pushed on the new kernel stack and the saved registers pointing at them\<close>
  "push_frame st t ret start =
     (let ks = t_kernel_stack (tasks st t);
          st1 = st\<lparr>vmem := store64 (store64 (vmem st) (ks - 8) ret) (ks - 16) start\<rparr>
      in set_task st1 t (\<lambda>k. k\<lparr>t_cpu := zero_cpu\<lparr>rsp := ks - 16\<rparr>\<rparr>))"

definition sched_create_task :: "link_syms \<Rightarrow> 'a sched_state_scheme \<Rightarrow> string \<Rightarrow> u64 \<Rightarrow> u32 \<Rightarrow>
    (u64 \<times> 'a sched_state_scheme) option" where
  "sched_create_task ls st name entry priority = do {
     (t, st1) \<leftarrow> sched_alloc_task st name priority;
     if t = 0 then Some (0, st1)
     else Some (t, push_frame (set_task st1 t (\<lambda>k. k\<lparr>t_rip_entry := entry\<rparr>)) t (sym_sched_exit ls) entry)
   }"

definition sched_create_user_task :: "link_syms \<Rightarrow> 'a sched_state_scheme \<Rightarrow> string \<Rightarrow> u64 \<Rightarrow> u64 \<Rightarrow> u64 \<Rightarrow> u32 \<Rightarrow>
    (u64 \<times> 'a sched_state_scheme) option" where
  "sched_create_user_task ls st name entry_rip user_rsp pml4_phys priority = do {
     (t, st1) \<leftarrow> sched_alloc_task st name priority;
     if t = 0 then Some (0, st1)
     else
       let st2 = set_task st1 t (\<lambda>k. k\<lparr>t_rip_entry := entry_rip, t_user_stack := user_rsp, t_cr3 := pml4_phys\<rparr>);
           st3 = push_frame st2 t (sym_sched_exit ls) (sym_ring3_enter_first ls)
       in Some (t, set_task st3 t (\<lambda>k. k\<lparr>t_mmap_cursor := 0x0000500000000000\<rparr>))
   }"

definition sched_enqueue :: "'a sched_state_scheme \<Rightarrow> u64 \<Rightarrow> 'a sched_state_scheme" where
  "sched_enqueue st t = run_queue_add st t"

definition sched_init :: "link_syms \<Rightarrow> u64 \<Rightarrow> 'a sched_state_scheme \<Rightarrow> 'a sched_state_scheme option" where
  \<comment> \<open>\<open>sp\<close> is the stack pointer of the boot code\<close>
  "sched_init ls sp st = do {
     (boot, st1) \<leftarrow> kzalloc st SIZEOF_TASK;
     if boot = 0 then None
     else do {
       let st2 = set_task st1 boot (\<lambda>_. zero_task\<lparr>t_pid := 0, t_state := TASK_RUNNING, t_priority := 255,
         t_time_slice := 1, t_name := ''boot'', t_cr3 := cr3 st1,
         t_kernel_stack := ALIGN_UP sp PAGE_SIZE + PAGE_SIZE\<rparr>);
       (idle, st3) \<leftarrow> sched_create_task ls (st2\<lparr>current_task := boot\<rparr>) ''idle'' (sym_idle_fn ls) 255;
       if idle = 0 then None else Some (run_queue_add (st3\<lparr>idle_task := idle\<rparr>) idle)
     }
   }"

section \<open>Switching\<close>

partial_function (option) sched_pick_loop :: "'a sched_state_scheme \<Rightarrow> u64 \<Rightarrow> u64 \<Rightarrow> u64 option" where
  "sched_pick_loop st start t =
     (if t_state (tasks st t) = TASK_READY then Some t
      else let t' = t_next (tasks st t)
           in if t' \<noteq> start then sched_pick_loop st start t' else Some (idle_task st))"

definition sched_pick_next :: "'a sched_state_scheme \<Rightarrow> u64 option" where
  "sched_pick_next st =
     (if run_queue_head st = 0 then Some (idle_task st)
      else sched_pick_loop st (run_queue_head st) (run_queue_head st))"

definition sched_switch :: "'a sched_state_scheme \<Rightarrow> u64 \<Rightarrow> u64 \<Rightarrow> 'a sched_state_scheme" where
  "sched_switch st from to =
     (let st1 = set_task st from (\<lambda>k. k\<lparr>t_cpu := cpu_regs st\<rparr>);
          st2 = (if t_cr3 (tasks st1 from) = t_cr3 (tasks st1 to) then st1 else st1\<lparr>cr3 := t_cr3 (tasks st1 to)\<rparr>)
      in st2\<lparr>cpu_regs := t_cpu (tasks st2 to)\<rparr>)"

definition sched_do_switch :: "'a sched_state_scheme \<Rightarrow> u64 \<Rightarrow> bool \<times> 'a sched_state_scheme" where
  "sched_do_switch st next =
     (if next = current_task st then (False, st)
      else
        let prev = current_task st;
            st1 = (if t_state (tasks st prev) = TASK_RUNNING then
                     let s = set_task st prev (\<lambda>k. k\<lparr>t_state := TASK_READY\<rparr>)
                     in if prev \<noteq> idle_task s then run_queue_add s prev else s
                   else st);
            st2 = run_queue_remove st1 next;
            st3 = set_task st2 next (\<lambda>k. k\<lparr>t_state := TASK_RUNNING, t_time_slice := DEFAULT_TIMESLICE\<rparr>);
            st4 = st3\<lparr>current_task := next,
                      cpu_tss := gdt_set_kernel_stack (cpu_tss st3) (t_kernel_stack (tasks st3 next)),
                      syscall_kernel_rsp := t_kernel_stack (tasks st3 next),
                      in_sched := False\<rparr>
        in (True, sched_switch st4 prev next))"

section \<open>Sleeping\<close>

definition sched_unblock :: "'a sched_state_scheme \<Rightarrow> u64 \<Rightarrow> 'a sched_state_scheme" where
  "sched_unblock st t = (if t_state (tasks st t) = TASK_BLOCKED then run_queue_add st t else st)"

lemma sched_unblock_sleep_list [simp]: "sleep_list (sched_unblock st t) = sleep_list st"
  by (simp add: sched_unblock_def run_queue_add_def Let_def)

function sched_sleepers_from :: "'a sched_state_scheme \<Rightarrow> u64 \<Rightarrow> nat \<Rightarrow> 'a sched_state_scheme" where
  "sched_sleepers_from st tick i =
     (if i < length (sleep_list st) then
        let t = sleep_list st ! i in
        if t \<noteq> 0 \<and> t_state (tasks st t) = TASK_BLOCKED \<and> t_wake_tick (tasks st t) \<le> tick then
          let st1 = sched_unblock st t;
              st2 = st1\<lparr>sleep_list := butlast ((sleep_list st1)[i := last (sleep_list st1)])\<rparr>
          in sched_sleepers_from st2 tick i
        else sched_sleepers_from st tick (Suc i)
      else st)"
  by pat_completeness auto
termination
  by (relation "measure (\<lambda>(st, tick, i). length (sleep_list st) - i)") auto

declare sched_sleepers_from.simps [simp del]

definition sched_check_sleepers :: "'a sched_state_scheme \<Rightarrow> u64 \<Rightarrow> 'a sched_state_scheme" where
  "sched_check_sleepers st tick = sched_sleepers_from st tick 0"

section \<open>Entry points\<close>

definition sched_tick :: "'a sched_state_scheme \<Rightarrow> (bool \<times> 'a sched_state_scheme) option" where
  "sched_tick st =
     (let st1 = st\<lparr>sched_tick_count := sched_tick_count st + 1\<rparr>;
          st2 = sched_check_sleepers st1 (sched_tick_count st1);
          c = current_task st2
      in if c = 0 then Some (False, st2)
         else if in_sched st2 then Some (False, st2)
         else
           let st3 = (if t_time_slice (tasks st2 c) > 0 then
                        set_task st2 c (\<lambda>k. k\<lparr>t_time_slice := t_time_slice k - 1, t_total_ticks := t_total_ticks k + 1\<rparr>)
                      else st2)
           in if t_time_slice (tasks st3 c) = 0 then do {
                let st4 = st3\<lparr>in_sched := True\<rparr>;
                next \<leftarrow> sched_pick_next st4;
                Some (sched_do_switch st4 next)
              } else Some (False, st3))"

definition sched_yield :: "'a sched_state_scheme \<Rightarrow> (bool \<times> 'a sched_state_scheme) option" where
  "sched_yield st = do {
     let (flags, st1) = irq_save st;
     let st2 = st1\<lparr>in_sched := True\<rparr>;
     next \<leftarrow> sched_pick_next st2;
     let (sw, st3) = sched_do_switch st2 next;
     Some (sw, if sw then st3 else irq_restore st3 flags)
   }"

definition sched_block :: "'a sched_state_scheme \<Rightarrow> u64 \<Rightarrow> u64 \<Rightarrow> (bool \<times> 'a sched_state_scheme) option" where
  "sched_block st t wake_tick =
     (let (flags, st1) = irq_save st;
          st2 = set_task st1 t (\<lambda>k. k\<lparr>t_state := TASK_BLOCKED, t_wake_tick := wake_tick\<rparr>);
          st3 = run_queue_remove st2 t;
          st4 = (if length (sleep_list st3) < SLEEP_LIST_MAX
                 then st3\<lparr>sleep_list := sleep_list st3 @ [t]\<rparr> else st3)
      in if t = current_task st4 then do {
           let st5 = st4\<lparr>in_sched := True\<rparr>;
           next \<leftarrow> sched_pick_next st5;
           let (sw, st6) = sched_do_switch st5 next;
           Some (sw, if sw then st6 else irq_restore st6 flags)
         } else Some (False, irq_restore st4 flags))"

definition sched_exit :: "'a sched_state_scheme \<Rightarrow> 'a sched_state_scheme option" where
  "sched_exit st = do {
     let (flags, st1) = irq_save st;
     let dead = current_task st1;
     let st2 = run_queue_remove (set_task st1 dead (\<lambda>k. k\<lparr>t_state := TASK_ZOMBIE\<rparr>)) dead;
     next \<leftarrow> sched_pick_next st2;
     let st3 = set_task st2 next (\<lambda>k. k\<lparr>t_state := TASK_RUNNING\<rparr>);
     let st4 = st3\<lparr>current_task := next,
                   cpu_tss := gdt_set_kernel_stack (cpu_tss st3) (t_kernel_stack (tasks st3 next)),
                   syscall_kernel_rsp := t_kernel_stack (tasks st3 next)\<rparr>;
     Some (sched_switch st4 dead next)
   }"

definition sched_get_run_queue_head :: "'a sched_state_scheme \<Rightarrow> u64" where
  "sched_get_run_queue_head st = run_queue_head st"

definition sched_get_sleep_list :: "'a sched_state_scheme \<Rightarrow> nat \<Rightarrow> u64 list" where
  "sched_get_sleep_list st mx = take (min (length (sleep_list st)) mx) (sleep_list st)"

section \<open>Timer (arch/x86\_64/timer.c)\<close>

definition timer_irq_handler :: "'a sched_state_scheme \<Rightarrow> (bool \<times> 'a sched_state_scheme) option" where
  "timer_irq_handler st = sched_tick (st\<lparr>tick_count := tick_count st + 1\<rparr>)"

definition timer_ticks :: "'a sched_state_scheme \<Rightarrow> u64" where
  "timer_ticks st = tick_count st"

text \<open>The busy wait before the scheduler runs ends through timer interrupts only.\<close>

partial_function (option) timer_busy_wait :: "'a sched_state_scheme \<Rightarrow> u64 \<Rightarrow> 'a sched_state_scheme option" where
  "timer_busy_wait st wake_at =
     (if tick_count st < wake_at then do {
        (sw, st') \<leftarrow> timer_irq_handler st;
        timer_busy_wait st' wake_at
      } else Some st)"

definition timer_sleep_ms :: "'a sched_state_scheme \<Rightarrow> u32 \<Rightarrow> (bool \<times> 'a sched_state_scheme) option" where
  "timer_sleep_ms st ms =
     (if ms = 0 then Some (False, st)
      else
        let wake_at = tick_count st + ucast ms in
        if current_task st \<noteq> 0 then do {
          (sw, st1) \<leftarrow> sched_block st (current_task st) wake_at;
          if sw then Some (True, st1) else sched_yield st1
        } else do {
          st1 \<leftarrow> timer_busy_wait st wake_at;
          Some (False, st1)
        })"

definition PIT_DIVISOR :: u32 where
  "PIT_DIVISOR = 1193182 div 1000"

definition timer_init_writes :: "(u16 \<times> u8) list" where
  "timer_init_writes = [(0x43, 0x36), (0x40, ucast (PIT_DIVISOR AND 0xFF)), (0x40, ucast (drop_bit 8 PIT_DIVISOR AND 0xFF))]"

end
