(* ===== verification/SchedInv.thy ===== *)
theory SchedInv
  imports Sched
begin

text \<open>
  The run queue as a list: circular doubly linked lists, their refinement by the queue
  operations of the scheduler, the scheduler invariant and the steps that keep it.
\<close>

section \<open>Circular doubly linked lists\<close>

fun links :: "(u64 \<Rightarrow> u64) \<Rightarrow> (u64 \<Rightarrow> u64) \<Rightarrow> u64 list \<Rightarrow> bool" where
  "links nx pv (x # y # r) = (nx x = y \<and> pv y = x \<and> links nx pv (y # r))"
| "links nx pv [x] = True"
| "links nx pv [] = True"

definition ring :: "(u64 \<Rightarrow> u64) \<Rightarrow> (u64 \<Rightarrow> u64) \<Rightarrow> u64 list \<Rightarrow> bool" where
  "ring nx pv xs \<longleftrightarrow> distinct xs \<and> 0 \<notin> set xs \<and> links nx pv xs \<and>
     (xs \<noteq> [] \<longrightarrow> nx (last xs) = hd xs \<and> pv (hd xs) = last xs)"

lemma links_append:
  "links nx pv (xs @ ys) \<longleftrightarrow> links nx pv xs \<and> links nx pv ys \<and>
     (xs \<noteq> [] \<and> ys \<noteq> [] \<longrightarrow> nx (last xs) = hd ys \<and> pv (hd ys) = last xs)"
proof (induction nx pv xs rule: links.induct)
  case (2 nx pv x)
  show ?case by (cases ys) auto
qed auto

lemma links_cong:
  assumes "\<And>x. x \<in> set (butlast xs) \<Longrightarrow> nx' x = nx x" "\<And>x. x \<in> set (tl xs) \<Longrightarrow> pv' x = pv x"
  shows "links nx' pv' xs = links nx pv xs"
  using assms by (induction nx pv xs rule: links.induct) auto

lemma last_notin_butlast: "distinct xs \<Longrightarrow> xs \<noteq> [] \<Longrightarrow> last xs \<notin> set (butlast xs)"
  by (cases xs rule: rev_cases) auto

lemma hd_notin_tl: "distinct xs \<Longrightarrow> xs \<noteq> [] \<Longrightarrow> hd xs \<notin> set (tl xs)"
  by (cases xs) auto

lemma in_set_tlD: "x \<in> set (tl xs) \<Longrightarrow> x \<in> set xs"
  by (cases xs) auto

lemma ring_add_first: "t \<noteq> 0 \<Longrightarrow> nx t = t \<Longrightarrow> pv t = t \<Longrightarrow> ring nx pv [t]"
  by (simp add: ring_def)

lemma ring_add:
  assumes "ring nx pv xs" "xs \<noteq> []" "t \<notin> set xs" "t \<noteq> 0"
  shows "ring (nx(last xs := t, t := hd xs)) (pv(t := last xs, hd xs := t)) (xs @ [t])"
proof -
  let ?nx = "nx(last xs := t, t := hd xs)" and ?pv = "pv(t := last xs, hd xs := t)"
  have d: "distinct xs" using assms(1) by (simp add: ring_def)
  have m: "last xs \<noteq> t" "hd xs \<noteq> t" using assms(2,3) last_in_set hd_in_set by metis+
  have "links ?nx ?pv xs = links nx pv xs"
    using last_notin_butlast [OF d assms(2)] hd_notin_tl [OF d assms(2)] assms(3)
    by (intro links_cong) (auto dest: in_set_butlastD list.set_sel(2) [OF assms(2)])
  then show ?thesis
    using assms m by (auto simp: ring_def links_append)
qed

lemma ring_links:
  assumes "ring nx pv (a @ t # b)"
  shows "nx t = hd (b @ a @ [t])" "pv t = last (t # b @ a)"
  using assms by (cases a rule: rev_cases; cases b; auto simp: ring_def links_append)+

lemma links_tail: "links nx pv (x # b) \<Longrightarrow> links nx pv b"
  by (cases b) auto

lemma ring_remove:
  assumes "ring nx pv (a @ t # b)" "a @ b \<noteq> []"
  shows "ring (nx(pv t := nx t, t := v)) (pv(nx t := pv t, t := w)) (a @ b)"
proof -
  let ?nx = "nx(pv t := nx t, t := v)" and ?pv = "pv(nx t := pv t, t := w)"
  have d: "distinct a" "distinct b" "set a \<inter> set b = {}" "t \<notin> set a" "t \<notin> set b"
    using assms(1) by (auto simp: ring_def)
  have r: "links nx pv a" "links nx pv b"
    using assms(1) links_tail [of nx pv t b] by (simp_all add: ring_def links_append)
  have e: "nx t = hd (b @ a)" "pv t = last (b @ a)"
    using ring_links [OF assms(1)] assms(2) by (auto simp: hd_append)
  have la: "links ?nx ?pv a" if "a \<noteq> []"
  proof -
    have "last (b @ a) \<notin> set (butlast a)" using last_notin_butlast [OF d(1)] that by simp
    moreover have "hd (b @ a) \<notin> set (tl a)"
      using hd_notin_tl [OF d(1) that] d(3) that by (cases b) (auto dest: list.set_sel(2) [OF that])
    ultimately have "links ?nx ?pv a = links nx pv a"
      using d(4) by (intro links_cong) (auto simp: e dest: in_set_butlastD list.set_sel(2) [OF that])
    then show ?thesis using r(1) by simp
  qed
  have lb: "links ?nx ?pv b" if "b \<noteq> []"
  proof -
    have "last (b @ a) \<notin> set (butlast b)"
      using last_notin_butlast [OF d(2) that] d(3)
      by (cases a rule: rev_cases) (auto dest: in_set_butlastD)
    moreover have "hd (b @ a) \<notin> set (tl b)" using hd_notin_tl [OF d(2) that] that by simp
    ultimately have "links ?nx ?pv b = links nx pv b"
      using d(5) by (intro links_cong) (auto simp: e dest: in_set_butlastD list.set_sel(2) [OF that])
    then show ?thesis using r(2) by simp
  qed
  have "0 \<notin> set (a @ b)" "distinct (a @ b)" using assms(1) d by (auto simp: ring_def)
  moreover have "links ?nx ?pv (a @ b) \<and> ?nx (last (a @ b)) = hd (a @ b) \<and> ?pv (hd (a @ b)) = last (a @ b)"
  proof (cases "a = [] \<or> b = []")
    case True
    have m: "last (a @ b) \<noteq> t" "hd (a @ b) \<noteq> t"
      using last_in_set [OF assms(2)] hd_in_set [OF assms(2)] d(4,5) by auto
    show ?thesis
    proof (cases "a = []")
      case True
      then show ?thesis using assms(2) lb e m by simp
    next
      case False
      then show ?thesis using \<open>a = [] \<or> b = []\<close> la e m by simp
    qed
  next
    case False
    then have "last a \<in> set a" "hd a \<in> set a" "last b \<in> set b" "hd b \<in> set b" by simp_all
    then have n: "last a \<noteq> last b" "hd a \<noteq> hd b" "last a \<noteq> t" "hd a \<noteq> t" "last b \<noteq> t" "hd b \<noteq> t"
      using d(3,4,5) by (metis disjoint_iff)+
    have "nx (last b) = hd a" "pv (hd a) = last b"
      using assms(1) False by (auto simp: ring_def)
    then show ?thesis using False la lb e n by (auto simp: links_append)
  qed
  ultimately show ?thesis using assms(2) by (simp add: ring_def)
qed

section \<open>The run queue\<close>

definition run_queue :: "'a sched_state_scheme \<Rightarrow> u64 list \<Rightarrow> bool" where
  "run_queue st xs \<longleftrightarrow> ring (\<lambda>t. t_next (tasks st t)) (\<lambda>t. t_prev (tasks st t)) xs \<and>
     run_queue_head st = (case xs of [] \<Rightarrow> 0 | x # _ \<Rightarrow> x)"

definition core :: "task \<Rightarrow> task" where
  \<comment> \<open>a task without its queue links\<close>
  "core k = k\<lparr>t_next := 0, t_prev := 0\<rparr>"

lemma core_sel [simp]:
  "t_state (core k) = t_state k" "t_time_slice (core k) = t_time_slice k" "t_wake_tick (core k) = t_wake_tick k"
  "t_kernel_stack (core k) = t_kernel_stack k" "t_cpu (core k) = t_cpu k" "t_cr3 (core k) = t_cr3 k"
  by (simp_all add: core_def)

lemma core_upd [simp]:
  "core (k\<lparr>t_next := a\<rparr>) = core k" "core (k\<lparr>t_prev := a\<rparr>) = core k" "core (k\<lparr>t_prev := a, t_next := b\<rparr>) = core k"
  "core (k\<lparr>t_state := s\<rparr>) = (core k)\<lparr>t_state := s\<rparr>" "core (core k) = core k"
  by (simp_all add: core_def)

lemma core_stateD: "core k = core l \<Longrightarrow> t_state k = t_state l"
  by (metis core_sel(1))

lemma links_only: "(\<And>x. x \<in> set xs \<Longrightarrow> nx' x = nx x \<and> pv' x = pv x) \<Longrightarrow> ring nx' pv' xs = ring nx pv xs"
proof -
  assume a: "\<And>x. x \<in> set xs \<Longrightarrow> nx' x = nx x \<and> pv' x = pv x"
  have "links nx' pv' xs = links nx pv xs"
    using a by (intro links_cong) (auto dest: in_set_butlastD in_set_tlD)
  then show ?thesis using a by (auto simp: ring_def)
qed

lemma run_queue_cong:
  assumes "run_queue st xs" "run_queue_head st' = run_queue_head st"
    "\<And>x. x \<in> set xs \<Longrightarrow> t_next (tasks st' x) = t_next (tasks st x) \<and> t_prev (tasks st' x) = t_prev (tasks st x)"
  shows "run_queue st' xs"
  using assms(1,2) links_only [OF assms(3)] by (simp add: run_queue_def)

lemma run_queue_add_sel [simp]:
  "current_task (run_queue_add st t) = current_task st" "idle_task (run_queue_add st t) = idle_task st"
  "sleep_list (run_queue_add st t) = sleep_list st" "in_sched (run_queue_add st t) = in_sched st"
  "irq_enabled (run_queue_add st t) = irq_enabled st" "cpu_regs (run_queue_add st t) = cpu_regs st"
  "sched_tick_count (run_queue_add st t) = sched_tick_count st" "tick_count (run_queue_add st t) = tick_count st"
  by (simp_all add: run_queue_add_def Let_def)

lemma run_queue_remove_sel [simp]:
  "current_task (run_queue_remove st t) = current_task st" "idle_task (run_queue_remove st t) = idle_task st"
  "sleep_list (run_queue_remove st t) = sleep_list st" "in_sched (run_queue_remove st t) = in_sched st"
  "irq_enabled (run_queue_remove st t) = irq_enabled st" "cpu_regs (run_queue_remove st t) = cpu_regs st"
  "sched_tick_count (run_queue_remove st t) = sched_tick_count st" "tick_count (run_queue_remove st t) = tick_count st"
  by (simp_all add: run_queue_remove_def Let_def)

lemma run_queue_add_core:
  "core (tasks (run_queue_add st t) u) = (if u = t then (core (tasks st t))\<lparr>t_state := TASK_READY\<rparr> else core (tasks st u))"
  by (simp add: run_queue_add_def Let_def)

lemma run_queue_remove_core: "core (tasks (run_queue_remove st t) u) = core (tasks st u)"
  by (simp add: run_queue_remove_def Let_def)

lemma run_queue_add_list:
  assumes "run_queue st xs" "t \<notin> set xs" "t \<noteq> 0"
  shows "run_queue (run_queue_add st t) (xs @ [t])"
    "\<And>u. u \<notin> set xs \<Longrightarrow> u \<noteq> t \<Longrightarrow> tasks (run_queue_add st t) u = tasks st u"
proof -
  have r: "ring (\<lambda>t. t_next (tasks st t)) (\<lambda>t. t_prev (tasks st t)) xs" using assms(1) by (simp add: run_queue_def)
  have "run_queue (run_queue_add st t) (xs @ [t]) \<and>
      (\<forall>u. u \<notin> set xs \<longrightarrow> u \<noteq> t \<longrightarrow> tasks (run_queue_add st t) u = tasks st u)"
  proof (cases xs)
    case Nil
    then have "run_queue_head st = 0" using assms(1) by (simp add: run_queue_def)
    then show ?thesis using Nil assms(3) by (auto simp: run_queue_def run_queue_add_def ring_def)
  next
    case (Cons x ys)
    have x: "run_queue_head st = x" "x \<noteq> 0" "x \<noteq> t" "t_prev (tasks st x) = last xs" "last xs \<in> set xs"
      using assms r Cons by (auto simp: run_queue_def ring_def)
    then have l: "last xs \<noteq> t" using assms(2) by blast
    have n: "(\<lambda>u. t_next (tasks (run_queue_add st t) u)) = (\<lambda>u. t_next (tasks st u))(last xs := t, t := x)"
      and p: "(\<lambda>u. t_prev (tasks (run_queue_add st t) u)) = (\<lambda>u. t_prev (tasks st u))(t := last xs, x := t)"
      using x(1-4) l by (auto simp: run_queue_add_def Let_def fun_eq_iff)
    have "run_queue_head (run_queue_add st t) = x" using x by (simp add: run_queue_add_def Let_def)
    then have "run_queue (run_queue_add st t) (xs @ [t])"
      unfolding run_queue_def n p using ring_add [OF r _ assms(2,3)] Cons by simp
    moreover have "tasks (run_queue_add st t) u = tasks st u" if "u \<notin> set xs" "u \<noteq> t" for u
    proof -
      have "u \<noteq> last xs" "u \<noteq> x" using that x(5) Cons by auto
      then show ?thesis using x(1,2,4) that(2) by (simp add: run_queue_add_def Let_def)
    qed
    ultimately show ?thesis by blast
  qed
  then show "run_queue (run_queue_add st t) (xs @ [t])"
    "\<And>u. u \<notin> set xs \<Longrightarrow> u \<noteq> t \<Longrightarrow> tasks (run_queue_add st t) u = tasks st u" by blast+
qed

lemma run_queue_remove_list:
  assumes "run_queue st xs" "t \<in> set xs"
  shows "run_queue (run_queue_remove st t) (remove1 t xs)"
    "\<And>u. u \<notin> set xs \<Longrightarrow> tasks (run_queue_remove st t) u = tasks st u"
    "t_next (tasks (run_queue_remove st t) t) = 0" "t_prev (tasks (run_queue_remove st t) t) = 0"
proof -
  obtain a b where ab: "xs = a @ t # b" using assms(2) split_list by metis
  have r: "ring (\<lambda>t. t_next (tasks st t)) (\<lambda>t. t_prev (tasks st t)) (a @ t # b)"
    using assms(1) ab by (simp add: run_queue_def)
  then have d: "distinct (a @ t # b)" "0 \<notin> set (a @ t # b)" by (simp_all add: ring_def)
  have rm: "remove1 t xs = a @ b" using d ab by (simp add: remove1_append)
  have e: "t_next (tasks st t) = hd (b @ a @ [t])" "t_prev (tasks st t) = last (t # b @ a)"
    using ring_links [OF r] by simp_all
  have h: "run_queue_head st = hd (a @ [t])" using assms(1) ab by (cases a) (simp_all add: run_queue_def)
  show "t_next (tasks (run_queue_remove st t) t) = 0" "t_prev (tasks (run_queue_remove st t) t) = 0"
    by (simp_all add: run_queue_remove_def Let_def)
  have "run_queue (run_queue_remove st t) (a @ b) \<and>
      (\<forall>u. u \<notin> set xs \<longrightarrow> tasks (run_queue_remove st t) u = tasks st u)"
  proof (cases "a @ b = []")
    case True
    then show ?thesis using e ab by (auto simp: run_queue_remove_def run_queue_def ring_def)
  next
    case False
    have e': "t_next (tasks st t) = hd (b @ a)" "t_prev (tasks st t) = last (b @ a)"
      using e False by (auto simp: hd_append)
    have ba: "b @ a \<noteq> []" using False by auto
    have m: "t_next (tasks st t) \<in> set a \<union> set b" "t_prev (tasks st t) \<in> set a \<union> set b"
      unfolding e' using hd_in_set [OF ba] last_in_set [OF ba] by auto
    then have ne: "t_next (tasks st t) \<noteq> t" "t_prev (tasks st t) \<noteq> t" using d by auto
    have n: "(\<lambda>u. t_next (tasks (run_queue_remove st t) u)) =
        (\<lambda>u. t_next (tasks st u))(t_prev (tasks st t) := t_next (tasks st t), t := 0)"
      and p: "(\<lambda>u. t_prev (tasks (run_queue_remove st t) u)) =
        (\<lambda>u. t_prev (tasks st u))(t_next (tasks st t) := t_prev (tasks st t), t := 0)"
      using ne by (auto simp: run_queue_remove_def Let_def fun_eq_iff)
    have "run_queue_head (run_queue_remove st t) = (case a @ b of [] \<Rightarrow> 0 | x # _ \<Rightarrow> x)"
      using ne h False d e'(1) by (cases a; cases b) (auto simp: run_queue_remove_def Let_def)
    then have "run_queue (run_queue_remove st t) (a @ b)"
      unfolding run_queue_def n p using ring_remove [OF r False] by simp
    moreover have "tasks (run_queue_remove st t) u = tasks st u" if "u \<notin> set xs" for u
    proof -
      have "u \<noteq> t_prev (tasks st t)" "u \<noteq> t_next (tasks st t)" "u \<noteq> t" using that m ab by auto
      then show ?thesis using ne by (simp add: run_queue_remove_def Let_def)
    qed
    ultimately show ?thesis by blast
  qed
  then show "run_queue (run_queue_remove st t) (remove1 t xs)"
    "\<And>u. u \<notin> set xs \<Longrightarrow> tasks (run_queue_remove st t) u = tasks st u" unfolding rm by blast+
qed

text \<open>Unlinking a task that is not linked touches only the cell at address 0.\<close>

lemma run_queue_remove_unlinked:
  assumes "run_queue st xs" "t \<notin> set xs" "t \<noteq> 0" "t_next (tasks st t) = 0" "t_prev (tasks st t) = 0"
  shows "run_queue (run_queue_remove st t) xs"
    "\<And>u. u \<noteq> 0 \<Longrightarrow> tasks (run_queue_remove st t) u = tasks st u"
proof -
  have h: "run_queue_head st \<noteq> t" using assms(1-3) by (cases xs) (auto simp: run_queue_def)
  have z: "0 \<notin> set xs" using assms(1) by (simp add: run_queue_def ring_def)
  show same: "tasks (run_queue_remove st t) u = tasks st u" if "u \<noteq> 0" for u
    using that assms(3-5) by (simp add: run_queue_remove_def Let_def)
  have "run_queue_head (run_queue_remove st t) = run_queue_head st"
    using h assms(3,4) by (simp add: run_queue_remove_def Let_def)
  then show "run_queue (run_queue_remove st t) xs"
    using z same by (intro run_queue_cong [OF assms(1)]) metis+
qed

section \<open>The queue interface\<close>

text \<open>
  What the scheduler relies on: a queue with an abstraction to lists, appending, and
  unlinking from anywhere.  \<open>spin\<close> moves the head to the back, the step of round-robin
  scheduling.
\<close>

primrec spin :: "('s \<Rightarrow> 'k \<Rightarrow> 's) \<Rightarrow> ('s \<Rightarrow> 'k \<Rightarrow> 's) \<Rightarrow> ('s \<Rightarrow> 'k) \<Rightarrow> nat \<Rightarrow> 's \<Rightarrow> 's" where
  "spin add rm h 0 s = s"
| "spin add rm h (Suc n) s = spin add rm h n (add (rm s (h s)) (h s))"

locale task_queue =
  fixes absq :: "'s \<Rightarrow> 'k list \<Rightarrow> bool"
    and add :: "'s \<Rightarrow> 'k \<Rightarrow> 's"
    and rm :: "'s \<Rightarrow> 'k \<Rightarrow> 's"
    and h :: "'s \<Rightarrow> 'k"
    and elem :: "'k \<Rightarrow> bool"
  assumes add_law: "absq s xs \<Longrightarrow> elem t \<Longrightarrow> t \<notin> set xs \<Longrightarrow> absq (add s t) (xs @ [t])"
    and rm_law: "absq s xs \<Longrightarrow> t \<in> set xs \<Longrightarrow> absq (rm s t) (remove1 t xs)"
    and head_law: "absq s (t # xs) \<Longrightarrow> h s = t"
    and elems_law: "absq s xs \<Longrightarrow> distinct xs \<and> list_all elem xs"
begin

lemma spin_rotates: "absq s xs \<Longrightarrow> xs \<noteq> [] \<Longrightarrow> absq (spin add rm h n s) (rotate n xs)"
proof (induction n arbitrary: s xs)
  case (Suc n)
  obtain t ys where xs: "xs = t # ys" using Suc.prems(2) by (cases xs) auto
  then have e: "t \<notin> set ys" "elem t" using elems_law [OF Suc.prems(1)] by auto
  have "absq (rm s (h s)) ys"
    using rm_law [OF Suc.prems(1), of t] head_law [of s t ys] Suc.prems(1) xs by simp
  then have "absq (add (rm s (h s)) (h s)) (rotate1 xs)"
    using add_law [of _ ys t] head_law [of s t ys] Suc.prems(1) xs e by simp
  then show ?case using Suc.IH xs by (simp add: rotate_def funpow_swap1)
qed simp

end

interpretation rq: task_queue run_queue run_queue_add run_queue_remove run_queue_head "\<lambda>t. t \<noteq> 0"
proof
  fix s :: "'a sched_state_scheme" and xs t assume "run_queue s xs" "t \<noteq> 0" "t \<notin> set xs"
  then show "run_queue (run_queue_add s t) (xs @ [t])" using run_queue_add_list by blast
next
  fix s :: "'a sched_state_scheme" and xs t assume "run_queue s xs" "t \<in> set xs"
  then show "run_queue (run_queue_remove s t) (remove1 t xs)" using run_queue_remove_list by blast
next
  fix s :: "'a sched_state_scheme" and xs t assume "run_queue s (t # xs)"
  then show "run_queue_head s = t" by (simp add: run_queue_def)
next
  fix s :: "'a sched_state_scheme" and xs assume "run_queue s xs"
  then show "distinct xs \<and> list_all (\<lambda>t. t \<noteq> 0) xs" by (auto simp: run_queue_def ring_def list_all_iff)
qed

text \<open>
  C3: the pointer structure of the run queue implements a list.  Appending links the task at
  the end, unlinking takes it out wherever it stands, and unlinking the head and appending it
  any number of times rotates the list.
\<close>

theorem run_queue_refines:
  assumes "run_queue st xs"
  shows "(t \<noteq> 0 \<and> t \<notin> set xs \<longrightarrow> run_queue (run_queue_add st t) (xs @ [t])) \<and>
    (t \<in> set xs \<longrightarrow> run_queue (run_queue_remove st t) (remove1 t xs)) \<and>
    (xs \<noteq> [] \<longrightarrow> run_queue (spin run_queue_add run_queue_remove run_queue_head n st) (rotate n xs))"
  using rq.add_law [OF assms] rq.rm_law [OF assms] rq.spin_rotates [OF assms] by blast

end
