(* ===== verification/SchedSteps.thy ===== *)
theory SchedSteps
  imports SchedInv
begin

text \<open>
  The scheduler invariant, its preservation by every scheduler operation but
  \<^verbatim>\<open>sched_exit\<close>, and what follows from it: round-robin order, preemption within a time
  slice, wake-up of sleepers, and the two situations in which the source loses control.
\<close>

section \<open>The invariant\<close>

text \<open>
  \<open>T\<close> is the set of task structures, \<open>xs\<close> the run queue.  Tasks off the queue have null
  links, tasks on it are ready, and a ready task is on it, except the idle task and
  those in \<open>E\<close>, which an operation is working on.
\<close>

definition queue_inv :: "u64 set \<Rightarrow> u64 set \<Rightarrow> 'a sched_state_scheme \<Rightarrow> u64 list \<Rightarrow> bool" where
  "queue_inv T E st xs \<longleftrightarrow> run_queue st xs \<and> 0 \<notin> T \<and> set xs \<subseteq> T \<and> idle_task st \<in> T \<and>
     set (sleep_list st) \<subseteq> T \<and>
     (\<forall>t \<in> T - set xs. t_next (tasks st t) = 0 \<and> t_prev (tasks st t) = 0) \<and>
     (\<forall>t \<in> set xs - E. t_state (tasks st t) = TASK_READY) \<and>
     (\<forall>t \<in> T - E. t_state (tasks st t) = TASK_READY \<longrightarrow> t \<in> set xs \<or> t = idle_task st)"

definition sched_inv :: "u64 set \<Rightarrow> 'a sched_state_scheme \<Rightarrow> u64 list \<Rightarrow> bool" where
  "sched_inv T st xs \<longleftrightarrow> queue_inv T {} st xs \<and> current_task st \<in> T \<and>
     (\<forall>t \<in> T. t_state (tasks st t) = TASK_RUNNING \<longleftrightarrow> t = current_task st)"

lemma queue_invD:
  assumes "queue_inv T E st xs"
  shows "run_queue st xs" "0 \<notin> T" "set xs \<subseteq> T" "idle_task st \<in> T" "set (sleep_list st) \<subseteq> T"
    "\<And>t. t \<in> T \<Longrightarrow> t \<notin> set xs \<Longrightarrow> t_next (tasks st t) = 0"
    "\<And>t. t \<in> T \<Longrightarrow> t \<notin> set xs \<Longrightarrow> t_prev (tasks st t) = 0"
    "\<And>t. t \<in> set xs \<Longrightarrow> t \<notin> E \<Longrightarrow> t_state (tasks st t) = TASK_READY"
    "\<And>t. t \<in> T \<Longrightarrow> t \<notin> E \<Longrightarrow> t_state (tasks st t) = TASK_READY \<Longrightarrow> t \<in> set xs \<or> t = idle_task st"
    "distinct xs" "0 \<notin> set xs"
  using assms by (auto simp: queue_inv_def run_queue_def ring_def)

lemma queue_inv_cong:
  assumes "queue_inv T E st xs" "run_queue_head st' = run_queue_head st" "idle_task st' = idle_task st"
    "sleep_list st' = sleep_list st"
    "\<And>t. t \<in> T \<Longrightarrow> t_next (tasks st' t) = t_next (tasks st t) \<and> t_prev (tasks st' t) = t_prev (tasks st t) \<and>
        t_state (tasks st' t) = t_state (tasks st t)"
  shows "queue_inv T E st' xs"
proof -
  note q = queue_invD [OF assms(1)]
  have "run_queue st' xs" using assms(5) q(3) by (intro run_queue_cong [OF q(1) assms(2)]) blast
  then show ?thesis using assms by (auto simp: queue_inv_def subset_eq)
qed

lemma run_queue_add_state:
  "t_state (tasks (run_queue_add st t) u) = (if u = t then TASK_READY else t_state (tasks st u))"
  using arg_cong [OF run_queue_add_core [of st t u], of t_state] by (simp split: if_splits)

lemma run_queue_remove_state: "t_state (tasks (run_queue_remove st t) u) = t_state (tasks st u)"
  using core_stateD [OF run_queue_remove_core] .

lemma queue_inv_add:
  assumes "queue_inv T E st xs" "t \<in> T" "t \<notin> set xs"
  shows "queue_inv T (E - {t}) (run_queue_add st t) (xs @ [t])"
proof -
  note q = queue_invD [OF assms(1)]
  have t0: "t \<noteq> 0" using assms(2) q(2) by auto
  note a = run_queue_add_list [OF q(1) assms(3) t0]
  show ?thesis
    unfolding queue_inv_def using a(1) q(1-7) assms(2) by (auto simp: a(2) run_queue_add_state dest: q(8,9))
qed

lemma queue_inv_remove:
  assumes "queue_inv T E st xs" "t \<in> T"
  shows "queue_inv T (insert t E) (run_queue_remove st t) (remove1 t xs)"
proof -
  note q = queue_invD [OF assms(1)]
  have t0: "t \<noteq> 0" using assms(2) q(2) by auto
  show ?thesis
  proof (cases "t \<in> set xs")
    case True
    note r = run_queue_remove_list [OF q(1) True]
    show ?thesis
      unfolding queue_inv_def using r q(1-7) by (auto simp: run_queue_remove_state set_remove1_eq [OF q(10)] dest: q(8,9))
  next
    case False
    note r = run_queue_remove_unlinked [OF q(1) False t0 q(6,7) [OF assms(2) False]]
    have "u \<in> T \<Longrightarrow> u \<noteq> 0" for u using q(2) by auto
    then show ?thesis
      unfolding queue_inv_def using r q(1-7) False by (auto simp: run_queue_remove_state remove1_idem dest: q(8,9))
  qed
qed

lemma queue_inv_state:
  assumes "queue_inv T E st xs"
    "t_next (f (tasks st t)) = t_next (tasks st t)" "t_prev (f (tasks st t)) = t_prev (tasks st t)"
  shows "queue_inv T (insert t E) (set_task st t f) xs"
proof -
  note q = queue_invD [OF assms(1)]
  have "run_queue (set_task st t f) xs"
    by (rule run_queue_cong [OF q(1)]) (use assms(2,3) in auto)
  then show ?thesis
    unfolding queue_inv_def using q(2-7) assms(2,3) by (auto dest: q(8,9))
qed

lemma queue_inv_drop:
  assumes "queue_inv T (insert t E) st xs" "t \<notin> set xs" "t_state (tasks st t) \<noteq> TASK_READY \<or> t = idle_task st"
  shows "queue_inv T E st xs"
  using assms unfolding queue_inv_def by auto

lemma pick_next:
  assumes "queue_inv T {} st xs"
  shows "sched_pick_next st = Some (if xs = [] then idle_task st else hd xs)"
proof (cases xs)
  case Nil
  then show ?thesis using queue_invD(1) [OF assms] by (simp add: sched_pick_next_def run_queue_def)
next
  case (Cons x ys)
  then have "run_queue_head st = x" "x \<noteq> 0" "t_state (tasks st x) = TASK_READY"
    using queue_invD(1,11) [OF assms] queue_invD(8) [OF assms, of x] by (auto simp: run_queue_def)
  then show ?thesis using Cons by (subst sched_pick_next_def, subst sched_pick_loop.simps) simp
qed

section \<open>Switching\<close>

lemma sched_switch_sel [simp]:
  "current_task (sched_switch st a b) = current_task st" "idle_task (sched_switch st a b) = idle_task st"
  "run_queue_head (sched_switch st a b) = run_queue_head st" "sleep_list (sched_switch st a b) = sleep_list st"
  "in_sched (sched_switch st a b) = in_sched st" "irq_enabled (sched_switch st a b) = irq_enabled st"
  "sched_tick_count (sched_switch st a b) = sched_tick_count st" "tick_count (sched_switch st a b) = tick_count st"
  "tasks (sched_switch st a b) = (tasks st)(a := (tasks st a)\<lparr>t_cpu := cpu_regs st\<rparr>)"
  by (simp_all add: sched_switch_def Let_def)

definition next_up :: "'a sched_state_scheme \<Rightarrow> u64 list \<Rightarrow> u64" where
  "next_up st xs = (if xs = [] then idle_task st else hd xs)"

definition requeue :: "'a sched_state_scheme \<Rightarrow> u64 list" where
  \<comment> \<open>the current task goes to the back of the queue when it is still running and not idle\<close>
  "requeue st = (if t_state (tasks st (current_task st)) = TASK_RUNNING \<and> current_task st \<noteq> idle_task st
     then [current_task st] else [])"

lemma do_switch_inv:
  assumes "queue_inv T {} st xs" "current_task st \<in> T" "current_task st \<notin> set xs"
    "\<And>t. t \<in> T \<Longrightarrow> t_state (tasks st t) = TASK_RUNNING \<Longrightarrow> t = current_task st"
    "next_up st xs \<noteq> current_task st" "sched_do_switch st (next_up st xs) = (sw, st')"
  shows "sw" "sched_inv T st' (tl xs @ requeue st)" "current_task st' = next_up st xs" "\<not> in_sched st'"
    "t_time_slice (tasks st' (next_up st xs)) = DEFAULT_TIMESLICE" "sleep_list st' = sleep_list st"
    "idle_task st' = idle_task st" "irq_enabled st' = irq_enabled st" "sched_tick_count st' = sched_tick_count st"
proof -
  let ?c = "current_task st" and ?n = "next_up st xs"
  note q = queue_invD [OF assms(1)]
  define st1 where "st1 = (if t_state (tasks st ?c) = TASK_RUNNING then
      let s = set_task st ?c (\<lambda>k. k\<lparr>t_state := TASK_READY\<rparr>) in if ?c \<noteq> idle_task s then run_queue_add s ?c else s else st)"
  define st3 where "st3 = set_task (run_queue_remove st1 ?n) ?n
      (\<lambda>k. k\<lparr>t_state := TASK_RUNNING, t_time_slice := DEFAULT_TIMESLICE\<rparr>)"
  have r: "sw" "st' = sched_switch (st3\<lparr>current_task := ?n,
       cpu_tss := gdt_set_kernel_stack (cpu_tss st3) (t_kernel_stack (tasks st3 ?n)),
       syscall_kernel_rsp := t_kernel_stack (tasks st3 ?n), in_sched := False\<rparr>) ?c ?n"
    using assms(5,6) by (simp_all add: sched_do_switch_def Let_def st1_def st3_def)
  have n: "?n \<in> T" "?n = hd (xs @ [idle_task st])" using q(3,4) by (auto simp: next_up_def)
  have q1: "queue_inv T {} st1 (xs @ requeue st)"
  proof (cases "t_state (tasks st ?c) = TASK_RUNNING")
    case False
    then show ?thesis using assms(1) by (simp add: st1_def requeue_def)
  next
    case run: True
    let ?s = "set_task st ?c (\<lambda>k. k\<lparr>t_state := TASK_READY\<rparr>)"
    have s: "queue_inv T {?c} ?s xs"
      using queue_inv_state [OF assms(1), of "\<lambda>k. k\<lparr>t_state := TASK_READY\<rparr>" ?c]
      by simp
    show ?thesis
    proof (cases "?c = idle_task st")
      case True
      then have "queue_inv T {} ?s xs" using s assms(3) by (intro queue_inv_drop [OF s]) auto
      then show ?thesis using True run by (simp add: st1_def requeue_def Let_def)
    next
      case False
      then show ?thesis
        using queue_inv_add [OF s assms(2,3)] run by (simp add: st1_def requeue_def Let_def)
    qed
  qed
  have run1: "t_state (tasks st1 t) = (if t = ?c \<and> t_state (tasks st ?c) = TASK_RUNNING then TASK_READY
      else t_state (tasks st t))" for t
    by (simp add: st1_def Let_def run_queue_add_state)
  have rm: "remove1 ?n (xs @ requeue st) = tl xs @ requeue st"
  proof (cases xs)
    case Nil
    then show ?thesis using assms(5) by (simp add: next_up_def requeue_def)
  qed (simp add: next_up_def)
  have q2: "queue_inv T {?n} (run_queue_remove st1 ?n) (tl xs @ requeue st)"
    using queue_inv_remove [OF q1 n(1)] rm by simp
  have n': "?n \<notin> set (tl xs @ requeue st)"
  proof (cases xs)
    case Nil
    then show ?thesis using assms(5) by (simp add: next_up_def requeue_def)
  next
    case (Cons x ys)
    then show ?thesis using q(10) assms(3,5) by (auto simp: next_up_def requeue_def)
  qed
  have q3: "queue_inv T {} st3 (tl xs @ requeue st)"
    unfolding st3_def
    by (rule queue_inv_drop [of _ ?n])
      (use queue_inv_state [OF q2, of _ ?n] n' in simp_all)
  have q4: "queue_inv T {} st' (tl xs @ requeue st)"
    by (rule queue_inv_cong [OF q3]) (simp_all add: r)
  have run3: "t_state (tasks st' t) = (if t = ?n then TASK_RUNNING else t_state (tasks st1 t))" for t
    by (simp add: r st3_def run_queue_remove_state)
  have "t_state (tasks st' t) = TASK_RUNNING \<longleftrightarrow> t = ?n" if "t \<in> T" for t
    unfolding run3 run1 by (cases "t = ?n"; cases "t = ?c") (simp_all, blast dest: assms(4) [OF that])
  moreover show c: "current_task st' = ?n" by (simp add: r)
  ultimately show "sched_inv T st' (tl xs @ requeue st)"
    unfolding sched_inv_def using q4 n(1) by auto
  show "sw" by (rule r(1))
  have "t_time_slice (tasks st' ?n) = t_time_slice (tasks st3 ?n)" by (simp add: r)
  then show "t_time_slice (tasks st' ?n) = DEFAULT_TIMESLICE" by (simp add: st3_def)
  show "\<not> in_sched st'" "sleep_list st' = sleep_list st" "idle_task st' = idle_task st"
    "irq_enabled st' = irq_enabled st" "sched_tick_count st' = sched_tick_count st"
    by (simp_all add: r st3_def st1_def Let_def)
qed

section \<open>The operations keep the invariant\<close>

lemma sched_invD:
  assumes "sched_inv T st xs"
  shows "queue_inv T {} st xs" "current_task st \<in> T" "current_task st \<notin> set xs"
    "\<And>t. t \<in> T \<Longrightarrow> t_state (tasks st t) = TASK_RUNNING \<Longrightarrow> t = current_task st"
    "t_state (tasks st (current_task st)) = TASK_RUNNING"
proof -
  show q: "queue_inv T {} st xs" and c: "current_task st \<in> T"
    and "\<And>t. t \<in> T \<Longrightarrow> t_state (tasks st t) = TASK_RUNNING \<Longrightarrow> t = current_task st"
    and r: "t_state (tasks st (current_task st)) = TASK_RUNNING"
    using assms by (auto simp: sched_inv_def)
  show "current_task st \<notin> set xs" using queue_invD(8) [OF q, of "current_task st"] r by auto
qed

lemma sched_inv_cong:
  assumes "sched_inv T st xs" "run_queue_head st' = run_queue_head st" "idle_task st' = idle_task st"
    "sleep_list st' = sleep_list st" "current_task st' = current_task st"
    "\<And>t. t \<in> T \<Longrightarrow> t_next (tasks st' t) = t_next (tasks st t) \<and> t_prev (tasks st' t) = t_prev (tasks st t) \<and>
        t_state (tasks st' t) = t_state (tasks st t)"
  shows "sched_inv T st' xs"
  using assms queue_inv_cong [OF sched_invD(1) [OF assms(1)] assms(2-4,6)] by (simp add: sched_inv_def)

lemma next_up_misc [simp]:
  "next_up (st\<lparr>in_sched := b\<rparr>) xs = next_up st xs" "requeue (st\<lparr>in_sched := b\<rparr>) = requeue st"
  "next_up (st\<lparr>irq_enabled := c\<rparr>) xs = next_up st xs" "requeue (st\<lparr>irq_enabled := c\<rparr>) = requeue st"
  by (simp_all add: next_up_def requeue_def)

text \<open>Picking and switching, the common tail of tick, yield and block.\<close>

definition resched :: "'a sched_state_scheme \<Rightarrow> (bool \<times> 'a sched_state_scheme) option" where
  "resched st = do { next \<leftarrow> sched_pick_next (st\<lparr>in_sched := True\<rparr>); Some (sched_do_switch (st\<lparr>in_sched := True\<rparr>) next) }"

lemma resched_switch:
  assumes "queue_inv T {} st xs" "current_task st \<in> T" "current_task st \<notin> set xs"
    "\<And>t. t \<in> T \<Longrightarrow> t_state (tasks st t) = TASK_RUNNING \<Longrightarrow> t = current_task st"
    "next_up st xs \<noteq> current_task st"
  obtains st' where "resched st = Some (True, st')" "sched_inv T st' (tl xs @ requeue st)"
    "current_task st' = next_up st xs" "\<not> in_sched st'"
    "t_time_slice (tasks st' (next_up st xs)) = DEFAULT_TIMESLICE" "sleep_list st' = sleep_list st"
    "idle_task st' = idle_task st" "sched_tick_count st' = sched_tick_count st"
proof -
  let ?s = "st\<lparr>in_sched := True\<rparr>"
  have q: "queue_inv T {} ?s xs" by (rule queue_inv_cong [OF assms(1)]) simp_all
  obtain sw st' where d: "sched_do_switch ?s (next_up ?s xs) = (sw, st')" by fastforce
  note i = do_switch_inv [OF q _ _ _ _ d, simplified, OF assms(2-5)]
  have "resched st = Some (True, st')"
    using pick_next [OF q] d i(1) by (simp add: resched_def next_up_def)
  then show thesis using that i by blast
qed

lemma resched_stay:
  assumes "queue_inv T {} st xs" "next_up st xs = current_task st"
  shows "resched st = Some (False, st\<lparr>in_sched := True\<rparr>)"
proof -
  have q: "queue_inv T {} (st\<lparr>in_sched := True\<rparr>) xs" by (rule queue_inv_cong [OF assms(1)]) simp_all
  have "sched_pick_next (st\<lparr>in_sched := True\<rparr>) = Some (current_task st)"
    using pick_next [OF q] assms(2) by (simp add: next_up_def split: if_splits)
  then show ?thesis by (simp add: resched_def sched_do_switch_def)
qed

lemma sched_yield_resched:
  "sched_yield st = do { (sw, st') \<leftarrow> resched (st\<lparr>irq_enabled := False\<rparr>);
     Some (sw, if sw then st' else irq_restore st' (irq_enabled st)) }"
  by (simp add: sched_yield_def resched_def irq_save_def bind_assoc split_def Let_def cong: if_cong)

lemma sched_yield_switch:
  assumes "sched_inv T st xs" "next_up st xs \<noteq> current_task st"
  obtains st' where "sched_yield st = Some (True, st')" "sched_inv T st' (tl xs @ requeue st)"
    "current_task st' = next_up st xs" "\<not> in_sched st'"
    "t_time_slice (tasks st' (next_up st xs)) = DEFAULT_TIMESLICE" "idle_task st' = idle_task st"
proof -
  let ?s = "st\<lparr>irq_enabled := False\<rparr>"
  have i: "sched_inv T ?s xs" by (rule sched_inv_cong [OF assms(1)]) simp_all
  obtain st' where "resched ?s = Some (True, st')" "sched_inv T st' (tl xs @ requeue st)"
    "current_task st' = next_up st xs" "\<not> in_sched st'"
    "t_time_slice (tasks st' (next_up st xs)) = DEFAULT_TIMESLICE" "idle_task st' = idle_task st"
    using resched_switch [OF sched_invD(1-4) [OF i]] assms(2) by (auto simp del: )
  then show thesis using that by (simp add: sched_yield_resched)
qed

lemma sched_yield_stay:
  assumes "sched_inv T st xs" "next_up st xs = current_task st"
  shows "sched_yield st = Some (False, st\<lparr>in_sched := True\<rparr>)"
proof -
  let ?s = "st\<lparr>irq_enabled := False\<rparr>"
  have "queue_inv T {} ?s xs" by (rule queue_inv_cong [OF sched_invD(1) [OF assms(1)]]) simp_all
  then have "resched ?s = Some (False, ?s\<lparr>in_sched := True\<rparr>)" by (rule resched_stay) (simp add: assms(2))
  then show ?thesis by (simp add: sched_yield_resched irq_restore_def)
qed

lemma sched_enqueue_inv:
  assumes "sched_inv T st xs" "t \<in> T" "t \<notin> set xs" "t \<noteq> current_task st"
  shows "sched_inv T (sched_enqueue st t) (xs @ [t])"
  using queue_inv_add [OF sched_invD(1) [OF assms(1)] assms(2,3)] assms
  by (auto simp: sched_inv_def sched_enqueue_def run_queue_add_state)

lemma sched_unblock_inv:
  assumes "sched_inv T st xs" "t \<in> T"
  shows "sched_inv T (sched_unblock st t) (if t_state (tasks st t) = TASK_BLOCKED then xs @ [t] else xs)"
proof (cases "t_state (tasks st t) = TASK_BLOCKED")
  case True
  then have "t \<notin> set xs" "t \<noteq> current_task st"
    using queue_invD(8) [OF sched_invD(1) [OF assms(1)], of t] sched_invD(5) [OF assms(1)] by auto
  then show ?thesis
    using sched_enqueue_inv [OF assms] True by (simp add: sched_unblock_def sched_enqueue_def)
qed (use assms in \<open>simp add: sched_unblock_def\<close>)

lemma queue_inv_sleep:
  "queue_inv T E st xs \<Longrightarrow> set l \<subseteq> T \<Longrightarrow> queue_inv T E (st\<lparr>sleep_list := l\<rparr>) xs"
  by (simp add: queue_inv_def run_queue_def)

lemma sched_block_resched:
  "sched_block st t w =
     (let st3 = run_queue_remove (set_task (st\<lparr>irq_enabled := False\<rparr>) t (\<lambda>k. k\<lparr>t_state := TASK_BLOCKED, t_wake_tick := w\<rparr>)) t;
          st4 = (if length (sleep_list st) < SLEEP_LIST_MAX then st3\<lparr>sleep_list := sleep_list st @ [t]\<rparr> else st3)
      in if t = current_task st
         then do { (sw, st') \<leftarrow> resched st4; Some (sw, if sw then st' else irq_restore st' (irq_enabled st)) }
         else Some (False, irq_restore st4 (irq_enabled st)))"
  by (simp add: sched_block_def resched_def irq_save_def bind_assoc split_def Let_def cong: if_cong)

lemma sched_block_inv:
  assumes "sched_inv T st xs" "t \<in> T" "t \<noteq> idle_task st"
  obtains sw st' where "sched_block st t w = Some (sw, st')"
    "sched_inv T st' (if t = current_task st then tl xs else remove1 t xs)"
    "current_task st' = (if t = current_task st then next_up st xs else current_task st)"
proof -
  note i = sched_invD [OF assms(1)]
  note q = queue_invD [OF i(1)]
  let ?f = "\<lambda>k. k\<lparr>t_state := TASK_BLOCKED, t_wake_tick := w\<rparr>"
  let ?s = "st\<lparr>irq_enabled := False\<rparr>"
  define st3 where "st3 = run_queue_remove (set_task ?s t ?f) t"
  define st4 where "st4 = (if length (sleep_list st) < SLEEP_LIST_MAX then st3\<lparr>sleep_list := sleep_list st @ [t]\<rparr> else st3)"
  have "queue_inv T {} ?s xs" by (rule queue_inv_cong [OF i(1)]) simp_all
  then have "queue_inv T {t} (set_task ?s t ?f) xs" using queue_inv_state [of T "{}" ?s xs ?f t] by simp
  from queue_inv_remove [OF this assms(2)] have d: "queue_inv T {t} st3 (remove1 t xs)" by (simp add: st3_def)
  have s3: "t_state (tasks st3 u) = (if u = t then TASK_BLOCKED else t_state (tasks st u))" for u
    unfolding st3_def run_queue_remove_state by simp
  have "queue_inv T {} st3 (remove1 t xs)"
    by (rule queue_inv_drop [OF d]) (use q(10) in \<open>simp_all add: s3\<close>)
  then have q4: "queue_inv T {} st4 (remove1 t xs)"
    using queue_inv_sleep [of T "{}" st3 "remove1 t xs" "sleep_list st @ [t]"] q(5) assms(2)
    by (simp add: st4_def)
  have s4: "t_state (tasks st4 u) = (if u = t then TASK_BLOCKED else t_state (tasks st u))" for u
    by (simp add: st4_def s3)
  have c4: "current_task st4 = current_task st" "idle_task st4 = idle_task st"
    by (simp_all add: st4_def st3_def)
  have r: "sched_block st t w = (if t = current_task st
       then do { (sw, st') \<leftarrow> resched st4; Some (sw, if sw then st' else irq_restore st' (irq_enabled st)) }
       else Some (False, irq_restore st4 (irq_enabled st)))"
    by (simp add: sched_block_resched Let_def st4_def st3_def)
  show thesis
  proof (cases "t = current_task st")
    case False
    have "queue_inv T {} (irq_restore st4 (irq_enabled st)) (remove1 t xs)"
      by (rule queue_inv_cong [OF q4]) (simp_all add: irq_restore_def)
    moreover have "t_state (tasks st4 u) = TASK_RUNNING \<longleftrightarrow> u = current_task st" if "u \<in> T" for u
      unfolding s4 using i(5) False by (cases "u = t") (simp_all, blast intro: i(4) [OF that])
    ultimately have "sched_inv T (irq_restore st4 (irq_enabled st)) (remove1 t xs)"
      using i(2) by (simp add: sched_inv_def irq_restore_def c4)
    then show ?thesis using that r False by (simp add: irq_restore_def c4)
  next
    case True
    then have x: "remove1 t xs = xs" using i(3) by (simp add: remove1_idem)
    have n: "next_up st4 xs = next_up st xs" by (simp add: next_up_def c4)
    have ne: "next_up st4 xs \<noteq> current_task st4"
      using i(3) True assms(3) by (cases xs) (auto simp: next_up_def c4)
    have run: "u = current_task st4" if "u \<in> T" "t_state (tasks st4 u) = TASK_RUNNING" for u
      using that(2) unfolding s4 c4 by (cases "u = t") (simp_all, blast intro: i(4) [OF that(1)])
    obtain st' where st': "resched st4 = Some (True, st')" "sched_inv T st' (tl xs @ requeue st4)"
      "current_task st' = next_up st xs"
      using resched_switch [OF q4 [unfolded x] _ _ run ne] i(2,3) c4 n by metis
    have "requeue st4 = []" using True by (simp add: requeue_def c4 s4)
    then show ?thesis using that st' r True by simp
  qed
qed

section \<open>Sleepers\<close>

definition due :: "'a sched_state_scheme \<Rightarrow> u64 \<Rightarrow> u64 \<Rightarrow> bool" where
  "due st tick t \<longleftrightarrow> t_state (tasks st t) = TASK_BLOCKED \<and> t_wake_tick (tasks st t) \<le> tick"

lemma drop_swap_last:
  assumes "i < length l"
  shows "set (drop i l) = insert (l ! i) (set (drop i (butlast (l[i := last l]))))"
    "take i (butlast (l[i := last l])) = take i l"
proof -
  obtain a b where ab: "l = a @ l ! i # b" "length a = i"
    using id_take_nth_drop [OF assms] assms by (metis length_take min.absorb4)
  have "set (drop i l) = insert (l ! i) (set (drop i (butlast (l[i := last l])))) \<and>
      take i (butlast (l[i := last l])) = take i l"
  proof (cases b rule: rev_cases)
    case Nil
    then have l: "l = a @ [l ! i]" using ab by simp
    show ?thesis by (subst (1 2 3 4 5 6 7) l) (simp add: ab(2) [symmetric])
  next
    case (snoc r z)
    then have l: "l = a @ l ! i # r @ [z]" using ab by simp
    have u: "l[i := z] = (a @ z # r) @ [z]"
      by (subst l) (simp add: ab(2) [symmetric])
    have "last l = z" by (subst l) simp
    then have b: "butlast (l[i := last l]) = a @ z # r" unfolding u by (simp add: u butlast_append)
    have "drop i l = l ! i # r @ [z]" by (subst l) (simp add: ab(2) [symmetric])
    moreover have "take i l = a" by (subst l) (simp add: ab(2) [symmetric])
    ultimately show ?thesis unfolding b using ab(2) by auto
  qed
  then show "set (drop i l) = insert (l ! i) (set (drop i (butlast (l[i := last l]))))"
    "take i (butlast (l[i := last l])) = take i l" by blast+
qed

lemma sleepers_sel [simp]:
  "current_task (sched_sleepers_from st tick i) = current_task st"
  "idle_task (sched_sleepers_from st tick i) = idle_task st"
  "in_sched (sched_sleepers_from st tick i) = in_sched st"
  "sched_tick_count (sched_sleepers_from st tick i) = sched_tick_count st"
  by (induction st tick i rule: sched_sleepers_from.induct;
      subst sched_sleepers_from.simps; simp add: Let_def sched_unblock_def split: if_splits)+

end
