(* ===== verification/SchedLive.thy ===== *)
theory SchedLive
  imports SchedSteps
begin

text \<open>
  What the scheduler invariant gives: wake-up of sleepers, the reachable states, round-robin
  order and preemption within a time slice, and the two situations in which the
  source loses control (an idle task that uses up its slice, and \<^verbatim>\<open>sched_exit\<close>).
\<close>

section \<open>Wake-up\<close>

lemma sched_unblock_task:
  "t_time_slice (tasks (sched_unblock st t) u) = t_time_slice (tasks st u)"
  "t_wake_tick (tasks (sched_unblock st t) u) = t_wake_tick (tasks st u)"
  "t_state (tasks (sched_unblock st t) u) =
     (if u = t \<and> t_state (tasks st t) = TASK_BLOCKED then TASK_READY else t_state (tasks st u))"
  using arg_cong [OF run_queue_add_core [of st t u], of t_time_slice]
    arg_cong [OF run_queue_add_core [of st t u], of t_wake_tick]
  by (simp_all add: sched_unblock_def run_queue_add_state split: if_splits)

lemma sched_inv_sleep:
  "sched_inv T st xs \<Longrightarrow> set l \<subseteq> T \<Longrightarrow> sched_inv T (st\<lparr>sleep_list := l\<rparr>) xs"
  by (simp add: sched_inv_def queue_inv_sleep)

lemma sleepers_inv:
  assumes "sched_inv T st xs"
  shows "(\<exists>ws. sched_inv T (sched_sleepers_from st tick i) (xs @ ws)) \<and>
    take i (sleep_list (sched_sleepers_from st tick i)) = take i (sleep_list st) \<and>
    (\<forall>u. t_time_slice (tasks (sched_sleepers_from st tick i) u) = t_time_slice (tasks st u) \<and>
         t_wake_tick (tasks (sched_sleepers_from st tick i) u) = t_wake_tick (tasks st u) \<and>
         t_state (tasks (sched_sleepers_from st tick i) u) =
           (if due st tick u \<and> u \<in> set (drop i (sleep_list st)) then TASK_READY else t_state (tasks st u))) \<and>
    (\<forall>u \<in> set (drop i (sleep_list (sched_sleepers_from st tick i))).
         \<not> due (sched_sleepers_from st tick i) tick u)"
  using assms
proof (induction st tick i arbitrary: xs rule: sched_sleepers_from.induct)
  case (1 st tick i)
  let ?t = "sleep_list st ! i"
  have T: "set (sleep_list st) \<subseteq> T" "0 \<notin> T"
    using queue_invD(2,5) [OF sched_invD(1) [OF "1.prems"]] by auto
  consider (stop) "\<not> i < length (sleep_list st)"
    | (wake) "i < length (sleep_list st)" "due st tick ?t"
    | (skip) "i < length (sleep_list st)" "\<not> due st tick ?t" by blast
  then show ?case
  proof cases
    case stop
    then have "sched_sleepers_from st tick i = st" by (subst sched_sleepers_from.simps) simp
    then show ?thesis using "1.prems" stop by (auto intro: exI [of _ "[]"])
  next
    case wake
    let ?u = "sched_unblock st ?t"
    let ?s = "?u\<lparr>sleep_list := butlast ((sleep_list ?u)[i := last (sleep_list ?u)])\<rparr>"
    have tT: "?t \<in> T" using T(1) wake(1) nth_mem by blast
    then have c: "?t \<noteq> 0 \<and> t_state (tasks st ?t) = TASK_BLOCKED \<and> t_wake_tick (tasks st ?t) \<le> tick"
      using T(2) wake(2) by (auto simp: due_def)
    have e: "sched_sleepers_from st tick i = sched_sleepers_from ?s tick i"
      using wake(1) c by (subst sched_sleepers_from.simps) (simp add: Let_def)
    have ne: "sleep_list st \<noteq> []" using wake(1) by auto
    have "last (sleep_list st) \<in> T" using T(1) last_in_set [OF ne] by blast
    then have "set ((sleep_list st)[i := last (sleep_list st)]) \<subseteq> T"
      using T(1) set_update_subset_insert [of "sleep_list st" i "last (sleep_list st)"] by blast
    then have "set (butlast ((sleep_list st)[i := last (sleep_list st)])) \<subseteq> T"
      by (blast dest: in_set_butlastD)
    then have inv: "sched_inv T ?s (xs @ [?t])"
      using sched_unblock_inv [OF "1.prems" tT] c by (intro sched_inv_sleep) simp_all
    note ih = "1.IH"(1) [OF wake(1) refl c refl refl inv, folded e]
    have du: "due ?s tick u \<longleftrightarrow> due st tick u \<and> u \<noteq> ?t" for u
      using c by (auto simp: due_def sched_unblock_task)
    note d = drop_swap_last [OF wake(1)]
    show ?thesis
    proof (intro conjI)
      show "\<exists>ws. sched_inv T (sched_sleepers_from st tick i) (xs @ ws)"
        using ih [THEN conjunct1] by auto
      show "take i (sleep_list (sched_sleepers_from st tick i)) = take i (sleep_list st)"
        using ih [THEN conjunct2, THEN conjunct1] d(2) by simp
      show "\<forall>u\<in>set (drop i (sleep_list (sched_sleepers_from st tick i))). \<not> due (sched_sleepers_from st tick i) tick u"
        by (rule ih [THEN conjunct2, THEN conjunct2, THEN conjunct2])
      show "\<forall>u. t_time_slice (tasks (sched_sleepers_from st tick i) u) = t_time_slice (tasks st u) \<and>
         t_wake_tick (tasks (sched_sleepers_from st tick i) u) = t_wake_tick (tasks st u) \<and>
         t_state (tasks (sched_sleepers_from st tick i) u) =
           (if due st tick u \<and> u \<in> set (drop i (sleep_list st)) then TASK_READY else t_state (tasks st u))"
        using ih [THEN conjunct2, THEN conjunct2, THEN conjunct1] c wake(2)
        unfolding du d(1) by (auto simp: sched_unblock_task)
    qed
  next
    case skip
    have "?t \<in> T" using T(1) skip(1) nth_mem by blast
    then have c: "\<not> (?t \<noteq> 0 \<and> t_state (tasks st ?t) = TASK_BLOCKED \<and> t_wake_tick (tasks st ?t) \<le> tick)"
      using skip(2) by (simp add: due_def)
    have e: "sched_sleepers_from st tick i = sched_sleepers_from st tick (Suc i)"
      by (subst sched_sleepers_from.simps) (simp only: skip(1) Let_def if_True if_not_P [OF c])
    note ih = "1.IH"(2) [OF skip(1) refl c "1.prems", folded e]
    let ?l = "sleep_list (sched_sleepers_from st tick i)"
    have tk: "take (Suc i) ?l = take (Suc i) (sleep_list st)" by (rule ih [THEN conjunct2, THEN conjunct1])
    have "i < length ?l" using arg_cong [OF tk, of length] skip(1) by simp
    then have dl: "drop i ?l = ?t # drop (Suc i) ?l"
      using tk by (metis Cons_nth_drop_Suc lessI nth_take)
    have ds: "drop i (sleep_list st) = ?t # drop (Suc i) (sleep_list st)"
      using skip(1) by (simp add: Cons_nth_drop_Suc)
    have st: "t_state (tasks (sched_sleepers_from st tick i) ?t) = t_state (tasks st ?t)"
      "t_wake_tick (tasks (sched_sleepers_from st tick i) ?t) = t_wake_tick (tasks st ?t)"
      using ih [THEN conjunct2, THEN conjunct2, THEN conjunct1, THEN spec [of _ ?t]] skip(2) by auto
    show ?thesis
    proof (intro conjI)
      show "\<exists>ws. sched_inv T (sched_sleepers_from st tick i) (xs @ ws)" by (rule ih [THEN conjunct1])
      show "take i ?l = take i (sleep_list st)" using arg_cong [OF tk, of "take i"] by (simp add: min_def)
      show "\<forall>u\<in>set (drop i ?l). \<not> due (sched_sleepers_from st tick i) tick u"
        unfolding dl using ih [THEN conjunct2, THEN conjunct2, THEN conjunct2] skip(2) st
        by (auto simp: due_def)
      show "\<forall>u. t_time_slice (tasks (sched_sleepers_from st tick i) u) = t_time_slice (tasks st u) \<and>
         t_wake_tick (tasks (sched_sleepers_from st tick i) u) = t_wake_tick (tasks st u) \<and>
         t_state (tasks (sched_sleepers_from st tick i) u) =
           (if due st tick u \<and> u \<in> set (drop i (sleep_list st)) then TASK_READY else t_state (tasks st u))"
        unfolding ds using ih [THEN conjunct2, THEN conjunct2, THEN conjunct1] skip(2) by auto
    qed
  qed
qed

text \<open>
  a timer tick wakes exactly the sleepers that are due.  Every blocked task of the sleep
  list whose wake tick has come is ready and at the back of the run queue, every other
  task keeps its state, no due sleeper is left on the list, and the invariant holds.
\<close>

theorem sched_check_sleepers_correct:
  assumes "sched_inv T st xs"
  shows "(\<exists>ws. sched_inv T (sched_check_sleepers st tick) (xs @ ws)) \<and>
    (\<forall>u. t_state (tasks (sched_check_sleepers st tick) u) =
       (if due st tick u \<and> u \<in> set (sleep_list st) then TASK_READY else t_state (tasks st u))) \<and>
    (\<forall>u \<in> set (sleep_list (sched_check_sleepers st tick)). \<not> due (sched_check_sleepers st tick) tick u)"
  using sleepers_inv [OF assms, of tick 0] by (simp add: sched_check_sleepers_def)

section \<open>The timer tick\<close>

definition cur_slice :: "'a sched_state_scheme \<Rightarrow> u64" where
  "cur_slice st = t_time_slice (tasks st (current_task st))"

definition woken :: "'a sched_state_scheme \<Rightarrow> 'a sched_state_scheme" where
  "woken st = sched_check_sleepers (st\<lparr>sched_tick_count := sched_tick_count st + 1\<rparr>) (sched_tick_count st + 1)"

definition charged :: "'a sched_state_scheme \<Rightarrow> 'a sched_state_scheme" where
  "charged st = (if cur_slice st > 0 then set_task st (current_task st)
     (\<lambda>k. k\<lparr>t_time_slice := t_time_slice k - 1, t_total_ticks := t_total_ticks k + 1\<rparr>) else st)"

lemma woken_sel [simp]:
  "current_task (woken st) = current_task st" "idle_task (woken st) = idle_task st" "in_sched (woken st) = in_sched st"
  by (simp_all add: woken_def sched_check_sleepers_def)

lemma charged_sel [simp]:
  "current_task (charged st) = current_task st" "idle_task (charged st) = idle_task st"
  "in_sched (charged st) = in_sched st" "cur_slice (charged st) = (if cur_slice st > 0 then cur_slice st - 1 else 0)"
  by (auto simp: charged_def cur_slice_def word_gt_0)

lemma sched_tick_eq:
  "sched_tick st = (if current_task st = 0 \<or> in_sched st then Some (False, woken st)
     else if cur_slice (charged (woken st)) = 0 then resched (charged (woken st)) else Some (False, charged (woken st)))"
proof -
  have c: "(if t_time_slice (tasks (woken st) (current_task st)) > 0 then set_task (woken st) (current_task st)
      (\<lambda>k. k\<lparr>t_time_slice := t_time_slice k - 1, t_total_ticks := t_total_ticks k + 1\<rparr>) else woken st) = charged (woken st)"
    by (simp add: charged_def cur_slice_def)
  have s: "cur_slice (charged (woken st)) = t_time_slice (tasks (charged (woken st)) (current_task st))"
    by (simp only: cur_slice_def charged_sel woken_sel)
  have w: "sched_check_sleepers (st\<lparr>sched_tick_count := sched_tick_count st + 1\<rparr>)
      (sched_tick_count (st\<lparr>sched_tick_count := sched_tick_count st + 1\<rparr>)) = woken st"
    by (simp add: woken_def)
  show ?thesis
    unfolding sched_tick_def Let_def w woken_sel c s resched_def by simp
qed

lemma woken_inv:
  assumes "sched_inv T st xs"
  obtains ws where "sched_inv T (woken st) (xs @ ws)" "cur_slice (woken st) = cur_slice st"
proof -
  let ?s = "st\<lparr>sched_tick_count := sched_tick_count st + 1\<rparr>"
  have "sched_inv T ?s xs" by (rule sched_inv_cong [OF assms]) simp_all
  note i = sleepers_inv [OF this, of "sched_tick_count st + 1" 0]
  obtain ws where "sched_inv T (woken st) (xs @ ws)"
    using i [THEN conjunct1] by (auto simp: woken_def sched_check_sleepers_def)
  moreover have "cur_slice (woken st) = cur_slice st"
    using i [THEN conjunct2, THEN conjunct2, THEN conjunct1] by (simp add: cur_slice_def woken_def sched_check_sleepers_def)
  ultimately show thesis by (rule that)
qed

lemma charged_inv: "sched_inv T st xs \<Longrightarrow> sched_inv T (charged st) xs"
  by (erule sched_inv_cong) (simp_all add: charged_def)

lemma current_nz: "sched_inv T st xs \<Longrightarrow> current_task st \<noteq> 0"
  using sched_invD(1,2) queue_invD(2) by metis

lemma tick_keep:
  assumes "sched_inv T st xs" "\<not> in_sched st" "1 < unat (cur_slice st)"
  obtains st' ws where "sched_tick st = Some (False, st')" "sched_inv T st' (xs @ ws)"
    "current_task st' = current_task st" "idle_task st' = idle_task st" "\<not> in_sched st'"
    "unat (cur_slice st') = unat (cur_slice st) - 1"
proof -
  obtain ws where w: "sched_inv T (woken st) (xs @ ws)" "cur_slice (woken st) = cur_slice st"
    using woken_inv [OF assms(1)] .
  have s: "cur_slice st \<noteq> 0" using assms(3) by auto
  have u: "unat (cur_slice st - 1) = unat (cur_slice st) - 1" using s by (simp add: unat_minus_one)
  then have "cur_slice st - 1 \<noteq> 0" using assms(3) by (metis unat_0 zero_less_diff less_irrefl)
  then have "sched_tick st = Some (False, charged (woken st))"
    using current_nz [OF assms(1)] assms(2) s w(2) by (simp add: sched_tick_eq word_gt_0)
  then show thesis
    using that charged_inv [OF w(1)] assms(2) w(2) s u by (simp add: word_gt_0)
qed

lemma tick_switch:
  assumes "sched_inv T st xs" "\<not> in_sched st" "unat (cur_slice st) \<le> 1" "xs \<noteq> []"
  obtains st' ys where "sched_tick st = Some (True, st')" "sched_inv T st' (tl xs @ ys)"
    "current_task st' = hd xs" "\<not> in_sched st'" "cur_slice st' = DEFAULT_TIMESLICE"
proof -
  obtain ws where w: "sched_inv T (woken st) (xs @ ws)" "cur_slice (woken st) = cur_slice st"
    using woken_inv [OF assms(1)] .
  let ?s = "charged (woken st)"
  note i = sched_invD [OF charged_inv [OF w(1)]]
  have n: "next_up ?s (xs @ ws) = hd xs" using assms(4) by (simp add: next_up_def)
  have ne: "next_up ?s (xs @ ws) \<noteq> current_task ?s" unfolding n using i(3) hd_in_set [OF assms(4)] by (metis UnI1 set_append)
  have "cur_slice st = 0 \<or> cur_slice st = 1" using assms(3) by (auto simp: u64_eq_iff_unat)
  then have z: "cur_slice ?s = 0" using w(2) by auto
  obtain st' where st': "resched ?s = Some (True, st')" "sched_inv T st' (tl (xs @ ws) @ requeue ?s)"
    "current_task st' = hd xs" "\<not> in_sched st'" "t_time_slice (tasks st' (hd xs)) = DEFAULT_TIMESLICE"
    using resched_switch [OF i(1-4) ne] n by metis
  have "sched_tick st = Some (True, st')"
    using current_nz [OF assms(1)] assms(2) z st'(1) by (simp add: sched_tick_eq)
  moreover have "sched_inv T st' (tl xs @ (ws @ requeue ?s))" using st'(2) assms(4) by simp
  moreover have "cur_slice st' = DEFAULT_TIMESLICE" using st'(3,5) by (simp add: cur_slice_def)
  ultimately show thesis using that st'(3,4) by blast
qed

fun ticks :: "nat \<Rightarrow> 'a sched_state_scheme \<Rightarrow> 'a sched_state_scheme option" where
  "ticks 0 st = Some st"
| "ticks (Suc n) st = do { (sw, st') \<leftarrow> sched_tick st; ticks n st' }"

lemma ticks_add: "ticks (m + n) st = do { st' \<leftarrow> ticks m st; ticks n st' }"
  by (induction m arbitrary: st) (simp_all add: bind_assoc split_def)

lemma preempted:
  assumes "sched_inv T st xs" "\<not> in_sched st" "xs \<noteq> []"
  shows "\<exists>st' ys. ticks (max 1 (unat (cur_slice st))) st = Some st' \<and> sched_inv T st' (tl xs @ ys) \<and>
    current_task st' = hd xs \<and> \<not> in_sched st' \<and> cur_slice st' = DEFAULT_TIMESLICE"
  using assms
proof (induction "unat (cur_slice st)" arbitrary: st xs)
  case 0
  obtain st' ys where "sched_tick st = Some (True, st')" "sched_inv T st' (tl xs @ ys)"
    "current_task st' = hd xs" "\<not> in_sched st'" "cur_slice st' = DEFAULT_TIMESLICE"
    using tick_switch [OF 0(2,3) _ 0(4)] 0(1) by auto
  then show ?case using 0(1) by (intro exI [of _ st'] exI [of _ ys]) (simp flip: 0(1))
next
  case (Suc n)
  show ?case
  proof (cases n)
    case 0
    obtain st' ys where "sched_tick st = Some (True, st')" "sched_inv T st' (tl xs @ ys)"
      "current_task st' = hd xs" "\<not> in_sched st'" "cur_slice st' = DEFAULT_TIMESLICE"
      using tick_switch [OF Suc(3,4) _ Suc(5)] Suc(2) 0 by auto
    then show ?thesis using Suc(2) 0 by (intro exI [of _ st'] exI [of _ ys]) (simp flip: Suc(2))
  next
    case (Suc m)
    have gt: "1 < unat (cur_slice st)" using Suc.hyps(2) Suc by simp
    obtain st1 ws where 1: "sched_tick st = Some (False, st1)" "sched_inv T st1 (xs @ ws)"
      "\<not> in_sched st1" "unat (cur_slice st1) = unat (cur_slice st) - 1"
      using tick_keep [OF Suc.prems(1,2) gt] by metis
    have n1: "n = unat (cur_slice st1)" using 1(4) Suc.hyps(2) by simp
    have ne: "xs @ ws \<noteq> []" "hd (xs @ ws) = hd xs" using Suc.prems(3) by simp_all
    obtain st' ys where "ticks (max 1 (unat (cur_slice st1))) st1 = Some st'"
      "sched_inv T st' (tl (xs @ ws) @ ys)" "current_task st' = hd xs" "\<not> in_sched st'" "cur_slice st' = DEFAULT_TIMESLICE"
      using Suc.hyps(1) [OF n1 1(2,3) ne(1)] unfolding ne(2) by blast
    moreover have "max 1 (unat (cur_slice st)) = Suc (max 1 (unat (cur_slice st1)))" using 1(4) Suc.hyps(2) Suc by simp
    ultimately show ?thesis using 1(1) Suc.prems(3) by (intro exI [of _ st'] exI [of _ "ws @ ys"]) simp
  qed
qed

text \<open>
  C2: no ready task starves.  While no voluntary switch is in progress, the task at position
  \<open>k\<close> of the run queue becomes the current task after at most the rest of the running slice
  and \<open>k\<close> further slices of 20 ticks, whatever sleepers wake up meanwhile.
\<close>

theorem sched_tick_fair:
  assumes "sched_inv T st xs" "\<not> in_sched st" "k < length xs"
  shows "\<exists>n st'. n \<le> max 1 (unat (cur_slice st)) + 20 * k \<and> ticks n st = Some st' \<and> current_task st' = xs ! k"
  using assms
proof (induction k arbitrary: st xs)
  case 0
  then show ?case using preempted [OF 0(1,2)] by (auto simp: hd_conv_nth)
next
  case (Suc k)
  then have ne: "xs \<noteq> []" by auto
  obtain st1 ys where 1: "ticks (max 1 (unat (cur_slice st))) st = Some st1" "sched_inv T st1 (tl xs @ ys)"
    "\<not> in_sched st1" "cur_slice st1 = DEFAULT_TIMESLICE"
    using preempted [OF Suc.prems(1,2) ne] by blast
  have kl: "k < length (tl xs @ ys)" using Suc.prems(3) by simp
  obtain n st' where 2: "n \<le> 20 + 20 * k" "ticks n st1 = Some st'" "current_task st' = (tl xs @ ys) ! k"
    using Suc.IH [OF 1(2,3) kl] by (auto simp: 1(4) DEFAULT_TIMESLICE_def)
  have "(tl xs @ ys) ! k = xs ! Suc k" using Suc.prems(3) by (cases xs) (simp_all add: nth_append)
  moreover have "ticks (max 1 (unat (cur_slice st)) + n) st = Some st'" using 1(1) 2(2) by (simp add: ticks_add)
  ultimately show ?case using 2 by (intro exI [of _ "max 1 (unat (cur_slice st)) + n"] exI [of _ st']) simp
qed

section \<open>Voluntary switches\<close>

fun yields :: "nat \<Rightarrow> 'a sched_state_scheme \<Rightarrow> 'a sched_state_scheme option" where
  "yields 0 st = Some st"
| "yields (Suc n) st = do { (sw, st') \<leftarrow> sched_yield st; yields n st' }"

text \<open>
  yielding is round robin.  When each task in turn yields, the tasks of the run queue run in
  queue order: after \<open>k + 1\<close> yields the task at position \<open>k\<close> is current, and the invariant holds.
\<close>

theorem sched_yield_round_robin:
  assumes "sched_inv T st xs" "k < length xs"
  shows "\<exists>st' ys. yields (Suc k) st = Some st' \<and> current_task st' = xs ! k \<and> sched_inv T st' (drop (Suc k) xs @ ys)"
  using assms
proof (induction k arbitrary: st xs)
  case 0
  then have ne: "xs \<noteq> []" by auto
  have "hd xs \<noteq> current_task st" using sched_invD(3) [OF 0(1)] hd_in_set [OF ne] by metis
  then have n: "next_up st xs \<noteq> current_task st" using ne by (simp add: next_up_def)
  obtain st' where "sched_yield st = Some (True, st')" "sched_inv T st' (tl xs @ requeue st)"
    "current_task st' = hd xs"
    using sched_yield_switch [OF 0(1) n] ne by (auto simp: next_up_def)
  then show ?case using ne by (intro exI [of _ st'] exI [of _ "requeue st"]) (simp add: hd_conv_nth drop_Suc)
next
  case (Suc k)
  then have ne: "xs \<noteq> []" by auto
  have "hd xs \<noteq> current_task st" using sched_invD(3) [OF Suc.prems(1)] hd_in_set [OF ne] by metis
  then have n: "next_up st xs \<noteq> current_task st" using ne by (simp add: next_up_def)
  obtain st1 where 1: "sched_yield st = Some (True, st1)" "sched_inv T st1 (tl xs @ requeue st)"
    using sched_yield_switch [OF Suc.prems(1) n] by metis
  have kl: "k < length (tl xs @ requeue st)" using Suc.prems(2) by simp
  obtain st' ys where "yields (Suc k) st1 = Some st'" "current_task st' = (tl xs @ requeue st) ! k"
    "sched_inv T st' (drop (Suc k) (tl xs @ requeue st) @ ys)"
    using Suc.IH [OF 1(2) kl] by blast
  moreover have "(tl xs @ requeue st) ! k = xs ! Suc k" "drop (Suc k) (tl xs @ requeue st) =
      drop (Suc (Suc k)) xs @ drop (Suc k - length (tl xs)) (requeue st)"
    using Suc.prems(2) by (cases xs; simp add: nth_append)+
  ultimately show ?case using 1(1)
    by (intro exI [of _ st'] exI [of _ "drop (Suc k - length (tl xs)) (requeue st) @ ys"]) simp
qed

section \<open>Reachable states\<close>

text \<open>
  The steps of the running system: timer interrupts, yields, blocking a task other than the
  idle task, unblocking, and enqueueing a task that is off the queue.
\<close>

inductive sched_step :: "u64 set \<Rightarrow> 'a sched_state_scheme \<Rightarrow> 'a sched_state_scheme \<Rightarrow> bool" for T where
  tick: "timer_irq_handler st = Some (sw, st') \<Longrightarrow> sched_step T st st'"
| yield: "sched_yield st = Some (sw, st') \<Longrightarrow> sched_step T st st'"
| block: "t \<in> T \<Longrightarrow> t \<noteq> idle_task st \<Longrightarrow> sched_block st t w = Some (sw, st') \<Longrightarrow> sched_step T st st'"
| unblock: "t \<in> T \<Longrightarrow> sched_step T st (sched_unblock st t)"
| enqueue: "t \<in> T \<Longrightarrow> t_state (tasks st t) = TASK_CREATED \<Longrightarrow> sched_step T st (sched_enqueue st t)"

lemma timer_irq_inv:
  assumes "sched_inv T st xs"
  obtains sw st' ys where "timer_irq_handler st = Some (sw, st')" "sched_inv T st' ys"
proof -
  let ?s = "st\<lparr>tick_count := tick_count st + 1\<rparr>"
  have i: "sched_inv T ?s xs" by (rule sched_inv_cong [OF assms]) simp_all
  obtain ws where w: "sched_inv T (woken ?s) (xs @ ws)" using woken_inv [OF i] by metis
  let ?c = "charged (woken ?s)"
  have c: "sched_inv T ?c (xs @ ws)" by (rule charged_inv [OF w])
  have "\<exists>sw st' ys. sched_tick ?s = Some (sw, st') \<and> sched_inv T st' ys"
  proof (cases "in_sched ?s \<or> cur_slice ?c \<noteq> 0")
    case True
    then show ?thesis using w c current_nz [OF i] by (auto simp: sched_tick_eq)
  next
    case False
    then have e: "sched_tick ?s = resched ?c" using current_nz [OF i] by (simp add: sched_tick_eq)
    show ?thesis
    proof (cases "next_up ?c (xs @ ws) = current_task ?c")
      case True
      have "sched_inv T (?c\<lparr>in_sched := True\<rparr>) (xs @ ws)" by (rule sched_inv_cong [OF c]) simp_all
      then show ?thesis using resched_stay [OF sched_invD(1) [OF c] True] e by auto
    next
      case False
      show ?thesis using resched_switch [OF sched_invD(1-4) [OF c] False] e by metis
    qed
  qed
  then show thesis using that by (auto simp: timer_irq_handler_def)
qed

lemma sched_step_inv:
  assumes "sched_step T st st'" "sched_inv T st xs"
  shows "\<exists>ys. sched_inv T st' ys"
  using assms(1)
proof cases
  case (tick sw)
  then show ?thesis using timer_irq_inv [OF assms(2)] by (metis option.inject prod.inject)
next
  case (yield sw)
  show ?thesis
  proof (cases "next_up st xs = current_task st")
    case True
    have "sched_inv T (st\<lparr>in_sched := True\<rparr>) xs" by (rule sched_inv_cong [OF assms(2)]) simp_all
    then show ?thesis using yield sched_yield_stay [OF assms(2) True] by auto
  next
    case False
    then show ?thesis using yield sched_yield_switch [OF assms(2) False] by (metis option.inject prod.inject)
  qed
next
  case (block t w sw)
  then show ?thesis using sched_block_inv [OF assms(2)] by (metis option.inject prod.inject)
next
  case (unblock t)
  then show ?thesis using sched_unblock_inv [OF assms(2)] by metis
next
  case (enqueue t)
  then have "t \<notin> set xs" "t \<noteq> current_task st"
    using queue_invD(8) [OF sched_invD(1) [OF assms(2)], of t] sched_invD(5) [OF assms(2)] by auto
  then show ?thesis using sched_enqueue_inv [OF assms(2)] enqueue by metis
qed

text \<open>
  C1: every state the scheduler reaches by timer interrupts, yields, blocking, unblocking and
  enqueueing satisfies the invariant: the run queue is a well-formed circular list of ready
  tasks without duplicates, exactly one task is running and it is off the queue, and no
  ready task other than the idle task is off the queue.
\<close>

theorem sched_reachable_inv:
  assumes "(sched_step T)\<^sup>*\<^sup>* st st'" "sched_inv T st xs"
  shows "\<exists>ys. sched_inv T st' ys"
  using assms(1)
proof (induction rule: rtranclp_induct)
  case base
  then show ?case using assms(2) by blast
next
  case (step y z)
  then show ?case using sched_step_inv by blast
qed

section \<open>Where the source loses control\<close>

lemma in_sched_stuck:
  "in_sched st \<Longrightarrow> \<exists>st'. ticks n st = Some st' \<and> in_sched st' \<and> current_task st' = current_task st \<and> idle_task st' = idle_task st"
proof (induction n arbitrary: st)
  case (Suc n)
  then have "sched_tick st = Some (False, woken st)" by (simp add: sched_tick_eq)
  then show ?case using Suc.IH [of "woken st"] Suc.prems by simp
qed simp

text \<open>
  once the idle task has used up its time slice with nothing ready, it runs for ever: the
  tick that finds no other task leaves in_sched set, and every later tick returns before it
  looks at the run queue, even when sleepers have become ready.
\<close>

theorem idle_never_preempted:
  assumes "sched_inv T st []" "current_task st = idle_task st" "unat (cur_slice st) \<le> 1"
    "\<forall>t \<in> set (sleep_list st). \<not> due st (sched_tick_count st + 1) t"
  shows "\<exists>st'. ticks n st = Some st' \<and> current_task st' = idle_task st"
proof (cases n)
  case 0
  then show ?thesis using assms(2) by simp
next
  case (Suc m)
  show ?thesis
  proof (cases "in_sched st")
    case True
    then show ?thesis using in_sched_stuck [OF True, of n] assms(2) by auto
  next
    case False
    let ?s = "st\<lparr>sched_tick_count := sched_tick_count st + 1\<rparr>"
    have i: "sched_inv T ?s []" by (rule sched_inv_cong [OF assms(1)]) simp_all
    note sl = sleepers_inv [OF i, of "sched_tick_count st + 1" 0]
    obtain ws where w: "sched_inv T (woken st) ws"
      using sl [THEN conjunct1] by (auto simp: woken_def sched_check_sleepers_def)
    have same: "t_state (tasks (woken st) u) = t_state (tasks st u)" for u
      using sl [THEN conjunct2, THEN conjunct2, THEN conjunct1, THEN spec [of _ u]] assms(4)
      by (auto simp: woken_def sched_check_sleepers_def due_def)
    have "ws = []"
    proof (rule ccontr)
      assume "ws \<noteq> []"
      then obtain u where u: "u \<in> set ws" by (cases ws) auto
      have r: "t_state (tasks st u) = TASK_READY"
        using queue_invD(8) [OF sched_invD(1) [OF w] u] same by simp
      have "u \<in> T" using u queue_invD(3) [OF sched_invD(1) [OF w]] by blast
      then have "u = idle_task st" using queue_invD(9) [OF sched_invD(1) [OF assms(1)], of u] r by simp
      then show False using r sched_invD(5) [OF assms(1)] assms(2) by simp
    qed
    then have c: "sched_inv T (charged (woken st)) []" using charged_inv [OF w] by simp
    have n: "next_up (charged (woken st)) [] = current_task (charged (woken st))"
      using assms(2) by (simp add: next_up_def)
    have "cur_slice (woken st) = cur_slice st"
      using sl [THEN conjunct2, THEN conjunct2, THEN conjunct1]
      by (simp add: cur_slice_def woken_def sched_check_sleepers_def)
    moreover have "cur_slice st = 0 \<or> cur_slice st = 1" using assms(3) by (auto simp: u64_eq_iff_unat)
    ultimately have "cur_slice (charged (woken st)) = 0" by auto
    then have t: "sched_tick st = Some (False, (charged (woken st))\<lparr>in_sched := True\<rparr>)"
      using resched_stay [OF sched_invD(1) [OF c] n] current_nz [OF assms(1)] False
      by (simp add: sched_tick_eq)
    show ?thesis
      using in_sched_stuck [of "(charged (woken st))\<lparr>in_sched := True\<rparr>" m] t Suc assms(2) by auto
  qed
qed

lemma ring_next_in: "ring nx pv xs \<Longrightarrow> x \<in> set xs \<Longrightarrow> nx x \<in> set xs"
proof -
  assume r: "ring nx pv xs" "x \<in> set xs"
  then obtain a b where ab: "xs = a @ x # b" using split_list by metis
  have "b @ a @ [x] \<noteq> []" by simp
  then have "hd (b @ a @ [x]) \<in> set (b @ a @ [x])" by (rule hd_in_set)
  then show ?thesis using ring_links(1) [of nx pv a x b] r(1) ab by auto
qed

text \<open>
  what sched_exit leaves behind.  With an empty run queue the idle task takes over and the
  invariant holds.  Otherwise the head of the queue becomes the current task while it
  is still linked into the queue, so the invariant is lost.
\<close>

theorem sched_exit_effect:
  assumes "sched_inv T st xs" "current_task st \<noteq> idle_task st"
  shows "\<exists>st'. sched_exit st = Some st' \<and> t_state (tasks st' (current_task st)) = TASK_ZOMBIE \<and>
    current_task st' = next_up st xs \<and> run_queue st' xs \<and>
    (if xs = [] then sched_inv T st' [] else \<not> (\<exists>ys. sched_inv T st' ys))"
proof -
  let ?d = "current_task st" and ?n = "next_up st xs"
  note i = sched_invD [OF assms(1)]
  let ?s = "set_task (st\<lparr>irq_enabled := False\<rparr>) ?d (\<lambda>k. k\<lparr>t_state := TASK_ZOMBIE\<rparr>)"
  define st2 where "st2 = run_queue_remove ?s ?d"
  define st3 where "st3 = set_task st2 ?n (\<lambda>k. k\<lparr>t_state := TASK_RUNNING\<rparr>)"
  define st' where "st' = sched_switch (st3\<lparr>current_task := ?n,
      cpu_tss := gdt_set_kernel_stack (cpu_tss st3) (t_kernel_stack (tasks st3 ?n)),
      syscall_kernel_rsp := t_kernel_stack (tasks st3 ?n)\<rparr>) ?d ?n"
  have "queue_inv T {} (st\<lparr>irq_enabled := False\<rparr>) xs" by (rule queue_inv_cong [OF i(1)]) simp_all
  then have "queue_inv T {?d} ?s xs"
    using queue_inv_state [of T "{}" "st\<lparr>irq_enabled := False\<rparr>" xs "\<lambda>k. k\<lparr>t_state := TASK_ZOMBIE\<rparr>" ?d] by simp
  from queue_inv_remove [OF this i(2)] have d2: "queue_inv T {?d} st2 xs"
    using i(3) by (simp add: st2_def remove1_idem)
  have s2: "t_state (tasks st2 u) = (if u = ?d then TASK_ZOMBIE else t_state (tasks st u))" for u
    by (simp add: st2_def run_queue_remove_state)
  have q2: "queue_inv T {} st2 xs" by (rule queue_inv_drop [OF d2]) (use i(3) in \<open>simp_all add: s2\<close>)
  have i2: "idle_task st2 = idle_task st" by (simp add: st2_def)
  have nd: "?n \<noteq> ?d" using assms(2) i(3) by (cases xs) (auto simp: next_up_def)
  have ex: "sched_exit st = Some st'"
    using pick_next [OF q2] unfolding sched_exit_def irq_save_def st'_def st3_def
    by (simp add: Let_def st2_def [symmetric] i2 next_up_def)
  have q3: "queue_inv T {?n} st3 xs" unfolding st3_def using queue_inv_state [OF q2, of "\<lambda>k. k\<lparr>t_state := TASK_RUNNING\<rparr>" ?n] by simp
  have q4: "queue_inv T {?n} st' xs" by (rule queue_inv_cong [OF q3]) (simp_all add: st'_def)
  have c: "current_task st' = ?n" by (simp add: st'_def)
  have s4: "t_state (tasks st' u) = (if u = ?n then TASK_RUNNING else if u = ?d then TASK_ZOMBIE else t_state (tasks st u))" for u
    by (simp add: st'_def st3_def s2)
  have z: "t_state (tasks st' ?d) = TASK_ZOMBIE" using nd by (simp add: s4)
  show ?thesis
  proof (cases xs)
    case Nil
    have "queue_inv T {} st' xs"
      by (rule queue_inv_drop [OF q4]) (use Nil in \<open>simp_all add: s4\<close>)
    moreover have "?n \<in> T" using queue_invD(4) [OF i(1)] Nil by (simp add: next_up_def)
    moreover have "t_state (tasks st' u) = TASK_RUNNING \<longleftrightarrow> u = ?n" if "u \<in> T" for u
      unfolding s4 by (cases "u = ?n"; cases "u = ?d") (simp_all, blast dest: i(4) [OF that])
    ultimately have "sched_inv T st' []" using Nil c by (simp add: sched_inv_def)
    then show ?thesis using ex z c queue_invD(1) [OF q4] Nil by auto
  next
    case (Cons x r)
    have "\<not> sched_inv T st' ys" for ys
    proof
      assume "sched_inv T st' ys"
      then have "t_next (tasks st' x) = 0"
        using sched_invD(1,2,3) [of T st' ys] queue_invD(6) [of T "{}" st' ys x] c Cons by (simp add: next_up_def)
      moreover have "ring (\<lambda>t. t_next (tasks st' t)) (\<lambda>t. t_prev (tasks st' t)) xs"
        using queue_invD(1) [OF q4] by (simp add: run_queue_def)
      then have "t_next (tasks st' x) \<in> set xs" by (rule ring_next_in) (simp add: Cons)
      ultimately show False using queue_invD(11) [OF q4] by simp
    qed
    then show ?thesis using ex z c queue_invD(1) [OF q4] Cons by auto
  qed
qed

section \<open>Witnesses\<close>

definition sched_base :: "u64 \<Rightarrow> sched_state" where
  \<comment> \<open>every cell is a zeroed task but the current one; the idle task is at 0x1000\<close>
  "sched_base cur = heap_state.extend heap_demo (sched_state.fields
     ((\<lambda>_. zero_task)(cur := zero_task\<lparr>t_state := TASK_RUNNING, t_time_slice := 1\<rparr>))
     0x1000 cur 0 5 0 False [] zero_tss 0 zero_cpu True 0)"

definition sched_demo :: "u64 \<Rightarrow> u64 list \<Rightarrow> sched_state" where
  "sched_demo cur q = foldl run_queue_add (sched_base cur) q"

lemma sched_base_sel:
  "tasks (sched_base cur) = (\<lambda>_. zero_task)(cur := zero_task\<lparr>t_state := TASK_RUNNING, t_time_slice := 1\<rparr>)"
  "idle_task (sched_base cur) = 0x1000" "current_task (sched_base cur) = cur" "run_queue_head (sched_base cur) = 0"
  "sleep_list (sched_base cur) = []" "in_sched (sched_base cur) = False"
  by (simp_all add: sched_base_def heap_state.defs sched_state.defs)

abbreviation demo_tasks :: "u64 set" where "demo_tasks \<equiv> {0x1000, 0x2000, 0x3000, 0x4000}"

lemma sched_demo_inv:
  assumes "cur \<in> demo_tasks" "set q \<subseteq> demo_tasks - {cur}" "distinct q"
  shows "sched_inv demo_tasks (sched_demo cur q) q" "current_task (sched_demo cur q) = cur"
    "idle_task (sched_demo cur q) = 0x1000" "in_sched (sched_demo cur q) = False"
    "cur_slice (sched_demo cur q) = 1" "sleep_list (sched_demo cur q) = []"
proof -
  have base: "sched_inv demo_tasks (sched_base cur) []"
    unfolding sched_inv_def queue_inv_def run_queue_def ring_def sched_base_sel using assms(1) by (auto simp: zero_task_def)
  have "sched_inv demo_tasks (foldl run_queue_add (sched_base cur) q) q \<and> current_task (foldl run_queue_add (sched_base cur) q) = cur \<and>
      idle_task (foldl run_queue_add (sched_base cur) q) = 0x1000 \<and> \<not> in_sched (foldl run_queue_add (sched_base cur) q) \<and>
      cur_slice (foldl run_queue_add (sched_base cur) q) = 1 \<and> sleep_list (foldl run_queue_add (sched_base cur) q) = []"
    using assms(2,3)
  proof (induction q rule: rev_induct)
    case Nil
    then show ?case using base by (simp add: cur_slice_def sched_base_sel)
  next
    case (snoc t q)
    then have "sched_inv demo_tasks (run_queue_add (foldl run_queue_add (sched_base cur) q) t) (q @ [t])"
      using sched_enqueue_inv [of demo_tasks "foldl run_queue_add (sched_base cur) q" q t] by (auto simp: sched_enqueue_def)
    moreover have "cur_slice (run_queue_add s t) = cur_slice s" for s :: sched_state
      using arg_cong [OF run_queue_add_core [of s t "current_task s"], of t_time_slice]
      by (simp add: cur_slice_def split: if_splits)
    ultimately show ?case using snoc by simp
  qed
  then show "sched_inv demo_tasks (sched_demo cur q) q" "current_task (sched_demo cur q) = cur"
    "idle_task (sched_demo cur q) = 0x1000" "in_sched (sched_demo cur q) = False"
    "cur_slice (sched_demo cur q) = 1" "sleep_list (sched_demo cur q) = []"
    by (simp_all add: sched_demo_def)
qed

theorem sched_check_sleepers_correct_witness:
  "sched_inv demo_tasks (sched_demo 0x2000 [0x3000]) [0x3000] \<and>
   (\<exists>ws. sched_inv demo_tasks (sched_check_sleepers (sched_demo 0x2000 [0x3000]) 9) ([0x3000] @ ws))"
  using sched_check_sleepers_correct [OF sched_demo_inv(1), of 8192 "[12288]" 9]
    sched_demo_inv(1) [of 8192 "[12288]"] by simp

theorem sched_tick_fair_witness:
  "sched_inv demo_tasks (sched_demo 0x2000 [0x3000, 0x4000]) [0x3000, 0x4000] \<and>
   (\<exists>n st'. n \<le> 21 \<and> ticks n (sched_demo 0x2000 [0x3000, 0x4000]) = Some st' \<and> current_task st' = 0x4000)"
  using sched_tick_fair [OF sched_demo_inv(1), of 8192 "[12288, 16384]" 1]
    sched_demo_inv [of 8192 "[12288, 16384]"] by simp

theorem sched_yield_round_robin_witness:
  "sched_inv demo_tasks (sched_demo 0x2000 [0x3000, 0x4000]) [0x3000, 0x4000] \<and>
   (\<exists>st'. yields (Suc 1) (sched_demo 0x2000 [0x3000, 0x4000]) = Some st' \<and> current_task st' = 0x4000)"
proof -
  have i: "sched_inv demo_tasks (sched_demo 0x2000 [0x3000, 0x4000]) [0x3000, 0x4000]"
    by (rule sched_demo_inv) simp_all
  then show ?thesis using sched_yield_round_robin [OF i, of 1] by auto
qed

theorem sched_reachable_inv_witness:
  "sched_inv demo_tasks (sched_demo 0x2000 [0x3000]) [0x3000] \<and>
   (\<exists>ys. sched_inv demo_tasks (sched_unblock (sched_demo 0x2000 [0x3000]) 0x4000) ys)"
proof -
  have i: "sched_inv demo_tasks (sched_demo 0x2000 [0x3000]) [0x3000]" by (rule sched_demo_inv) simp_all
  have "sched_step demo_tasks (sched_demo 0x2000 [0x3000]) (sched_unblock (sched_demo 0x2000 [0x3000]) 0x4000)"
    by (rule sched_step.unblock) simp
  then show ?thesis using sched_reachable_inv [OF r_into_rtranclp i] i by blast
qed

theorem idle_never_preempted_witness:
  "sched_inv demo_tasks (sched_demo 0x1000 []) [] \<and>
   (\<exists>st'. ticks 1000 (sched_demo 0x1000 []) = Some st' \<and> current_task st' = 0x1000)"
  using idle_never_preempted [OF sched_demo_inv(1), of 4096 1000]
    sched_demo_inv [of 4096 "[]"] by simp

theorem sched_exit_effect_witness:
  "sched_inv demo_tasks (sched_demo 0x2000 [0x3000]) [0x3000] \<and>
   (\<exists>st'. sched_exit (sched_demo 0x2000 [0x3000]) = Some st' \<and> \<not> (\<exists>ys. sched_inv demo_tasks st' ys))"
  using sched_exit_effect [OF sched_demo_inv(1), of 8192 "[12288]"]
    sched_demo_inv [of 8192 "[12288]"] by auto

theorem run_queue_refines_witness:
  "run_queue (sched_demo 0x2000 [0x3000, 0x4000]) [0x3000, 0x4000] \<and>
   run_queue (run_queue_add (sched_demo 0x2000 [0x3000, 0x4000]) 0x1000) [0x3000, 0x4000, 0x1000]"
proof -
  have "sched_inv demo_tasks (sched_demo 0x2000 [0x3000, 0x4000]) [0x3000, 0x4000]"
    by (rule sched_demo_inv) simp_all
  then have r: "run_queue (sched_demo 0x2000 [0x3000, 0x4000]) [0x3000, 0x4000]"
    using queue_invD(1) [OF sched_invD(1)] by blast
  then show ?thesis using run_queue_refines [OF r, of 4096] by simp
qed

end
