(* ===== verification/HeapRoom.thy ===== *)
theory HeapRoom
  imports HeapContract
begin

text \<open>
  When the heap answers: an allocation answers NULL only when the frames or the window of the heap
  run out.  Every page costs at most four frames, its own and three for page tables.  The components that
  allocate take from here that their failures are shortages of memory.
\<close>

section \<open>Frames used by a mapping\<close>

lemma pmm_alloc_frames:
  assumes "pmm_inv st" "pmm_alloc st = (p, st')"
  shows "pmm_inv st'" "card (free_set st) \<le> card (free_set st') + 1" "free_set st \<noteq> {} \<Longrightarrow> p \<noteq> 0"
proof -
  have "pmm_inv st' \<and> card (free_set st) \<le> card (free_set st') + 1 \<and> (free_set st \<noteq> {} \<longrightarrow> p \<noteq> 0)"
  proof (cases st rule: pmm_alloc_cases)
    case oom
    then show ?thesis using assms by simp
  next
    case (frame f)
    then have r: "p = fst (alloc_result st f)" "st' = snd (alloc_result st f)" using assms(2) by (simp_all flip: frame(2))
    have "free_set st' = free_set st - {f}" by (simp add: r alloc_result_def)
    then show ?thesis using frame(1) alloc_result_inv [OF assms(1) frame(1)] alloc_result_ptr(2) [OF assms(1) frame(1)] by (simp add: r)
  qed
  then show "pmm_inv st'" "card (free_set st) \<le> card (free_set st') + 1" "free_set st \<noteq> {} \<Longrightarrow> p \<noteq> 0" by auto
qed

lemma pmm_inv_mem [simp]: "pmm_inv (st\<lparr>mem := m\<rparr>) = pmm_inv st"
  by (simp add: pmm_inv_def)

lemma get_or_create_frames:
  assumes "pmm_inv st" "get_or_create st t i fl = (p, st')"
  shows "pmm_inv st' \<and> card (free_set st) \<le> card (free_set st') + 1"
proof (cases "read_entry (mem st) t i AND VMM_PRESENT = 0")
  case True
  obtain q s where a: "pmm_alloc st = (q, s)" by fastforce
  then show ?thesis using assms True pmm_alloc_frames(1,2) [OF assms(1) a] by (auto simp: get_or_create_def Let_def split: if_splits)
qed (use assms in \<open>simp add: get_or_create_def\<close>)

lemma vmm_map_frames:
  assumes "pmm_inv st"
  shows "pmm_inv (vmm_map st root va phys fl) \<and> card (free_set st) \<le> card (free_set (vmm_map st root va phys fl)) + 3"
proof -
  let ?mf = "VMM_PRESENT OR VMM_WRITABLE OR (fl AND VMM_USER)"
  obtain a st1 where 1: "get_or_create st root (PML4_IDX va) ?mf = (a, st1)" by fastforce
  obtain b st2 where 2: "get_or_create st1 a (PDPT_IDX va) ?mf = (b, st2)" by fastforce
  obtain c st3 where 3: "get_or_create st2 b (PD_IDX va) ?mf = (c, st3)" by fastforce
  note f1 = get_or_create_frames [OF assms 1]
  note f2 = get_or_create_frames [OF f1 [THEN conjunct1] 2]
  note f3 = get_or_create_frames [OF f2 [THEN conjunct1] 3]
  show ?thesis using f1 f2 f3 by (simp add: vmm_map_def Let_def 1 2 3)
qed

section \<open>Room for pages\<close>

definition heap_room :: "'a heap_state_scheme \<Rightarrow> nat \<Rightarrow> bool" where
  \<comment> \<open>frames and window for \<open>k\<close> more pages\<close>
  "heap_room st k \<longleftrightarrow> 4 * k \<le> card (free_set st) \<and> unat (heap_cursor st) + k * 4096 \<le> heap_hi"

definition same_pmm :: "'a heap_state_scheme \<Rightarrow> 'b heap_state_scheme \<Rightarrow> bool" where
  "same_pmm s t \<longleftrightarrow> pmm_bitmap s = pmm_bitmap t \<and> free_frames s = free_frames t \<and> heap_cursor s = heap_cursor t"

lemma same_pmm_refl [simp]: "same_pmm s s"
  by (simp add: same_pmm_def)

lemma same_pmm_cong:
  assumes "same_pmm s t"
  shows "pmm_inv s = pmm_inv t" "heap_room s k = heap_room t k"
proof -
  have u: "frame_used s f = frame_used t f" for f using assms by (simp add: frame_used_def same_pmm_def)
  then have "free_set s = free_set t" by (simp add: free_set_def)
  then show "pmm_inv s = pmm_inv t" "heap_room s k = heap_room t k"
    using assms u by (simp_all add: pmm_inv_def heap_room_def same_pmm_def)
qed

lemma heap_room_mono: "heap_room st k \<Longrightarrow> j \<le> k \<Longrightarrow> heap_room st j"
  by (auto simp: heap_room_def)

lemma room_vmem [simp]: "heap_room (st\<lparr>vmem := v\<rparr>) k = heap_room st k" "pmm_inv (st\<lparr>vmem := v\<rparr>) = pmm_inv st"
  by (rule same_pmm_cong; simp add: same_pmm_def)+

lemma heap_map_loop_room:
  "heap_map_loop st i n = (ok, st') \<Longrightarrow> pmm_inv st \<Longrightarrow>
   pmm_inv st' \<and> card (free_set st) \<le> card (free_set st') + 4 * n \<and> (4 * n \<le> card (free_set st) \<longrightarrow> ok)"
proof (induction n arbitrary: i st)
  case (Suc n)
  obtain phys st1 where a: "pmm_alloc st = (phys, st1)" by fastforce
  note f = pmm_alloc_frames [OF Suc.prems(2) a]
  show ?case
  proof (cases "phys = 0")
    case True
    then have "free_set st = {}" using f(3) by blast
    then show ?thesis using True Suc.prems a f by simp
  next
    case False
    define st3 where "st3 = (vmm_map_kernel st1 (heap_cursor st1 + of_nat i * PAGE_SIZE) phys (VMM_KERNEL_RW OR VMM_NO_EXEC))
      \<lparr>vmem := fill (vmem (vmm_map_kernel st1 (heap_cursor st1 + of_nat i * PAGE_SIZE) phys (VMM_KERNEL_RW OR VMM_NO_EXEC)))
         (heap_cursor st1 + of_nat i * PAGE_SIZE) 4096 0\<rparr>"
    have l: "heap_map_loop st3 (Suc i) n = (ok, st')" using Suc.prems(1) a False by (simp add: Let_def st3_def)
    have "free_set st3 = free_set (vmm_map_kernel st1 (heap_cursor st1 + of_nat i * PAGE_SIZE) phys (VMM_KERNEL_RW OR VMM_NO_EXEC))"
      by (simp add: st3_def free_set_def frame_used_def)
    then have c: "pmm_inv st3" "card (free_set st1) \<le> card (free_set st3) + 3"
      using vmm_map_frames [OF f(1)] by (simp_all add: st3_def vmm_map_kernel_def)
    from Suc.IH [OF l c(1)] show ?thesis using c(2) f(2) by auto
  qed
qed simp

lemma heap_map_pages_room:
  assumes "pmm_inv st" "cursor_ok st" "heap_map_pages st n = (p, st')" "heap_room st (unat n + k)"
  shows "p \<noteq> 0" "pmm_inv st'" "heap_room st' k"
proof -
  have small: "unat n < 100000000" using assms(2,4) by (simp add: cursor_ok_def heap_room_def)
  have b: "unat (heap_cursor st + n * PAGE_SIZE) = unat (heap_cursor st) + unat n * 4096"
    using assms(2) small by (simp add: cursor_ok_def kdefs unat_word_ariths)
  have g: "\<not> HEAP_VIRT_BASE + HEAP_MAX_SIZE < heap_cursor st + n * PAGE_SIZE"
    using assms(4) by (simp add: word_less_nat_alt heap_bounds not_less b heap_room_def)
  obtain ok s where l: "heap_map_loop st 0 (unat n) = (ok, s)" by fastforce
  note r = heap_map_loop_room [OF l assms(1)]
  have ok: "ok" using r assms(4) by (simp add: heap_room_def)
  have "unat (heap_cursor st) + (0 + unat n) * 4096 < 18446744073709551616" using assms(4) by (simp add: heap_room_def)
  from heap_map_loop_frame [OF l this] have c: "heap_cursor s = heap_cursor st" by simp
  have e: "p = heap_cursor st" "st' = s\<lparr>heap_cursor := heap_cursor s + n * PAGE_SIZE, heap_limit := heap_cursor s + n * PAGE_SIZE\<rparr>"
    using assms(3) l g ok c by (auto simp: heap_map_pages_def Let_def)
  show "p \<noteq> 0" using e(1) assms(2) by (auto simp: cursor_ok_def)
  have fs: "free_set st' = free_set s" by (simp add: e free_set_def frame_used_def)
  show "pmm_inv st'" using r by (simp add: pmm_inv_def fs) (simp add: e frame_used_def)
  show "heap_room st' k" using r assms(4) b c by (simp add: heap_room_def fs) (simp add: e)
qed

section \<open>Allocation\<close>

lemma same_pmm_heap [simp]:
  "same_pmm (set_slab st p f) t = same_pmm st t" "same_pmm (set_large st p g) t = same_pmm st t"
  "same_pmm (set_magic st p m) t = same_pmm st t" "same_pmm (st\<lparr>slab_classes := c\<rparr>) t = same_pmm st t"
  "same_pmm (st\<lparr>large_free_list := l\<rparr>) t = same_pmm st t"
  by (simp_all add: same_pmm_def set_slab_def set_large_def set_magic_def)

lemma slab_take_pmm: "slab_take st p = (x, st') \<Longrightarrow> same_pmm st' t = same_pmm st t"
  by (auto simp: slab_take_def Let_def split: option.splits)

lemma large_carve_pmm: "large_carve st b tot = (x, st') \<Longrightarrow> same_pmm st' t = same_pmm st t"
  by (auto simp: large_carve_def large_insert_free_def Let_def split: if_splits)

lemma large_remove_pmm: "same_pmm (large_remove_free st b) t = same_pmm st t"
  by (simp add: large_remove_free_def Let_def)

lemma slab_alloc_pmm:
  assumes "slab_alloc st k = Some (x, st')"
  shows "same_pmm st' st \<or> same_pmm st' (snd (heap_map_pages st 1))"
proof -
  obtain h where h: "slab_find st (slab_classes st (k - SLAB_MIN_ORDER)) = Some h"
    using assms by (auto simp: slab_alloc_def Let_def bind_eq_Some_conv)
  show ?thesis
  proof (cases "h = 0")
    case False
    then show ?thesis using assms h by (auto simp: slab_alloc_def Let_def dest: slab_take_pmm [where t = st])
  next
    case True
    then obtain p st1 where n: "slab_new_page st k = Some (p, st1)"
      using assms h by (auto simp: slab_alloc_def Let_def bind_eq_Some_conv)
    have "same_pmm st1 (snd (heap_map_pages st 1))"
      using n by (auto simp: slab_new_page_def Let_def bind_eq_Some_conv split: prod.splits if_splits)
    then show ?thesis
      using assms h n True by (auto simp: slab_alloc_def Let_def dest: slab_take_pmm [where t = "snd (heap_map_pages st 1)"] split: if_splits)
  qed
qed

lemma large_alloc_pmm:
  assumes "large_alloc st sz = Some (x, st')"
  shows "same_pmm st' st \<or> same_pmm st' (snd (heap_map_pages st (ALIGN_UP (sz + LARGE_HDR_SIZE) PAGE_SIZE div PAGE_SIZE)))"
proof -
  let ?t = "ALIGN_UP (sz + LARGE_HDR_SIZE) PAGE_SIZE"
  obtain b where b: "large_best st ?t (large_free_list st) 0 = Some b"
    using assms by (auto simp: large_alloc_def Let_def bind_eq_Some_conv)
  obtain p s where m: "heap_map_pages st (?t div PAGE_SIZE) = (p, s)" by fastforce
  show ?thesis
    using assms b m by (cases "b = 0"; cases "p = 0")
      (auto simp: large_alloc_def Let_def large_remove_pmm dest: large_carve_pmm [where t = st] large_carve_pmm [where t = s])
qed

lemma kmalloc_pmm:
  assumes "kmalloc st sz = Some (x, st')"
  shows "same_pmm st' st \<or> same_pmm st' (snd (heap_map_pages st (kmalloc_pages sz)))"
  using assms slab_alloc_pmm large_alloc_pmm by (fastforce simp: kmalloc_def kmalloc_pages_def split: if_splits)

text \<open>With room for the pages it may need, an allocation of any but size 0 does not answer NULL.\<close>

lemma kmalloc_room:
  assumes "heap_ok st L" "pmm_inv st" "unat sz \<le> alloc_limit" "sz \<noteq> 0" "kmalloc st sz = Some (p, st')"
    "heap_room st (unat (kmalloc_pages sz) + k)"
  shows "p \<noteq> 0" "pmm_inv st'" "heap_room st' k"
proof -
  obtain B where B: "heap_inv st B {}" using assms(1) by (auto simp: heap_ok_def)
  then have c: "cursor_ok st" by (simp add: heap_inv_def)
  obtain q s where m: "heap_map_pages st (kmalloc_pages sz) = (q, s)" by fastforce
  note r = heap_map_pages_room [OF assms(2) c m assms(6)]
  show "p \<noteq> 0" using kmalloc_post [OF B assms(3)] assms(4,5) m r(1) by auto
  have "same_pmm st' st \<or> same_pmm st' s" using kmalloc_pmm [OF assms(5)] m by simp
  moreover have "heap_room st k" using assms(6) by (rule heap_room_mono) simp
  ultimately show "pmm_inv st'" "heap_room st' k" using r(2,3) assms(2) by (auto simp: same_pmm_cong)
qed

lemma kmalloc_pages_small: "unat sz \<le> 2048 \<Longrightarrow> kmalloc_pages sz = 1"
  using kmalloc_order_spec [of 4 sz] by (simp add: kmalloc_pages_def kdefs word_le_nat_alt)

lemma kzalloc_room:
  assumes "heap_ok st L" "pmm_inv st" "unat sz \<le> alloc_limit" "sz \<noteq> 0" "kzalloc st sz = Some (p, st')"
    "heap_room st (unat (kmalloc_pages sz) + k)"
  shows "p \<noteq> 0" "pmm_inv st'" "heap_room st' k"
proof -
  obtain st1 where k: "kmalloc st sz = Some (p, st1)" "st' = (if p \<noteq> 0 then st1\<lparr>vmem := memset (vmem st1) p 0 (unat sz)\<rparr> else st1)"
    using assms(5) by (auto simp: kzalloc_def bind_eq_Some_conv)
  note r = kmalloc_room [OF assms(1-4) k(1) assms(6)]
  show "p \<noteq> 0" by (rule r(1))
  show "pmm_inv st'" "heap_room st' k" using r k(2) by simp_all
qed

section \<open>A heap with room\<close>

definition room_demo :: heap_state where
  \<comment> \<open>the demonstration heap on a machine whose frames 64 to 127 are free\<close>
  "room_demo = heap_demo\<lparr>pmm_bitmap := (\<lambda>_. - 1)(1 := 0), free_frames := 64\<rparr>"

lemma room_demo_pmm: "free_set room_demo = {64..<128}" "pmm_inv room_demo"
proof -
  have b: "pmm_bitmap room_demo w = (if w = 1 then 0 else - 1)" for w by (simp add: room_demo_def)
  have u: "frame_used room_demo f \<longleftrightarrow> f div 64 \<noteq> 1" for f
    unfolding frame_used_bit b by (cases "f div 64 = 1") (simp_all only: if_True if_False refl bit_0_eq bot_apply bit_minus_1_iff, simp_all)
  have d: "f div 64 = 1 \<longleftrightarrow> 64 \<le> f \<and> f < 128" for f :: nat by linarith
  show fs: "free_set room_demo = {64..<128}" unfolding free_set_def u not_not d by (auto simp: PMM_MAX_FRAMES_def)
  show "pmm_inv room_demo" unfolding pmm_inv_def fs u by (simp add: room_demo_def)
qed

lemma room_demo_room: "k \<le> 16 \<Longrightarrow> heap_room room_demo k"
  by (simp add: heap_room_def room_demo_pmm) (simp add: room_demo_def heap_demo_sel kdefs)

end
