(* ===== verification/SchedCreate.thy ===== *)
theory SchedCreate
  imports SchedLive HeapRoom
begin

text \<open>
  Task creation over the heap contract: the heap operations leave the scheduler's state
  alone, \<^verbatim>\<open>sched_create_task\<close> hands out fresh disjoint blocks and a prepared stack, and
  \<^verbatim>\<open>sched_init\<close> establishes the scheduler invariant.
\<close>

section \<open>The heap leaves later state alone\<close>

lemma heap_more_pmm: "pmm_state.more s = pmm_state.more t \<Longrightarrow> heap_state.more s = heap_state.more t"
  for s t :: "'a heap_state_scheme"
  by (cases s, cases t) (simp add: vmm_state.defs)

lemma heap_map_loop_more: "heap_state.more (snd (heap_map_loop st i n)) = heap_state.more st"
proof (induction st i n rule: heap_map_loop.induct)
  case (2 st i n)
  obtain phys st1 where al: "pmm_alloc st = (phys, st1)" by fastforce
  have m1: "heap_state.more st1 = heap_state.more st"
    using heap_more_pmm pmm_alloc_more [of st] al by (metis snd_conv)
  have m2: "heap_state.more (vmm_map_kernel st1 a b c) = heap_state.more st1" for a b c
    unfolding vmm_map_kernel_def by (intro heap_more_pmm) (simp add: vmm_map_more)
  show ?case
  proof (cases "phys = 0")
    case False
    then show ?thesis using 2 al m1 m2 by (simp add: Let_def)
  qed (simp add: al m1)
qed simp

lemma set_heap_more [simp]:
  "heap_state.more (set_slab st p f) = heap_state.more st"
  "heap_state.more (set_large st p g) = heap_state.more st"
  "heap_state.more (set_magic st p m) = heap_state.more st"
  by (simp_all add: set_slab_def set_large_def set_magic_def)

lemma heap_map_pages_more: "heap_state.more (snd (heap_map_pages st n)) = heap_state.more st"
  using heap_map_loop_more [of st 0 "unat n"] by (auto simp: heap_map_pages_def Let_def split: prod.split)

lemma slab_take_more: "heap_state.more (snd (slab_take st p)) = heap_state.more st"
  by (simp add: slab_take_def Let_def split: option.split)

lemma large_carve_more: "heap_state.more (snd (large_carve st b n)) = heap_state.more st"
  by (simp add: large_carve_def large_insert_free_def Let_def)

lemma slab_alloc_more: "slab_alloc st k = Some (p, st') \<Longrightarrow> heap_state.more st' = heap_state.more st"
proof -
  have n: "slab_new_page st k = Some (q, s) \<Longrightarrow> heap_state.more s = heap_state.more st" for q s
    using heap_map_pages_more [of st 1]
    by (auto simp: slab_new_page_def Let_def bind_eq_Some_conv split: prod.splits if_splits)
  have t: "slab_take s q = (p, st') \<Longrightarrow> heap_state.more st' = heap_state.more s" for s q
    using slab_take_more [of s q] by simp
  show "slab_alloc st k = Some (p, st') \<Longrightarrow> heap_state.more st' = heap_state.more st"
    by (auto simp: slab_alloc_def Let_def bind_eq_Some_conv split: if_splits dest!: n t)
qed

lemma large_alloc_more: "large_alloc st n = Some (p, st') \<Longrightarrow> heap_state.more st' = heap_state.more st"
proof -
  have t: "large_carve s q m = (p, st') \<Longrightarrow> heap_state.more st' = heap_state.more s" for s q m
    using large_carve_more [of s q m] by simp
  have g: "heap_map_pages st m = (q, s) \<Longrightarrow> heap_state.more s = heap_state.more st" for q s m
    using heap_map_pages_more [of st m] by simp
  show "large_alloc st n = Some (p, st') \<Longrightarrow> heap_state.more st' = heap_state.more st"
    by (auto simp: large_alloc_def large_remove_free_def Let_def bind_eq_Some_conv
        split: if_splits prod.splits dest!: t g)
qed

lemma kmalloc_more: "kmalloc st n = Some (p, st') \<Longrightarrow> heap_state.more st' = heap_state.more st"
  by (auto simp: kmalloc_def dest: slab_alloc_more large_alloc_more split: if_splits)

lemma kzalloc_more: "kzalloc st n = Some (p, st') \<Longrightarrow> heap_state.more st' = heap_state.more st"
  by (auto simp: kzalloc_def bind_eq_Some_conv dest: kmalloc_more split: if_splits)

lemma kfree_more: "heap_state.more (kfree st p) = heap_state.more st"
  by (auto simp: kfree_def slab_free_def large_free_def large_insert_free_def Let_def split: prod.splits if_splits)

lemma sched_fields_more:
  assumes "heap_state.more s = heap_state.more t"
  shows "tasks s = tasks t" "idle_task s = idle_task t" "current_task s = current_task t"
    "run_queue_head s = run_queue_head t" "next_pid s = next_pid t" "sleep_list s = sleep_list t"
    "in_sched s = in_sched t"
  using assms by (cases s, cases t, simp add: heap_state.defs)+

lemma heap_ok_cong:
  fixes s :: "'a heap_state_scheme" and t :: "'b heap_state_scheme"
  assumes "hmagic s = hmagic t" "slabs s = slabs t" "larges s = larges t" "slab_classes s = slab_classes t"
    "large_free_list s = large_free_list t" "heap_cursor s = heap_cursor t"
  shows "heap_ok s L = heap_ok t L"
proof -
  have h: "hlen s = hlen t" using assms by (simp add: hlen_def fun_eq_iff)
  have b: "block_ok s = block_ok t" using assms h by (simp add: block_ok_def fun_eq_iff)
  have "cursor_ok s = cursor_ok t" using assms by (simp add: cursor_ok_def)
  moreover have "classes_ok s B = classes_ok t B" "free_list_ok s B {} = free_list_ok t B {}" for B
    using assms by (simp_all add: classes_ok_def free_list_ok_def)
  ultimately have "heap_inv s B {} = heap_inv t B {}" for B
    by (simp only: heap_inv_def h b)
  moreover have "live s B = live t B" for B using assms by (simp add: live_def blocks_of_def)
  ultimately show ?thesis by (simp add: heap_ok_def)
qed

lemma heap_ok_sched [simp]:
  "heap_ok (set_task st t f) L = heap_ok st L" "heap_ok (st\<lparr>next_pid := a\<rparr>) L = heap_ok st L"
  "heap_ok (st\<lparr>current_task := b\<rparr>) L = heap_ok st L" "heap_ok (st\<lparr>idle_task := b\<rparr>) L = heap_ok st L"
  by (rule heap_ok_cong; simp add: set_task_def)+

lemma heap_ok_run_queue_add [simp]: "heap_ok (run_queue_add st t) L = heap_ok st L"
  by (rule heap_ok_cong; simp add: run_queue_add_def Let_def set_task_def)

lemma room_sched [simp]:
  "heap_room (set_task st t f) k = heap_room st k" "heap_room (st\<lparr>next_pid := a\<rparr>) k = heap_room st k"
  "heap_room (st\<lparr>current_task := b\<rparr>) k = heap_room st k" "pmm_inv (set_task st t f) = pmm_inv st"
  "pmm_inv (st\<lparr>next_pid := a\<rparr>) = pmm_inv st" "pmm_inv (st\<lparr>current_task := b\<rparr>) = pmm_inv st"
  by (rule same_pmm_cong; simp add: same_pmm_def set_task_def)+

section \<open>Creating a task\<close>

definition new_task :: "'a sched_state_scheme \<Rightarrow> 'a sched_state_scheme \<Rightarrow> u64 \<Rightarrow> bool" where
  \<comment> \<open>between the states only the cell of the new task \<open>t\<close> and the pid counter changed\<close>
  "new_task st st' t \<longleftrightarrow> t_state (tasks st' t) = TASK_CREATED \<and> t_next (tasks st' t) = 0 \<and> t_prev (tasks st' t) = 0 \<and>
     t_time_slice (tasks st' t) = DEFAULT_TIMESLICE \<and> t_pid (tasks st' t) = next_pid st \<and>
     next_pid st' = next_pid st + 1 \<and> (\<forall>u. u \<noteq> t \<longrightarrow> tasks st' u = tasks st u) \<and>
     idle_task st' = idle_task st \<and> current_task st' = current_task st \<and>
     run_queue_head st' = run_queue_head st \<and> sleep_list st' = sleep_list st"

definition fresh :: "u64 \<times> nat \<Rightarrow> (u64 \<times> nat) set \<Rightarrow> bool" where
  "fresh b L \<longleftrightarrow> (\<forall>c \<in> L. apart b c)"

lemma fresh_notin: "fresh (p, m) L \<Longrightarrow> 0 < m \<Longrightarrow> (p, m) \<notin> L"
  by (force simp: fresh_def apart_def)

lemma kzalloc_cases:
  assumes "heap_ok st L" "unat sz \<le> alloc_limit"
  obtains (null) st' where "kzalloc st sz = Some (0, st')" "heap_ok st' L"
  | (block) p m st' where "kzalloc st sz = Some (p, st')" "p \<noteq> 0" "unat sz \<le> m" "heap_ok st' (insert (p, m) L)"
      "fresh (p, m) L" "keeps st st' L" "\<forall>i < unat sz. bytes st' p i = 0"
proof -
  from kzalloc_ok [OF assms] obtain p st' where r: "kzalloc st sz = Some (p, st')" "keeps st st' L"
    and c: "if p = 0 then heap_ok st' L else \<exists>m \<ge> unat sz. heap_ok st' (insert (p, m) L) \<and> (\<forall>b \<in> L. apart (p, m) b) \<and>
            (\<forall>i < unat sz. bytes st' p i = 0)" by (elim exE conjE)
  show thesis
  proof (cases "p = 0")
    case True
    then show ?thesis using null r(1) c by simp
  next
    case False
    then obtain m where "m \<ge> unat sz" "heap_ok st' (insert (p, m) L)" "\<forall>b \<in> L. apart (p, m) b"
      "\<forall>i < unat sz. bytes st' p i = 0" using c by auto
    then show ?thesis using block [OF r(1) False] r(2) by (simp add: fresh_def)
  qed
qed

lemma task_pages: "kmalloc_pages SIZEOF_TASK = 1" "kmalloc_pages KSTACK_SIZE = 5" "SIZEOF_TASK \<noteq> 0" "KSTACK_SIZE \<noteq> 0"
  by (simp_all add: kmalloc_pages_small SIZEOF_TASK_def) (simp_all add: kmalloc_pages_def kdefs ALIGN_UP_def)

lemma sched_alloc_task_ok:
  assumes "heap_ok st L"
  obtains (null) st' where "sched_alloc_task st name prio = Some (0, st')" "heap_ok st' L" "pmm_inv st \<Longrightarrow> \<not> heap_room st 6"
  | (task) t m k n st' where "sched_alloc_task st name prio = Some (t, st')" "t \<noteq> 0" "new_task st st' t"
      "heap_ok st' (insert (k, n) (insert (t, m) L))" "16384 \<le> n" "720 \<le> m" "16 dvd unat k"
      "fresh (t, m) L" "fresh (k, n) (insert (t, m) L)" "t_kernel_stack (tasks st' t) = k + 16384"
proof -
  have sz: "unat SIZEOF_TASK \<le> alloc_limit" "unat KSTACK_SIZE \<le> alloc_limit" by (simp_all add: kdefs)
  from assms sz(1) show thesis
  proof (cases rule: kzalloc_cases)
    case (null st')
    have "\<not> heap_room st 6" if "pmm_inv st" using kzalloc_room(1) [OF assms that sz(1) task_pages(3) null(1), of 5] by (auto simp: task_pages)
    then show ?thesis using that(1) null by (simp add: sched_alloc_task_def)
  next
    case (block t m st1)
    have m: "720 \<le> m" using block(3) by (simp add: kdefs)
    note f1 = sched_fields_more [OF kzalloc_more [OF block(1)]]
    define st2 where "st2 = (set_task st1 t (\<lambda>_. zero_task\<lparr>t_pid := next_pid st1,
         t_ppid := (if current_task st1 \<noteq> 0 then t_pid (tasks st1 (current_task st1)) else 0), t_priority := prio,
         t_state := TASK_CREATED, t_time_slice := DEFAULT_TIMESLICE, t_next := 0, t_prev := 0,
         t_name := task_name name\<rparr>))\<lparr>next_pid := next_pid st1 + 1\<rparr>"
    have ok2: "heap_ok st2 (insert (t, m) L)" using block(4) by (simp add: st2_def)
    have e: "sched_alloc_task st name prio = do { (kstack, st3) \<leftarrow> kmalloc st2 KSTACK_SIZE;
       if kstack = 0 then Some (0, kfree st3 t)
       else Some (t, set_task st3 t (\<lambda>k. k\<lparr>t_kernel_stack := ALIGN_DOWN (kstack + KSTACK_SIZE) 16, t_cr3 := cr3 st3\<rparr>)) }"
      using block(1,2) by (simp add: sched_alloc_task_def st2_def Let_def)
    from ok2 sz(2) show ?thesis
    proof (cases rule: kmalloc_ok)
      case (null st3)
      have "heap_ok (kfree st3 t) (insert (t, m) L - {(t, m)})" by (rule kfree_ok [OF null(2)]) simp
      moreover have "insert (t, m) L - {(t, m)} = L" using fresh_notin [OF block(5)] m by simp
      moreover have "\<not> heap_room st 6" if i: "pmm_inv st"
      proof
        assume r: "heap_room st 6"
        have "pmm_inv st1" "heap_room st1 5" using kzalloc_room(2,3) [OF assms i sz(1) task_pages(3) block(1), of 5] r by (simp_all add: task_pages)
        then show False using kmalloc_room(1) [OF ok2 _ sz(2) task_pages(4) null(1), of 0] by (simp add: st2_def task_pages)
      qed
      ultimately show ?thesis using that(1) e null(1) by simp
    next
      case b2: (block k n st3)
      note f3 = sched_fields_more [OF kmalloc_more [OF b2(1)]]
      have n: "16384 \<le> n" using b2(3) by (simp add: kdefs)
      let ?s = "set_task st3 t (\<lambda>k'. k'\<lparr>t_kernel_stack := ALIGN_DOWN (k + KSTACK_SIZE) 16, t_cr3 := cr3 st3\<rparr>)"
      have r: "sched_alloc_task st name prio = Some (t, ?s)" using e b2(1,2) by simp
      have ok: "heap_ok ?s (insert (k, n) (insert (t, m) L))" using b2(4) by simp
      have fk: "fresh (k, n) (insert (t, m) L)" using b2(5) by (auto simp: fresh_def)
      have nt: "new_task st ?s t"
        by (simp add: new_task_def f1 f3 st2_def zero_task_def)
      have "unat k + n \<le> heap_hi" using heap_ok_span(3) [OF b2(4) insertI1] .
      then have uk: "unat (k + 16384) = unat k + 16384" using n by (simp add: unat_word_ariths)
      have "unat (ALIGN_DOWN (k + 16384) 16) = (unat k + 16384) div 16 * 16"
        using unat_ALIGN_DOWN [of 16 4 "k + 16384"] uk by simp
      also have "\<dots> = unat k + 16384" using b2(6) by (intro dvd_div_mult_self dvd_add) simp_all
      finally have "unat (ALIGN_DOWN (k + 16384) 16) = unat k + 16384" .
      then have ks: "t_kernel_stack (tasks ?s t) = k + 16384"
        using uk by (simp add: KSTACK_SIZE_def u64_eq_iff_unat)
      show ?thesis by (rule that(2) [OF r block(2) nt ok n m b2(6) block(5) fk ks])
    qed
  qed
qed

lemma push_frame_ok:
  assumes "t_kernel_stack (tasks st t) = k + 16384" "16 dvd unat k" "unat k + 16384 < 18446744073709551616"
  shows "rsp (t_cpu (tasks (push_frame st t ret start) t)) = k + 16368"
    "load64 (vmem (push_frame st t ret start)) (k + 16368) = start"
    "load64 (vmem (push_frame st t ret start)) (k + 16376) = ret"
proof -
  have u: "unat (k + 16368) = unat k + 16368" "unat (k + 16376) = unat k + 16376"
    using assms(3) by (simp_all add: unat_word_ariths)
  have "8 dvd unat k" using assms(2) by (rule dvd_trans [rotated]) simp
  then have d: "8 dvd unat (k + 16368)" "8 dvd unat (k + 16376)" unfolding u by (simp_all add: dvd_add)
  have e: "k + 16384 - 16 = k + 16368" "k + 16384 - 8 = k + 16376" by simp_all
  have ne: "k + 16368 \<noteq> k + 16376" by simp
  show "rsp (t_cpu (tasks (push_frame st t ret start) t)) = k + 16368"
    using assms(1) by (simp add: push_frame_def Let_def)
  have v: "vmem (push_frame st t ret start) = store64 (store64 (vmem st) (k + 16376) ret) (k + 16368) start"
    by (simp only: push_frame_def Let_def assms(1) e set_task_sel) simp
  show "load64 (vmem (push_frame st t ret start)) (k + 16368) = start"
    unfolding v by (rule load64_store64_same)
  show "load64 (vmem (push_frame st t ret start)) (k + 16376) = ret"
    unfolding v load64_store64_other [OF d ne] by (rule load64_store64_same)
qed

lemma push_frame_frame:
  "heap_ok (push_frame st t a b) L = heap_ok st L" "new_task st0 (push_frame st t a b) t = new_task st0 st t"
  "t_rip_entry (tasks (push_frame st t a b) t) = t_rip_entry (tasks st t)"
  "t_kernel_stack (tasks (push_frame st t a b) t) = t_kernel_stack (tasks st t)"
  "next_pid (push_frame st t a b) = next_pid st"
  by (auto simp: push_frame_def Let_def new_task_def)

lemma sched_create_task_ok:
  assumes "heap_ok st L"
  obtains (null) st' where "sched_create_task ls st name entry prio = Some (0, st')" "heap_ok st' L" "pmm_inv st \<Longrightarrow> \<not> heap_room st 6"
  | (task) t m k n st' where "sched_create_task ls st name entry prio = Some (t, st')" "t \<noteq> 0" "new_task st st' t"
      "heap_ok st' (insert (k, n) (insert (t, m) L))" "720 \<le> m" "16384 \<le> n" "fresh (t, m) L" "fresh (k, n) (insert (t, m) L)"
      "t_kernel_stack (tasks st' t) = k + 16384" "rsp (t_cpu (tasks st' t)) = k + 16368"
      "load64 (vmem st') (k + 16368) = entry" "load64 (vmem st') (k + 16376) = sym_sched_exit ls"
      "t_rip_entry (tasks st' t) = entry"
  using assms
proof (cases rule: sched_alloc_task_ok [of st L name prio])
  case (null st')
  then show ?thesis using that(1) by (simp add: sched_create_task_def)
next
  case 2: (task t m k n st1)
  let ?s = "set_task st1 t (\<lambda>k. k\<lparr>t_rip_entry := entry\<rparr>)"
  let ?p = "push_frame ?s t (sym_sched_exit ls) entry"
  have sp: "unat k + n \<le> heap_hi" using heap_ok_span(3) [OF 2(4) insertI1] .
  have ks: "t_kernel_stack (tasks ?s t) = k + 16384" using 2(10) by simp
  note pf = push_frame_ok [OF ks 2(7)]
  have lt: "unat k + 16384 < 18446744073709551616" using sp 2(5) by simp
  have r: "sched_create_task ls st name entry prio = Some (t, ?p)" using 2(1,2) by (simp add: sched_create_task_def)
  show ?thesis
  proof (rule that(2) [OF r 2(2)])
    show "new_task st ?p t" unfolding push_frame_frame using 2(3) by (simp add: new_task_def)
    show "heap_ok ?p (insert (k, n) (insert (t, m) L))" using 2(4) by (simp add: push_frame_frame)
    show "t_kernel_stack (tasks ?p t) = k + 16384" unfolding push_frame_frame by (rule ks)
    show "t_rip_entry (tasks ?p t) = entry" by (simp add: push_frame_frame)
  qed (use 2 pf [OF lt] in simp_all)
qed

text \<open>
  C11: creating a kernel task returns.  It answers NULL with the live blocks as they were, which happens only without room
  for six pages (24 free frames and as much of the heap window), or a
  task structure and a kernel stack in two fresh disjoint heap blocks; the saved stack
  pointer is two words below the top of the stack, where sched_switch finds the entry point and,
  behind it, sched_exit as the return address; no other task structure is touched.
\<close>

theorem sched_create_task_correct:
  assumes "heap_ok st L"
  shows "\<exists>t st'. sched_create_task ls st name entry prio = Some (t, st') \<and>
    (if t = 0 then heap_ok st' L \<and> (pmm_inv st \<longrightarrow> \<not> heap_room st 6)
     else new_task st st' t \<and> (\<exists>m k n. heap_ok st' (insert (k, n) (insert (t, m) L)) \<and> 720 \<le> m \<and> 16384 \<le> n \<and>
       fresh (t, m) L \<and> fresh (k, n) (insert (t, m) L) \<and> t_kernel_stack (tasks st' t) = k + 16384 \<and>
       rsp (t_cpu (tasks st' t)) = k + 16368 \<and> load64 (vmem st') (k + 16368) = entry \<and>
       load64 (vmem st') (k + 16376) = sym_sched_exit ls))"
  using assms
proof (cases rule: sched_create_task_ok [of st L ls name entry prio])
  case (task t m k n st')
  then show ?thesis by (intro exI [of _ t] exI [of _ st']) auto
qed auto

section \<open>Initialisation\<close>

lemma sched_inv_boot:
  assumes "new_task st st' idle" "idle \<noteq> 0" "boot \<noteq> 0" "idle \<noteq> boot" "current_task st = boot"
    "t_state (tasks st boot) = TASK_RUNNING" "t_next (tasks st boot) = 0" "t_prev (tasks st boot) = 0"
    "run_queue_head st = 0" "sleep_list st = []"
  shows "sched_inv {boot, idle} (run_queue_add (st'\<lparr>idle_task := idle\<rparr>) idle) [idle]"
proof -
  note n = assms(1) [unfolded new_task_def]
  have "sched_inv {boot, idle} (st'\<lparr>idle_task := idle\<rparr>) []"
    using n assms(2-10) by (auto simp: sched_inv_def queue_inv_def run_queue_def ring_def)
  then have "sched_inv {boot, idle} (sched_enqueue (st'\<lparr>idle_task := idle\<rparr>) idle) ([] @ [idle])"
    by (rule sched_enqueue_inv) (use n assms(4,5) in auto)
  then show ?thesis by (simp add: sched_enqueue_def)
qed

text \<open>
  C12: Scheduler initialisation.  On a well-formed heap with room for seven pages (28 free frames and as much of the
  heap window) sched_init returns; it panics only when there is less.  When it returns, the scheduler invariant holds: the
  boot task with pid 0 is running, the idle task is the run queue, and both are distinct structures, in heap blocks that are
  live besides the ones that were.
\<close>

theorem sched_init_correct:
  assumes "heap_ok st L" "pmm_inv st" "run_queue_head st = 0" "sleep_list st = []"
  shows "case sched_init ls sp st of None \<Rightarrow> \<not> heap_room st 7 | Some st' \<Rightarrow>
    sched_inv {current_task st', idle_task st'} st' [idle_task st'] \<and> current_task st' \<noteq> idle_task st' \<and>
    t_pid (tasks st' (current_task st')) = 0 \<and> t_pid (tasks st' (idle_task st')) = next_pid st \<and>
    (\<exists>m n L'. heap_ok st' L' \<and> insert (current_task st', m) (insert (idle_task st', n) L) \<subseteq> L' \<and> 720 \<le> m \<and> 720 \<le> n)"
proof -
  have sz: "unat SIZEOF_TASK \<le> alloc_limit" by (simp add: kdefs)
  from assms(1) sz show ?thesis
  proof (cases rule: kzalloc_cases)
    case (null st1)
    then have "\<not> heap_room st 7" using kzalloc_room(1) [OF assms(1,2) sz task_pages(3) null(1), of 6] by (auto simp: task_pages)
    then show ?thesis using null by (simp add: sched_init_def)
  next
    case (block boot m st1)
    note f1 = sched_fields_more [OF kzalloc_more [OF block(1)]]
    define st2 where "st2 = (set_task st1 boot (\<lambda>_. zero_task\<lparr>t_pid := 0, t_state := TASK_RUNNING, t_priority := 255,
         t_time_slice := 1, t_name := ''boot'', t_cr3 := cr3 st1,
         t_kernel_stack := ALIGN_UP sp PAGE_SIZE + PAGE_SIZE\<rparr>))\<lparr>current_task := boot\<rparr>"
    have e: "sched_init ls sp st = do { (idle, st3) \<leftarrow> sched_create_task ls st2 ''idle'' (sym_idle_fn ls) 255;
        if idle = 0 then None else Some (run_queue_add (st3\<lparr>idle_task := idle\<rparr>) idle) }"
      using block(1,2) by (simp add: sched_init_def st2_def Let_def)
    have ok2: "heap_ok st2 (insert (boot, m) L)" using block(4) by (simp add: st2_def)
    have b2: "t_state (tasks st2 boot) = TASK_RUNNING" "t_next (tasks st2 boot) = 0" "t_prev (tasks st2 boot) = 0"
      "run_queue_head st2 = 0" "sleep_list st2 = []" "current_task st2 = boot" "next_pid st2 = next_pid st"
      "t_pid (tasks st2 boot) = 0"
      using assms(3,4) by (simp_all add: st2_def zero_task_def f1)
    have rm: "pmm_inv st2" "heap_room st2 6" if "heap_room st 7"
      using kzalloc_room(2,3) [OF assms(1,2) sz task_pages(3) block(1), of 6] that by (simp_all add: st2_def task_pages)
    from ok2 show ?thesis
    proof (cases rule: sched_create_task_ok [of st2 _ ls "''idle''" "sym_idle_fn ls" 255])
      case (null st3)
      then show ?thesis using e rm by auto
    next
      case 2: (task idle m2 k n st3)
      let ?f = "run_queue_add (st3\<lparr>idle_task := idle\<rparr>) idle"
      have ne: "idle \<noteq> boot"
        using 2(7) 2(5) block(3) by (auto simp: fresh_def apart_def kdefs)
      have cu: "current_task ?f = boot" "idle_task ?f = idle"
        using 2(3) b2(6) by (simp_all add: new_task_def)
      have inv: "sched_inv {boot, idle} ?f [idle]"
        by (rule sched_inv_boot [OF 2(3,2) block(2) ne b2(6,1-5)])
      have "t_pid (tasks ?f u) = t_pid (tasks st3 u)" for u
        using arg_cong [OF run_queue_add_core [of "st3\<lparr>idle_task := idle\<rparr>" idle u], of t_pid]
        by (simp add: core_def split: if_splits)
      then have pid: "t_pid (tasks ?f boot) = 0" "t_pid (tasks ?f idle) = next_pid st"
        using 2(3) ne b2(7,8) by (simp_all add: new_task_def)
      have "heap_ok ?f (insert (k, n) (insert (idle, m2) (insert (boot, m) L)))" using 2(4) by simp
      moreover have "720 \<le> m" using block(3) by (simp add: kdefs)
      ultimately have "\<exists>m n L'. heap_ok ?f L' \<and> insert (boot, m) (insert (idle, n) L) \<subseteq> L' \<and> 720 \<le> m \<and> 720 \<le> n"
        using 2(5) by (intro exI [of _ m] exI [of _ m2] exI [of _ "insert (k, n) (insert (idle, m2) (insert (boot, m) L))"]) auto
      then show ?thesis using e 2(1,2) cu inv pid ne by simp
    qed
  qed
qed

section \<open>Witnesses\<close>

definition sched_zero :: sched_state where
  \<comment> \<open>the demonstration heap with room, and the scheduler's variables as the program starts with them\<close>
  "sched_zero = heap_state.extend room_demo
     (sched_state.fields (\<lambda>_. zero_task) 0 0 0 1 0 False [] zero_tss 0 zero_cpu False 0)"

lemma heap_ok_extend: "heap_ok (heap_state.extend st x) L = heap_ok st L"
  by (rule heap_ok_cong) (simp_all add: heap_state.defs)

lemma room_demo_ok: "heap_ok room_demo {(HEAP_VIRT_BASE + 0x4020, 4064)}"
  using heap_demo_ok heap_ok_cong [of room_demo heap_demo] by (simp add: room_demo_def)

lemma room_extend: "pmm_inv (heap_state.extend st x) = pmm_inv st" "heap_room (heap_state.extend st x) k = heap_room st k"
  by (rule same_pmm_cong; simp add: same_pmm_def heap_state.defs)+

lemma sched_zero_ok: "heap_ok sched_zero {(HEAP_VIRT_BASE + 0x4020, 4064)}"
  "run_queue_head sched_zero = 0" "sleep_list sched_zero = []" "next_pid sched_zero = 1" "pmm_inv sched_zero" "heap_room sched_zero 7"
  unfolding sched_zero_def using room_demo_ok
  by (simp_all add: heap_ok_extend room_extend room_demo_pmm room_demo_room) (simp_all add: heap_state.defs sched_state.defs)

abbreviation demo_syms :: link_syms where
  "demo_syms \<equiv> \<lparr>sym_sched_exit = 0x100, sym_ring3_enter_first = 0x200, sym_idle_fn = 0x300\<rparr>"

theorem sched_create_task_correct_witness:
  "\<exists>t st'. sched_create_task demo_syms sched_zero ''shell'' 0x400 10 = Some (t, st') \<and> t \<noteq> 0 \<and> t_pid (tasks st' t) = 1"
proof -
  have r6: "heap_room sched_zero 6" using heap_room_mono [OF sched_zero_ok(6)] by simp
  obtain t st' where r: "sched_create_task demo_syms sched_zero ''shell'' 0x400 10 = Some (t, st')"
    "t = 0 \<Longrightarrow> \<not> heap_room sched_zero 6" "t \<noteq> 0 \<Longrightarrow> new_task sched_zero st' t"
    using sched_create_task_correct [OF sched_zero_ok(1), of demo_syms "''shell''" 1024 10] sched_zero_ok(5)
    by (elim exE conjE) (simp split: if_splits)
  then show ?thesis using r6 sched_zero_ok(4) by (auto simp: new_task_def)
qed

theorem sched_init_correct_witness:
  "\<exists>st'. sched_init demo_syms 0x9000 sched_zero = Some st' \<and>
     sched_inv {current_task st', idle_task st'} st' [idle_task st'] \<and> t_pid (tasks st' (idle_task st')) = 1"
  using sched_init_correct [OF sched_zero_ok(1,5,2,3), of demo_syms 36864] sched_zero_ok(4,6)
  by (simp split: option.splits)

end
