(* ===== verification/Proc.thy ===== *)
theory Proc
  imports SchedCreate
begin

text \<open>
  The process table (\<^verbatim>\<open>kernel/proc/proc.c\<close>, \<^verbatim>\<open>proc.h\<close>): creation, lookup, exit with wake-up of
  the waiters, reaping and waiting.  Process structures are a typed store over heap
  addresses, as tasks are; a wait queue is the list of its recorded entries.

  A call of \<^verbatim>\<open>proc_waitpid\<close> that blocks suspends the calling task; \<open>proc_waitpid_finish\<close> is what
  it does when it runs again.
\<close>

section \<open>State\<close>

definition PROC_MAX :: nat where [kdefs]: "PROC_MAX = 256"
definition WAIT_QUEUE_MAX :: nat where [kdefs]: "WAIT_QUEUE_MAX = 8"
definition SIZEOF_PROC :: u64 where [kdefs]: "SIZEOF_PROC = 56"
definition ESRCH :: int where [kdefs]: "ESRCH = 3"

record proc =
  p_pid :: u32
  p_ppid :: u32
  p_task :: u64
  p_exit_code :: int
  p_exited :: bool
  p_name :: string

record proc_state = sched_state +
  procs :: "u64 \<Rightarrow> proc"
  proc_table :: "u64 list"
  wait_queues :: "u64 list list"

definition zero_proc :: proc where
  "zero_proc = \<lparr>p_pid = 0, p_ppid = 0, p_task = 0, p_exit_code = 0, p_exited = False, p_name = ''''\<rparr>"

definition set_proc :: "'a proc_state_scheme \<Rightarrow> u64 \<Rightarrow> (proc \<Rightarrow> proc) \<Rightarrow> 'a proc_state_scheme" where
  "set_proc st p f = st\<lparr>procs := (procs st)(p := f (procs st p))\<rparr>"

definition strbuf :: "string \<Rightarrow> nat \<Rightarrow> string" where
  \<comment> \<open>the string in a buffer after \<^verbatim>\<open>strncpy\<close> of at most \<open>n\<close> characters into a zeroed buffer of more than \<open>n\<close> bytes\<close>
  "strbuf name n = takeWhile (\<lambda>c. c \<noteq> NUL) (strncpy name n)"

section \<open>Operations\<close>

definition proc_init :: "'a proc_state_scheme \<Rightarrow> 'a proc_state_scheme" where
  "proc_init st = st\<lparr>proc_table := replicate PROC_MAX 0, wait_queues := replicate PROC_MAX []\<rparr>"

definition proc_create :: "'a proc_state_scheme \<Rightarrow> string \<Rightarrow> u64 \<Rightarrow> (u64 \<times> 'a proc_state_scheme) option" where
  "proc_create st name t =
     (if t = 0 then Some (0, st)
      else
        let pid = t_pid (tasks st t) in
        if PROC_MAX \<le> unat pid then Some (0, st)
        else do {
          (p, st1) \<leftarrow> kzalloc st SIZEOF_PROC;
          if p = 0 then Some (0, st1)
          else
            let st2 = set_proc st1 p (\<lambda>_. zero_proc\<lparr>p_pid := pid, p_ppid := t_ppid (tasks st1 t), p_task := t,
                                                     p_name := strbuf name 31\<rparr>)
            in Some (p, st2\<lparr>proc_table := (proc_table st2)[unat pid := p]\<rparr>)
        })"

definition proc_get :: "'a proc_state_scheme \<Rightarrow> u32 \<Rightarrow> u64" where
  "proc_get st pid = (if PROC_MAX \<le> unat pid then 0 else proc_table st ! unat pid)"

fun unblock_all :: "'a sched_state_scheme \<Rightarrow> u64 list \<Rightarrow> 'a sched_state_scheme" where
  "unblock_all st [] = st"
| "unblock_all st (t # ts) = unblock_all (if t \<noteq> 0 then sched_unblock st t else st) ts"

definition proc_exit :: "'a proc_state_scheme \<Rightarrow> u64 \<Rightarrow> int \<Rightarrow> 'a proc_state_scheme" where
  "proc_exit st p code =
     (if p = 0 then st
      else
        let st1 = set_proc st p (\<lambda>k. k\<lparr>p_exit_code := code, p_exited := True\<rparr>);
            pid = unat (p_pid (procs st1 p));
            st2 = unblock_all st1 (wait_queues st1 ! pid)
        in st2\<lparr>wait_queues := (wait_queues st2)[pid := []]\<rparr>)"

definition proc_reap :: "'a proc_state_scheme \<Rightarrow> u32 \<Rightarrow> 'a proc_state_scheme" where
  "proc_reap st pid =
     (if PROC_MAX \<le> unat pid then st
      else if proc_table st ! unat pid \<noteq> 0 then
        let st1 = kfree st (proc_table st ! unat pid)
        in st1\<lparr>proc_table := (proc_table st1)[unat pid := 0]\<rparr>
      else st)"

datatype wait_result = Returned int int | Suspended u64

definition proc_waitpid_finish :: "'a proc_state_scheme \<Rightarrow> u64 \<Rightarrow> u32 \<Rightarrow> wait_result \<times> 'a proc_state_scheme" where
  \<comment> \<open>the return value and the status stored\<close>
  "proc_waitpid_finish st p pid = (Returned (uint pid) (p_exit_code (procs st p)), proc_reap st pid)"

definition proc_waitpid :: "'a proc_state_scheme \<Rightarrow> u32 \<Rightarrow> (wait_result \<times> 'a proc_state_scheme) option" where
  "proc_waitpid st pid =
     (let p = proc_get st pid in
      if p = 0 then Some (Returned (- ESRCH) 0, st)
      else if \<not> p_exited (procs st p) then do {
        let wq = wait_queues st ! unat pid;
        let st1 = (if length wq < WAIT_QUEUE_MAX
                   then st\<lparr>wait_queues := (wait_queues st)[unat pid := wq @ [current_task st]]\<rparr> else st);
        (sw, st2) \<leftarrow> sched_block st1 (current_task st1) 0xFFFFFFFFFFFFFFFF;
        if sw then Some (Suspended p, st2) else Some (proc_waitpid_finish st2 p pid)
      } else Some (proc_waitpid_finish st p pid))"

section \<open>The scheduler leaves the process table alone\<close>

lemma set_task_more [simp]: "sched_state.more (set_task st t f) = sched_state.more st"
  by (simp add: set_task_def)

lemma sched_unblock_more: "sched_state.more (sched_unblock st t) = sched_state.more st"
  by (simp add: sched_unblock_def run_queue_add_def Let_def)

lemma proc_fields_more:
  assumes "sched_state.more s = sched_state.more t"
  shows "procs s = procs t" "proc_table s = proc_table t" "wait_queues s = wait_queues t"
  using assms by (cases s, cases t, simp add: sched_state.defs)+

lemma heap_proc_fields_more:
  assumes "heap_state.more s = heap_state.more t"
  shows "procs s = procs t" "proc_table s = proc_table t" "wait_queues s = wait_queues t"
    "tasks s = tasks t"
  using assms by (cases s, cases t, simp add: heap_state.defs)+

lemma set_proc_sel [simp]:
  "procs (set_proc st p f) = (procs st)(p := f (procs st p))" "proc_table (set_proc st p f) = proc_table st"
  "wait_queues (set_proc st p f) = wait_queues st" "tasks (set_proc st p f) = tasks st"
  "current_task (set_proc st p f) = current_task st" "idle_task (set_proc st p f) = idle_task st"
  "run_queue_head (set_proc st p f) = run_queue_head st" "sleep_list (set_proc st p f) = sleep_list st"
  by (simp_all add: set_proc_def)

section \<open>Properties\<close>

lemma unblock_all_inv:
  assumes "sched_inv T st xs" "set ws - {0} \<subseteq> T"
  shows "(\<exists>ys. sched_inv T (unblock_all st ws) (xs @ ys)) \<and> sched_state.more (unblock_all st ws) = sched_state.more st \<and>
    (\<forall>u. t_state (tasks (unblock_all st ws) u) =
       (if u \<in> set ws - {0} \<and> t_state (tasks st u) = TASK_BLOCKED then TASK_READY else t_state (tasks st u)))"
  using assms
proof (induction ws arbitrary: st xs)
  case Nil
  then show ?case by (auto intro: exI [of _ "[]"])
next
  case (Cons t ws)
  let ?s = "if t \<noteq> 0 then sched_unblock st t else st"
  obtain zs where z: "sched_inv T ?s (xs @ zs)"
  proof (cases "t = 0")
    case True
    then show thesis using that [of "[]"] Cons.prems(1) by simp
  next
    case False
    then show thesis
      using that [of "[t]"] that [of "[]"] sched_unblock_inv [OF Cons.prems(1), of t] Cons.prems(2)
      by (cases "t_state (tasks st t) = TASK_BLOCKED") auto
  qed
  have m: "sched_state.more ?s = sched_state.more st" by (simp add: sched_unblock_more)
  have s: "t_state (tasks ?s u) = (if u = t \<and> t \<noteq> 0 \<and> t_state (tasks st u) = TASK_BLOCKED then TASK_READY
      else t_state (tasks st u))" for u by (auto simp: sched_unblock_task)
  have "set ws - {0} \<subseteq> T" using Cons.prems(2) by auto
  note ih = Cons.IH [OF z this]
  show ?case
  proof (intro conjI allI)
    show "\<exists>ys. sched_inv T (unblock_all st (t # ws)) (xs @ ys)" using ih [THEN conjunct1] by auto
    show "sched_state.more (unblock_all st (t # ws)) = sched_state.more st"
      using ih [THEN conjunct2, THEN conjunct1] m by simp
    fix u
    show "t_state (tasks (unblock_all st (t # ws)) u) =
       (if u \<in> set (t # ws) - {0} \<and> t_state (tasks st u) = TASK_BLOCKED then TASK_READY else t_state (tasks st u))"
      using ih [THEN conjunct2, THEN conjunct2, THEN spec [of _ u]] s [of u] by auto
  qed
qed

text \<open>
  C16: when a process exits, every task recorded as waiting for it becomes ready and joins the run
  queue, the exit code is stored, the wait queue is empty, no other task changes state
  and the scheduler invariant holds.
\<close>

theorem proc_exit_wakes:
  assumes "sched_inv T st xs" "p \<noteq> 0" "unat (p_pid (procs st p)) < length (wait_queues st)"
    "set (wait_queues st ! unat (p_pid (procs st p))) - {0} \<subseteq> T"
  shows "(\<exists>ys. sched_inv T (proc_exit st p code) (xs @ ys)) \<and>
    p_exited (procs (proc_exit st p code) p) \<and> p_exit_code (procs (proc_exit st p code) p) = code \<and>
    wait_queues (proc_exit st p code) ! unat (p_pid (procs st p)) = [] \<and>
    (\<forall>u. t_state (tasks (proc_exit st p code) u) =
       (if u \<in> set (wait_queues st ! unat (p_pid (procs st p))) - {0} \<and> t_state (tasks st u) = TASK_BLOCKED
        then TASK_READY else t_state (tasks st u)))"
proof -
  let ?s = "set_proc st p (\<lambda>k. k\<lparr>p_exit_code := code, p_exited := True\<rparr>)"
  let ?w = "wait_queues st ! unat (p_pid (procs st p))"
  have i: "sched_inv T ?s xs" by (rule sched_inv_cong [OF assms(1)]) simp_all
  note u = unblock_all_inv [OF i assms(4)]
  define st2 where "st2 = unblock_all ?s ?w"
  have e: "proc_exit st p code = st2\<lparr>wait_queues := (wait_queues st2)[unat (p_pid (procs st p)) := []]\<rparr>"
    using assms(2) by (simp add: proc_exit_def Let_def st2_def)
  note f = proc_fields_more [OF u [THEN conjunct2, THEN conjunct1], folded st2_def]
  obtain ys where y: "sched_inv T st2 (xs @ ys)" using u [THEN conjunct1] by (auto simp: st2_def)
  have "sched_inv T (proc_exit st p code) (xs @ ys)"
    unfolding e by (rule sched_inv_cong [OF y]) simp_all
  moreover have "\<forall>v. t_state (tasks (proc_exit st p code) v) =
      (if v \<in> set ?w - {0} \<and> t_state (tasks st v) = TASK_BLOCKED then TASK_READY else t_state (tasks st v))"
    using u [THEN conjunct2, THEN conjunct2] unfolding e st2_def by simp
  ultimately show ?thesis using assms(3) f by (auto simp: e)
qed

text \<open>
  what proc_create puts into the table proc_get finds under the pid of the task, and
  proc_reap takes it out again and frees its block; a pid beyond the table is refused.
\<close>

theorem proc_table_roundtrip:
  assumes "heap_ok st L" "length (proc_table st) = PROC_MAX" "t \<noteq> 0"
  shows "\<exists>p st'. proc_create st name t = Some (p, st') \<and>
    (if p = 0 then proc_table st' = proc_table st
     else unat (t_pid (tasks st t)) < PROC_MAX \<and> proc_get st' (t_pid (tasks st t)) = p \<and>
       p_task (procs st' p) = t \<and> \<not> p_exited (procs st' p) \<and>
       proc_get (proc_reap st' (t_pid (tasks st t))) (t_pid (tasks st t)) = 0 \<and>
       (\<exists>m. heap_ok st' (insert (p, m) L) \<and> heap_ok (proc_reap st' (t_pid (tasks st t))) L))"
proof (cases "PROC_MAX \<le> unat (t_pid (tasks st t))")
  case True
  then show ?thesis using assms(3) by (simp add: proc_create_def)
next
  case False
  let ?pid = "unat (t_pid (tasks st t))"
  have sz: "unat SIZEOF_PROC \<le> alloc_limit" by (simp add: kdefs)
  from assms(1) sz show ?thesis
  proof (cases rule: kzalloc_cases)
    case (null st')
    then show ?thesis
      using False assms(3) heap_proc_fields_more(2) [OF kzalloc_more [OF null(1)]] by (simp add: proc_create_def Let_def)
  next
    case (block p m st1)
    note f = heap_proc_fields_more [OF kzalloc_more [OF block(1)]]
    define st' where "st' = (set_proc st1 p (\<lambda>_. zero_proc\<lparr>p_pid := t_pid (tasks st t), p_ppid := t_ppid (tasks st1 t),
        p_task := t, p_name := strbuf name 31\<rparr>))\<lparr>proc_table := (proc_table st1)[?pid := p]\<rparr>"
    have r: "proc_create st name t = Some (p, st')"
      using False assms(3) block(1,2) by (simp add: proc_create_def Let_def st'_def)
    have ok: "heap_ok st' (insert (p, m) L)"
      using block(4) by (subst heap_ok_cong [of st' st1]) (simp_all add: st'_def set_proc_def)
    have len: "?pid < length (proc_table st1)" using False assms(2) f(2) by simp
    have g: "proc_table st' ! ?pid = p" using len by (simp add: st'_def)
    have "heap_ok (kfree st' p) (insert (p, m) L - {(p, m)})" by (rule kfree_ok [OF ok]) simp
    moreover have "(p, m) \<notin> L" using fresh_notin [OF block(5)] block(3) by (simp add: kdefs)
    ultimately have fr: "heap_ok (kfree st' p) L" by simp
    have rp: "proc_reap st' (t_pid (tasks st t)) = (kfree st' p)\<lparr>proc_table := (proc_table (kfree st' p))[?pid := 0]\<rparr>"
      using False g block(2) by (simp add: proc_reap_def Let_def)
    have kf: "proc_table (kfree st' p) = proc_table st'" by (rule heap_proc_fields_more(2) [OF kfree_more])
    have "heap_ok (proc_reap st' (t_pid (tasks st t))) L"
      unfolding rp using fr by (subst heap_ok_cong [of _ "kfree st' p"]) simp_all
    moreover have "proc_get (proc_reap st' (t_pid (tasks st t))) (t_pid (tasks st t)) = 0"
      using False len by (simp add: rp proc_get_def kf) (simp add: st'_def)
    moreover have "p_task (procs st' p) = t" "\<not> p_exited (procs st' p)" by (simp_all add: st'_def zero_proc_def)
    moreover have "proc_get st' (t_pid (tasks st t)) = p" using False g by (simp add: proc_get_def)
    ultimately show ?thesis using r ok False block(2) by (intro exI [of _ p] exI [of _ st']) auto
  qed
qed

section \<open>Witnesses\<close>

definition proc_demo :: "sched_state \<Rightarrow> proc_state" where
  \<comment> \<open>an empty process table over a scheduler state; one task waits for pid 0\<close>
  "proc_demo s = sched_state.extend s
     (proc_state.fields (\<lambda>_. zero_proc) (replicate PROC_MAX 0) ((replicate PROC_MAX [])[0 := [0x4000]]))"

lemma proc_demo_sel:
  "procs (proc_demo s) = (\<lambda>_. zero_proc)" "proc_table (proc_demo s) = replicate PROC_MAX 0"
  "wait_queues (proc_demo s) = (replicate PROC_MAX [])[0 := [0x4000]]" "tasks (proc_demo s) = tasks s"
  "current_task (proc_demo s) = current_task s" "idle_task (proc_demo s) = idle_task s"
  "run_queue_head (proc_demo s) = run_queue_head s" "sleep_list (proc_demo s) = sleep_list s"
  by (simp_all add: proc_demo_def sched_state.defs proc_state.defs)

lemma proc_demo_heap: "heap_ok (proc_demo s) L = heap_ok s L"
  by (rule heap_ok_cong) (simp_all add: proc_demo_def sched_state.defs)

theorem proc_exit_wakes_witness:
  "sched_inv demo_tasks (proc_demo (sched_demo 0x2000 [0x3000])) [0x3000] \<and>
   p_exit_code (procs (proc_exit (proc_demo (sched_demo 0x2000 [0x3000])) 0x5000 42) 0x5000) = 42"
proof -
  have s: "sched_inv demo_tasks (sched_demo 0x2000 [0x3000]) [0x3000]" by (rule sched_demo_inv) simp_all
  have i: "sched_inv demo_tasks (proc_demo (sched_demo 0x2000 [0x3000])) [0x3000]"
    by (rule sched_inv_cong [OF s]) (simp_all add: proc_demo_sel)
  show ?thesis
    using proc_exit_wakes [OF i, of 20480 42] i by (simp add: proc_demo_sel zero_proc_def PROC_MAX_def)
qed

theorem proc_table_roundtrip_witness:
  "heap_ok (proc_demo sched_zero) {(HEAP_VIRT_BASE + 0x4020, 4064)} \<and>
   (\<exists>p st'. proc_create (proc_demo sched_zero) ''init'' 0x6000 = Some (p, st') \<and>
     (p = 0 \<or> p_task (procs st' p) = 0x6000))"
proof -
  have h: "heap_ok (proc_demo sched_zero) {(HEAP_VIRT_BASE + 0x4020, 4064)}"
    using sched_zero_ok(1) by (simp add: proc_demo_heap)
  have "length (proc_table (proc_demo sched_zero)) = PROC_MAX" "(0x6000 :: u64) \<noteq> 0"
    by (simp_all add: proc_demo_sel)
  note r = proc_table_roundtrip [OF h this, of "''init''"]
  obtain p st' where "proc_create (proc_demo sched_zero) ''init'' 0x6000 = Some (p, st')"
    "p \<noteq> 0 \<Longrightarrow> p_task (procs st' p) = 0x6000"
    using r by (elim exE conjE) (simp split: if_splits)
  then show ?thesis using h by blast
qed

end
