(* ===== verification/Vfs.thy ===== *)
theory Vfs
  imports Proc
begin

text \<open>
  The in-memory file system (\<^verbatim>\<open>kernel/fs/ramfs.c\<close>) and the virtual file system on top of it
  (\<^verbatim>\<open>kernel/fs/vfs.c\<close>, \<^verbatim>\<open>vfs.h\<close>).

  Nodes and open files are typed stores over heap addresses; a \<^verbatim>\<open>ramfs_node_t\<close> begins with its
  \<^verbatim>\<open>vfs_node_t\<close>, so one record holds both.  File contents are bytes of the kernel address space at
  \<open>rn_data\<close>.  The operation tables are the two that the source defines; which
  members a table has is what the dispatch of the virtual file system tests.  Children,
  mounts and descriptors are lists for the used part of the arrays.  Results are the C
  return values; \<^const>\<open>None\<close> is a call that never returns.
\<close>

section \<open>State\<close>

definition VFS_NAME_MAX :: nat where [kdefs]: "VFS_NAME_MAX = 255"
definition VFS_PATH_MAX :: nat where [kdefs]: "VFS_PATH_MAX = 4096"
definition VFS_TYPE_FILE :: u32 where [kdefs]: "VFS_TYPE_FILE = 0x8000"
definition VFS_TYPE_DIR :: u32 where [kdefs]: "VFS_TYPE_DIR = 0x4000"
definition O_CREAT :: u32 where [kdefs]: "O_CREAT = 0x0040"
definition O_APPEND :: u32 where [kdefs]: "O_APPEND = 0x0400"
definition MOUNT_MAX :: nat where [kdefs]: "MOUNT_MAX = 16"
definition VFS_FD_MAX :: nat where [kdefs]: "VFS_FD_MAX = 1024"
definition RAMFS_BLOCK :: u64 where [kdefs]: "RAMFS_BLOCK = 4096"
definition RAMFS_MAX_CHILDREN :: nat where [kdefs]: "RAMFS_MAX_CHILDREN = 256"
definition SIZEOF_RAMFS_NODE :: u64 where [kdefs]: "SIZEOF_RAMFS_NODE = 2392"
definition SIZEOF_FILE :: u64 where [kdefs]: "SIZEOF_FILE = 24"

datatype vfs_ops = OPS_NULL | RAMFS_FILE_OPS | RAMFS_DIR_OPS

record ramfs_node =
  v_name :: string
  v_flags :: u32
  v_mode :: u32
  v_inode :: u64
  v_size :: u64
  v_refcount :: u32
  v_ops :: vfs_ops
  v_private :: u64
  v_parent :: u64
  rn_data :: u64
  rn_data_cap :: u64
  rn_children :: "u64 list"
  rn_ino :: u64

record file_obj =
  f_node :: u64
  f_offset :: u64
  f_flags :: u32
  f_refcount :: u32

record stat_buf =
  st_ino :: u64
  st_mode :: u32
  st_nlink :: u32
  st_size :: u64
  st_blksize :: u64
  st_blocks :: u64

record fs_state = proc_state +
  nodes :: "u64 \<Rightarrow> ramfs_node"
  files :: "u64 \<Rightarrow> file_obj"
  mount_table :: "(string \<times> u64) list"
  global_fd_table :: "u64 list"
  next_ino :: u64

definition zero_node :: ramfs_node where
  "zero_node = \<lparr>v_name = '''', v_flags = 0, v_mode = 0, v_inode = 0, v_size = 0, v_refcount = 0, v_ops = OPS_NULL,
     v_private = 0, v_parent = 0, rn_data = 0, rn_data_cap = 0, rn_children = [], rn_ino = 0\<rparr>"

definition set_node :: "'a fs_state_scheme \<Rightarrow> u64 \<Rightarrow> (ramfs_node \<Rightarrow> ramfs_node) \<Rightarrow> 'a fs_state_scheme" where
  "set_node st n f = st\<lparr>nodes := (nodes st)(n := f (nodes st n))\<rparr>"

definition set_file :: "'a fs_state_scheme \<Rightarrow> u64 \<Rightarrow> (file_obj \<Rightarrow> file_obj) \<Rightarrow> 'a fs_state_scheme" where
  "set_file st x f = st\<lparr>files := (files st)(x := f (files st x))\<rparr>"

section \<open>ramfs\<close>

definition ramfs_alloc :: "'a fs_state_scheme \<Rightarrow> string \<Rightarrow> u32 \<Rightarrow> (u64 \<times> 'a fs_state_scheme) option" where
  "ramfs_alloc st name type = do {
     (n, st1) \<leftarrow> kzalloc st SIZEOF_RAMFS_NODE;
     if n = 0 then Some (0, st1)
     else
       let st2 = set_node st1 n (\<lambda>_. zero_node\<lparr>v_name := strbuf name VFS_NAME_MAX, v_flags := type,
             v_inode := next_ino st1, rn_ino := next_ino st1,
             v_ops := (if type AND VFS_TYPE_DIR \<noteq> 0 then RAMFS_DIR_OPS else RAMFS_FILE_OPS), v_private := n\<rparr>)
       in Some (n, st2\<lparr>next_ino := next_ino st1 + 1\<rparr>)
   }"

definition ramfs_read :: "'a fs_state_scheme \<Rightarrow> u64 \<Rightarrow> u64 \<Rightarrow> u64 \<Rightarrow> u64 \<Rightarrow> int \<times> 'a fs_state_scheme" where
  "ramfs_read st node buf len off =
     (let n = v_private (nodes st node); sz = v_size (nodes st node) in
      if sz \<le> off then (0, st)
      else
        let len' = (if sz < off + len then sz - off else len)
        in (sint len', st\<lparr>vmem := memcpy (vmem st) buf (rn_data (nodes st n) + off) (unat len')\<rparr>))"

definition ramfs_grow :: "'a fs_state_scheme \<Rightarrow> u64 \<Rightarrow> u64 \<Rightarrow> (bool \<times> 'a fs_state_scheme) option" where
  \<comment> \<open>the first half of \<^verbatim>\<open>ramfs_write\<close>: make room for \<open>bound\<close> bytes\<close>
  "ramfs_grow st n bound =
     (let cap = rn_data_cap (nodes st n) in
      if cap < bound then do {
        let new_cap = ALIGN_UP bound RAMFS_BLOCK;
        (new_data, st1) \<leftarrow> krealloc st (rn_data (nodes st n)) new_cap;
        if new_data = 0 then Some (False, st1)
        else
          let st2 = (if cap < new_cap
                     then st1\<lparr>vmem := memset (vmem st1) (new_data + cap) 0 (unat (new_cap - cap))\<rparr> else st1)
          in Some (True, set_node st2 n (\<lambda>k. k\<lparr>rn_data := new_data, rn_data_cap := new_cap\<rparr>))
      } else Some (True, st))"

definition ramfs_write ::
  "'a fs_state_scheme \<Rightarrow> u64 \<Rightarrow> u64 \<Rightarrow> u64 \<Rightarrow> u64 \<Rightarrow> (int \<times> 'a fs_state_scheme) option" where
  "ramfs_write st node buf len off = do {
     let n = v_private (nodes st node);
     let bound = off + len;
     (ok, st1) \<leftarrow> ramfs_grow st n bound;
     if \<not> ok then Some (- 12, st1)
     else
       let st2 = st1\<lparr>vmem := memcpy (vmem st1) (rn_data (nodes st1 n) + off) buf (unat len)\<rparr>;
           st3 = (if v_size (nodes st2 node) < bound then set_node st2 node (\<lambda>k. k\<lparr>v_size := bound\<rparr>) else st2)
       in Some (sint len, st3)
   }"

definition ramfs_stat_file :: "'a fs_state_scheme \<Rightarrow> u64 \<Rightarrow> stat_buf" where
  "ramfs_stat_file st node =
     (let k = nodes st node in
      \<lparr>st_ino = rn_ino (nodes st (v_private k)), st_mode = v_flags k OR v_mode k, st_nlink = 1, st_size = v_size k,
       st_blksize = RAMFS_BLOCK, st_blocks = ALIGN_UP (v_size k) 512 div 512\<rparr>)"

definition ramfs_truncate :: "'a fs_state_scheme \<Rightarrow> u64 \<Rightarrow> u64 \<Rightarrow> int \<times> 'a fs_state_scheme" where
  "ramfs_truncate st node sz =
     (let n = v_private (nodes st node); old = v_size (nodes st node);
          st1 = (if sz < old \<and> rn_data (nodes st n) \<noteq> 0
                 then st\<lparr>vmem := memset (vmem st) (rn_data (nodes st n) + sz) 0 (unat (old - sz))\<rparr> else st)
      in (0, set_node st1 node (\<lambda>k. k\<lparr>v_size := sz\<rparr>)))"

fun child_named :: "'a fs_state_scheme \<Rightarrow> string \<Rightarrow> u64 list \<Rightarrow> u64" where
  "child_named st name [] = 0"
| "child_named st name (c # cs) = (if strcmp (v_name (nodes st c)) name = 0 then c else child_named st name cs)"

definition ramfs_lookup :: "'a fs_state_scheme \<Rightarrow> u64 \<Rightarrow> string \<Rightarrow> u64" where
  "ramfs_lookup st dir name = child_named st name (rn_children (nodes st (v_private (nodes st dir))))"

definition ramfs_readdir :: "'a fs_state_scheme \<Rightarrow> u64 \<Rightarrow> u32 \<Rightarrow> int \<times> string" where
  "ramfs_readdir st dir idx =
     (let cs = rn_children (nodes st (v_private (nodes st dir))) in
      if length cs \<le> unat idx then (- 1, []) else (0, strncpy (v_name (nodes st (cs ! unat idx))) VFS_NAME_MAX))"

definition ramfs_add :: "'a fs_state_scheme \<Rightarrow> u64 \<Rightarrow> string \<Rightarrow> u32 \<Rightarrow> u32 \<Rightarrow> (int \<times> 'a fs_state_scheme) option" where
  "ramfs_add st dir name mode type =
     (let d = v_private (nodes st dir) in
      if RAMFS_MAX_CHILDREN \<le> length (rn_children (nodes st d)) then Some (- 28, st)
      else do {
        (child, st1) \<leftarrow> ramfs_alloc st name type;
        if child = 0 then Some (- 12, st1)
        else
          let st2 = set_node st1 child (\<lambda>k. k\<lparr>v_mode := mode, v_parent := dir\<rparr>)
          in Some (0, set_node st2 d (\<lambda>k. k\<lparr>rn_children := rn_children k @ [child]\<rparr>))
      })"

definition ramfs_mkdir :: "'a fs_state_scheme \<Rightarrow> u64 \<Rightarrow> string \<Rightarrow> u32 \<Rightarrow> (int \<times> 'a fs_state_scheme) option" where
  "ramfs_mkdir st dir name mode = ramfs_add st dir name mode VFS_TYPE_DIR"

definition ramfs_create :: "'a fs_state_scheme \<Rightarrow> u64 \<Rightarrow> string \<Rightarrow> u32 \<Rightarrow> (int \<times> 'a fs_state_scheme) option" where
  "ramfs_create st dir name mode = ramfs_add st dir name mode VFS_TYPE_FILE"

fun unlink_child :: "'a fs_state_scheme \<Rightarrow> string \<Rightarrow> u64 list \<Rightarrow> u64 list option" where
  \<comment> \<open>the children with the first match taken out and the rest shifted down\<close>
  "unlink_child st name [] = None"
| "unlink_child st name (c # cs) =
     (if strcmp (v_name (nodes st c)) name = 0 then Some cs else map_option (Cons c) (unlink_child st name cs))"

definition ramfs_unlink :: "'a fs_state_scheme \<Rightarrow> u64 \<Rightarrow> string \<Rightarrow> int \<times> 'a fs_state_scheme" where
  "ramfs_unlink st dir name =
     (let d = v_private (nodes st dir) in
      case unlink_child st name (rn_children (nodes st d)) of
        None \<Rightarrow> (- 2, st)
      | Some cs \<Rightarrow> (0, set_node st d (\<lambda>k. k\<lparr>rn_children := cs\<rparr>)))"

definition ramfs_stat_dir :: "'a fs_state_scheme \<Rightarrow> u64 \<Rightarrow> stat_buf \<Rightarrow> stat_buf" where
  \<comment> \<open>the block fields of the caller's structure are left as they were\<close>
  "ramfs_stat_dir st node s =
     (let k = nodes st node; n = nodes st (v_private k) in
      s\<lparr>st_ino := rn_ino n, st_mode := v_flags k OR v_mode k, st_nlink := of_nat (length (rn_children n)) + 2, st_size := 0\<rparr>)"

definition ramfs_create_root :: "'a fs_state_scheme \<Rightarrow> (u64 \<times> 'a fs_state_scheme) option" where
  "ramfs_create_root st = do {
     (root, st1) \<leftarrow> ramfs_alloc st ''/'' VFS_TYPE_DIR;
     if root = 0 then Some (0, st1) else Some (root, set_node st1 root (\<lambda>k. k\<lparr>v_mode := 493\<rparr>))
   }"

section \<open>Paths\<close>

fun skip_slash :: "string \<Rightarrow> string" where
  "skip_slash (c # p) = (if c = CHR ''/'' then skip_slash p else c # p)"
| "skip_slash [] = []"

primrec comp_copy :: "nat \<Rightarrow> string \<Rightarrow> string \<times> string" where
  "comp_copy 0 s = ([], s)"
| "comp_copy (Suc k) s =
     (if deref s \<noteq> NUL \<and> deref s \<noteq> CHR ''/'' then case comp_copy k (tl s) of (c, r) \<Rightarrow> (deref s # c, r) else ([], s))"

definition path_component :: "string \<Rightarrow> nat \<Rightarrow> (string \<times> string) option" where
  \<comment> \<open>the component and the rest of the path; \<^const>\<open>None\<close> is the return value 0\<close>
  "path_component p outsz =
     (let s = skip_slash p in if deref s = NUL then None else Some (comp_copy (outsz - 1) s))"

fun find_mount_loop :: "(string \<times> u64) list \<Rightarrow> string \<Rightarrow> u64 option \<Rightarrow> nat \<Rightarrow> (u64 \<times> nat) option" where
  "find_mount_loop [] path best best_len = (case best of None \<Rightarrow> None | Some r \<Rightarrow> Some (r, best_len))"
| "find_mount_loop ((mpath, root) # ms) path best best_len =
     (let mlen = strlen mpath in
      if strncmp path mpath (of_nat mlen) = 0 \<and> best_len < mlen then find_mount_loop ms path (Some root) mlen
      else find_mount_loop ms path best best_len)"

definition find_mount :: "'a fs_state_scheme \<Rightarrow> string \<Rightarrow> u64 \<times> string" where
  "find_mount st path =
     (case find_mount_loop (mount_table st) path None 0 of
        None \<Rightarrow> (0, [])
      | Some (root, best_len) \<Rightarrow> (root, drop best_len path))"

lemma skip_slash_length: "length (skip_slash p) \<le> length p"
  by (induction p rule: skip_slash.induct) auto

lemma comp_copy_split: "fst (comp_copy k s) @ snd (comp_copy k s) = s"
proof (induction k arbitrary: s)
  case (Suc k)
  then show ?case by (cases s) (auto simp: case_prod_beta)
qed simp

lemma comp_copy_nonempty:
  "0 < k \<Longrightarrow> deref s \<noteq> NUL \<Longrightarrow> deref s \<noteq> CHR ''/'' \<Longrightarrow> fst (comp_copy k s) \<noteq> []"
  by (cases k) (auto split: prod.splits)

lemma skip_slash_no_slash: "deref (skip_slash p) \<noteq> CHR ''/''"
  by (induction p rule: skip_slash.induct) (auto simp: NUL_def)

lemma path_component_shorter:
  "path_component p outsz = Some (c, r) \<Longrightarrow> 1 < outsz \<Longrightarrow> length r < length p"
proof -
  assume a: "path_component p outsz = Some (c, r)" "1 < outsz"
  then have e: "comp_copy (outsz - 1) (skip_slash p) = (c, r)" "deref (skip_slash p) \<noteq> NUL"
    by (auto simp: path_component_def Let_def split: if_splits)
  have "c \<noteq> []" using comp_copy_nonempty [of "outsz - 1" "skip_slash p"] a(2) e skip_slash_no_slash by simp
  moreover have "c @ r = skip_slash p" using comp_copy_split [of "outsz - 1" "skip_slash p"] e(1) by simp
  ultimately have "length r < length (skip_slash p)" by (metis length_append length_greater_0_conv less_add_same_cancel2)
  then show ?thesis using skip_slash_length [of p] by simp
qed

function vfs_walk :: "'a fs_state_scheme \<Rightarrow> u64 \<Rightarrow> string \<Rightarrow> u64" where
  "vfs_walk st node p =
     (case path_component p (VFS_NAME_MAX + 1) of
        None \<Rightarrow> node
      | Some (name, rest) \<Rightarrow>
          if v_ops (nodes st node) \<noteq> RAMFS_DIR_OPS then 0
          else let nd = ramfs_lookup st node name in if nd = 0 then 0 else vfs_walk st nd rest)"
  by pat_completeness auto
termination
  by (relation "measure (\<lambda>(st, node, p). length p)")
    (auto simp: VFS_NAME_MAX_def intro: path_component_shorter)

declare vfs_walk.simps [simp del]

definition vfs_lookup :: "'a fs_state_scheme \<Rightarrow> string \<Rightarrow> u64" where
  "vfs_lookup st path =
     (if deref path \<noteq> CHR ''/'' then 0
      else case find_mount st path of (node, rel) \<Rightarrow> if node = 0 then 0 else vfs_walk st node rel)"

fun last_slash :: "string \<Rightarrow> nat \<Rightarrow> nat option \<Rightarrow> nat option" where
  "last_slash [] i found = found"
| "last_slash (c # cs) i found = last_slash cs (Suc i) (if c = CHR ''/'' then Some i else found)"

section \<open>Descriptors\<close>

fun first_null :: "u64 list \<Rightarrow> nat \<Rightarrow> nat option" where
  "first_null [] i = None"
| "first_null (x # xs) i = (if x = 0 then Some i else first_null xs (Suc i))"

definition fd_alloc :: "'a fs_state_scheme \<Rightarrow> u64 \<Rightarrow> int \<times> 'a fs_state_scheme" where
  "fd_alloc st f =
     (if current_task st = 0 then (- 1, st)
      else case first_null (t_fds (tasks st (current_task st))) 0 of
             None \<Rightarrow> (- 1, st)
           | Some i \<Rightarrow> (int i, set_task st (current_task st) (\<lambda>k. k\<lparr>t_fds := (t_fds k)[i := f]\<rparr>)))"

definition fd_free :: "'a fs_state_scheme \<Rightarrow> int \<Rightarrow> 'a fs_state_scheme" where
  "fd_free st fd =
     (if current_task st = 0 \<or> fd < 0 \<or> int MAX_FDS \<le> fd then st
      else set_task st (current_task st) (\<lambda>k. k\<lparr>t_fds := (t_fds k)[nat fd := 0]\<rparr>))"

definition fd_get :: "'a fs_state_scheme \<Rightarrow> int \<Rightarrow> u64" where
  "fd_get st fd =
     (if current_task st = 0 \<or> fd < 0 \<or> int MAX_FDS \<le> fd then 0
      else t_fds (tasks st (current_task st)) ! nat fd)"

definition global_fd_alloc :: "'a fs_state_scheme \<Rightarrow> (int \<times> u64 \<times> 'a fs_state_scheme) option" where
  \<comment> \<open>descriptors 0, 1 and 2 are reserved\<close>
  "global_fd_alloc st =
     (case first_null (drop 3 (global_fd_table st)) 3 of
        None \<Rightarrow> Some (- 1, 0, st)
      | Some i \<Rightarrow> do {
          (f, st1) \<leftarrow> kzalloc st SIZEOF_FILE;
          if f = 0 then Some (- 1, 0, st1)
          else Some (int i, f, st1\<lparr>global_fd_table := (global_fd_table st1)[i := f]\<rparr>)
        })"

section \<open>Operations\<close>

definition vfs_mount :: "'a fs_state_scheme \<Rightarrow> string \<Rightarrow> u64 \<Rightarrow> int \<times> 'a fs_state_scheme" where
  "vfs_mount st path root =
     (if MOUNT_MAX \<le> length (mount_table st) then (- 1, st)
      else (0, st\<lparr>mount_table := mount_table st @ [(strbuf path (VFS_PATH_MAX - 1), root)]\<rparr>))"

definition vfs_mkdir :: "'a fs_state_scheme \<Rightarrow> string \<Rightarrow> u32 \<Rightarrow> (int \<times> 'a fs_state_scheme) option" where
  "vfs_mkdir st path mode =
     (case last_slash path 0 None of
        None \<Rightarrow> Some (- 22, st)
      | Some plen \<Rightarrow>
          let parent = (if plen = 0 then ''/'' else take plen path);
              dir = vfs_lookup st parent
          in if dir = 0 then Some (- 2, st)
             else if v_ops (nodes st dir) \<noteq> RAMFS_DIR_OPS then Some (- 38, st)
             else ramfs_mkdir st dir (drop (Suc plen) path) mode)"

definition vfs_init :: "'a fs_state_scheme \<Rightarrow> 'a fs_state_scheme option" where
  "vfs_init st = do {
     let st0 = st\<lparr>mount_table := [], global_fd_table := replicate VFS_FD_MAX 0\<rparr>;
     (rootfs, st1) \<leftarrow> ramfs_create_root st0;
     let st2 = snd (vfs_mount st1 ''/'' rootfs);
     (_, st3) \<leftarrow> vfs_mkdir st2 ''/dev'' 493;
     (_, st4) \<leftarrow> vfs_mkdir st3 ''/proc'' 365;
     (_, st5) \<leftarrow> vfs_mkdir st4 ''/tmp'' 511;
     Some st5
   }"

definition vfs_open_node :: "'a fs_state_scheme \<Rightarrow> u64 \<Rightarrow> u32 \<Rightarrow> (int \<times> 'a fs_state_scheme) option" where
  \<comment> \<open>the second half of \<^verbatim>\<open>vfs_open\<close>; no operation table has an open member\<close>
  "vfs_open_node st node flags = do {
     (f, st1) \<leftarrow> kzalloc st SIZEOF_FILE;
     if f = 0 then Some (- 12, st1)
     else do {
       let st2 = set_file st1 f (\<lambda>_. \<lparr>f_node = node, f_offset = (if flags AND O_APPEND \<noteq> 0 then v_size (nodes st1 node) else 0),
                                      f_flags = flags, f_refcount = 1\<rparr>);
       let st3 = set_node st2 node (\<lambda>k. k\<lparr>v_refcount := v_refcount k + 1\<rparr>);
       let (fd, st4) = fd_alloc st3 f;
       if fd < 0 then Some (- 24, kfree st4 f) else Some (fd, st4)
     }
   }"

definition vfs_open :: "'a fs_state_scheme \<Rightarrow> string \<Rightarrow> u32 \<Rightarrow> u32 \<Rightarrow> (int \<times> 'a fs_state_scheme) option" where
  "vfs_open st path flags mode =
     (let node = vfs_lookup st path in
      if node \<noteq> 0 then vfs_open_node st node flags
      else if flags AND O_CREAT = 0 then Some (- 2, st)
      else case last_slash path 0 None of
        None \<Rightarrow> Some (- 22, st)
      | Some dlen \<Rightarrow>
          let dir_path = (if dlen = 0 then ''/'' else take dlen path);
              dir = vfs_lookup st dir_path
          in if dir = 0 \<or> v_ops (nodes st dir) \<noteq> RAMFS_DIR_OPS then Some (- 2, st)
             else do {
               (r, st1) \<leftarrow> ramfs_create st dir (drop (Suc dlen) path) mode;
               if r \<noteq> 0 then Some (- 13, st1)
               else
                 let node = vfs_lookup st1 path
                 in if node = 0 then Some (- 2, st1) else vfs_open_node st1 node flags
             })"

definition vfs_close :: "'a fs_state_scheme \<Rightarrow> int \<Rightarrow> int \<times> 'a fs_state_scheme" where
  "vfs_close st fd =
     (let f = fd_get st fd in
      if f = 0 then (- 9, st)
      else
        let st1 = set_file (fd_free st fd) f (\<lambda>k. k\<lparr>f_refcount := f_refcount k - 1\<rparr>)
        in if f_refcount (files st1 f) = 0 then
             let nd = f_node (files st1 f);
                 st2 = (if nd \<noteq> 0 then set_node st1 nd (\<lambda>k. k\<lparr>v_refcount := v_refcount k - 1\<rparr>) else st1)
             in (0, kfree st2 f)
           else (0, st1))"

definition vfs_read :: "'a fs_state_scheme \<Rightarrow> int \<Rightarrow> u64 \<Rightarrow> u64 \<Rightarrow> int \<times> 'a fs_state_scheme" where
  "vfs_read st fd buf len =
     (let f = fd_get st fd in
      if f = 0 then (- 9, st)
      else
        let nd = f_node (files st f) in
        if nd = 0 \<or> v_ops (nodes st nd) \<noteq> RAMFS_FILE_OPS then (- 22, st)
        else case ramfs_read st nd buf len (f_offset (files st f)) of (n, st1) \<Rightarrow>
          (n, if n > 0 then set_file st1 f (\<lambda>k. k\<lparr>f_offset := f_offset k + of_int n\<rparr>) else st1))"

definition vfs_write :: "'a fs_state_scheme \<Rightarrow> int \<Rightarrow> u64 \<Rightarrow> u64 \<Rightarrow> (int \<times> 'a fs_state_scheme) option" where
  "vfs_write st fd buf len =
     (let f = fd_get st fd in
      if f = 0 then Some (- 9, st)
      else
        let nd = f_node (files st f) in
        if nd = 0 \<or> v_ops (nodes st nd) \<noteq> RAMFS_FILE_OPS then Some (- 22, st)
        else do {
          (n, st1) \<leftarrow> ramfs_write st nd buf len (f_offset (files st f));
          Some (n, if n > 0 then set_file st1 f (\<lambda>k. k\<lparr>f_offset := f_offset k + of_int n\<rparr>) else st1)
        })"

definition vfs_lseek :: "'a fs_state_scheme \<Rightarrow> int \<Rightarrow> u64 \<Rightarrow> int \<Rightarrow> int \<times> 'a fs_state_scheme" where
  \<comment> \<open>\<open>off\<close> is the 64-bit pattern of the signed offset\<close>
  "vfs_lseek st fd off whence =
     (let f = fd_get st fd in
      if f = 0 then (- 9, st)
      else if whence \<notin> {0, 1, 2} then (- 22, st)
      else
        let new_off = (if whence = 0 then off
                       else if whence = 1 then f_offset (files st f) + off
                       else v_size (nodes st (f_node (files st f))) + off)
        in if sint new_off < 0 then (- 22, st)
           else (sint new_off, set_file st f (\<lambda>k. k\<lparr>f_offset := new_off\<rparr>)))"

definition vfs_stat :: "'a fs_state_scheme \<Rightarrow> string \<Rightarrow> stat_buf \<Rightarrow> int \<times> stat_buf" where
  "vfs_stat st path s =
     (let node = vfs_lookup st path in
      if node = 0 then (- 2, s)
      else case v_ops (nodes st node) of
             OPS_NULL \<Rightarrow> (- 38, s)
           | RAMFS_FILE_OPS \<Rightarrow> (0, ramfs_stat_file st node)
           | RAMFS_DIR_OPS \<Rightarrow> (0, ramfs_stat_dir st node s))"

end
