(* ===== verification/VfsPath.thy ===== *)
theory VfsPath
  imports Vfs
begin

text \<open>
  Paths, directories and descriptors: what path resolution finds, how a directory behaves as a
  map from names to nodes, and the descriptor table of a task.
\<close>

section \<open>Frame facts\<close>

lemma fs_fields_more:
  assumes "heap_state.more s = heap_state.more t"
  shows "nodes s = nodes t" "files s = files t" "mount_table s = mount_table t" "next_ino s = next_ino t"
    "tasks s = tasks t" "current_task s = current_task t"
  using assms by (cases s, cases t, simp add: heap_state.defs)+

lemma set_node_sel [simp]:
  "nodes (set_node st n f) = (nodes st)(n := f (nodes st n))" "files (set_node st n f) = files st"
  "mount_table (set_node st n f) = mount_table st" "next_ino (set_node st n f) = next_ino st"
  "vmem (set_node st n f) = vmem st" "tasks (set_node st n f) = tasks st"
  "current_task (set_node st n f) = current_task st"
  by (simp_all add: set_node_def)

lemma heap_ok_set_node [simp]: "heap_ok (set_node st n f) L = heap_ok st L"
  by (rule heap_ok_cong) (simp_all add: set_node_def)

section \<open>Path resolution\<close>

lemma strncmp_root: "cstr (CHR ''/'' # r) \<Longrightarrow> strncmp (CHR ''/'' # r) ''/'' 1 = 0 \<longleftrightarrow> r = []"
proof -
  assume c: "cstr (CHR ''/'' # r)"
  have l: "strncmp_loop (CHR ''/'' # r) ''/'' 1 = (r, [], - 1)"
    using c by (simp add: strncmp_loop.simps)
  have "deref r = NUL \<longleftrightarrow> r = []" using c deref_NUL_iff [of r] by simp
  then show ?thesis by (simp add: strncmp_def l of_char_int_eq_0)
qed

lemma vfs_walk_Nil [simp]: "vfs_walk st node [] = node"
  by (subst vfs_walk.simps) (simp add: path_component_def)

lemma lookup_root:
  assumes "mount_table st = [(''/'', root)]" "cstr path"
  shows "vfs_lookup st path = (if path = ''/'' then root else 0)"
proof (cases "deref path = CHR ''/''")
  case False
  then show ?thesis by (auto simp: vfs_lookup_def)
next
  case True
  then obtain r where p: "path = CHR ''/'' # r" by (cases path) (auto simp: NUL_def)
  have sl: "strlen ''/'' = 1" by (simp add: strlen.simps NUL_def)
  have m: "find_mount st path = (if r = [] then (root, []) else (0, []))"
    using strncmp_root [of r] assms p sl by (simp add: find_mount_def)
  show ?thesis using m p by (simp add: vfs_lookup_def)
qed

text \<open>
  with the root file system mounted at / (as vfs_init leaves it), path resolution finds
  the root directory under the path "/" and nothing under any other path, because strncmp
  never reports the mount point as a proper prefix.
\<close>

theorem vfs_lookup_root_only:
  assumes "mount_table st = [(''/'', root)]" "cstr path"
  shows "vfs_lookup st path = (if path = ''/'' then root else 0)"
  using assms by (rule lookup_root)

section \<open>Directories\<close>

lemma strcmp_0_iff: "cstr a \<Longrightarrow> cstr b \<Longrightarrow> strcmp a b = 0 \<longleftrightarrow> a = b"
proof (induction a arbitrary: b)
  case Nil
  then show ?case using deref_NUL_iff [of b] by (auto simp: strcmp_Nil of_char_int_eq_0)
next
  case (Cons c a)
  then show ?case by (cases b) (auto simp: strcmp_Cons of_char_int_eq_0)
qed

lemma cstr_iff: "cstr s \<longleftrightarrow> NUL \<notin> set s"
  by (induction s) auto

lemma strbuf_eq: "cstr s \<Longrightarrow> strbuf s n = take n s"
proof (induction s arbitrary: n)
  case Nil
  then show ?case by (cases n) (simp_all add: strbuf_def)
next
  case (Cons c s)
  then show ?case by (cases n) (simp_all add: strbuf_def)
qed

definition dir_ok :: "'a fs_state_scheme \<Rightarrow> (u64 \<times> nat) set \<Rightarrow> u64 \<Rightarrow> bool" where
  \<comment> \<open>a directory node whose own block and whose children's blocks are live\<close>
  "dir_ok st L d \<longleftrightarrow> v_private (nodes st d) = d \<and> (\<exists>m > 0. (d, m) \<in> L) \<and>
     (\<forall>c \<in> set (rn_children (nodes st d)). c \<noteq> 0 \<and> (\<exists>m > 0. (c, m) \<in> L) \<and> cstr (v_name (nodes st c)))"

lemma fresh_ne: "fresh (p, m) L \<Longrightarrow> 0 < m \<Longrightarrow> (q, k) \<in> L \<Longrightarrow> 0 < k \<Longrightarrow> p \<noteq> q"
  by (force simp: fresh_def apart_def)

lemma ramfs_alloc_ok:
  assumes "heap_ok st L"
  obtains (null) st' where "ramfs_alloc st name type = Some (0, st')" "heap_ok st' L" "nodes st' = nodes st"
      "mount_table st' = mount_table st"
  | (node) n m st' where "ramfs_alloc st name type = Some (n, st')" "n \<noteq> 0" "heap_ok st' (insert (n, m) L)" "2392 \<le> m"
      "fresh (n, m) L" "mount_table st' = mount_table st"
      "nodes st' = (nodes st)(n := zero_node\<lparr>v_name := strbuf name VFS_NAME_MAX, v_flags := type,
         v_inode := next_ino st, rn_ino := next_ino st,
         v_ops := (if type AND VFS_TYPE_DIR \<noteq> 0 then RAMFS_DIR_OPS else RAMFS_FILE_OPS), v_private := n\<rparr>)"
proof -
  have sz: "unat SIZEOF_RAMFS_NODE \<le> alloc_limit" by (simp add: kdefs)
  from assms sz show thesis
  proof (cases rule: kzalloc_cases)
    case (null st')
    then show ?thesis
      using that(1) fs_fields_more(1,3) [OF kzalloc_more [OF null(1)]] by (simp add: ramfs_alloc_def)
  next
    case (block n m st1)
    note f = fs_fields_more [OF kzalloc_more [OF block(1)]]
    let ?s = "(set_node st1 n (\<lambda>_. zero_node\<lparr>v_name := strbuf name VFS_NAME_MAX, v_flags := type,
         v_inode := next_ino st1, rn_ino := next_ino st1,
         v_ops := (if type AND VFS_TYPE_DIR \<noteq> 0 then RAMFS_DIR_OPS else RAMFS_FILE_OPS), v_private := n\<rparr>))
         \<lparr>next_ino := next_ino st1 + 1\<rparr>"
    have r: "ramfs_alloc st name type = Some (n, ?s)" using block(1,2) by (simp add: ramfs_alloc_def Let_def)
    have ok: "heap_ok ?s (insert (n, m) L)"
      using block(4) by (subst heap_ok_cong [of _ st1]) (simp_all add: set_node_def)
    show ?thesis
      by (rule that(2) [OF r block(2) ok _ block(5)]) (use block(3) f in \<open>simp_all add: kdefs\<close>)
  qed
qed

lemma ramfs_add_ok:
  assumes "heap_ok st L"
  obtains (fail) r st' where "ramfs_add st dir name mode type = Some (r, st')" "r = - 28 \<or> r = - 12" "heap_ok st' L"
      "nodes st' = nodes st" "mount_table st' = mount_table st"
  | (added) c m st' k where "ramfs_add st dir name mode type = Some (0, st')" "c \<noteq> 0" "heap_ok st' (insert (c, m) L)"
      "2392 \<le> m" "fresh (c, m) L" "mount_table st' = mount_table st"
      "nodes st' = ((nodes st)(c := k))(v_private (nodes st dir) :=
         (((nodes st)(c := k)) (v_private (nodes st dir)))\<lparr>rn_children :=
            rn_children (((nodes st)(c := k)) (v_private (nodes st dir))) @ [c]\<rparr>)"
      "v_name k = strbuf name VFS_NAME_MAX" "v_parent k = dir" "v_mode k = mode" "v_flags k = type" "v_size k = 0"
proof -
  let ?d = "v_private (nodes st dir)"
  show thesis
  proof (cases "RAMFS_MAX_CHILDREN \<le> length (rn_children (nodes st ?d))")
    case True
    then show ?thesis using that(1) [of "- 28" st] assms by (simp add: ramfs_add_def Let_def)
  next
    case False
    from assms show ?thesis
    proof (cases rule: ramfs_alloc_ok [of st L name type])
      case (null st')
      then show ?thesis using that(1) [of "- 12" st'] False by (simp add: ramfs_add_def Let_def)
    next
      case (node c m st1)
      let ?k = "(nodes st1 c)\<lparr>v_mode := mode, v_parent := dir\<rparr>"
      let ?s = "set_node (set_node st1 c (\<lambda>k. k\<lparr>v_mode := mode, v_parent := dir\<rparr>)) ?d (\<lambda>k. k\<lparr>rn_children := rn_children k @ [c]\<rparr>)"
      have r: "ramfs_add st dir name mode type = Some (0, ?s)" using node(1,2) False by (simp add: ramfs_add_def Let_def)
      show ?thesis
        by (rule that(2) [of ?s c m ?k, OF r node(2) _ node(4,5)])
          (use node in \<open>simp_all add: fun_eq_iff zero_node_def\<close>)
    qed
  qed
qed

lemma child_named_cong:
  "(\<And>c. c \<in> set cs \<Longrightarrow> v_name (nodes st' c) = v_name (nodes st c)) \<Longrightarrow> child_named st' name cs = child_named st name cs"
  by (induction cs) auto

lemma child_named_append:
  "child_named st name (cs @ ds) = (if \<exists>c \<in> set cs. strcmp (v_name (nodes st c)) name = 0
     then child_named st name cs else child_named st name ds)"
  by (induction cs) auto

lemma child_named_0: "0 \<notin> set cs \<Longrightarrow> child_named st name cs = 0 \<longleftrightarrow> \<not> (\<exists>c \<in> set cs. strcmp (v_name (nodes st c)) name = 0)"
  by (induction cs) auto

text \<open>
  C15: a directory is a map from names to nodes.  A file created under a name of at most 255
  characters is found under that name, unless an older entry of the same name is
  found first; lookups of other names are unchanged; errors leave the directory as it was.
\<close>

theorem ramfs_create_lookup:
  assumes "heap_ok st L" "dir_ok st L d" "cstr name" "length name \<le> VFS_NAME_MAX"
  shows "\<exists>r st'. ramfs_create st d name mode = Some (r, st') \<and>
    (if r \<noteq> 0 then nodes st' = nodes st
     else (\<exists>c m. heap_ok st' (insert (c, m) L) \<and> c \<noteq> 0 \<and> dir_ok st' (insert (c, m) L) d \<and>
       ramfs_lookup st' d name = (if ramfs_lookup st d name = 0 then c else ramfs_lookup st d name) \<and>
       v_flags (nodes st' c) = VFS_TYPE_FILE \<and> v_size (nodes st' c) = 0 \<and>
       (\<forall>other. cstr other \<and> other \<noteq> name \<longrightarrow> ramfs_lookup st' d other = ramfs_lookup st d other)))"
  using assms(1)
proof (cases rule: ramfs_add_ok [of st L d name mode VFS_TYPE_FILE])
  case (fail r st')
  then show ?thesis by (auto simp: ramfs_create_def)
next
  case (added c m st' k)
  let ?cs = "rn_children (nodes st d)"
  have pd: "v_private (nodes st d) = d" and cs: "\<And>c'. c' \<in> set ?cs \<Longrightarrow> c' \<noteq> 0 \<and> (\<exists>m > 0. (c', m) \<in> L) \<and> cstr (v_name (nodes st c'))"
    and dL: "\<exists>m > 0. (d, m) \<in> L"
    using assms(2) by (auto simp: dir_ok_def)
  have m0: "0 < m" using added(4) by simp
  have cd: "c \<noteq> d" using fresh_ne [OF added(5) m0] dL by auto
  have cn: "c' \<noteq> c" if "c' \<in> set ?cs" for c' using fresh_ne [OF added(5) m0] cs [OF that] by auto
  have nd: "nodes st' = (nodes st)(c := k, d := (nodes st d)\<lparr>rn_children := ?cs @ [c]\<rparr>)"
    using added(7) cd by (simp add: pd)
  have nm: "v_name k = name" using added(8) assms(3,4) by (simp add: strbuf_eq)
  have nmd: "v_name (nodes st' c') = v_name (nodes st c')" if "c' \<in> set ?cs" for c'
    using cn [OF that] by (simp add: nd)
  have cc: "v_name (nodes st' c) = name" using cd nm by (simp add: nd)
  have lk: "ramfs_lookup st' d x = child_named st' x (?cs @ [c])" for x
    using cd by (simp add: ramfs_lookup_def nd pd)
  have old: "child_named st' x ?cs = ramfs_lookup st d x" for x
    using child_named_cong [of ?cs st' st x] nmd by (simp add: ramfs_lookup_def pd)
  have z: "0 \<notin> set ?cs" using cs by blast
  have ex: "(\<exists>c' \<in> set ?cs. strcmp (v_name (nodes st' c')) x = 0) \<longleftrightarrow> ramfs_lookup st d x \<noteq> 0" for x
    using child_named_0 [OF z, of st' x] old by simp
  have "ramfs_lookup st' d name = (if ramfs_lookup st d name = 0 then c else ramfs_lookup st d name)"
    using strcmp_0_iff [OF assms(3,3)] by (simp add: lk child_named_append ex old cc)
  moreover have "ramfs_lookup st' d x = ramfs_lookup st d x" if "cstr x" "x \<noteq> name" for x
    using strcmp_0_iff [OF assms(3) that(1)] that(2) by (auto simp: lk child_named_append ex old cc)
  moreover have "dir_ok st' (insert (c, m) L) d"
    unfolding dir_ok_def using cd cs dL pd cn assms(3) nm added(2) m0 by (auto simp: nd)
  moreover have "v_flags (nodes st' c) = VFS_TYPE_FILE" "v_size (nodes st' c) = 0"
    using cd added(11,12) by (simp_all add: nd)
  ultimately show ?thesis
    using added(1,2,3) by (intro exI [of _ 0] exI [of _ st']) (auto simp: ramfs_create_def)
qed

lemma child_named_match:
  "c \<in> set cs \<Longrightarrow> strcmp (v_name (nodes st c)) name = 0 \<Longrightarrow>
     child_named st name cs \<in> set cs \<and> strcmp (v_name (nodes st (child_named st name cs))) name = 0"
  by (induction cs) auto

lemma unlink_child_spec:
  "unlink_child st name cs =
     (if \<exists>c \<in> set cs. strcmp (v_name (nodes st c)) name = 0 then Some (remove1 (child_named st name cs) cs) else None)"
  by (induction cs) (auto dest: child_named_match)

lemma child_named_remove:
  assumes "cstr x" "cstr name" "\<And>c. c \<in> set ds \<Longrightarrow> cstr (v_name (nodes st c))"
    "distinct (map (\<lambda>c. v_name (nodes st c)) ds)" "0 \<notin> set ds" "\<exists>c \<in> set ds. strcmp (v_name (nodes st c)) name = 0"
  shows "child_named st x (remove1 (child_named st name ds) ds) = (if x = name then 0 else child_named st x ds)"
  using assms(3-)
proof (induction ds)
  case (Cons c ds)
  have sc: "strcmp (v_name (nodes st c)) x = 0 \<longleftrightarrow> v_name (nodes st c) = x" if "cstr x" for x
    using strcmp_0_iff [OF Cons.prems(1) that, of c] by simp
  show ?case
  proof (cases "v_name (nodes st c) = name")
    case True
    have "child_named st name ds = 0"
    proof -
      have "\<not> (\<exists>c' \<in> set ds. strcmp (v_name (nodes st c')) name = 0)"
        using Cons.prems(1,2) True strcmp_0_iff [OF _ assms(2)] by (auto simp: image_iff)
      then show ?thesis using child_named_0 [of ds st name] Cons.prems(3) by simp
    qed
    then show ?thesis using True sc [OF assms(2)] sc [OF assms(1)] by auto
  next
    case False
    then have ex': "\<exists>c' \<in> set ds. strcmp (v_name (nodes st c')) name = 0"
      using Cons.prems(4) sc [OF assms(2)] by auto
    have "child_named st name ds \<noteq> 0" using child_named_0 [of ds st name] ex' Cons.prems(3) by simp
    have "child_named st name ds \<noteq> c"
    proof
      assume e: "child_named st name ds = c"
      have "child_named st name ds \<in> set ds" using ex' child_named_match by blast
      then show False using e Cons.prems(2) by (auto simp: image_iff)
    qed
    then show ?thesis
      using False sc [OF assms(2)] sc [OF assms(1)] Cons.IH [OF Cons.prems(1) _ _ ex'] Cons.prems by auto
  qed
qed simp

text \<open>
  unlinking a name that the directory does not have answers -2 and changes nothing; otherwise
  exactly the node that lookup finds is taken out of the directory, and when the names
  of the directory are distinct the name is gone and every other name is found as before.
\<close>

theorem ramfs_unlink_lookup:
  assumes "dir_ok st L d" "cstr name"
    "distinct (map (\<lambda>c. v_name (nodes st c)) (rn_children (nodes st d)))"
  shows "case ramfs_unlink st d name of (r, st') \<Rightarrow>
    (if ramfs_lookup st d name = 0 then r = - 2 \<and> st' = st
     else r = 0 \<and> rn_children (nodes st' d) = remove1 (ramfs_lookup st d name) (rn_children (nodes st d)) \<and>
       ramfs_lookup st' d name = 0 \<and>
       (\<forall>other. cstr other \<and> other \<noteq> name \<longrightarrow> ramfs_lookup st' d other = ramfs_lookup st d other))"
proof -
  let ?cs = "rn_children (nodes st d)"
  have pd: "v_private (nodes st d) = d" and z: "0 \<notin> set ?cs"
    and cs: "\<And>c. c \<in> set ?cs \<Longrightarrow> cstr (v_name (nodes st c))"
    using assms(1) by (auto simp: dir_ok_def)
  have lk: "ramfs_lookup st d x = child_named st x ?cs" for x by (simp add: ramfs_lookup_def pd)
  show ?thesis
  proof (cases "ramfs_lookup st d name = 0")
    case True
    then show ?thesis
      using child_named_0 [OF z, of st name] by (simp add: ramfs_unlink_def pd lk unlink_child_spec)
  next
    case False
    let ?c = "child_named st name ?cs"
    have ex: "\<exists>c \<in> set ?cs. strcmp (v_name (nodes st c)) name = 0"
      using False child_named_0 [OF z, of st name] by (simp add: lk)
    define st' where "st' = set_node st d (\<lambda>k. k\<lparr>rn_children := remove1 ?c ?cs\<rparr>)"
    have r: "ramfs_unlink st d name = (0, st')" using ex by (simp add: ramfs_unlink_def pd unlink_child_spec st'_def)
    have nm: "v_name (nodes st' c) = v_name (nodes st c)" for c by (simp add: st'_def)
    have lk': "ramfs_lookup st' d x = child_named st x (remove1 ?c ?cs)" for x
      using child_named_cong [of _ st' st x] nm by (simp add: ramfs_lookup_def st'_def pd)
    show ?thesis
      using False r child_named_remove [OF _ assms(2) cs assms(3) z ex] assms(2) by (auto simp: lk lk') (simp add: st'_def)
  qed
qed

section \<open>Descriptors\<close>

lemma first_null_Some:
  "first_null xs i = Some k \<Longrightarrow> \<exists>j. k = i + j \<and> j < length xs \<and> xs ! j = 0 \<and> (\<forall>l < j. xs ! l \<noteq> 0)"
proof (induction xs i rule: first_null.induct)
  case (2 x xs i)
  show ?case
  proof (cases "x = 0")
    case True
    then show ?thesis using 2 by (intro exI [of _ 0]) simp
  next
    case False
    then obtain j where "k = Suc i + j" "j < length xs" "xs ! j = 0" "\<forall>l < j. xs ! l \<noteq> 0" using 2 by auto
    then show ?thesis using False by (intro exI [of _ "Suc j"]) (auto simp: nth_Cons split: nat.splits)
  qed
qed simp

lemma first_null_None: "first_null xs i = None \<longleftrightarrow> 0 \<notin> set xs"
  by (induction xs i rule: first_null.induct) auto

text \<open>
  a task's descriptor table.  fd_alloc answers -1 exactly when all 64 slots are taken and
  otherwise the lowest free descriptor; fd_get then finds the file under it, every
  other descriptor keeps its file, and fd_free frees it again.
\<close>

theorem fd_alloc_lowest:
  assumes "current_task st \<noteq> 0" "length (t_fds (tasks st (current_task st))) = MAX_FDS" "f \<noteq> 0"
  shows "case fd_alloc st f of (fd, st') \<Rightarrow>
    (if fd = - 1 then st' = st \<and> (\<forall>j. 0 \<le> j \<and> j < int MAX_FDS \<longrightarrow> fd_get st j \<noteq> 0)
     else 0 \<le> fd \<and> fd < int MAX_FDS \<and> fd_get st fd = 0 \<and> (\<forall>j. 0 \<le> j \<and> j < fd \<longrightarrow> fd_get st j \<noteq> 0) \<and>
       fd_get st' fd = f \<and> (\<forall>j. j \<noteq> fd \<longrightarrow> fd_get st' j = fd_get st j) \<and>
       fd_get (fd_free st' fd) fd = 0 \<and> (\<forall>j. j \<noteq> fd \<longrightarrow> fd_get (fd_free st' fd) j = fd_get st j))"
proof (cases "first_null (t_fds (tasks st (current_task st))) 0")
  case None
  then have "0 \<notin> set (t_fds (tasks st (current_task st)))" by (simp add: first_null_None)
  then have "t_fds (tasks st (current_task st)) ! j \<noteq> 0" if "j < MAX_FDS" for j
    using that assms(2) by (metis nth_mem)
  then show ?thesis using None assms by (auto simp: fd_alloc_def fd_get_def nat_less_iff)
next
  case (Some k)
  then have k: "k < MAX_FDS" "t_fds (tasks st (current_task st)) ! k = 0"
    "\<forall>l < k. t_fds (tasks st (current_task st)) ! l \<noteq> 0"
    using first_null_Some [of "t_fds (tasks st (current_task st))" 0 k] assms(2) by auto
  then show ?thesis
    using Some assms by (auto simp: fd_alloc_def fd_get_def fd_free_def nth_list_update nat_less_iff)
qed

section \<open>Opening\<close>

text \<open>
  after vfs_init nothing but the root directory can be opened: vfs_open answers an error for
  every other path, with or without O_CREAT, although with O_CREAT it has then already
  added a file to the directory.
\<close>

theorem vfs_open_other_fails:
  assumes "mount_table st = [(''/'', root)]" "cstr path" "path \<noteq> ''/''" "heap_ok st L"
  shows "\<exists>r st'. vfs_open st path flags mode = Some (r, st') \<and> r < 0"
proof -
  have lk: "vfs_lookup s path = 0" if "mount_table s = mount_table st" for s :: "'a fs_state_scheme"
    using that assms(1-3) lookup_root [of s root path] by simp
  show ?thesis
  proof (cases "last_slash path 0 None")
    case None
    then show ?thesis using lk by (simp add: vfs_open_def)
  next
    case (Some k)
    let ?dir = "vfs_lookup st (if k = 0 then ''/'' else take k path)"
    from assms(4) show ?thesis
    proof (cases rule: ramfs_add_ok [of st L ?dir "drop (Suc k) path" mode VFS_TYPE_FILE])
      case (fail r st')
      then show ?thesis using lk Some by (auto simp: vfs_open_def ramfs_create_def Let_def)
    next
      case (added c m st' kk)
      then show ?thesis using lk [of st] lk [of st'] Some by (auto simp: vfs_open_def ramfs_create_def Let_def)
    qed
  qed
qed

end
