(* ===== verification/VfsFile.thy ===== *)
theory VfsFile
  imports VfsPath
begin

text \<open>
  File contents: reading and writing a ramfs file refine reading and writing a list of bytes,
  through the growth of the buffer on the kernel heap.
\<close>

section \<open>Files as byte lists\<close>

definition node_ok :: "'a fs_state_scheme \<Rightarrow> (u64 \<times> nat) set \<Rightarrow> u64 \<Rightarrow> bool" where
  \<comment> \<open>the buffer of a file is a live heap block, and the capacity beyond the size is zero\<close>
  "node_ok st L n \<longleftrightarrow> (let k = nodes st n in
     v_private k = n \<and> v_size k \<le> rn_data_cap k \<and> unat (rn_data_cap k) \<le> 137438957568 \<and>
     (if rn_data k = 0 then rn_data_cap k = 0 else \<exists>m. (rn_data k, m) \<in> L \<and> unat (rn_data_cap k) \<le> m) \<and>
     (\<forall>i. unat (v_size k) \<le> i \<and> i < unat (rn_data_cap k) \<longrightarrow> bytes st (rn_data k) i = 0))"

definition mem_bytes :: "memory \<Rightarrow> u64 \<Rightarrow> nat \<Rightarrow> u8 list" where
  "mem_bytes m p n = map (\<lambda>i. m (p + of_nat i)) [0..<n]"

definition file_bytes :: "'a fs_state_scheme \<Rightarrow> u64 \<Rightarrow> u8 list" where
  "file_bytes st n = mem_bytes (vmem st) (rn_data (nodes st n)) (unat (v_size (nodes st n)))"

definition spec_write :: "u8 list \<Rightarrow> nat \<Rightarrow> u8 list \<Rightarrow> u8 list" where
  "spec_write c off d = map (\<lambda>i. if off \<le> i \<and> i < off + length d then d ! (i - off)
       else if i < length c then c ! i else 0) [0..<max (length c) (off + length d)]"

definition outside_heap :: "u64 \<Rightarrow> nat \<Rightarrow> bool" where
  "outside_heap buf n \<longleftrightarrow> unat buf + n \<le> heap_lo"

lemma outside_heap_byte:
  assumes "outside_heap buf n" "i < n"
  shows "unat (buf + of_nat i) = unat buf + i" "unat (buf + of_nat i) < heap_lo"
proof -
  show "unat (buf + of_nat i) = unat buf + i"
    using assms by (intro unat_add_of_nat) (simp add: outside_heap_def)
  then show "unat (buf + of_nat i) < heap_lo" using assms by (simp add: outside_heap_def)
qed

lemma copied_byte:
  assumes "unat d + n \<le> 18446744073709551616"
  shows "copied m d s n v = (if unat d \<le> unat v \<and> unat v < unat d + n then m (s + (v - d)) else m v)"
proof -
  have "unat (v - d) = (if unat d \<le> unat v then unat v - unat d else unat v + 18446744073709551616 - unat d)"
    by (simp add: unat_sub_if' word_le_nat_alt)
  then have "unat (v - d) < n \<longleftrightarrow> unat d \<le> unat v \<and> unat v < unat d + n"
    using assms by auto
  then show ?thesis by (simp add: copied_def)
qed

text \<open>Copying between the heap and memory outside it.\<close>

lemma memcpy_disjoint:
  assumes "unat d + n \<le> 18446744073709551616" "unat s + n \<le> 18446744073709551616" "unat d + n \<le> unat s \<or> unat s + n \<le> unat d"
  shows "memcpy m d s n v = (if unat d \<le> unat v \<and> unat v < unat d + n then m (s + (v - d)) else m v)"
proof -
  have u: "unat (d + of_nat i) = unat d + i" "unat (s + of_nat i) = unat s + i" if "i < n" for i
    using assms(1,2) that by (intro unat_add_of_nat; simp)+
  have "memcpy m d s n = copied m d s n"
  proof (rule memcpy_copied)
    show "n \<le> 18446744073709551616" using assms(1) by simp
    fix i j assume ij: "j < i" "i < n"
    then have "unat (s + of_nat i) = unat s + i" "unat (d + of_nat j) = unat d + j"
      using u(2) [of i] u(1) [of j] by simp_all
    then have "unat (s + of_nat i) \<noteq> unat (d + of_nat j)" using assms(3) ij by linarith
    then show "s + of_nat i \<noteq> d + of_nat j" by auto
  qed
  then show ?thesis by (simp add: copied_byte [OF assms(1)])
qed

lemma node_okD:
  assumes "node_ok st L n"
  shows "v_private (nodes st n) = n" "unat (v_size (nodes st n)) \<le> unat (rn_data_cap (nodes st n))"
    "unat (rn_data_cap (nodes st n)) \<le> 137438957568"
    "rn_data (nodes st n) = 0 \<Longrightarrow> rn_data_cap (nodes st n) = 0"
    "rn_data (nodes st n) \<noteq> 0 \<Longrightarrow> \<exists>m. (rn_data (nodes st n), m) \<in> L \<and> unat (rn_data_cap (nodes st n)) \<le> m"
    "\<And>i. unat (v_size (nodes st n)) \<le> i \<Longrightarrow> i < unat (rn_data_cap (nodes st n)) \<Longrightarrow> bytes st (rn_data (nodes st n)) i = 0"
  using assms by (auto simp: node_ok_def Let_def word_le_nat_alt split: if_splits)

lemma vmem_more: "heap_state.more (st\<lparr>vmem := v\<rparr>) = heap_state.more st"
  by simp

section \<open>Growing the buffer\<close>

text \<open>
  The buffer before growth is empty or a live block; \<open>krealloc\<close> with the old pointer is
  one operation in both cases.
\<close>

lemma krealloc_more: "krealloc st p n = Some (q, st') \<Longrightarrow> heap_state.more st' = heap_state.more st"
  by (auto simp: krealloc_def Let_def bind_eq_Some_conv kfree_more dest!: kmalloc_more split: if_splits)

lemma krealloc_buffer:
  assumes "heap_ok st L" "p = 0 \<and> c = 0 \<and> B = {} \<or> (\<exists>m. (p, m) \<in> L \<and> c \<le> m \<and> B = {(p, m)})"
    "new_cap \<noteq> 0" "unat new_cap \<le> alloc_limit" "c \<le> unat new_cap"
  obtains (null) st' where "krealloc st p new_cap = Some (0, st')" "heap_ok st' L" "keeps st st' L"
      "\<And>v. unat v < heap_lo \<Longrightarrow> vmem st' v = vmem st v"
  | (block) q k st' where "krealloc st p new_cap = Some (q, st')" "q \<noteq> 0" "unat new_cap \<le> k"
      "heap_ok st' (insert (q, k) (L - B))" "\<forall>b \<in> L - B. apart (q, k) b" "keeps st st' (L - B)"
      "\<And>i. i < c \<Longrightarrow> bytes st' q i = bytes st p i" "\<And>v. unat v < heap_lo \<Longrightarrow> vmem st' v = vmem st v"
  using assms(2)
proof (elim disjE exE conjE)
  assume p: "p = 0" "c = 0" "B = {}"
  from assms(1,4) show thesis
  proof (cases rule: kmalloc_ok)
    case (null st')
    then show ?thesis using that(1) p by (simp add: krealloc_def)
  next
    case (block q k st')
    then show ?thesis using that(2) [of q st' k] p by (simp add: krealloc_def)
  qed
next
  fix m assume m: "(p, m) \<in> L" "c \<le> m" "B = {(p, m)}"
  from krealloc_ok [OF assms(1) m(1) assms(3,4)]
  obtain q st' where r: "krealloc st p new_cap = Some (q, st')" "keeps st st' (L - {(p, m)})"
    "\<forall>v. unat v < heap_lo \<longrightarrow> vmem st' v = vmem st v"
    "if q = 0 then heap_ok st' L \<and> keeps st st' L
     else \<exists>k \<ge> unat new_cap. heap_ok st' (insert (q, k) (L - {(p, m)})) \<and>
            (\<forall>b \<in> L - {(p, m)}. apart (q, k) b) \<and> (\<forall>i < min m (unat new_cap). bytes st' q i = bytes st p i)" by (elim exE conjE)
  show thesis
  proof (cases "q = 0")
    case True
    then show ?thesis using that(1) r by simp
  next
    case False
    then obtain k where "unat new_cap \<le> k" "heap_ok st' (insert (q, k) (L - {(p, m)}))"
      "\<forall>b \<in> L - {(p, m)}. apart (q, k) b"
      "\<forall>i < min m (unat new_cap). bytes st' q i = bytes st p i" using r(4) by auto
    then show ?thesis using that(2) [OF r(1) False] r(2,3) m(2,3) assms(5) by simp
  qed
qed

lemma unat_new_cap:
  assumes "unat bound \<le> 137438953472"
  shows "unat (ALIGN_UP bound RAMFS_BLOCK) = (unat bound + 4095) div 4096 * 4096"
proof -
  have "unat bound + 4095 < 18446744073709551616" using assms by simp
  then show ?thesis using unat_page_up [of bound] by (simp add: RAMFS_BLOCK_def)
qed

text \<open>Zeroing the new part of the buffer touches no other block.\<close>

lemma grow_memset:
  assumes "heap_ok st (insert (q, k) M)" "\<forall>b \<in> M. apart (q, k) b" "c \<le> n" "unat n \<le> k"
  defines "v \<equiv> memset (vmem st) (q + c) 0 (unat (n - c))"
  shows "\<And>i. i < unat n \<Longrightarrow> v (q + of_nat i) = (if i < unat c then vmem st (q + of_nat i) else 0)"
    "\<And>x. unat x < heap_lo \<Longrightarrow> v x = vmem st x" "keeps st (st\<lparr>vmem := v\<rparr>) M"
proof -
  note sp = heap_ok_span [OF assms(1) insertI1]
  have cn: "unat c \<le> unat n" using assms(3) by (simp add: word_le_nat_alt)
  have nc: "unat (n - c) = unat n - unat c" using assms(3) by (simp add: unat_sub)
  have qc: "unat (q + c) = unat q + unat c" using sp(3) assms(4) cn by (simp add: unat_word_ariths)
  have le: "unat (q + c) + unat (n - c) \<le> 18446744073709551616" using qc nc sp(3) assms(4) cn by simp
  have v: "v x = (if unat q + unat c \<le> unat x \<and> unat x < unat q + unat n then 0 else vmem st x)" for x
    unfolding v_def using memset_fill [of "unat (n - c)" "vmem st" "q + c" 0] le fill_range [OF le, of "vmem st" 0 x] qc nc cn
    by simp
  show "v (q + of_nat i) = (if i < unat c then vmem st (q + of_nat i) else 0)" if "i < unat n" for i
  proof -
    have "unat (q + of_nat i) = unat q + i" using that sp(3) assms(4) by (intro unat_add_of_nat) simp
    then show ?thesis using that by (simp add: v)
  qed
  show "v x = vmem st x" if "unat x < heap_lo" for x using that sp(1) by (simp add: v)
  show "keeps st (st\<lparr>vmem := v\<rparr>) M"
  proof (rule keeps_write [OF assms(1) bspec [OF assms(2)] assms(4)])
    fix x assume "vmem (st\<lparr>vmem := v\<rparr>) x \<noteq> vmem st x"
    then have "unat q \<le> unat x" "unat x - unat q < unat n" by (auto simp: v split: if_splits)
    moreover have "x = q + of_nat (unat x - unat q)"
    proof -
      have "unat (q + of_nat (unat x - unat q)) = unat x"
        using calculation sp(3) assms(4) by (subst unat_add_of_nat) simp_all
      then show ?thesis by (simp add: u64_eq_iff_unat)
    qed
    ultimately show "\<exists>i < unat n. x = q + of_nat i" by blast
  qed
qed

definition others_kept :: "'a fs_state_scheme \<Rightarrow> 'a fs_state_scheme \<Rightarrow> (u64 \<times> nat) set \<Rightarrow> (u64 \<times> nat) set \<Rightarrow> u64 \<Rightarrow> bool" where
  \<comment> \<open>every live block but the one at \<open>p\<close> is still live with the same contents\<close>
  "others_kept st st' L L' p \<longleftrightarrow> {b \<in> L. fst b \<noteq> p} \<subseteq> L' \<and> keeps st st' {b \<in> L. fst b \<noteq> p}"

lemma mem_bytes_cong: "(\<And>i. i < n \<Longrightarrow> m (p + of_nat i) = m' (q + of_nat i)) \<Longrightarrow> mem_bytes m p n = mem_bytes m' q n"
  by (simp add: mem_bytes_def)

lemma ramfs_grow_ok:
  assumes "heap_ok st L" "node_ok st L n" "unat bound \<le> 137438953472"
  obtains (fail) st' where "ramfs_grow st n bound = Some (False, st')" "heap_ok st' L" "node_ok st' L n"
      "file_bytes st' n = file_bytes st n" "keeps st st' L" "\<And>v. unat v < heap_lo \<Longrightarrow> vmem st' v = vmem st v"
  | (grown) st' L' where "ramfs_grow st n bound = Some (True, st')" "heap_ok st' L'" "node_ok st' L' n"
      "file_bytes st' n = file_bytes st n" "unat bound \<le> unat (rn_data_cap (nodes st' n))"
      "v_size (nodes st' n) = v_size (nodes st n)" "\<And>u. u \<noteq> n \<Longrightarrow> nodes st' u = nodes st u"
      "others_kept st st' L L' (rn_data (nodes st n))" "\<And>v. unat v < heap_lo \<Longrightarrow> vmem st' v = vmem st v"
      "rn_data (nodes st' n) \<noteq> 0 \<Longrightarrow> \<exists>m. (rn_data (nodes st' n), m) \<in> L' \<and> unat (rn_data_cap (nodes st' n)) \<le> m \<and>
         (\<forall>b \<in> L. fst b \<noteq> rn_data (nodes st n) \<longrightarrow> apart (rn_data (nodes st' n), m) b)"
proof -
  let ?k = "nodes st n"
  let ?p = "rn_data ?k" and ?c = "rn_data_cap ?k" and ?N = "ALIGN_UP bound RAMFS_BLOCK"
  note k = node_okD [OF assms(2)]
  show thesis
  proof (cases "?c < bound")
    case False
    then have g: "ramfs_grow st n bound = Some (True, st)" by (simp add: ramfs_grow_def Let_def)
    have "unat bound \<le> unat ?c" using False by (simp add: word_less_nat_alt)
    moreover have "\<exists>m. (?p, m) \<in> L \<and> unat ?c \<le> m \<and> (\<forall>b \<in> L. fst b \<noteq> ?p \<longrightarrow> apart (?p, m) b)" if nz: "?p \<noteq> 0"
    proof -
      obtain m where m: "(?p, m) \<in> L" "unat ?c \<le> m" using k(5) [OF nz] by blast
      then show ?thesis using heap_ok_apart [OF assms(1) m(1)] by (intro exI [of _ m]) auto
    qed
    ultimately show ?thesis
      using that(2) [OF g assms(1,2)] by (simp add: others_kept_def keeps_def)
  next
    case True
    then have lt: "unat ?c < unat bound" by (simp add: word_less_nat_alt)
    note N = unat_new_cap [OF assms(3)]
    have bN: "unat bound \<le> unat ?N" "unat ?N \<le> 137438957568" using assms(3) by (simp_all add: N)
    have N0: "?N \<noteq> 0" using bN(1) lt by auto
    have cN: "?c \<le> ?N" "?c < ?N" using bN(1) lt by (simp_all add: word_le_nat_alt word_less_nat_alt)
    obtain B where B: "?p = 0 \<and> unat ?c = 0 \<and> B = {} \<or> (\<exists>m. (?p, m) \<in> L \<and> unat ?c \<le> m \<and> B = {(?p, m)})"
      using k(4,5) by (cases "?p = 0") auto
    have Bs: "B \<subseteq> {b. fst b = ?p}" using B by auto
    have Nl: "unat ?N \<le> alloc_limit" "unat ?c \<le> unat ?N" using bN lt by simp_all
    from assms(1) B N0 Nl show ?thesis
    proof (cases rule: krealloc_buffer)
      case (null st1)
      note m = fs_fields_more(1) [OF krealloc_more [OF null(1)]]
      have g: "ramfs_grow st n bound = Some (False, st1)" using True null(1) by (simp add: ramfs_grow_def Let_def)
      have same: "bytes st1 ?p i = bytes st ?p i" if "i < unat ?c" for i
        using null(3) k(4,5) that by (cases "?p = 0") (fastforce simp: keeps_def)+
      then have fb: "file_bytes st1 n = file_bytes st n"
        using k(2) by (auto simp: file_bytes_def m intro: mem_bytes_cong)
      have "node_ok st1 L n" using assms(2) same unfolding node_ok_def Let_def m by auto
      then show ?thesis using that(1) [OF g null(2)] fb null(3,4) by blast
    next
      case (block q m st1)
      note nd = fs_fields_more(1) [OF krealloc_more [OF block(1)]]
      let ?v = "memset (vmem st1) (q + ?c) 0 (unat (?N - ?c))"
      note z = grow_memset [OF block(4,5) cN(1) block(3)]
      let ?s = "set_node (st1\<lparr>vmem := ?v\<rparr>) n (\<lambda>k. k\<lparr>rn_data := q, rn_data_cap := ?N\<rparr>)"
      have g: "ramfs_grow st n bound = Some (True, ?s)"
        using True block(1,2) cN(2) by (simp add: ramfs_grow_def Let_def)
      have ok: "heap_ok ?s (insert (q, m) (L - B))" using block(4) by simp
      have bv: "?v (q + of_nat i) = (if i < unat ?c then bytes st ?p i else 0)" if "i < unat ?N" for i
        using z(1) [OF that] block(7) by simp
      have cb: "unat (v_size ?k) \<le> unat ?N" using k(2) lt bN(1) by simp
      have fb: "file_bytes ?s n = file_bytes st n"
        unfolding file_bytes_def using bv k(2) cb by (auto simp: nd intro!: mem_bytes_cong)
      have nok: "node_ok ?s (insert (q, m) (L - B)) n"
        unfolding node_ok_def Let_def using k(1,2,6) cb bN(2) block(2,3) bv
        by (auto simp: nd word_le_nat_alt)
      have "keeps st (st1\<lparr>vmem := ?v\<rparr>) (L - B)" by (rule keeps_trans [OF block(6) z(3)])
      then have "keeps st ?s (L - B)" by (simp add: keeps_def)
      moreover have "{b \<in> L. fst b \<noteq> ?p} \<subseteq> L - B" using Bs by auto
      ultimately have ot: "others_kept st ?s L (insert (q, m) (L - B)) ?p"
        unfolding others_kept_def by (blast intro: keeps_mono)
      have low: "vmem ?s v = vmem st v" if "unat v < heap_lo" for v
        using z(2) [OF that] block(8) [OF that] by simp
      have "\<exists>m'. (q, m') \<in> insert (q, m) (L - B) \<and> unat ?N \<le> m' \<and> (\<forall>b \<in> L. fst b \<noteq> ?p \<longrightarrow> apart (q, m') b)"
        using block(3,5) Bs by (intro exI [of _ m]) auto
      then show ?thesis
        by (intro that(2) [OF g ok nok fb _ _ _ ot low]) (use bN(1) in \<open>simp_all add: nd\<close>)
    qed
  qed
qed

section \<open>Writing\<close>

lemma write_bytes:
  assumes "outside_heap buf n" "heap_lo \<le> unat p" "unat p + off + n \<le> heap_hi"
  shows "memcpy m (p + of_nat off) buf n v =
    (if unat p + off \<le> unat v \<and> unat v < unat p + off + n then m (buf + of_nat (unat v - (unat p + off))) else m v)"
proof -
  have d: "unat (p + of_nat off) = unat p + off" using assms(3) by (intro unat_add_of_nat) simp
  have b: "unat buf + n \<le> heap_lo" using assms(1) by (simp add: outside_heap_def)
  have "v - (p + of_nat off) = of_nat (unat v - (unat p + off))" if "unat p + off \<le> unat v"
  proof -
    have "v = p + of_nat off + of_nat (unat v - (unat p + off))"
      using that d by (simp add: u64_eq_iff_unat unat_add_of_nat)
    then show ?thesis by (simp add: algebra_simps)
  qed
  then show ?thesis using memcpy_disjoint [of "p + of_nat off" n buf m v] d b assms(2,3) by auto
qed

lemma spec_write_nth:
  "length (spec_write c off d) = max (length c) (off + length d)"
  "i < max (length c) (off + length d) \<Longrightarrow> spec_write c off d ! i =
     (if off \<le> i \<and> i < off + length d then d ! (i - off) else if i < length c then c ! i else 0)"
  by (simp_all add: spec_write_def)

lemma mem_bytes_nth [simp]: "length (mem_bytes m p n) = n" "i < n \<Longrightarrow> mem_bytes m p n ! i = m (p + of_nat i)"
  by (simp_all add: mem_bytes_def)

text \<open>Writing into a buffer that is large enough.\<close>

lemma write_in_place:
  assumes "heap_ok st L" "node_ok st L n" "outside_heap buf (unat len)"
    "unat off + unat len \<le> unat (rn_data_cap (nodes st n))" "len \<noteq> 0"
  defines "st1 \<equiv> st\<lparr>vmem := memcpy (vmem st) (rn_data (nodes st n) + off) buf (unat len)\<rparr>"
  defines "st2 \<equiv> (if v_size (nodes st1 n) < off + len then set_node st1 n (\<lambda>k. k\<lparr>v_size := off + len\<rparr>) else st1)"
  shows "heap_ok st2 L" "node_ok st2 L n"
    "file_bytes st2 n = spec_write (file_bytes st n) (unat off) (mem_bytes (vmem st) buf (unat len))"
    "(rn_data (nodes st n), m) \<in> L \<Longrightarrow> unat (rn_data_cap (nodes st n)) \<le> m \<Longrightarrow> keeps st st2 (L - {(rn_data (nodes st n), m)})"
proof -
  let ?k = "nodes st n"
  let ?p = "rn_data ?k" and ?c = "rn_data_cap ?k"
  note k = node_okD [OF assms(2)]
  have l0: "0 < unat len" using assms(5) by (simp add: unat_gt_0)
  have p0: "?p \<noteq> 0" using k(4) assms(4) l0 by auto
  then obtain m0 where m0: "(?p, m0) \<in> L" "unat ?c \<le> m0" using k(5) by blast
  note sp = heap_ok_span [OF assms(1) m0(1)]
  have ub: "unat (off + len) = unat off + unat len" using assms(4) k(3) by (simp add: unat_word_ariths)
  have hi: "unat ?p + unat off + unat len \<le> heap_hi" using sp(3) m0(2) assms(4) by simp
  have v1: "vmem st1 v = (if unat ?p + unat off \<le> unat v \<and> unat v < unat ?p + unat off + unat len
      then vmem st (buf + of_nat (unat v - (unat ?p + unat off))) else vmem st v)" for v
    unfolding st1_def using write_bytes [OF assms(3) sp(1) hi, of "vmem st" v] by simp
  have un: "unat (?p + of_nat i) = unat ?p + i" if "i < unat ?c" for i
    using that sp(3) m0(2) by (intro unat_add_of_nat) simp
  have by1: "bytes st1 ?p i = (if unat off \<le> i \<and> i < unat off + unat len then vmem st (buf + of_nat (i - unat off))
      else bytes st ?p i)" if "i < unat ?c" for i
    unfolding v1 un [OF that] by simp
  have nd: "nodes st2 n = ?k\<lparr>v_size := (if v_size ?k < off + len then off + len else v_size ?k)\<rparr>" "vmem st2 = vmem st1"
    by (simp_all add: st2_def st1_def)
  have sz: "unat (v_size (nodes st2 n)) = max (unat (v_size ?k)) (unat off + unat len)"
    by (auto simp: nd word_less_nat_alt ub)
  have szc: "unat (v_size (nodes st2 n)) \<le> unat ?c" using sz k(2) assms(4) by simp
  show "heap_ok st2 L" using assms(1) by (simp add: st2_def st1_def)
  have zero: "bytes st2 ?p i = 0" if "unat (v_size (nodes st2 n)) \<le> i" "i < unat ?c" for i
    using that sz by1 [OF that(2)] k(6) [of i] by (simp add: nd(2))
  show "node_ok st2 L n"
    unfolding node_ok_def Let_def using zero szc k(1,3) p0 m0 sz by (auto simp: nd word_le_nat_alt)
  show "file_bytes st2 n = spec_write (file_bytes st n) (unat off) (mem_bytes (vmem st) buf (unat len))"
  proof (rule nth_equalityI)
    show "length (file_bytes st2 n) = length (spec_write (file_bytes st n) (unat off) (mem_bytes (vmem st) buf (unat len)))"
      using sz by (simp add: file_bytes_def spec_write_nth(1))
    fix i assume "i < length (file_bytes st2 n)"
    then have i: "i < unat (v_size (nodes st2 n))" "i < unat ?c" using szc by (simp_all add: file_bytes_def)
    then have "i < max (unat (v_size ?k)) (unat off + unat len)" using sz by simp
    then have "spec_write (file_bytes st n) (unat off) (mem_bytes (vmem st) buf (unat len)) ! i =
        (if unat off \<le> i \<and> i < unat off + unat len then mem_bytes (vmem st) buf (unat len) ! (i - unat off)
         else if i < unat (v_size ?k) then bytes st ?p i else 0)"
      by (simp add: file_bytes_def spec_write_nth(2))
    moreover have "mem_bytes (vmem st) buf (unat len) ! (i - unat off) = vmem st (buf + of_nat (i - unat off))"
      if "unat off \<le> i" "i < unat off + unat len" using that by (intro mem_bytes_nth(2)) simp
    moreover have "file_bytes st2 n ! i = bytes st1 ?p i" using i(1) by (simp add: file_bytes_def nd)
    moreover have "bytes st ?p i = 0" if "\<not> i < unat (v_size ?k)" using that k(6) [OF _ i(2)] by simp
    ultimately show "file_bytes st2 n ! i = spec_write (file_bytes st n) (unat off) (mem_bytes (vmem st) buf (unat len)) ! i"
      unfolding by1 [OF i(2)] by presburger
  qed
  show "keeps st st2 (L - {(?p, m)})" if mL: "(?p, m) \<in> L" "unat ?c \<le> m"
  proof (rule keeps_write [where n = "unat ?c"])
    have "insert (?p, m) (L - {(?p, m)}) = L" using mL by auto
    then show "heap_ok st (insert (?p, m) (L - {(?p, m)}))" using assms(1) by simp
    show "apart (?p, m) b" if "b \<in> L - {(?p, m)}" for b using heap_ok_apart [OF assms(1) mL(1)] that by blast
    show "unat ?c \<le> m" by (rule mL(2))
    fix x assume "vmem st2 x \<noteq> vmem st x"
    then have x: "unat ?p + unat off \<le> unat x" "unat x < unat ?p + unat off + unat len"
      by (auto simp: nd v1 split: if_splits)
    have "x = ?p + of_nat (unat x - unat ?p)"
      using x hi by (simp add: u64_eq_iff_unat unat_add_of_nat)
    moreover have "unat x - unat ?p < unat ?c" using x assms(4) by simp
    ultimately show "\<exists>i < unat ?c. x = ?p + of_nat i" by blast
  qed
qed

text \<open>
  C13: writing refines the list specification.  A write of \<open>len\<close> bytes at offset \<open>off\<close> (up to
  128 GB) from memory outside the kernel heap returns.  It answers -12 and leaves the file as it was
  when the buffer cannot grow, or it answers \<open>len\<close> and the contents are the old ones, padded
  with zeros up to \<open>off\<close>, with the bytes written there; the file stays well formed and
  no other live heap block changes.
\<close>

theorem ramfs_write_refines:
  assumes "heap_ok st L" "node_ok st L n" "outside_heap buf (unat len)" "unat off + unat len \<le> 137438953472" "len \<noteq> 0"
  shows "\<exists>r st'. ramfs_write st n buf len off = Some (r, st') \<and>
    (if r = - 12 then file_bytes st' n = file_bytes st n \<and> heap_ok st' L \<and> node_ok st' L n
     else r = int (unat len) \<and> (\<exists>L'. heap_ok st' L' \<and> node_ok st' L' n \<and> others_kept st st' L L' (rn_data (nodes st n))) \<and>
       file_bytes st' n = spec_write (file_bytes st n) (unat off) (mem_bytes (vmem st) buf (unat len)))"
proof -
  have pv: "v_private (nodes st n) = n" using node_okD(1) [OF assms(2)] .
  have ub: "unat (off + len) = unat off + unat len" using assms(4) by (simp add: unat_word_ariths)
  have ub': "unat (off + len) \<le> 137438953472" using ub assms(4) by simp
  have sl: "sint len = int (unat len)" using assms(4) by (intro sint_small) simp
  from assms(1,2) ub' show ?thesis
  proof (cases rule: ramfs_grow_ok)
    case (fail st1)
    then show ?thesis by (simp add: ramfs_write_def Let_def pv)
  next
    case (grown st1 L1)
    let ?p1 = "rn_data (nodes st1 n)"
    have cap: "unat off + unat len \<le> unat (rn_data_cap (nodes st1 n))" using grown(5) ub by simp
    define s1 where "s1 = st1\<lparr>vmem := memcpy (vmem st1) (?p1 + off) buf (unat len)\<rparr>"
    define s2 where "s2 = (if v_size (nodes s1 n) < off + len then set_node s1 n (\<lambda>k. k\<lparr>v_size := off + len\<rparr>) else s1)"
    note w = write_in_place [OF grown(2,3) assms(3) cap assms(5), folded s1_def, folded s2_def]
    have r: "ramfs_write st n buf len off = Some (int (unat len), s2)"
      using grown(1) pv sl by (simp add: ramfs_write_def Let_def s2_def s1_def)
    have mb: "mem_bytes (vmem st1) buf (unat len) = mem_bytes (vmem st) buf (unat len)"
      using grown(9) outside_heap_byte(2) [OF assms(3)] by (intro mem_bytes_cong) simp
    have p0: "?p1 \<noteq> 0" using node_okD(4) [OF grown(3)] cap assms(5) by (auto simp: unat_eq_zero)
    obtain m where m: "(?p1, m) \<in> L1" "unat (rn_data_cap (nodes st1 n)) \<le> m"
      "\<forall>b \<in> L. fst b \<noteq> rn_data (nodes st n) \<longrightarrow> apart (?p1, m) b" using grown(10) [OF p0] by blast
    have "0 < m" using m(2) cap assms(5) by (metis add_gr_0 leD le_trans linorder_not_less neq0_conv unat_eq_zero)
    then have "(?p1, m) \<notin> {b \<in> L. fst b \<noteq> rn_data (nodes st n)}" using m(3) by (force simp: apart_def)
    then have "{b \<in> L. fst b \<noteq> rn_data (nodes st n)} \<subseteq> L1 - {(?p1, m)}" using grown(8) by (auto simp: others_kept_def)
    then have "others_kept st s2 L L1 (rn_data (nodes st n))"
      using grown(8) w(4) [OF m(1,2)] unfolding others_kept_def by (blast intro: keeps_mono keeps_trans)
    moreover have "int (unat len) \<noteq> - 12" by linarith
    ultimately show ?thesis using r w(1,2,3) mb grown(4) by auto
  qed
qed

section \<open>Reading\<close>

text \<open>
  C14: reading refines the list specification.  A read at offset \<open>off\<close> into memory outside the
  kernel heap answers the number of bytes there are from \<open>off\<close> on, at most \<open>len\<close>, stores
  exactly those bytes of the file at the buffer, and changes no file.
\<close>

theorem ramfs_read_refines:
  assumes "heap_ok st L" "node_ok st L n" "outside_heap buf (unat len)" "unat off + unat len < 18446744073709551616"
  shows "case ramfs_read st n buf len off of (r, st') \<Rightarrow>
    r = int (min (unat len) (length (file_bytes st n) - unat off)) \<and>
    mem_bytes (vmem st') buf (nat r) = take (unat len) (drop (unat off) (file_bytes st n)) \<and>
    nodes st' = nodes st \<and> heap_ok st' L \<and> keeps st st' L \<and> file_bytes st' n = file_bytes st n"
proof -
  let ?k = "nodes st n"
  let ?p = "rn_data ?k" and ?s = "v_size ?k"
  note k = node_okD [OF assms(2)]
  have lf: "length (file_bytes st n) = unat ?s" by (simp add: file_bytes_def)
  show ?thesis
  proof (cases "?s \<le> off")
    case True
    then have "unat ?s \<le> unat off" by (simp add: word_le_nat_alt)
    then show ?thesis using True assms(1) lf by (simp add: ramfs_read_def Let_def keeps_def mem_bytes_def)
  next
    case False
    then have so: "unat off < unat ?s" by (simp add: word_le_nat_alt)
    then have p0: "?p \<noteq> 0" using k(2,4) by auto
    then obtain m where m: "(?p, m) \<in> L" "unat (rn_data_cap ?k) \<le> m" using k(5) by blast
    note sp = heap_ok_span [OF assms(1) m(1)]
    define l where "l = (if ?s < off + len then ?s - off else len)"
    have ul: "unat l = min (unat len) (unat ?s - unat off)"
      using so assms(4) by (auto simp: l_def word_less_nat_alt unat_sub word_le_nat_alt unat_word_ariths min_def)
    define st' where "st' = st\<lparr>vmem := memcpy (vmem st) buf (?p + off) (unat l)\<rparr>"
    have po: "unat (?p + off) = unat ?p + unat off" using sp(3) m(2) k(2) so by (simp add: unat_word_ariths)
    have b: "unat buf + unat l \<le> heap_lo" using assms(3) ul by (simp add: outside_heap_def)
    have v: "vmem st' x = (if unat buf \<le> unat x \<and> unat x < unat buf + unat l then vmem st (?p + off + (x - buf)) else vmem st x)" for x
      unfolding st'_def using memcpy_disjoint [of buf "unat l" "?p + off" "vmem st" x] b po sp(1,3) m(2) k(2) so ul by simp
    have sl: "sint l = int (unat l)" using ul k(2,3) by (intro sint_small) simp
    have r: "ramfs_read st n buf len off = (int (unat l), st')"
      using False sl by (simp add: ramfs_read_def Let_def k(1) l_def [symmetric] st'_def)
    have mb: "mem_bytes (vmem st') buf (unat l) = take (unat len) (drop (unat off) (file_bytes st n))"
    proof (rule nth_equalityI)
      show "length (mem_bytes (vmem st') buf (unat l)) = length (take (unat len) (drop (unat off) (file_bytes st n)))"
        by (simp add: lf ul)
      fix i assume "i < length (mem_bytes (vmem st') buf (unat l))"
      then have i: "i < unat l" by simp
      have "unat (buf + of_nat i) = unat buf + i" using i b by (intro unat_add_of_nat) simp
      then have "vmem st' (buf + of_nat i) = vmem st (?p + off + of_nat i)" using i by (simp add: v)
      moreover have "?p + off + of_nat i = ?p + of_nat (unat off + i)" by (simp add: algebra_simps)
      moreover have "unat off + i < unat ?s" using i ul so by linarith
      ultimately show "mem_bytes (vmem st') buf (unat l) ! i = take (unat len) (drop (unat off) (file_bytes st n)) ! i"
        using i ul so by (simp add: file_bytes_def)
    qed
    have low: "unat x < heap_lo" if "vmem st' x \<noteq> vmem st x" for x using that b by (auto simp: v split: if_splits)
    have kp: "keeps st st' L"
    proof (unfold keeps_def, intro ballI, clarify)
      fix q mm i assume q: "(q, mm) \<in> L" "i < mm"
      have "heap_lo \<le> unat (q + of_nat i)"
        using heap_ok_byte(1) [OF assms(1) q] heap_ok_span(1) [OF assms(1) q(1)] by simp
      then show "bytes st' q i = bytes st q i" using low by (meson leD)
    qed
    have "file_bytes st' n = file_bytes st n"
      using kp m k(2) by (auto simp: file_bytes_def st'_def keeps_def intro!: mem_bytes_cong)
    then show ?thesis using r mb kp lf ul assms(1) by (simp add: st'_def)
  qed
qed

section \<open>A small file system\<close>

abbreviation demo_block :: u64 where "demo_block \<equiv> HEAP_VIRT_BASE + 0x4020"

definition fs_demo :: "(u64 \<Rightarrow> ramfs_node) \<Rightarrow> fs_state" where
  \<comment> \<open>the nodes given, over a scheduler running the task at 0x2000 and a heap with one live block\<close>
  "fs_demo k = proc_state.extend (proc_demo (sched_base 0x2000))
     (fs_state.fields k (\<lambda>_. \<lparr>f_node = 0, f_offset = 0, f_flags = 0, f_refcount = 0\<rparr>) [(''/'', demo_block)]
       (replicate VFS_FD_MAX 0) 1)"

definition demo_dir :: "u64 list \<Rightarrow> u64 \<Rightarrow> ramfs_node" where
  \<comment> \<open>a directory in the live block and files a at 0x7000 and b at 0x8000\<close>
  "demo_dir cs = (\<lambda>_. zero_node)
     (demo_block := zero_node\<lparr>v_flags := VFS_TYPE_DIR, v_ops := RAMFS_DIR_OPS, v_private := demo_block, rn_children := cs\<rparr>,
      0x7000 := zero_node\<lparr>v_name := ''a'', v_flags := VFS_TYPE_FILE, v_ops := RAMFS_FILE_OPS, v_private := 0x7000\<rparr>,
      0x8000 := zero_node\<lparr>v_name := ''b'', v_flags := VFS_TYPE_FILE, v_ops := RAMFS_FILE_OPS, v_private := 0x8000,
        v_size := 4, rn_data := demo_block, rn_data_cap := 4\<rparr>)"

lemma fs_demo_sel:
  "nodes (fs_demo k) = k" "mount_table (fs_demo k) = [(''/'', demo_block)]" "current_task (fs_demo k) = 0x2000"
  "tasks (fs_demo k) = tasks (sched_base 0x2000)"
  by (simp_all add: fs_demo_def proc_state.defs fs_state.defs proc_demo_sel sched_base_sel)

lemma fs_demo_heap: "heap_ok (fs_demo k) {(demo_block, 4064)}"
proof -
  have "heap_ok (fs_demo k) {(demo_block, 4064)} = heap_ok (proc_demo (sched_base 0x2000)) {(demo_block, 4064)}"
    by (rule heap_ok_cong) (simp_all add: fs_demo_def proc_state.defs)
  then show ?thesis using heap_demo_ok by (simp add: proc_demo_heap sched_base_def heap_ok_extend)
qed

lemma demo_dir_nodes:
  "demo_dir cs demo_block = zero_node\<lparr>v_flags := VFS_TYPE_DIR, v_ops := RAMFS_DIR_OPS, v_private := demo_block, rn_children := cs\<rparr>"
  "demo_dir cs 0x7000 = zero_node\<lparr>v_name := ''a'', v_flags := VFS_TYPE_FILE, v_ops := RAMFS_FILE_OPS, v_private := 0x7000\<rparr>"
  "demo_dir cs 0x8000 = zero_node\<lparr>v_name := ''b'', v_flags := VFS_TYPE_FILE, v_ops := RAMFS_FILE_OPS, v_private := 0x8000,
        v_size := 4, rn_data := demo_block, rn_data_cap := 4\<rparr>"
  by (simp_all add: demo_dir_def HEAP_VIRT_BASE_def)

theorem vfs_lookup_root_only_witness:
  "mount_table (fs_demo (demo_dir [])) = [(''/'', demo_block)] \<and> vfs_lookup (fs_demo (demo_dir [])) ''/'' = demo_block \<and>
   vfs_lookup (fs_demo (demo_dir [])) ''/dev'' = 0"
proof -
  have "cstr ''/''" "cstr ''/dev''" by (simp_all add: cstr_iff NUL_def)
  note vfs_lookup_root_only [OF fs_demo_sel(2) this(1)] vfs_lookup_root_only [OF fs_demo_sel(2) this(2)]
  then show ?thesis by (simp add: fs_demo_sel)
qed

theorem ramfs_create_lookup_witness:
  "heap_ok (fs_demo (demo_dir [])) {(demo_block, 4064)} \<and>
   (\<exists>r st'. ramfs_create (fs_demo (demo_dir [])) demo_block ''new'' 0 = Some (r, st') \<and>
      (r \<noteq> 0 \<or> ramfs_lookup st' demo_block ''new'' \<noteq> 0))"
proof -
  have d: "dir_ok (fs_demo (demo_dir [])) {(demo_block, 4064)} demo_block"
    by (auto simp: dir_ok_def fs_demo_sel demo_dir_nodes)
  have n: "cstr ''new''" "length ''new'' \<le> VFS_NAME_MAX" by (simp_all add: cstr_iff NUL_def VFS_NAME_MAX_def)
  have l0: "ramfs_lookup (fs_demo (demo_dir [])) demo_block ''new'' = 0"
    by (simp add: ramfs_lookup_def fs_demo_sel demo_dir_nodes zero_node_def)
  obtain r st' where "ramfs_create (fs_demo (demo_dir [])) demo_block ''new'' 0 = Some (r, st')"
    "r = 0 \<Longrightarrow> ramfs_lookup st' demo_block ''new'' \<noteq> 0"
    using ramfs_create_lookup [OF fs_demo_heap d n, of 0] by (elim exE conjE) (auto simp: l0 split: if_splits)
  then show ?thesis using fs_demo_heap by blast
qed

theorem ramfs_unlink_lookup_witness:
  "ramfs_lookup (fs_demo (demo_dir [0x7000, 0x8000])) demo_block ''a'' = 0x7000 \<and>
   rn_children (nodes (snd (ramfs_unlink (fs_demo (demo_dir [0x7000, 0x8000])) demo_block ''a'')) demo_block) = [0x8000]"
proof -
  let ?st = "fs_demo (demo_dir [0x7000, 0x8000])"
  have d: "dir_ok ?st {(demo_block, 1), (0x7000, 1), (0x8000, 1)} demo_block"
    by (auto simp: dir_ok_def fs_demo_sel demo_dir_nodes cstr_iff NUL_def)
  have n: "cstr ''a''" "distinct (map (\<lambda>c. v_name (nodes ?st c)) (rn_children (nodes ?st demo_block)))"
    by (simp_all add: cstr_iff NUL_def fs_demo_sel demo_dir_nodes)
  have l: "ramfs_lookup ?st demo_block ''a'' = 0x7000"
    by (simp add: ramfs_lookup_def fs_demo_sel demo_dir_nodes strcmp_0_iff cstr_iff NUL_def)
  show ?thesis using ramfs_unlink_lookup [OF d n] l
    by (simp add: fs_demo_sel demo_dir_nodes split: prod.splits)
qed

theorem fd_alloc_lowest_witness:
  "current_task (fs_demo (demo_dir [])) \<noteq> 0 \<and>
   length (t_fds (tasks (fs_demo (demo_dir [])) (current_task (fs_demo (demo_dir []))))) = MAX_FDS \<and>
   fst (fd_alloc (fs_demo (demo_dir [])) 0x9000) = 0"
proof -
  let ?st = "fs_demo (demo_dir [])"
  have c: "current_task ?st \<noteq> 0" "length (t_fds (tasks ?st (current_task ?st))) = MAX_FDS" "(0x9000 :: u64) \<noteq> 0"
    by (simp_all add: fs_demo_sel sched_base_sel zero_task_def)
  have "fd_get ?st 0 = 0"
    by (simp add: fd_get_def fs_demo_sel sched_base_sel zero_task_def MAX_FDS_def)
  then show ?thesis using fd_alloc_lowest [OF c] c
    by (force simp: MAX_FDS_def split: prod.splits if_splits)
qed

theorem vfs_open_other_fails_witness:
  "\<exists>r st'. vfs_open (fs_demo (demo_dir [])) ''/new'' O_CREAT 0 = Some (r, st') \<and> r < 0"
proof -
  have "cstr ''/new''" "''/new'' \<noteq> ''/''" by (simp_all add: cstr_iff NUL_def)
  then show ?thesis by (rule vfs_open_other_fails [OF fs_demo_sel(2) _ _ fs_demo_heap])
qed

theorem ramfs_write_refines_witness:
  "node_ok (fs_demo (demo_dir [])) {(demo_block, 4064)} 0x7000 \<and>
   (\<exists>r st'. ramfs_write (fs_demo (demo_dir [])) 0x7000 0x5000 5 3 = Some (r, st') \<and>
     (r = - 12 \<or> length (file_bytes st' 0x7000) = 8))"
proof -
  let ?st = "fs_demo (demo_dir [])"
  have n: "node_ok ?st {(demo_block, 4064)} 0x7000"
    by (simp add: node_ok_def fs_demo_sel demo_dir_nodes zero_node_def)
  have o: "outside_heap 0x5000 (unat (5 :: u64))" "unat (3 :: u64) + unat (5 :: u64) \<le> 137438953472" "(5 :: u64) \<noteq> 0"
    by (simp_all add: outside_heap_def)
  have l: "length (file_bytes ?st 0x7000) = 0"
    by (simp add: file_bytes_def fs_demo_sel demo_dir_nodes zero_node_def)
  show ?thesis using ramfs_write_refines [OF fs_demo_heap n o] n l
    by (auto simp: spec_write_nth split: if_splits)
qed

theorem ramfs_read_refines_witness:
  "node_ok (fs_demo (demo_dir [])) {(demo_block, 4064)} 0x8000 \<and>
   fst (ramfs_read (fs_demo (demo_dir [])) 0x8000 0x5000 10 1) = 3"
proof -
  let ?st = "fs_demo (demo_dir [])"
  have n: "node_ok ?st {(demo_block, 4064)} 0x8000"
    by (auto simp: node_ok_def fs_demo_sel demo_dir_nodes zero_node_def HEAP_VIRT_BASE_def)
  have o: "outside_heap 0x5000 (unat (10 :: u64))" "unat (1 :: u64) + unat (10 :: u64) < 18446744073709551616"
    by (simp_all add: outside_heap_def)
  have l: "length (file_bytes ?st 0x8000) = 4"
    by (simp add: file_bytes_def fs_demo_sel demo_dir_nodes)
  show ?thesis using ramfs_read_refines [OF fs_demo_heap n o] n l by (simp split: prod.splits)
qed

end
