(* ===== verification/Printf.thy ===== *)
theory Printf
  imports CString "HOL-Library.Monad_Syntax"
begin

text \<open>
  The kernel's formatter, \<^verbatim>\<open>kernel/lib/printf.c\<close>.  The output buffer is the list of the
  characters stored so far; a position is its length.  A variadic argument is an
  eight-byte slot or a string pointer.

  The macro \<^verbatim>\<open>OUT(c)\<close> evaluates its argument inside the guarded assignment, so that
  \<^verbatim>\<open>OUT(*fmt++)\<close> and \<^verbatim>\<open>OUT(*s++)\<close> advance only while the buffer has room: the two loops over the
  format and over a string argument are then without end.  They are partial functions, whose
  \<^const>\<open>None\<close> is a loop that never returns.  What C leaves undefined (an argument that is not there or of
  the wrong kind, a format that ends inside a directive, an \<^verbatim>\<open>int\<close> or \<^verbatim>\<open>int64_t\<close> that overflows) is an
  error value.
\<close>

section \<open>Definitions\<close>

datatype va_arg = Slot u64 | Str "string option"

datatype fmt_error = Missing_arg | Wrong_arg | Cut_format | Width_overflow | Negate_overflow

definition OUT :: "u64 \<Rightarrow> string \<Rightarrow> char \<Rightarrow> string" where
  \<comment> \<open>\<^verbatim>\<open>OUT(c)\<close> for an argument without side effect\<close>
  "OUT sz buf c = (if length buf < unat (sz - 1) then buf @ [c] else buf)"

definition OUT_next :: "u64 \<Rightarrow> string \<Rightarrow> string \<Rightarrow> string \<times> string" where
  \<comment> \<open>\<^verbatim>\<open>OUT(*p++)\<close>: the pointer moves only when the character is stored\<close>
  "OUT_next sz buf p = (if length buf < unat (sz - 1) then (buf @ [deref p], tl p) else (buf, p))"

definition digits_lo :: string where "digits_lo = ''0123456789abcdef''"
definition digits_hi :: string where "digits_hi = ''0123456789ABCDEF''"

function uint_digits :: "string \<Rightarrow> nat \<Rightarrow> nat \<Rightarrow> string" where
  \<comment> \<open>\<^verbatim>\<open>while (v) { tmp[len++] = digits[v % base]; v /= base; }\<close>; the callers pass 10 and 16, a
      base below 2 would not end\<close>
  "uint_digits digits base v =
     (if v = 0 \<or> base < 2 then [] else digits ! (v mod base) # uint_digits digits base (v div base))"
  by pat_completeness auto
termination
  by (relation "measure (\<lambda>(digits, base, v). v)") auto

declare uint_digits.simps [simp del]

fun put_pad :: "u64 \<Rightarrow> string \<Rightarrow> char \<Rightarrow> nat \<Rightarrow> string" where
  "put_pad sz buf pad 0 = buf"
| "put_pad sz buf pad (Suc n) = put_pad sz (OUT sz buf pad) pad n"

fun put_reverse :: "u64 \<Rightarrow> string \<Rightarrow> string \<Rightarrow> nat \<Rightarrow> string" where
  \<comment> \<open>\<^verbatim>\<open>for (int i = len - 1; i >= 0; i--)\<close>\<close>
  "put_reverse sz buf tmp 0 = buf"
| "put_reverse sz buf tmp (Suc i) = put_reverse sz (OUT sz buf (tmp ! i)) tmp i"

definition put_uint :: "u64 \<Rightarrow> string \<Rightarrow> u64 \<Rightarrow> nat \<Rightarrow> bool \<Rightarrow> nat \<Rightarrow> bool \<Rightarrow> string" where
  "put_uint sz buf val base upper width zero_pad =
     (let digits = (if upper then digits_hi else digits_lo);
          tmp = (if val = 0 then ''0'' else uint_digits digits base (unat val));
          pad = (if zero_pad then CHR ''0'' else CHR '' '');
          buf1 = put_pad sz buf pad (width - length tmp)
      in put_reverse sz buf1 tmp (length tmp))"

definition is_digit :: "char \<Rightarrow> bool" where
  "is_digit c \<longleftrightarrow> 48 \<le> (of_char c :: nat) \<and> (of_char c :: nat) \<le> 57"

lemma is_digit_cons [termination_simp]: "is_digit (deref s) \<Longrightarrow> length s - Suc 0 < length s"
  by (cases s) (auto simp: is_digit_def NUL_def)

definition INT_MAX :: nat where "INT_MAX = 2 ^ 31 - 1"

fun fmt_width :: "nat \<Rightarrow> string \<Rightarrow> fmt_error + nat \<times> string" where
  \<comment> \<open>\<^verbatim>\<open>while (*fmt >= '0' && *fmt <= '9') width = width * 10 + (*fmt++ - '0')\<close> on an \<^verbatim>\<open>int\<close>\<close>
  "fmt_width width fmt =
     (if is_digit (deref fmt) then
        if width * 10 + (of_char (deref fmt) - 48) \<le> INT_MAX
        then fmt_width (width * 10 + (of_char (deref fmt) - 48)) (tl fmt)
        else Inl Width_overflow
      else Inr (width, fmt))"

definition fmt_long :: "string \<Rightarrow> bool \<times> string" where
  \<comment> \<open>the length modifiers\<close>
  "fmt_long f2 =
     (let (long1, f3) = (if deref f2 = CHR ''l''
            then (True, if deref (tl f2) = CHR ''l'' then tl (tl f2) else tl f2) else (False, f2))
      in if deref f3 = CHR ''z'' then (True, tl f3) else (long1, f3))"

definition fmt_flags :: "string \<Rightarrow> fmt_error + bool \<times> nat \<times> bool \<times> string" where
  \<comment> \<open>zero flag, width and length modifier in front of the conversion character\<close>
  "fmt_flags fmt =
     (let (zero_pad, f1) = (if deref fmt = CHR ''0'' then (True, tl fmt) else (False, fmt))
      in case fmt_width 0 f1 of
           Inl e \<Rightarrow> Inl e
         | Inr (width, f2) \<Rightarrow> (case fmt_long f2 of (is_long, f4) \<Rightarrow> Inr (zero_pad, width, is_long, f4)))"

fun va_slot :: "va_arg list \<Rightarrow> fmt_error + u64 \<times> va_arg list" where
  "va_slot [] = Inl Missing_arg"
| "va_slot (Slot v # r) = Inr (v, r)"
| "va_slot (Str s # r) = Inl Wrong_arg"

fun va_str :: "va_arg list \<Rightarrow> fmt_error + string option \<times> va_arg list" where
  "va_str [] = Inl Missing_arg"
| "va_str (Slot v # r) = Inl Wrong_arg"
| "va_str (Str s # r) = Inr (s, r)"

definition va_uint :: "bool \<Rightarrow> u64 \<Rightarrow> u64" where
  \<comment> \<open>\<^verbatim>\<open>is_long ? va_arg(ap, unsigned long long) : va_arg(ap, unsigned int)\<close>\<close>
  "va_uint is_long v = (if is_long then v else ucast (ucast v :: u32))"

definition va_int :: "bool \<Rightarrow> u64 \<Rightarrow> u64" where
  "va_int is_long v = (if is_long then v else scast (ucast v :: u32))"

partial_function (option) put_str :: "u64 \<Rightarrow> string \<Rightarrow> string \<Rightarrow> string option" where
  \<comment> \<open>\<^verbatim>\<open>while (*s) OUT(*s++)\<close>\<close>
  "put_str sz buf s =
     (if deref s \<noteq> NUL then case OUT_next sz buf s of (buf', s') \<Rightarrow> put_str sz buf' s' else Some buf)"

declare fmt_width.simps [simp del]

definition put_conv :: "u64 \<Rightarrow> char \<Rightarrow> bool \<Rightarrow> nat \<Rightarrow> bool \<Rightarrow> va_arg list \<Rightarrow> string \<Rightarrow>
    (fmt_error + va_arg list \<times> string) option" where
  \<comment> \<open>the switch on the conversion character\<close>
  "put_conv sz c zero_pad width is_long ap buf =
     (if c = CHR ''d'' \<or> c = CHR ''i'' then
        (case va_slot ap of Inl e \<Rightarrow> Some (Inl e) | Inr (a, r) \<Rightarrow>
          let v = va_int is_long a in
          if v <s 0 then
            if v = 0x8000000000000000 then Some (Inl Negate_overflow)
            else Some (Inr (r, put_uint sz (OUT sz buf (CHR ''-'')) (- v) 10 False width zero_pad))
          else Some (Inr (r, put_uint sz buf v 10 False width zero_pad)))
      else if c = CHR ''u'' then
        (case va_slot ap of Inl e \<Rightarrow> Some (Inl e) | Inr (a, r) \<Rightarrow>
          Some (Inr (r, put_uint sz buf (va_uint is_long a) 10 False width zero_pad)))
      else if c = CHR ''x'' then
        (case va_slot ap of Inl e \<Rightarrow> Some (Inl e) | Inr (a, r) \<Rightarrow>
          Some (Inr (r, put_uint sz buf (va_uint is_long a) 16 False width zero_pad)))
      else if c = CHR ''X'' then
        (case va_slot ap of Inl e \<Rightarrow> Some (Inl e) | Inr (a, r) \<Rightarrow>
          Some (Inr (r, put_uint sz buf (va_uint is_long a) 16 True width zero_pad)))
      else if c = CHR ''p'' then
        (case va_slot ap of Inl e \<Rightarrow> Some (Inl e) | Inr (v, r) \<Rightarrow>
          Some (Inr (r, put_uint sz (OUT sz (OUT sz buf (CHR ''0'')) (CHR ''x'')) v 16 False 16 True)))
      else if c = CHR ''c'' then
        (case va_slot ap of Inl e \<Rightarrow> Some (Inl e) | Inr (v, r) \<Rightarrow> Some (Inr (r, OUT sz buf (char_of (unat v)))))
      else if c = CHR ''s'' then
        (case va_str ap of Inl e \<Rightarrow> Some (Inl e) | Inr (s, r) \<Rightarrow> do {
          buf' \<leftarrow> put_str sz buf (case s of None \<Rightarrow> ''(null)'' | Some t \<Rightarrow> t);
          Some (Inr (r, buf'))
        })
      else if c = CHR ''%'' then Some (Inr (ap, OUT sz buf (CHR ''%'')))
      else if c = NUL then Some (Inl Cut_format)
      else Some (Inr (ap, OUT sz (OUT sz buf (CHR ''%'')) c)))"

partial_function (option) kvsnprintf_loop :: "u64 \<Rightarrow> string \<Rightarrow> va_arg list \<Rightarrow> string \<Rightarrow> (fmt_error + string) option" where
  \<comment> \<open>\<^verbatim>\<open>while (*fmt)\<close>\<close>
  "kvsnprintf_loop sz fmt ap buf =
     (if deref fmt = NUL then Some (Inr buf)
      else if deref fmt \<noteq> CHR ''%'' then
        case OUT_next sz buf fmt of (buf', fmt') \<Rightarrow> kvsnprintf_loop sz fmt' ap buf'
      else case fmt_flags (tl fmt) of
        Inl e \<Rightarrow> Some (Inl e)
      | Inr (zero_pad, width, is_long, rest) \<Rightarrow>
          (case put_conv sz (deref rest) zero_pad width is_long ap buf of
             None \<Rightarrow> None
           | Some r \<Rightarrow>
               (case r of Inl e \<Rightarrow> Some (Inl e) | Inr (ap', buf') \<Rightarrow> kvsnprintf_loop sz (tl rest) ap' buf')))"

definition kvsnprintf :: "u64 \<Rightarrow> u64 \<Rightarrow> string \<Rightarrow> va_arg list \<Rightarrow> (fmt_error + int \<times> string) option" where
  \<comment> \<open>the answer, and the characters stored at \<^verbatim>\<open>buf\<close> with the terminator among them; the address itself
      is only compared with \<^verbatim>\<open>NULL\<close>\<close>
  "kvsnprintf buf sz fmt ap =
     (if buf = 0 \<or> sz = 0 then Some (Inr (0, []))
      else case kvsnprintf_loop sz fmt ap [] of
        None \<Rightarrow> None
      | Some r \<Rightarrow>
          (case r of Inl e \<Rightarrow> Some (Inl e)
           | Inr out \<Rightarrow> Some (Inr (sint (of_nat (length out) :: u32), out @ [NUL]))))"

definition ksnprintf :: "u64 \<Rightarrow> u64 \<Rightarrow> string \<Rightarrow> va_arg list \<Rightarrow> (fmt_error + int \<times> string) option" where
  "ksnprintf buf sz fmt args = kvsnprintf buf sz fmt args"

lemma tl_drop: "tl (drop k xs) = drop (Suc k) xs"
  by (simp add: drop_Suc tl_drop)

lemma fmt_width_drop: "fmt_width w fmt = Inr (v, r) \<Longrightarrow> \<exists>k. r = drop k fmt"
proof (induction w fmt rule: fmt_width.induct)
  case (1 w fmt)
  show ?case
  proof (cases "is_digit (deref fmt)")
    case True
    then have le: "w * 10 + (of_char (deref fmt) - 48) \<le> INT_MAX"
      using 1(2) by (subst (asm) fmt_width.simps) (simp split: if_splits)
    then have "fmt_width (w * 10 + (of_char (deref fmt) - 48)) (tl fmt) = Inr (v, r)"
      using 1(2) True by (subst (asm) fmt_width.simps) simp
    then obtain k where "r = drop k (tl fmt)" using 1(1) [OF True le] by blast
    then have "r = drop (Suc k) fmt" by (simp add: drop_Suc)
    then show ?thesis by blast
  next
    case False
    then have "r = drop 0 fmt" using 1(2) by (subst (asm) fmt_width.simps) simp
    then show ?thesis by blast
  qed
qed

lemma fmt_long_drop: "\<exists>k. snd (fmt_long f) = drop k f"
proof -
  have "snd (fmt_long f) \<in> {f, tl f, tl (tl f), tl (tl (tl f))}" by (simp add: fmt_long_def)
  moreover have "f = drop 0 f" "tl f = drop 1 f" "tl (tl f) = drop 2 f" "tl (tl (tl f)) = drop 3 f"
    by (simp_all add: drop_Suc numeral_2_eq_2 numeral_3_eq_3)
  ultimately show ?thesis by (metis empty_iff insert_iff)
qed

lemma fmt_flags_drop: "fmt_flags fmt = Inr (z, w, l, r) \<Longrightarrow> \<exists>k. r = drop k fmt"
proof -
  assume a: "fmt_flags fmt = Inr (z, w, l, r)"
  define f1 where "f1 = (if deref fmt = CHR ''0'' then tl fmt else fmt)"
  obtain f2 where f2: "fmt_width 0 f1 = Inr (w, f2)" "r = snd (fmt_long f2)"
    using a unfolding fmt_flags_def Let_def split_beta f1_def by (auto split: if_splits sum.splits)
  obtain k where "f2 = drop k f1" using fmt_width_drop [OF f2(1)] by blast
  moreover have "f1 = drop (if deref fmt = CHR ''0'' then 1 else 0) fmt" by (simp add: f1_def drop_Suc)
  moreover obtain j where "r = drop j f2" using fmt_long_drop f2(2) by metis
  ultimately show ?thesis by (metis drop_drop)
qed

lemma fmt_flags_length: "fmt_flags fmt = Inr (z, w, l, r) \<Longrightarrow> length r \<le> length fmt"
  using fmt_flags_drop [of fmt z w l r] by auto

section \<open>Truncated output\<close>

text \<open>
  Output through the size check is the unbounded output cut at the size, except that a character
  copied through an advancing pointer is never got past once the buffer is full.
\<close>

lemma OUT_take: "OUT sz (take (unat (sz - 1)) full) c = take (unat (sz - 1)) (full @ [c])"
  by (auto simp: OUT_def not_less)

lemma put_pad_take: "put_pad sz (take (unat (sz - 1)) full) pad n = take (unat (sz - 1)) (full @ replicate n pad)"
  by (induction n arbitrary: full) (simp_all add: OUT_take replicate_app_Cons_same del: take_append)

lemma put_reverse_take:
  "i \<le> length tmp \<Longrightarrow> put_reverse sz (take (unat (sz - 1)) full) tmp i = take (unat (sz - 1)) (full @ rev (take i tmp))"
  by (induction i arbitrary: full) (simp_all add: OUT_take take_Suc_conv_app_nth del: take_append)

lemma put_str_stuck: "deref s \<noteq> NUL \<Longrightarrow> unat (sz - 1) \<le> length buf \<Longrightarrow> put_str sz buf s = None"
proof (rule ccontr)
  assume a: "deref s \<noteq> NUL" "unat (sz - 1) \<le> length buf" "put_str sz buf s \<noteq> None"
  then obtain r where r: "put_str sz buf s = Some r" by blast
  have "\<not> (deref s \<noteq> NUL \<and> unat (sz - 1) \<le> length buf)"
    by (rule put_str.raw_induct [where P = "\<lambda>sz buf s r. \<not> (deref s \<noteq> NUL \<and> unat (sz - 1) \<le> length buf)", OF _ r])
      (fastforce simp: OUT_next_def split: if_splits)
  then show False using a by blast
qed

lemma kvsnprintf_loop_stuck:
  "deref fmt \<noteq> NUL \<Longrightarrow> deref fmt \<noteq> CHR ''%'' \<Longrightarrow> unat (sz - 1) \<le> length buf \<Longrightarrow> kvsnprintf_loop sz fmt ap buf = None"
proof (rule ccontr)
  let ?P = "\<lambda>sz fmt (buf :: string). deref fmt \<noteq> NUL \<and> deref fmt \<noteq> CHR ''%'' \<and> unat (sz - 1 :: u64) \<le> length buf"
  assume a: "deref fmt \<noteq> NUL" "deref fmt \<noteq> CHR ''%''" "unat (sz - 1) \<le> length buf" "kvsnprintf_loop sz fmt ap buf \<noteq> None"
  then obtain r where r: "kvsnprintf_loop sz fmt ap buf = Some r" by blast
  have "\<not> ?P sz fmt buf"
  proof (rule kvsnprintf_loop.raw_induct [where P = "\<lambda>sz fmt ap buf r. \<not> ?P sz fmt buf", OF _ r])
    fix f :: "u64 \<Rightarrow> string \<Rightarrow> va_arg list \<Rightarrow> string \<Rightarrow> (fmt_error + string) option" and sz fmt ap buf r
    assume ih: "\<And>sz fmt ap buf r. f sz fmt ap buf = Some r \<Longrightarrow> \<not> ?P sz fmt buf"
      and eq: "(if deref fmt = NUL then Some (Inr buf)
      else if deref fmt \<noteq> CHR ''%'' then
        case OUT_next sz buf fmt of (buf', fmt') \<Rightarrow> f sz fmt' ap buf'
      else case fmt_flags (tl fmt) of
        Inl e \<Rightarrow> Some (Inl e)
      | Inr (zero_pad, width, is_long, rest) \<Rightarrow>
          (case put_conv sz (deref rest) zero_pad width is_long ap buf of
             None \<Rightarrow> None
           | Some r \<Rightarrow>
               (case r of Inl e \<Rightarrow> Some (Inl e) | Inr (ap', buf') \<Rightarrow> f sz (tl rest) ap' buf'))) = Some r"
    show "\<not> ?P sz fmt buf"
    proof
      assume p: "?P sz fmt buf"
      then have "f sz fmt ap buf = Some r" using eq by (simp add: OUT_next_def)
      then show False using ih p by blast
    qed
  qed
  then show False using a by blast
qed

lemma put_str_take:
  "cstr s \<Longrightarrow> put_str sz (take (unat (sz - 1)) full) s =
     (if s = [] \<or> length full + length s \<le> unat (sz - 1) then Some (take (unat (sz - 1)) (full @ s)) else None)"
proof (induction s arbitrary: full)
  case Nil
  then show ?case by (subst put_str.simps) simp
next
  case (Cons c s)
  show ?case
  proof (cases "length full < unat (sz - 1)")
    case True
    then have "put_str sz (take (unat (sz - 1)) full) (c # s) = put_str sz (take (unat (sz - 1)) (full @ [c])) s"
      using Cons.prems by (subst put_str.simps) (simp add: OUT_next_def)
    then show ?thesis using Cons.IH [of "full @ [c]"] Cons.prems True by (cases s) (auto simp del: take_append)
  next
    case False
    then show ?thesis using put_str_stuck [of "c # s" sz "take (unat (sz - 1)) full"] Cons.prems by simp
  qed
qed

section \<open>Numbers\<close>

fun show_nat :: "string \<Rightarrow> nat \<Rightarrow> nat \<Rightarrow> string" where
  \<comment> \<open>positional notation, most significant digit first\<close>
  "show_nat ds b n = (if n < b \<or> b < 2 then [ds ! n] else show_nat ds b (n div b) @ [ds ! (n mod b)])"

declare show_nat.simps [simp del]

definition pad_left :: "char \<Rightarrow> nat \<Rightarrow> string \<Rightarrow> string" where
  "pad_left c w s = replicate (w - length s) c @ s"

definition read_nat :: "string \<Rightarrow> nat \<Rightarrow> string \<Rightarrow> nat" where
  \<comment> \<open>the value of a numeral\<close>
  "read_nat ds b s = foldl (\<lambda>v c. v * b + length (takeWhile (\<lambda>d. d \<noteq> c) ds)) 0 s"

lemma uint_digits_show: "0 < n \<Longrightarrow> 2 \<le> b \<Longrightarrow> rev (uint_digits ds b n) = show_nat ds b n"
proof (induction n rule: less_induct)
  case (less n)
  show ?case
  proof (cases "n < b")
    case True
    then show ?thesis
      using less.prems by (simp add: uint_digits.simps [of ds b n] uint_digits.simps [of ds b 0] show_nat.simps [of ds b n])
  next
    case False
    then have "0 < n div b" "n div b < n" using less.prems by (simp_all add: div_greater_zero_iff)
    then show ?thesis
      using less.IH [of "n div b"] less.prems False
      by (subst uint_digits.simps, subst show_nat.simps) simp
  qed
qed

lemma takeWhile_nth_distinct: "distinct ds \<Longrightarrow> i < length ds \<Longrightarrow> length (takeWhile (\<lambda>d. d \<noteq> ds ! i) ds) = i"
proof (induction ds arbitrary: i)
  case (Cons d ds)
  then show ?case by (cases i) auto
qed simp

lemma read_show: "distinct ds \<Longrightarrow> 2 \<le> b \<Longrightarrow> b \<le> length ds \<Longrightarrow> read_nat ds b (show_nat ds b n) = n"
proof (induction n rule: less_induct)
  case (less n)
  show ?case
  proof (cases "n < b")
    case True
    then show ?thesis
      using less.prems by (simp add: show_nat.simps [of ds b n] read_nat_def takeWhile_nth_distinct)
  next
    case False
    then have "n div b < n" using less.prems by simp
    then have ih: "foldl (\<lambda>v c. v * b + length (takeWhile (\<lambda>d. d \<noteq> c) ds)) 0 (show_nat ds b (n div b)) = n div b"
      using less.IH [of "n div b"] less.prems by (simp add: read_nat_def)
    have "n mod b < length ds" using less.prems mod_less_divisor [of b n] by linarith
    then show ?thesis
      using False less.prems ih by (subst show_nat.simps) (simp add: read_nat_def takeWhile_nth_distinct)
  qed
qed

lemma put_uint_take:
  assumes "2 \<le> b"
  shows "put_uint sz (take (unat (sz - 1)) full) val b upper width zp = take (unat (sz - 1))
    (full @ pad_left (if zp then CHR ''0'' else CHR '' '') width (show_nat (if upper then digits_hi else digits_lo) b (unat val)))"
proof -
  let ?ds = "if upper then digits_hi else digits_lo"
  let ?tmp = "if val = 0 then ''0'' else uint_digits ?ds b (unat val)"
  have "show_nat ?ds b 0 = ''0''" using assms by (simp add: show_nat.simps [of _ b 0] digits_hi_def digits_lo_def)
  then have r: "rev ?tmp = show_nat ?ds b (unat val)"
    using assms uint_digits_show [of "unat val" b ?ds] by (cases "val = 0") (simp_all add: unat_gt_0)
  have l: "length ?tmp = length (show_nat ?ds b (unat val))" using r by (metis length_rev)
  show ?thesis
    unfolding put_uint_def Let_def put_pad_take
    by (subst put_reverse_take) (simp_all only: take_all_iff order_refl take_all r l pad_left_def append_assoc)
qed

section \<open>Formatting\<close>

definition show_int :: "char \<Rightarrow> nat \<Rightarrow> int \<Rightarrow> string" where
  "show_int p w v = (if v < 0 then CHR ''-'' # pad_left p w (show_nat digits_lo 10 (nat (- v)))
     else pad_left p w (show_nat digits_lo 10 (nat v)))"

type_synonym rendering = "(char \<times> bool) list"
  \<comment> \<open>each character with whether it is copied, from the format or from a string argument\<close>

definition copied_chars :: "string \<Rightarrow> rendering" where "copied_chars s = map (\<lambda>c. (c, True)) s"

definition made_chars :: "string \<Rightarrow> rendering" where "made_chars s = map (\<lambda>c. (c, False)) s"

definition conv_spec :: "char \<Rightarrow> bool \<Rightarrow> nat \<Rightarrow> bool \<Rightarrow> va_arg list \<Rightarrow> fmt_error + va_arg list \<times> rendering" where
  \<comment> \<open>what one directive stands for\<close>
  "conv_spec c zero_pad width is_long ap =
     (let p = (if zero_pad then CHR ''0'' else CHR '' '');
          num = (\<lambda>f. case va_slot ap of Inl e \<Rightarrow> Inl e | Inr (a, r) \<Rightarrow> Inr (r, made_chars (f a))) in
      if c \<in> set ''di'' then
        (case va_slot ap of Inl e \<Rightarrow> Inl e | Inr (a, r) \<Rightarrow>
          if sint (va_int is_long a) = - (2 ^ 63) then Inl Negate_overflow
          else Inr (r, made_chars (show_int p width (sint (va_int is_long a)))))
      else if c = CHR ''u'' then num (\<lambda>a. pad_left p width (show_nat digits_lo 10 (unat (va_uint is_long a))))
      else if c = CHR ''x'' then num (\<lambda>a. pad_left p width (show_nat digits_lo 16 (unat (va_uint is_long a))))
      else if c = CHR ''X'' then num (\<lambda>a. pad_left p width (show_nat digits_hi 16 (unat (va_uint is_long a))))
      else if c = CHR ''p'' then num (\<lambda>a. ''0x'' @ pad_left (CHR ''0'') 16 (show_nat digits_lo 16 (unat a)))
      else if c = CHR ''c'' then num (\<lambda>a. [char_of (unat a)])
      else if c = CHR ''s'' then
        (case va_str ap of Inl e \<Rightarrow> Inl e | Inr (s, r) \<Rightarrow> Inr (r, copied_chars (case s of None \<Rightarrow> ''(null)'' | Some t \<Rightarrow> t)))
      else if c = CHR ''%'' then Inr (ap, made_chars ''%'')
      else if c = NUL then Inl Cut_format
      else Inr (ap, made_chars [CHR ''%'', c]))"

function (sequential) render :: "string \<Rightarrow> va_arg list \<Rightarrow> fmt_error + rendering" where
  \<comment> \<open>the text a format stands for\<close>
  "render [] ap = Inr []"
| "render (c # fmt) ap =
     (if c \<noteq> CHR ''%'' then map_sum id (append (copied_chars [c])) (render fmt ap)
      else case fmt_flags fmt of
        Inl e \<Rightarrow> Inl e
      | Inr (z, w, l, rest) \<Rightarrow>
          (case conv_spec (deref rest) z w l ap of
             Inl e \<Rightarrow> Inl e
           | Inr (ap', t) \<Rightarrow> map_sum id (append t) (render (tl rest) ap')))"
  by pat_completeness auto
termination
  by (relation "measure (\<lambda>(fmt, ap). length fmt)")
    (auto dest!: fmt_flags_length [OF sym] fmt_flags_length)

definition fits :: "nat \<Rightarrow> rendering \<Rightarrow> bool" where
  \<comment> \<open>nothing that would be copied lies past the first \<open>n\<close> characters\<close>
  "fits n t \<longleftrightarrow> list_all (\<lambda>c. \<not> snd c) (drop n t)"

lemma fits_append: "fits n (t @ u) \<longleftrightarrow> fits n t \<and> fits (n - length t) u"
  by (simp add: fits_def)

lemma fits_made [simp]: "fits n (made_chars s)"
  by (auto simp: fits_def made_chars_def list_all_iff dest: in_set_dropD)

lemma fits_copied [simp]: "fits n (copied_chars s) \<longleftrightarrow> length s \<le> n"
  by (auto simp: fits_def copied_chars_def list_all_iff drop_map image_iff)

lemma text_simps [simp]: "map fst (copied_chars s) = s" "map fst (made_chars s) = s" "length (copied_chars s) = length s" "length (made_chars s) = length s"
  by (simp_all add: copied_chars_def made_chars_def comp_def)

definition args_ok :: "va_arg list \<Rightarrow> bool" where
  "args_ok ap \<longleftrightarrow> list_all (\<lambda>a. case a of Str (Some s) \<Rightarrow> cstr s | _ \<Rightarrow> True) ap"

lemma sless_zero: "(v :: u64) <s 0 \<longleftrightarrow> sint v < 0"
  by (simp add: word_sless_alt)

lemma unat_word_of_int: "0 \<le> k \<Longrightarrow> k < 2 ^ 64 \<Longrightarrow> unat (word_of_int k :: u64) = nat k"
  by (simp add: unat_eq_nat_uint uint_word_of_int take_bit_int_eq_self del: of_int_uint)

lemma unat_neg_sint: "sint (v :: u64) < 0 \<Longrightarrow> unat (- v) = nat (- sint v)"
proof -
  assume n: "sint v < 0"
  have "- v = word_of_int (- sint v)" by simp
  moreover have "- sint v \<le> 2 ^ 63" using sint_ge [of v] by simp
  ultimately show ?thesis using n unat_word_of_int [of "- sint v"] by simp
qed

lemma unat_nonneg_sint: "\<not> sint (v :: u64) < 0 \<Longrightarrow> unat v = nat (sint v)"
proof -
  assume n: "\<not> sint v < 0"
  have "v = word_of_int (sint v)" by simp
  moreover have "sint v < 2 ^ 63" using sint_lt [of v] by simp
  ultimately show ?thesis using n unat_word_of_int [of "sint v"] by simp
qed

lemma args_ok_Cons [simp]: "args_ok (Slot v # r) = args_ok r" "args_ok (Str s # r) = (pred_option cstr s \<and> args_ok r)"
  by (auto simp: args_ok_def pred_option_def split: option.split)

lemma va_args_ok:
  "va_slot ap = Inr (v, r) \<Longrightarrow> args_ok ap \<Longrightarrow> args_ok r" "va_str ap = Inr (s, r) \<Longrightarrow> args_ok ap \<Longrightarrow> args_ok r \<and> pred_option cstr s"
  by (cases ap rule: va_slot.cases; simp)+

lemma conv_spec_args: "conv_spec c z w l ap = Inr (ap', s) \<Longrightarrow> args_ok ap \<Longrightarrow> args_ok ap'"
  by (auto simp: conv_spec_def Let_def dest: va_args_ok split: if_splits sum.splits)

lemma sint_min: "(v :: u64) = 0x8000000000000000 \<longleftrightarrow> sint v = - (2 ^ 63)"
proof
  assume "sint v = - (2 ^ 63)"
  moreover have "word_of_int (sint v) = v" by simp
  ultimately have "v = word_of_int (- (2 ^ 63))" by metis
  then show "v = 0x8000000000000000" by simp
qed simp

lemma put_conv_take:
  assumes "args_ok ap"
  shows "put_conv sz c z w l ap (take (unat (sz - 1)) full) =
    (case conv_spec c z w l ap of
       Inl e \<Rightarrow> Some (Inl e)
     | Inr (ap', t) \<Rightarrow> if fits (unat (sz - 1) - length full) t
         then Some (Inr (ap', take (unat (sz - 1)) (full @ map fst t))) else None)"
proof -
  note t = OUT_take put_uint_take
  have str: "put_str sz (take (unat (sz - 1)) full) s =
      (if length s \<le> unat (sz - 1) - length full then Some (take (unat (sz - 1)) (full @ s)) else None)" if "cstr s" for s
    using put_str_take [OF that, of sz full] by (cases s) (auto simp del: take_append)
  have null: "cstr ''(null)''" by (simp add: NUL_def)
  consider "c \<in> set ''di''" | "c = CHR ''u''" | "c = CHR ''x''" | "c = CHR ''X''" | "c = CHR ''p''" | "c = CHR ''c''"
    | "c = CHR ''s''" | "c \<notin> set ''diuxXpcs''" by auto
  then show ?thesis
  proof cases
    case 1
    then have "(c = CHR ''d'' \<or> c = CHR ''i'') = True" by auto
    then show ?thesis
      by (cases "va_slot ap") (auto simp: put_conv_def conv_spec_def Let_def t show_int_def sless_zero sint_min
          unat_neg_sint unat_nonneg_sint simp del: take_append)
  next
    case 7
    then show ?thesis
      using str null va_args_ok(2) [OF _ assms]
      by (cases "va_str ap") (auto simp: put_conv_def conv_spec_def Let_def simp del: take_append split: option.splits)
  qed (cases "va_slot ap"; auto simp: put_conv_def conv_spec_def Let_def t simp del: take_append)+
qed

lemma loop_take:
  "cstr fmt \<Longrightarrow> args_ok ap \<Longrightarrow> render fmt ap = Inr t \<Longrightarrow> kvsnprintf_loop sz fmt ap (take (unat (sz - 1)) full) =
     (if fits (unat (sz - 1) - length full) t then Some (Inr (take (unat (sz - 1)) (full @ map fst t))) else None)"
proof (induction fmt ap arbitrary: full t rule: render.induct)
  case (1 ap)
  then show ?case by (subst kvsnprintf_loop.simps) (simp add: fits_def)
next
  case (2 c fmt ap)
  note ih = 2(1,2) and prems = 2(3-5)
  show ?case
  proof (cases "c = CHR ''%''")
    case False
    then obtain u where u: "render fmt ap = Inr u" "t = copied_chars [c] @ u" using prems(3) by (cases "render fmt ap") auto
    show ?thesis
    proof (cases "length full < unat (sz - 1)")
      case True
      then have "kvsnprintf_loop sz (c # fmt) ap (take (unat (sz - 1)) full) = kvsnprintf_loop sz fmt ap (take (unat (sz - 1)) (full @ [c]))"
        using False prems(1) by (subst kvsnprintf_loop.simps) (simp add: OUT_next_def)
      then show ?thesis
        using ih(1) [OF False _ prems(2) u(1), of "full @ [c]"] prems(1) True u(2) by (simp add: fits_append del: take_append)
    next
      case full: False
      then have "kvsnprintf_loop sz (c # fmt) ap (take (unat (sz - 1)) full) = None"
        using False prems(1) by (intro kvsnprintf_loop_stuck) simp_all
      then show ?thesis using full u(2) by (simp add: fits_append)
    qed
  next
    case True
    then obtain z w l rest where f: "fmt_flags fmt = Inr (z, w, l, rest)"
      using prems(3) by (cases "fmt_flags fmt") auto
    obtain ap' s u where s: "conv_spec (deref rest) z w l ap = Inr (ap', s)" "render (tl rest) ap' = Inr u" "t = s @ u"
      using prems(3) True f by (cases "conv_spec (deref rest) z w l ap"; cases "render (tl rest) (fst (projr (conv_spec (deref rest) z w l ap)))") auto
    have "cstr (tl rest)"
      using fmt_flags_drop [OF f] prems(1) by (auto simp: cstr_def tl_drop dest: in_set_dropD)
    then have "kvsnprintf_loop sz (tl rest) ap' (take (unat (sz - 1)) (full @ map fst s)) =
        (if fits (unat (sz - 1) - length (full @ map fst s)) u then Some (Inr (take (unat (sz - 1)) ((full @ map fst s) @ map fst u))) else None)"
      using True f s conv_spec_args [OF s(1) prems(2)] by (intro ih(2)) simp_all
    then show ?thesis
      using True f s prems
      by (subst kvsnprintf_loop.simps) (simp add: put_conv_take NUL_def fits_append del: take_append)
  qed
qed

lemma unat_pred: "(sz :: u64) \<noteq> 0 \<Longrightarrow> unat (sz - 1) = unat sz - 1"
  by (simp add: unat_minus_one)

lemma kvsnprintf_take:
  assumes "cstr fmt" "args_ok ap" "buf \<noteq> 0" "sz \<noteq> 0" "sz \<le> 2 ^ 31" "render fmt ap = Inr t"
  shows "kvsnprintf buf sz fmt ap = (if fits (unat sz - 1) t
    then Some (Inr (int (min (length t) (unat sz - 1)), take (unat sz - 1) (map fst t) @ [NUL])) else None)"
proof -
  have "unat sz \<le> 2 ^ 31" using assms(5) by (simp add: word_le_nat_alt)
  then have "sint (of_nat k :: u32) = int k" if "k \<le> unat sz - 1" for k
    using that by (simp add: signed_of_nat signed_take_bit_int_eq_self)
  then show ?thesis
    using loop_take [OF assms(1,2,6), of sz "[]"] assms(3,4) by (simp add: kvsnprintf_def unat_pred min.commute)
qed


lemmas render_eval = fmt_flags_def fmt_long_def fmt_width.simps is_digit_def INT_MAX_def NUL_def conv_spec_def va_uint_def
  pad_left_def show_nat.simps digits_lo_def made_chars_def copied_chars_def


lemma length_show_nat: "n < b ^ k \<Longrightarrow> 0 < k \<Longrightarrow> 2 \<le> b \<Longrightarrow> length (show_nat ds b n) \<le> k"
proof (induction n arbitrary: k rule: less_induct)
  case (less n)
  show ?case
  proof (cases "n < b")
    case True
    then show ?thesis using less.prems by (simp add: show_nat.simps [of ds b n])
  next
    case False
    obtain k' where k: "k = Suc k'" using less.prems(2) by (cases k) auto
    have "k' \<noteq> 0" using False less.prems k by (cases k') auto
    moreover have "n div b < b ^ k'" using less.prems(1,3) k by (simp add: less_mult_imp_div_less mult.commute)
    moreover have "n div b < n" using False less.prems by simp
    ultimately have "length (show_nat ds b (n div b)) \<le> k'" using less.IH less.prems(3) by blast
    then show ?thesis using False less.prems(3) k by (subst show_nat.simps) simp
  qed
qed

text \<open>
  numbers survive printing.  The text that kvsnprintf stores for a 64-bit number, in decimal or
  in hexadecimal, into a buffer of at least 21 bytes reads back as that number.
\<close>

theorem printf_number_roundtrip:
  assumes "buf \<noteq> 0" "21 \<le> sz" "sz \<le> 2 ^ 31"
  shows "(\<exists>t. kvsnprintf buf sz ''%lu'' [Slot v] = Some (Inr (int (length t), t @ [NUL])) \<and> read_nat digits_lo 10 t = unat v) \<and>
    (\<exists>t. kvsnprintf buf sz ''%llx'' [Slot v] = Some (Inr (int (length t), t @ [NUL])) \<and> read_nat digits_lo 16 t = unat v)"
proof -
  let ?t = "\<lambda>b. show_nat digits_lo b (unat v)"
  have r: "render ''%lu'' [Slot v] = Inr (made_chars (?t 10))" "render ''%llx'' [Slot v] = Inr (made_chars (?t 16))"
    by (simp_all add: fmt_flags_def fmt_long_def fmt_width.simps is_digit_def NUL_def conv_spec_def va_uint_def pad_left_def)
  have "unat v < 10 ^ 20" "unat v < 16 ^ 16" by (rule less_le_trans [OF unat_u64_lt]; simp)+
  then have l: "length (?t 10) \<le> 20" "length (?t 16) \<le> 16" by (simp_all add: length_show_nat)
  have v: "read_nat digits_lo 10 (?t 10) = unat v" "read_nat digits_lo 16 (?t 16) = unat v"
    by (rule read_show; simp add: digits_lo_def)+
  have c: "cstr ''%lu''" "cstr ''%llx''" "args_ok [Slot v]" by (simp_all add: NUL_def args_ok_def)
  have z: "21 \<le> unat sz" "sz \<noteq> 0" using assms(2) by (auto simp: word_le_nat_alt)
  show ?thesis
    using kvsnprintf_take [OF c(1,3) assms(1) z(2) assms(3) r(1)] kvsnprintf_take [OF c(2,3) assms(1) z(2) assms(3) r(2)] l v z
    by (simp add: min_absorb1)
qed

theorem printf_number_roundtrip_witness:
  "\<exists>t. kvsnprintf 0x1000 32 ''%lu'' [Slot 4096] = Some (Inr (int (length t), t @ [NUL])) \<and> read_nat digits_lo 10 t = 4096"
  using printf_number_roundtrip [of "0x1000" 32 4096] by simp

end
