(* ===== verification/Serial.thy ===== *)
theory Serial
  imports Printf
begin

text \<open>
  Port I/O and the serial console, \<^verbatim>\<open>kernel/arch/x86_64/serial.c\<close>.  The machine behind the ports is a
  parameter: a record of the effect of every port instruction on a device state of any
  type.  The polling loops of the drivers may run forever and are then \<^const>\<open>None\<close>.
\<close>

section \<open>Ports\<close>

record 'd ports =
  p_inb :: "u16 \<Rightarrow> 'd \<Rightarrow> u8 \<times> 'd"
  p_outb :: "u16 \<Rightarrow> u8 \<Rightarrow> 'd \<Rightarrow> 'd"
  p_inw :: "u16 \<Rightarrow> 'd \<Rightarrow> u16 \<times> 'd"
  p_outw :: "u16 \<Rightarrow> u16 \<Rightarrow> 'd \<Rightarrow> 'd"
  p_inl :: "u16 \<Rightarrow> 'd \<Rightarrow> u32 \<times> 'd"
  p_outl :: "u16 \<Rightarrow> u32 \<Rightarrow> 'd \<Rightarrow> 'd"

definition outbs :: "'d ports \<Rightarrow> (u16 \<times> u8) list \<Rightarrow> 'd \<Rightarrow> 'd" where
  \<comment> \<open>a sequence of \<^verbatim>\<open>outb\<close> instructions\<close>
  "outbs io ws d = foldl (\<lambda>s (p, v). p_outb io p v s) d ws"

section \<open>The UART driver\<close>

definition COM1 :: u16 where "COM1 = 0x3F8"

definition serial_init :: "'d ports \<Rightarrow> 'd \<Rightarrow> 'd" where
  "serial_init io d = outbs io [(COM1 + 1, 0x00), (COM1 + 3, 0x80), (COM1 + 0, 0x01), (COM1 + 1, 0x00),
     (COM1 + 3, 0x03), (COM1 + 2, 0xC7), (COM1 + 4, 0x0B)] d"

partial_function (option) serial_wait :: "'d ports \<Rightarrow> 'd \<Rightarrow> 'd option" where
  \<comment> \<open>\<^verbatim>\<open>while (!(inb(COM1 + 5) & 0x20))\<close>\<close>
  "serial_wait io d = (case p_inb io (COM1 + 5) d of (v, d1) \<Rightarrow>
     if v AND 0x20 = 0 then serial_wait io d1 else Some d1)"

definition serial_putchar :: "'d ports \<Rightarrow> 'd \<Rightarrow> u8 \<Rightarrow> 'd option" where
  "serial_putchar io d c = do {
     d1 \<leftarrow> serial_wait io d;
     Some (p_outb io COM1 c d1)
   }"

fun serial_puts :: "'d ports \<Rightarrow> 'd \<Rightarrow> string \<Rightarrow> 'd option" where
  "serial_puts io d s =
     (if deref s \<noteq> NUL then do {
        d1 \<leftarrow> serial_putchar io d (of_char (deref s));
        serial_puts io d1 (tl s)
      } else Some d)"

declare serial_puts.simps [simp del]

definition LOCAL_BUF :: u64 where
  \<comment> \<open>the address of a local array; the formatter only compares it with \<^verbatim>\<open>NULL\<close>\<close>
  "LOCAL_BUF = 0x1000"

definition serial_printf :: "'d ports \<Rightarrow> 'd \<Rightarrow> string \<Rightarrow> va_arg list \<Rightarrow> 'd option" where
  \<comment> \<open>\<^const>\<open>None\<close> when the formatter never returns or its behaviour is undefined\<close>
  "serial_printf io d fmt args =
     (case kvsnprintf LOCAL_BUF 512 fmt args of
        Some (Inr (n, buf)) \<Rightarrow> serial_puts io d buf
      | _ \<Rightarrow> None)"

section \<open>What reaches the line\<close>

definition uart :: "'d ports \<Rightarrow> ('d \<Rightarrow> u8 list) \<Rightarrow> ('d \<Rightarrow> nat) \<Rightarrow> bool" where
  \<comment> \<open>the 16550 with its divisor latch closed, as \<^verbatim>\<open>serial_init\<close> leaves it: bit 5 of the line status is set once the transmitter has drained, which takes
      finitely many polls, polling sends nothing, and a byte written to an empty
      transmitter is sent\<close>
  "uart io sent busy \<longleftrightarrow>
     (\<forall>d. case p_inb io (COM1 + 5) d of (v, d1) \<Rightarrow> sent d1 = sent d \<and>
        (if busy d = 0 then v AND 0x20 \<noteq> 0 \<and> busy d1 = 0 else v AND 0x20 = 0 \<and> busy d1 < busy d)) \<and>
     (\<forall>d c. busy d = 0 \<longrightarrow> sent (p_outb io COM1 c d) = sent d @ [c])"

lemma serial_wait_ready:
  "uart io sent busy \<Longrightarrow> \<exists>d'. serial_wait io d = Some d' \<and> busy d' = 0 \<and> sent d' = sent d"
proof (induction "busy d" arbitrary: d rule: less_induct)
  case less
  obtain v d1 where i: "p_inb io (COM1 + 5) d = (v, d1)" by fastforce
  then have s: "sent d1 = sent d" "if busy d = 0 then v AND 0x20 \<noteq> 0 \<and> busy d1 = 0 else v AND 0x20 = 0 \<and> busy d1 < busy d"
    using less.prems [unfolded uart_def, THEN conjunct1, THEN spec, of d] by simp_all
  show ?case
  proof (cases "busy d = 0")
    case True
    then show ?thesis using i s by (subst serial_wait.simps) simp
  next
    case False
    then show ?thesis using less.hyps [of d1] less.prems i s by (subst serial_wait.simps) simp
  qed
qed

lemma serial_putchar_sends:
  assumes "uart io sent busy"
  shows "\<exists>d'. serial_putchar io d c = Some d' \<and> sent d' = sent d @ [c]"
  using serial_wait_ready [OF assms, of d] assms by (auto simp: serial_putchar_def uart_def)

lemma serial_puts_sends:
  "uart io sent busy \<Longrightarrow> \<exists>d'. serial_puts io d s = Some d' \<and> sent d' = sent d @ map of_char (takeWhile (\<lambda>c. c \<noteq> NUL) s)"
proof (induction s arbitrary: d)
  case Nil
  then show ?case by (subst serial_puts.simps) simp
next
  case (Cons c s)
  obtain d1 where d1: "serial_putchar io d (of_char c) = Some d1" "sent d1 = sent d @ [of_char c]"
    using serial_putchar_sends [OF Cons.prems(1)] by blast
  then show ?case using Cons.IH [of d1] Cons.prems by (subst serial_puts.simps) auto
qed

lemma takeWhile_terminated: "takeWhile (\<lambda>c. c \<noteq> NUL) (s @ [NUL]) = takeWhile (\<lambda>c. c \<noteq> NUL) s"
  by (induction s) simp_all


definition demo_uart :: "(u8 list \<times> nat) ports" where
  \<comment> \<open>a transmitter that is busy for three polls after every byte\<close>
  "demo_uart = \<lparr>p_inb = (\<lambda>p (s, n). if n = 0 then (0x20, s, n) else (0, s, n - 1)),
     p_outb = (\<lambda>p v (s, n). if p = COM1 then (s @ [v], 3) else (s, n)),
     p_inw = (\<lambda>p d. (0, d)), p_outw = (\<lambda>p v d. d), p_inl = (\<lambda>p d. (0, d)), p_outl = (\<lambda>p v d. d)\<rparr>"

lemma demo_uart_ok: "uart demo_uart fst snd"
  by (auto simp: uart_def demo_uart_def)


end
