(* ===== verification/Syscall.thy ===== *)
theory Syscall
  imports VfsFile AddrSpace Serial
begin

text \<open>
  System calls: \<^verbatim>\<open>kernel/syscall/syscall.c\<close>, \<^verbatim>\<open>syscall.h\<close> and the entry code
  \<^verbatim>\<open>arch/x86_64/syscall_entry.asm\<close>.  The kernel state gets the device state behind the
  ports and the dispatch table.  User memory is the byte memory \<open>vmem\<close> as the running task
  sees it.  A handler returns, or gives up the processor and returns its value
  when the task runs again, or never returns; \<^const>\<open>None\<close> is a handler that hangs.
\<close>

section \<open>State\<close>

definition SYS_READ :: nat where [kdefs]: "SYS_READ = 0"
definition SYS_WRITE :: nat where [kdefs]: "SYS_WRITE = 1"
definition SYS_OPEN :: nat where [kdefs]: "SYS_OPEN = 2"
definition SYS_CLOSE :: nat where [kdefs]: "SYS_CLOSE = 3"
definition SYS_LSEEK :: nat where [kdefs]: "SYS_LSEEK = 8"
definition SYS_MMAP :: nat where [kdefs]: "SYS_MMAP = 9"
definition SYS_MUNMAP :: nat where [kdefs]: "SYS_MUNMAP = 11"
definition SYS_EXIT :: nat where [kdefs]: "SYS_EXIT = 60"
definition SYS_GETPID :: nat where [kdefs]: "SYS_GETPID = 39"
definition SYS_YIELD :: nat where [kdefs]: "SYS_YIELD = 24"
definition SYS_NANOSLEEP :: nat where [kdefs]: "SYS_NANOSLEEP = 35"
definition SYS_MKDIR :: nat where [kdefs]: "SYS_MKDIR = 83"
definition SYS_GETTIME :: nat where [kdefs]: "SYS_GETTIME = 228"
definition SYSCALL_MAX :: nat where [kdefs]: "SYSCALL_MAX = 256"

definition ENOMEM :: u64 where [kdefs]: "ENOMEM = 12"
definition EFAULT :: u64 where [kdefs]: "EFAULT = 14"
definition EINVAL :: u64 where [kdefs]: "EINVAL = 22"
definition ENOSYS :: u64 where [kdefs]: "ENOSYS = 38"

definition MSR_STAR :: u32 where [kdefs]: "MSR_STAR = 0xC0000081"
definition MSR_LSTAR :: u32 where [kdefs]: "MSR_LSTAR = 0xC0000082"
definition MSR_CSTAR :: u32 where [kdefs]: "MSR_CSTAR = 0xC0000083"
definition MSR_SFMASK :: u32 where [kdefs]: "MSR_SFMASK = 0xC0000084"
definition EFER_SCE :: u64 where [kdefs]: "EFER_SCE = 1"

datatype syscall_fn = fn_null | fn_read | fn_write | fn_open | fn_close | fn_lseek | fn_mmap | fn_munmap | fn_exit
  | fn_getpid | fn_yield | fn_nanosleep | fn_mkdir | fn_gettime

record 'd sys_state = fs_state +
  dev :: 'd
  syscall_table :: "syscall_fn list"
  syscall_user_rsp :: u64

datatype sys_outcome = Ret u64 | Resumes u64 | Gone | Wild u64

text \<open>
  \<open>Resumes v\<close>: the task was switched out and returns \<open>v\<close> when it runs again; \<open>Gone\<close>: it never
  runs again; \<open>Wild a\<close>: control went to the address \<open>a\<close>, read from beyond the table.
\<close>

definition uptr_ok :: "u64 \<Rightarrow> u64 \<Rightarrow> bool" where
  "uptr_ok addr len =
     (if addr = 0 \<or> len = 0 then False
      else if 0x00007FFFFFFFFFFF \<le> addr then False
      else if addr + len < addr then False
      else if 0x00007FFFFFFFFFFF < addr + len then False
      else True)"

definition c_int :: "u64 \<Rightarrow> int" where
  \<comment> \<open>the conversion \<^verbatim>\<open>(int)\<close>\<close>
  "c_int x = sint (ucast x :: u32)"

partial_function (option) cstring_at :: "memory \<Rightarrow> u64 \<Rightarrow> string option" where
  \<comment> \<open>the C string at an address; without a terminator it has no end\<close>
  "cstring_at m p = (if m p = 0 then Some [] else do {
     s \<leftarrow> cstring_at m (p + 1);
     Some (char_of (unat (m p)) # s)
   })"

section \<open>Initialisation\<close>

definition syscall_init :: "u64 \<Rightarrow> ('d, 'a) sys_state_scheme \<Rightarrow> ('d, 'a) sys_state_scheme" where
  "syscall_init syscall_entry st =
     (let st1 = wrmsr st MSR_EFER (rdmsr st MSR_EFER OR EFER_SCE);
          st2 = wrmsr st1 MSR_STAR (push_bit 32 0x08 OR push_bit 48 0x10);
          st3 = wrmsr st2 MSR_LSTAR syscall_entry;
          st4 = wrmsr st3 MSR_CSTAR 0;
          st5 = wrmsr st4 MSR_SFMASK (push_bit 9 1 OR push_bit 8 1 OR push_bit 10 1 OR push_bit 18 1);
          st6 = st5\<lparr>syscall_table := (syscall_table st5)[SYS_READ := fn_read, SYS_WRITE := fn_write, SYS_OPEN := fn_open,
            SYS_CLOSE := fn_close, SYS_LSEEK := fn_lseek, SYS_MMAP := fn_mmap, SYS_MUNMAP := fn_munmap,
            SYS_EXIT := fn_exit, SYS_GETPID := fn_getpid, SYS_YIELD := fn_yield, SYS_NANOSLEEP := fn_nanosleep,
            SYS_MKDIR := fn_mkdir, SYS_GETTIME := fn_gettime]\<rparr>
      in if current_task st6 \<noteq> 0 then st6\<lparr>syscall_kernel_rsp := t_kernel_stack (tasks st6 (current_task st6))\<rparr> else st6)"

section \<open>Handlers\<close>

definition sys_read :: "('d, 'a) sys_state_scheme \<Rightarrow> u64 \<Rightarrow> u64 \<Rightarrow> u64 \<Rightarrow> sys_outcome \<times> ('d, 'a) sys_state_scheme" where
  "sys_read st fd buf count =
     (if \<not> uptr_ok buf count then (Ret (- EFAULT), st)
      else case vfs_read st (c_int fd) buf count of (n, st1) \<Rightarrow> (Ret (word_of_int n), st1))"

fun serial_put_range :: "'d ports \<Rightarrow> 'd \<Rightarrow> memory \<Rightarrow> u64 \<Rightarrow> nat \<Rightarrow> 'd option" where
  "serial_put_range io d m s 0 = Some d"
| "serial_put_range io d m s (Suc n) = do {
     d1 \<leftarrow> serial_putchar io d (m s);
     serial_put_range io d1 m (s + 1) n
   }"

definition sys_write :: "'d ports \<Rightarrow> ('d, 'a) sys_state_scheme \<Rightarrow> u64 \<Rightarrow> u64 \<Rightarrow> u64 \<Rightarrow>
    (sys_outcome \<times> ('d, 'a) sys_state_scheme) option" where
  "sys_write io st fd buf count =
     (if \<not> uptr_ok buf count then Some (Ret (- EFAULT), st)
      else if fd = 1 \<or> fd = 2 then do {
        d1 \<leftarrow> serial_put_range io (dev st) (vmem st) buf (unat count);
        Some (Ret count, st\<lparr>dev := d1\<rparr>)
      } else do {
        (n, st1) \<leftarrow> vfs_write st (c_int fd) buf count;
        Some (Ret (word_of_int n), st1)
      })"

definition sys_open :: "('d, 'a) sys_state_scheme \<Rightarrow> u64 \<Rightarrow> u64 \<Rightarrow> u64 \<Rightarrow>
    (sys_outcome \<times> ('d, 'a) sys_state_scheme) option" where
  "sys_open st path flags mode =
     (if \<not> uptr_ok path 1 then Some (Ret (- EFAULT), st)
      else do {
        s \<leftarrow> cstring_at (vmem st) path;
        (fd, st1) \<leftarrow> vfs_open st s (ucast flags) (ucast mode);
        Some (Ret (word_of_int fd), st1)
      })"

definition sys_close :: "('d, 'a) sys_state_scheme \<Rightarrow> u64 \<Rightarrow> sys_outcome \<times> ('d, 'a) sys_state_scheme" where
  "sys_close st fd = (case vfs_close st (c_int fd) of (r, st1) \<Rightarrow> (Ret (word_of_int r), st1))"

definition sys_lseek :: "('d, 'a) sys_state_scheme \<Rightarrow> u64 \<Rightarrow> u64 \<Rightarrow> u64 \<Rightarrow> sys_outcome \<times> ('d, 'a) sys_state_scheme" where
  "sys_lseek st fd off whence =
     (case vfs_lseek st (c_int fd) off (c_int whence) of (r, st1) \<Rightarrow> (Ret (word_of_int r), st1))"

definition sys_exit :: "'d ports \<Rightarrow> ('d, 'a) sys_state_scheme \<Rightarrow> u64 \<Rightarrow> (sys_outcome \<times> ('d, 'a) sys_state_scheme) option" where
  "sys_exit io st code = do {
     let pid = (if current_task st \<noteq> 0 then t_pid (tasks st (current_task st)) else 0);
     d1 \<leftarrow> serial_printf io (dev st) (''[SYSCALL] exit(%llu) pid=%u'' @ [CHR 0x0A]) [Slot code, Slot (ucast pid)];
     st1 \<leftarrow> sched_exit (st\<lparr>dev := d1\<rparr>);
     Some (Gone, st1)
   }"

definition sys_getpid :: "('d, 'a) sys_state_scheme \<Rightarrow> sys_outcome" where
  "sys_getpid st = Ret (if current_task st \<noteq> 0 then ucast (t_pid (tasks st (current_task st))) else 0)"

definition sys_yield :: "('d, 'a) sys_state_scheme \<Rightarrow> (sys_outcome \<times> ('d, 'a) sys_state_scheme) option" where
  "sys_yield st = do {
     (sw, st1) \<leftarrow> sched_yield st;
     Some (if sw then Resumes 0 else Ret 0, st1)
   }"

definition sys_nanosleep :: "('d, 'a) sys_state_scheme \<Rightarrow> u64 \<Rightarrow> (sys_outcome \<times> ('d, 'a) sys_state_scheme) option" where
  "sys_nanosleep st rqtp =
     (if \<not> uptr_ok rqtp 16 then Some (Ret (- EFAULT), st)
      else do {
        let ms = load64 (vmem st) rqtp * 1000 + load64 (vmem st) (rqtp + 8) div 1000000;
        let wake = timer_ticks st + ms;
        (sw, st1) \<leftarrow> sched_block st (current_task st) wake;
        Some (if sw then Resumes 0 else Ret 0, st1)
      })"

definition sys_mmap :: "('d, 'a) sys_state_scheme \<Rightarrow> u64 \<Rightarrow> u64 \<Rightarrow> sys_outcome \<times> ('d, 'a) sys_state_scheme" where
  "sys_mmap st addr len =
     (if len = 0 then (Ret (- EINVAL), st)
      else if current_task st = 0 then (Ret (word_of_int (- ESRCH)), st)
      else
        let cur = current_task st;
            va = (if addr \<noteq> 0 then ALIGN_DOWN addr PAGE_SIZE else t_mmap_cursor (tasks st cur));
            nbytes = ALIGN_UP len PAGE_SIZE;
            pml4 = t_cr3 (tasks st cur)
        in case vmm_alloc_range st pml4 va nbytes (VMM_USER_RW OR VMM_NO_EXEC) of (r, st1) \<Rightarrow>
          if r \<noteq> 0 then (Ret (- ENOMEM), st1)
          else (Ret va, if addr = 0 then set_task st1 cur (\<lambda>k. k\<lparr>t_mmap_cursor := va + nbytes\<rparr>) else st1))"

definition sys_munmap :: "('d, 'a) sys_state_scheme \<Rightarrow> u64 \<Rightarrow> u64 \<Rightarrow> sys_outcome \<times> ('d, 'a) sys_state_scheme" where
  "sys_munmap st addr len =
     (if addr = 0 \<or> len = 0 then (Ret (- EINVAL), st)
      else (Ret 0, vmm_free_range st (t_cr3 (tasks st (current_task st))) addr len))"

definition sys_mkdir :: "('d, 'a) sys_state_scheme \<Rightarrow> u64 \<Rightarrow> u64 \<Rightarrow> (sys_outcome \<times> ('d, 'a) sys_state_scheme) option" where
  "sys_mkdir st path mode =
     (if \<not> uptr_ok path 1 then Some (Ret (- EFAULT), st)
      else do {
        s \<leftarrow> cstring_at (vmem st) path;
        (r, st1) \<leftarrow> vfs_mkdir st s (ucast mode);
        Some (Ret (word_of_int r), st1)
      })"

definition sys_gettime :: "('d, 'a) sys_state_scheme \<Rightarrow> sys_outcome" where
  "sys_gettime st = Ret (timer_ticks st)"

section \<open>Entry (syscall\_entry.asm)\<close>

record user_regs =
  u_rax :: u64
  u_rdi :: u64
  u_rsi :: u64
  u_rdx :: u64
  u_r10 :: u64
  u_r8 :: u64
  u_r9 :: u64
  u_rcx :: u64
  u_r11 :: u64
  u_rsp :: u64

definition syscall_call :: "'d ports \<Rightarrow> ('d, 'a) sys_state_scheme \<Rightarrow> syscall_fn \<Rightarrow> user_regs \<Rightarrow>
    (sys_outcome \<times> ('d, 'a) sys_state_scheme) option" where
  \<comment> \<open>\<^verbatim>\<open>call r11\<close> with the arguments in rdi, rsi and rdx; no handler uses the others\<close>
  "syscall_call io st fn u = (case fn of
     fn_null \<Rightarrow> Some (Ret (- ENOSYS), st)
   | fn_read \<Rightarrow> Some (sys_read st (u_rdi u) (u_rsi u) (u_rdx u))
   | fn_write \<Rightarrow> sys_write io st (u_rdi u) (u_rsi u) (u_rdx u)
   | fn_open \<Rightarrow> sys_open st (u_rdi u) (u_rsi u) (u_rdx u)
   | fn_close \<Rightarrow> Some (sys_close st (u_rdi u))
   | fn_lseek \<Rightarrow> Some (sys_lseek st (u_rdi u) (u_rsi u) (u_rdx u))
   | fn_mmap \<Rightarrow> Some (sys_mmap st (u_rdi u) (u_rsi u))
   | fn_munmap \<Rightarrow> Some (sys_munmap st (u_rdi u) (u_rsi u))
   | fn_exit \<Rightarrow> sys_exit io st (u_rdi u)
   | fn_getpid \<Rightarrow> Some (sys_getpid st, st)
   | fn_yield \<Rightarrow> sys_yield st
   | fn_nanosleep \<Rightarrow> sys_nanosleep st (u_rdi u)
   | fn_mkdir \<Rightarrow> sys_mkdir st (u_rdi u) (u_rsi u)
   | fn_gettime \<Rightarrow> Some (sys_gettime st, st))"

definition push_syscall_frame :: "memory \<Rightarrow> u64 \<Rightarrow> user_regs \<Rightarrow> memory" where
  "push_syscall_frame m k u = store64 (store64 (store64 (store64 (store64 (store64 m
     (k - 8) (u_rcx u)) (k - 16) (u_r11 u)) (k - 24) (u_rsp u)) (k - 32) (u_r10 u)) (k - 40) (u_r9 u)) (k - 48) (u_r8 u)"

definition syscall_entry :: "u64 \<Rightarrow> 'd ports \<Rightarrow> ('d, 'a) sys_state_scheme \<Rightarrow> user_regs \<Rightarrow>
    (sys_outcome \<times> ('d, 'a) sys_state_scheme) option" where
  \<comment> \<open>\<open>table\<close> is the address the linker gave \<^verbatim>\<open>syscall_table\<close>; a number from 256 on fetches whatever lies behind it in memory\<close>
  "syscall_entry table io st u =
     (let st1 = st\<lparr>syscall_user_rsp := u_rsp u\<rparr>;
          st2 = st1\<lparr>vmem := push_syscall_frame (vmem st1) (syscall_kernel_rsp st1) u\<rparr>
      in if 512 \<le> u_rax u then Some (Ret (- ENOSYS), st2)
         else if SYSCALL_MAX \<le> unat (u_rax u) then
           let r11 = load64 (vmem st2) (table + u_rax u * 8)
           in if r11 = 0 then Some (Ret (- ENOSYS), st2) else Some (Wild r11, st2)
         else syscall_call io st2 (syscall_table st2 ! unat (u_rax u)) u)"

definition syscall_leave :: "('d, 'a) sys_state_scheme \<Rightarrow> u64 \<Rightarrow> u64 \<Rightarrow> user_regs \<Rightarrow> user_regs" where
  \<comment> \<open>after \<^verbatim>\<open>.done\<close>: the frame below \<open>k\<close> is popped, but the user stack pointer comes from the global\<close>
  "syscall_leave st k rax u = u\<lparr>u_rax := rax, u_r8 := load64 (vmem st) (k - 48), u_r9 := load64 (vmem st) (k - 40),
     u_r10 := load64 (vmem st) (k - 32), u_r11 := load64 (vmem st) (k - 16), u_rcx := load64 (vmem st) (k - 8),
     u_rsp := syscall_user_rsp st\<rparr>"

end
