(* ===== verification/SyscallCorrect.thy ===== *)
theory SyscallCorrect
  imports Syscall
begin

text \<open>
  What the system calls guarantee: pointers are checked before they are used, reading stays inside the
  caller's buffer, mapping gives zeroed pages of its own to the caller, and which
  handler a number reaches.  Two lemmas record what the calls do not guard against.
\<close>

section \<open>Pointers\<close>

lemma uptr_ok_iff:
  "uptr_ok addr len \<longleftrightarrow> addr \<noteq> 0 \<and> len \<noteq> 0 \<and> unat addr + unat len \<le> 0x7FFFFFFFFFFF"
proof -
  have "uptr_ok addr len \<longleftrightarrow> addr \<noteq> 0 \<and> len \<noteq> 0 \<and> addr < 0x7FFFFFFFFFFF \<and> addr \<le> addr + len \<and> addr + len \<le> 0x7FFFFFFFFFFF"
    by (auto simp: uptr_ok_def)
  also have "\<dots> \<longleftrightarrow> addr \<noteq> 0 \<and> len \<noteq> 0 \<and> unat addr + unat len \<le> 0x7FFFFFFFFFFF"
  proof (cases "unat addr + unat len < 18446744073709551616")
    case True
    then have u: "unat (addr + len) = unat addr + unat len" by (simp add: unat_word_ariths)
    have "unat addr < 0x7FFFFFFFFFFF" if "len \<noteq> 0" "unat addr + unat len \<le> 0x7FFFFFFFFFFF"
    proof -
      have "0 < unat len" using that(1) by (simp add: unat_gt_0)
      then show ?thesis using that(2) by linarith
    qed
    moreover have n: "unat (0x7FFFFFFFFFFF :: u64) = 0x7FFFFFFFFFFF" by simp
    ultimately show ?thesis unfolding word_less_nat_alt word_le_nat_alt u n using le_add1 by blast
  next
    case False
    have lt: "unat addr + unat len - 18446744073709551616 < unat addr"
      using False unat_u64_lt [of len] unat_u64_lt [of addr] by linarith
    have "unat (addr + len) = (unat addr + unat len) mod 18446744073709551616" by (simp add: unat_word_ariths)
    also have "\<dots> = (unat addr + unat len - 18446744073709551616) mod 18446744073709551616"
      using False by (intro le_mod_geq) (simp only: not_less)
    also have "\<dots> = unat addr + unat len - 18446744073709551616"
      by (rule mod_less [OF less_trans [OF lt unat_u64_lt]])
    finally have "\<not> addr \<le> addr + len" using lt by (simp add: word_le_nat_alt)
    then show ?thesis using False by auto
  qed
  finally show ?thesis .
qed


lemma memcpy_frame:
  "unat d + n \<le> 18446744073709551616 \<Longrightarrow> \<not> (unat d \<le> unat x \<and> unat x < unat d + n) \<Longrightarrow> memcpy m d s n x = m x"
proof (induction n arbitrary: m d s)
  case (Suc n)
  have ne: "x \<noteq> d" using Suc.prems(2) by auto
  show ?case
  proof (cases "n = 0")
    case True
    then show ?thesis using ne by simp
  next
    case False
    then have "unat (d + 1) = unat d + 1" using Suc.prems(1) by (simp add: unat_word_ariths)
    then have "memcpy (m(d := m s)) (d + 1) (s + 1) n x = (m(d := m s)) x"
      using Suc.prems by (intro Suc.IH) auto
    then show ?thesis using ne by simp
  qed
qed simp

lemma ramfs_read_vmem:
  assumes "ramfs_read st n buf len off = (r, st')" "unat buf + unat len \<le> 18446744073709551616"
    "\<not> (unat buf \<le> unat x \<and> unat x < unat buf + unat len)"
  shows "vmem st' x = vmem st x"
proof (cases "v_size (nodes st n) \<le> off")
  case True
  then show ?thesis using assms(1) by (auto simp: ramfs_read_def Let_def)
next
  case False
  define l where "l = (if v_size (nodes st n) < off + len then v_size (nodes st n) - off else len)"
  have "unat l \<le> unat len"
  proof (cases "v_size (nodes st n) < off + len")
    case True
    then have "unat (v_size (nodes st n) - off) = unat (v_size (nodes st n)) - unat off"
      "unat (v_size (nodes st n)) < unat (off + len)" using False by (simp_all add: unat_sub word_less_nat_alt)
    moreover have "unat (off + len) \<le> unat off + unat len" by (simp add: unat_word_ariths)
    ultimately show ?thesis using True by (simp add: l_def)
  qed (simp add: l_def)
  moreover have "st' = st\<lparr>vmem := memcpy (vmem st) buf (rn_data (nodes st (v_private (nodes st n))) + off) (unat l)\<rparr>"
    using assms(1) False by (auto simp: ramfs_read_def Let_def l_def)
  ultimately show ?thesis using assms(2,3) by (simp, intro memcpy_frame) auto
qed

text \<open>
  C18: a read cannot damage the kernel.  Whatever the descriptor, the file and its offset, every byte
  of memory that sys_read changes lies in the caller's buffer, and that buffer in user
  space.
\<close>

theorem sys_read_confined:
  assumes "sys_read st fd buf count = (r, st')" "vmem st' x \<noteq> vmem st x"
  shows "unat buf \<le> unat x \<and> unat x < unat buf + unat count \<and> unat buf + unat count \<le> 0x7FFFFFFFFFFF"
proof -
  have ok: "uptr_ok buf count" using assms by (auto simp: sys_read_def split: if_splits)
  then have b: "unat buf + unat count \<le> 0x7FFFFFFFFFFF" by (simp add: uptr_ok_iff)
  then have b64: "unat buf + unat count \<le> 18446744073709551616" by simp
  have "unat buf \<le> unat x \<and> unat x < unat buf + unat count"
  proof (rule ccontr)
    assume out: "\<not> ?thesis"
    have "vmem st' x = vmem st x"
      using assms(1) ok ramfs_read_vmem [OF _ b64 out]
      by (auto simp: sys_read_def vfs_read_def Let_def set_file_def split: prod.splits if_splits)
    then show False using assms(2) by simp
  qed
  then show ?thesis using b by simp
qed

section \<open>Mapping memory\<close>

definition pages_of :: "u64 \<Rightarrow> nat" where
  "pages_of len = (unat len + 4095) div 4096"

lemma page_count_up:
  assumes "unat len \<le> 281474976710656"
  shows "unat (ALIGN_UP len PAGE_SIZE) = pages_of len * 4096" "page_count (ALIGN_UP len PAGE_SIZE) = pages_of len"
    "page_count len = pages_of len"
proof -
  have up: "unat (ALIGN_UP x PAGE_SIZE) = (unat x + 4095) div 4096 * 4096" if "unat x \<le> 281474976714752" for x
    using that unat_page_up [of x] by (simp add: PAGE_SIZE_def)
  show 1: "unat (ALIGN_UP len PAGE_SIZE) = pages_of len * 4096" using up [of len] assms by (simp add: pages_of_def)
  have pc: "page_count x = (unat x + 4095) div 4096" if "unat x \<le> 281474976714752" for x
    using up [OF that] by (simp add: page_count_def unat_div PAGE_SIZE_def)
  have "pages_of len * 4096 \<le> 281474976714752" using assms by (simp add: pages_of_def)
  then have "page_count (ALIGN_UP len PAGE_SIZE) = (pages_of len * 4096 + 4095) div 4096" using pc [of "ALIGN_UP len PAGE_SIZE"] 1 by simp
  then show "page_count (ALIGN_UP len PAGE_SIZE) = pages_of len" by simp
  show "page_count len = pages_of len" using pc [of len] assms by (simp add: pages_of_def)
qed

lemma user_flags: "(VMM_USER_RW OR VMM_NO_EXEC) AND VMM_PHYS_MASK = 0" "(VMM_USER_RW OR VMM_NO_EXEC) AND VMM_PRESENT \<noteq> 0"
  by (simp_all add: kdefs)

lemma alloc_range_view:
  assumes "pmm_inv st" "pt_wf st root" "4096 dvd unat va" "unat va + n * 4096 \<le> 281474976710656" "4 * n \<le> card (free_set st)"
    "fl AND VMM_PHYS_MASK = 0" "fl AND VMM_PRESENT \<noteq> 0" "page_count sz = n"
  obtains st' where "vmm_alloc_range st root va sz fl = (0, st')"
    "pages_mapped root st st' (map (\<lambda>i. (va + of_nat i * PAGE_SIZE, fl, \<lambda>_. 0)) [0..<n])"
    "\<forall>v. unat va \<le> unat v \<and> unat v < unat va + n * 4096 \<longrightarrow> user_byte st' root v = 0 \<and> vmm_translate st' root v \<noteq> 0 \<and>
       page_entry st' root v AND NOT VMM_PHYS_MASK = fl \<and> unat (vmm_translate st' root v) div 4096 \<in> free_set st - free_set st'"
    "\<forall>v w. unat va \<le> unat v \<and> unat v < unat va + n * 4096 \<and> unat va \<le> unat w \<and> unat w < unat va + n * 4096 \<and>
       unat (vmm_translate st' root v) div 4096 = unat (vmm_translate st' root w) div 4096 \<longrightarrow> unat v div 4096 = unat w div 4096"
proof -
  let ?ps = "map (\<lambda>i. (va + of_nat i * PAGE_SIZE, fl, \<lambda>_. 0)) [0..<n]"
  obtain st' where r: "vmm_alloc_pages st root va fl [0..<n] = (0, st')" "pages_mapped root st st' ?ps"
    using vmm_alloc_pages_mapped [OF assms(1,2), of "[0..<n]" va fl] assms(5) pages_distinct [OF assms(3,4)] by auto
  have pg: "unat v < 281474976710656 \<and> (\<exists>i < n. virt_page v = virt_page (va + of_nat i * PAGE_SIZE))"
    if v: "unat va \<le> unat v" "unat v < unat va + n * 4096" for v
  proof -
    define i where "i = (unat v - unat va) div 4096"
    have i: "i < n" "unat va + i * 4096 \<le> unat v" "unat v < unat va + (i + 1) * 4096"
      using v by (auto simp: i_def less_mult_imp_div_less)
    have "unat v < 281474976710656" using v(2) assms(4) by linarith
    then show ?thesis using page_index [OF assms(3,4) i(1)] i by auto
  qed
  have img: "virt_page v \<in> (\<lambda>p. virt_page (fst p)) ` set ?ps" if "unat va \<le> unat v" "unat v < unat va + n * 4096" for v
    using pg [OF that] by (auto simp: image_image)
  have fl: "\<forall>p \<in> set ?ps. fst (snd p) AND VMM_PHYS_MASK = 0 \<and> fst (snd p) AND VMM_PRESENT \<noteq> 0"
    using assms(6,7) by simp
  note fr = page_frames [OF r(2) assms(1,2) fl]
  have A: "user_byte st' root v = 0 \<and> vmm_translate st' root v \<noteq> 0 \<and> page_entry st' root v AND NOT VMM_PHYS_MASK = fl \<and>
      unat (vmm_translate st' root v) div 4096 \<in> free_set st - free_set st'"
    if v: "unat va \<le> unat v" "unat v < unat va + n * 4096" for v
  proof -
    obtain i where i: "i < n" "virt_page v = virt_page (va + of_nat i * PAGE_SIZE)" using pg [OF v] by blast
    have "(va + of_nat i * PAGE_SIZE, fl, \<lambda>_. 0) \<in> set ?ps" using i(1) by auto
    from page_view [OF r(2) this assms(1,2) i(2) assms(6,7)] fr(1) [OF img [OF v]] show ?thesis by simp
  qed
  have B: "unat v div 4096 = unat w div 4096"
    if v: "unat va \<le> unat v" "unat v < unat va + n * 4096" and w: "unat va \<le> unat w" "unat w < unat va + n * 4096"
      and e: "unat (vmm_translate st' root v) div 4096 = unat (vmm_translate st' root w) div 4096" for v w
    using fr(2) [OF img [OF v] img [OF w] e] user_page_inj [of v w] pg [OF v] pg [OF w] by simp
  show ?thesis
  proof (rule that [OF _ r(2)])
    show "vmm_alloc_range st root va sz fl = (0, st')" using r(1) assms(8) by (simp add: vmm_alloc_range_def)
  qed (use A B in blast)+
qed

text \<open>
  C19: sys_mmap gives the caller fresh zeroed memory of its own.  With four frames free per page, for a nonempty
  range in the lower half it answers the page-aligned start (the cursor of the task when no
  address is given, which then moves past the range); every byte of the range is mapped
  readable, writable, user and non-executable and reads 0; the pages of the range lie in frames that were free and are
  no longer, no two of them in the same one; every other page keeps its translation, and no byte of
  memory changes outside the frames that were free and the page tables of this address space.
\<close>

theorem sys_mmap_correct:
  fixes st :: "('d, 'a) sys_state_scheme"
  assumes "pmm_inv st" "pt_wf st root" "current_task st = cur" "cur \<noteq> 0" "t_cr3 (tasks st cur) = root" "len \<noteq> 0"
    "va = (if addr \<noteq> 0 then ALIGN_DOWN addr PAGE_SIZE else t_mmap_cursor (tasks st cur))" "4096 dvd unat va"
    "unat va + pages_of len * 4096 \<le> 140737488355328" "4 * pages_of len \<le> card (free_set st)"
  shows "\<exists>st'. sys_mmap st addr len = (Ret va, st') \<and> pmm_inv st' \<and> pt_wf st' root \<and>
    (\<forall>v. unat va \<le> unat v \<and> unat v < unat va + pages_of len * 4096 \<longrightarrow> user_byte st' root v = 0 \<and>
       vmm_translate st' root v \<noteq> 0 \<and> page_entry st' root v AND NOT VMM_PHYS_MASK = VMM_USER_RW OR VMM_NO_EXEC \<and>
       unat (vmm_translate st' root v) div 4096 \<in> free_set st - free_set st') \<and>
    (\<forall>v w. unat va \<le> unat v \<and> unat v < unat va + pages_of len * 4096 \<and> unat va \<le> unat w \<and> unat w < unat va + pages_of len * 4096 \<and>
       unat (vmm_translate st' root v) div 4096 = unat (vmm_translate st' root w) div 4096 \<longrightarrow> unat v div 4096 = unat w div 4096) \<and>
    (\<forall>x. unat x div 4096 \<notin> free_set st \<union> tables st root \<longrightarrow> mem st' x = mem st x) \<and>
    (\<forall>v. (\<forall>i < pages_of len. virt_page v \<noteq> virt_page (va + of_nat i * PAGE_SIZE)) \<longrightarrow>
       vmm_translate st' root v = vmm_translate st root v) \<and>
    (addr = 0 \<longrightarrow> t_mmap_cursor (tasks st' cur) = va + ALIGN_UP len PAGE_SIZE)"
proof -
  let ?fl = "VMM_USER_RW OR VMM_NO_EXEC" and ?n = "pages_of len"
  have l: "unat len \<le> 281474976710656" using assms(9) by (simp add: pages_of_def)
  have up: "unat va + ?n * 4096 \<le> 281474976710656" using assms(9) by simp
  obtain st' where r: "vmm_alloc_range st root va (ALIGN_UP len PAGE_SIZE) ?fl = (0, st')"
    "pages_mapped root st st' (map (\<lambda>i. (va + of_nat i * PAGE_SIZE, ?fl, \<lambda>_. 0)) [0..<?n])"
    "\<forall>v. unat va \<le> unat v \<and> unat v < unat va + ?n * 4096 \<longrightarrow> user_byte st' root v = 0 \<and> vmm_translate st' root v \<noteq> 0 \<and>
       page_entry st' root v AND NOT VMM_PHYS_MASK = ?fl \<and> unat (vmm_translate st' root v) div 4096 \<in> free_set st - free_set st'"
    "\<forall>v w. unat va \<le> unat v \<and> unat v < unat va + ?n * 4096 \<and> unat va \<le> unat w \<and> unat w < unat va + ?n * 4096 \<and>
       unat (vmm_translate st' root v) div 4096 = unat (vmm_translate st' root w) div 4096 \<longrightarrow> unat v div 4096 = unat w div 4096"
    by (rule alloc_range_view [OF assms(1,2,8) up assms(10) user_flags page_count_up(2) [OF l]])
  define st2 where "st2 = (if addr = 0 then set_task st' cur (\<lambda>k. k\<lparr>t_mmap_cursor := va + ALIGN_UP len PAGE_SIZE\<rparr>) else st')"
  have m: "sys_mmap st addr len = (Ret va, st2)"
    unfolding sys_mmap_def using assms(3-7) r(1) by (simp add: st2_def Let_def)
  have wf: "pmm_inv st'" "pt_wf st' root" using r(2) by (simp_all add: pages_mapped_def)
  have keep: "vmm_translate st' root v = vmm_translate st root v"
    if "\<forall>i < ?n. virt_page v \<noteq> virt_page (va + of_nat i * PAGE_SIZE)" for v
  proof -
    have "page_entry st' root v = page_entry st root v" using that by (intro pages_mapped_other [OF r(2)]) auto
    then show ?thesis by (simp add: vmm_translate_entry [OF wf(2)] vmm_translate_entry [OF assms(2)])
  qed
  have s2: "mem st2 = mem st'" "pmm_bitmap st2 = pmm_bitmap st'" "free_frames st2 = free_frames st'"
    by (simp_all add: st2_def set_task_def)
  note c = pmm_cong(2-4) [OF s2] view_cong(1-3) [OF s2(1)]
  have d: "\<forall>x. unat x div 4096 \<notin> free_set st \<union> tables st root \<longrightarrow> mem st2 x = mem st x"
    using r(2) by (simp add: s2(1) pages_mapped_def data_kept_def)
  have "addr = 0 \<longrightarrow> t_mmap_cursor (tasks st2 cur) = va + ALIGN_UP len PAGE_SIZE" by (simp add: st2_def)
  moreover have "\<forall>v. (\<forall>i < ?n. virt_page v \<noteq> virt_page (va + of_nat i * PAGE_SIZE)) \<longrightarrow> vmm_translate st' root v = vmm_translate st root v"
    using keep by blast
  ultimately show ?thesis
    using m wf r(3,4) d by (intro exI [of _ st2], unfold c, intro conjI) assumption+
qed

section \<open>Unmapping memory\<close>

lemma pt_wf_used:
  assumes "pt_wf st root" "mem st' = mem st" "\<forall>g \<in> tables st root. frame_used st g \<longrightarrow> frame_used st' g"
  shows "pt_wf st' root"
proof -
  have "frame_used st' (unat t div 4096)" if "path_ok p" "table_at (mem st) root p = Some t" for p t
    using pt_wf_table [OF assms(1) that] assms(3) that by (auto simp: tables_def)
  then show ?thesis using assms(1) unfolding pt_wf_def assms(2) by blast
qed

lemma pmm_free_page_mem [simp]: "mem (pmm_free_page st p) = mem st"
  by (simp add: pmm_free_page_def Let_def frame_clear_def)

lemma pmm_free_page_used: "g \<noteq> unat p div 4096 \<Longrightarrow> frame_used (pmm_free_page st p) g = frame_used st g"
  by (auto simp: pmm_free_page_def Let_def frame_used_frame_clear unat_div PAGE_SIZE_def)

lemma unmap_step:
  assumes "pt_wf st root" "unat (vmm_translate st root va) div 4096 \<notin> tables st root"
  defines "st' \<equiv> pmm_free_page (vmm_unmap st root va) (vmm_translate st root va)"
  shows "pt_wf st' root" "tables st' root = tables st root"
    "vmm_translate st' root v = (if virt_page v = virt_page va then 0 else vmm_translate st root v)"
proof -
  let ?u = "vmm_unmap st root va"
  have e: "pt_wf ?u root" "\<And>v. page_entry ?u root v = (if virt_page v = virt_page va then 0 else page_entry st root v)"
    using vmm_unmap_entry [OF assms(1), of va] by simp_all
  have t: "tables ?u root = tables st root"
  proof (rule tables_cong)
    fix q assume q: "path_ok q"
    show "table_at (mem ?u) root q = table_at (mem st) root q"
    proof (cases "table_at (mem st) root (vpath va)")
      case (Some pt)
      then show ?thesis using write_leaf(3) [OF assms(1) Some q, of 0] by (simp add: vmm_unmap_walk)
    qed (simp add: vmm_unmap_walk)
  qed
  show wf: "pt_wf st' root"
  proof (rule pt_wf_used [OF e(1)])
    have "frame_used st' g" if "g \<in> tables ?u root" "frame_used ?u g" for g
    proof -
      have "g \<noteq> unat (vmm_translate st root va) div 4096" using that(1) assms(2) by (auto simp: t)
      then show ?thesis using that(2) by (simp add: st'_def pmm_free_page_used)
    qed
    then show "\<forall>g \<in> tables ?u root. frame_used ?u g \<longrightarrow> frame_used st' g" by blast
  qed (simp add: st'_def)
  show "tables st' root = tables st root" using view_cong(4) [of st' ?u] t by (simp add: st'_def)
  have "vmm_translate st' root v = vmm_translate ?u root v" by (rule view_cong) (simp add: st'_def)
  also have "\<dots> = (if virt_page v = virt_page va then 0 else vmm_translate st root v)"
    by (simp add: vmm_translate_entry [OF e(1)] vmm_translate_entry [OF assms(1)] e(2) entry_phys_def)
  finally show "vmm_translate st' root v = (if virt_page v = virt_page va then 0 else vmm_translate st root v)" .
qed

lemma zero_not_table: "pt_wf st root \<Longrightarrow> 0 \<notin> tables st root"
proof
  assume wf: "pt_wf st root" and "0 \<in> tables st root"
  then obtain p t where p: "path_ok p" "table_at (mem st) root p = Some t" "unat t div 4096 = 0" by (auto simp: tables_def)
  have "unat t \<noteq> 0" "4096 dvd unat t" using pt_wf_table [OF wf p(1,2)] by (auto simp: page_ptr_def unat_eq_zero)
  then show False using p(3) by (auto dest: dvd_imp_le)
qed

definition free_page_step :: "u64 \<Rightarrow> u64 \<Rightarrow> 'a pmm_state_scheme \<Rightarrow> nat \<Rightarrow> 'a pmm_state_scheme" where
  "free_page_step root va s i = (let a = va + of_nat i * PAGE_SIZE; phys = vmm_translate s root a in
      if phys \<noteq> 0 then pmm_free_page (vmm_unmap s root a) phys else s)"

lemma free_page_step_ok:
  assumes "pt_wf st root" "unat (vmm_translate st root (va + of_nat i * PAGE_SIZE)) div 4096 \<notin> tables st root"
  shows "pt_wf (free_page_step root va st i) root" "tables (free_page_step root va st i) root = tables st root"
    "vmm_translate (free_page_step root va st i) root v = vmm_translate st root v \<or>
     vmm_translate (free_page_step root va st i) root v = 0"
    "vmm_translate (free_page_step root va st i) root (va + of_nat i * PAGE_SIZE) = 0"
    "virt_page v \<noteq> virt_page (va + of_nat i * PAGE_SIZE) \<Longrightarrow>
       vmm_translate (free_page_step root va st i) root v = vmm_translate st root v"
  using unmap_step [OF assms] assms(1) by (auto simp: free_page_step_def Let_def)

lemma free_range_pages:
  assumes "pt_wf st root"
    "\<forall>i \<in> set is. unat (vmm_translate st root (va + of_nat i * PAGE_SIZE)) div 4096 \<notin> tables st root"
  shows "pt_wf (foldl (free_page_step root va) st is) root \<and>
    (\<forall>v. vmm_translate st root v = 0 \<or> (\<exists>i \<in> set is. v = va + of_nat i * PAGE_SIZE) \<longrightarrow>
       vmm_translate (foldl (free_page_step root va) st is) root v = 0) \<and>
    (\<forall>v. (\<forall>i \<in> set is. virt_page v \<noteq> virt_page (va + of_nat i * PAGE_SIZE)) \<longrightarrow>
       vmm_translate (foldl (free_page_step root va) st is) root v = vmm_translate st root v)"
  using assms
proof (induction "is" arbitrary: st)
  case (Cons i "is")
  let ?s = "free_page_step root va st i"
  have "unat (vmm_translate st root (va + of_nat i * PAGE_SIZE)) div 4096 \<notin> tables st root" using Cons.prems(2) by simp
  note f = free_page_step_ok [OF Cons.prems(1) this]
  have "unat (vmm_translate ?s root (va + of_nat j * PAGE_SIZE)) div 4096 \<notin> tables ?s root" if "j \<in> set is" for j
    using f(3) [of "va + of_nat j * PAGE_SIZE"] zero_not_table [OF Cons.prems(1)] Cons.prems(2) that by (auto simp: f(2))
  then have ih: "pt_wf (foldl (free_page_step root va) ?s is) root"
    "\<And>v. vmm_translate ?s root v = 0 \<or> (\<exists>i \<in> set is. v = va + of_nat i * PAGE_SIZE) \<Longrightarrow>
       vmm_translate (foldl (free_page_step root va) ?s is) root v = 0"
    "\<And>v. \<forall>i \<in> set is. virt_page v \<noteq> virt_page (va + of_nat i * PAGE_SIZE) \<Longrightarrow>
       vmm_translate (foldl (free_page_step root va) ?s is) root v = vmm_translate ?s root v"
    using Cons.IH [OF f(1)] by auto
  have "vmm_translate ?s root v = 0" if "vmm_translate st root v = 0" for v using f(3) [of v] that by auto
  then show ?case using ih f(4,5) by auto
qed simp

text \<open>
  sys_munmap takes any range apart, kernel addresses included.  It answers 0, afterwards no page
  start of the range translates, pages outside the range are untouched, and nothing
  restricts the range to user space.
\<close>

theorem sys_munmap_unchecked:
  fixes st :: "('d, 'a) sys_state_scheme"
  assumes "pt_wf st root" "t_cr3 (tasks st (current_task st)) = root" "addr \<noteq> 0" "len \<noteq> 0"
    "\<forall>i < page_count len. unat (vmm_translate st root (addr + of_nat i * PAGE_SIZE)) div 4096 \<notin> tables st root"
  shows "\<exists>st'. sys_munmap st addr len = (Ret 0, st') \<and> pt_wf st' root \<and>
    (\<forall>i < page_count len. vmm_translate st' root (addr + of_nat i * PAGE_SIZE) = 0) \<and>
    (\<forall>v. (\<forall>i < page_count len. virt_page v \<noteq> virt_page (addr + of_nat i * PAGE_SIZE)) \<longrightarrow>
       vmm_translate st' root v = vmm_translate st root v)"
proof -
  define st' where "st' = foldl (free_page_step root addr) st [0..<page_count len]"
  have m: "sys_munmap st addr len = (Ret 0, st')"
    using assms(2-4) by (simp add: sys_munmap_def vmm_free_range_def free_page_step_def [abs_def] st'_def)
  have "\<forall>i \<in> set [0..<page_count len]. unat (vmm_translate st root (addr + of_nat i * PAGE_SIZE)) div 4096 \<notin> tables st root"
    using assms(5) by simp
  note f = free_range_pages [OF assms(1) this, folded st'_def]
  have "vmm_translate st' root (addr + of_nat i * PAGE_SIZE) = 0" if "i < page_count len" for i
  proof -
    have "i \<in> set [0..<page_count len]" using that by simp
    then show ?thesis using f [THEN conjunct2, THEN conjunct1] by blast
  qed
  moreover have "vmm_translate st' root v = vmm_translate st root v"
    if "\<forall>i < page_count len. virt_page v \<noteq> virt_page (addr + of_nat i * PAGE_SIZE)" for v
    using f [THEN conjunct2, THEN conjunct2, rule_format, of v] that by simp
  ultimately show ?thesis using m f [THEN conjunct1] by blast
qed

section \<open>Dispatch\<close>

text \<open>
  C20: After syscall_init the table holds 13 handlers and the numbers below 256 reach exactly them.  A
  number below 256 without a handler and every number from 512 on answers -ENOSYS; the
  numbers from 256 to 511 pass the bound of the entry code but lie beyond the
  table: the eight bytes of memory behind it that the number selects are taken for the handler, so that the answer is
  -ENOSYS when they are zero and control goes to the address they hold otherwise.
\<close>

theorem syscall_dispatch:
  assumes "syscall_table st = replicate SYSCALL_MAX fn_null" "st1 = syscall_init entry st"
  shows "\<exists>st2. (syscall_table st2 = syscall_table st1 \<and> tasks st2 = tasks st1 \<and> syscall_user_rsp st2 = u_rsp u \<and>
      vmem st2 = push_syscall_frame (vmem st1) (syscall_kernel_rsp st1) u) \<and>
    syscall_entry table io st1 u =
     (if 512 \<le> u_rax u then Some (Ret (- ENOSYS), st2)
      else if 256 \<le> u_rax u then
        Some (if load64 (vmem st2) (table + 8 * u_rax u) = 0 then Ret (- ENOSYS) else Wild (load64 (vmem st2) (table + 8 * u_rax u)), st2)
      else if u_rax u = 0 then Some (sys_read st2 (u_rdi u) (u_rsi u) (u_rdx u))
      else if u_rax u = 1 then sys_write io st2 (u_rdi u) (u_rsi u) (u_rdx u)
      else if u_rax u = 2 then sys_open st2 (u_rdi u) (u_rsi u) (u_rdx u)
      else if u_rax u = 3 then Some (sys_close st2 (u_rdi u))
      else if u_rax u = 8 then Some (sys_lseek st2 (u_rdi u) (u_rsi u) (u_rdx u))
      else if u_rax u = 9 then Some (sys_mmap st2 (u_rdi u) (u_rsi u))
      else if u_rax u = 11 then Some (sys_munmap st2 (u_rdi u) (u_rsi u))
      else if u_rax u = 24 then sys_yield st2
      else if u_rax u = 35 then sys_nanosleep st2 (u_rdi u)
      else if u_rax u = 39 then Some (sys_getpid st2, st2)
      else if u_rax u = 60 then sys_exit io st2 (u_rdi u)
      else if u_rax u = 83 then sys_mkdir st2 (u_rdi u) (u_rsi u)
      else if u_rax u = 228 then Some (sys_gettime st2, st2)
      else Some (Ret (- ENOSYS), st2))"
proof -
  define st2 where "st2 = st1\<lparr>syscall_user_rsp := u_rsp u,
    vmem := push_syscall_frame (vmem (st1\<lparr>syscall_user_rsp := u_rsp u\<rparr>)) (syscall_kernel_rsp (st1\<lparr>syscall_user_rsp := u_rsp u\<rparr>)) u\<rparr>"
  have t: "syscall_table st2 = syscall_table st1" "tasks st2 = tasks st1" "syscall_user_rsp st2 = u_rsp u"
    "vmem st2 = push_syscall_frame (vmem st1) (syscall_kernel_rsp st1) u" by (simp_all add: st2_def)
  have tab: "syscall_table st1 ! n = (if n = 0 then fn_read else if n = 1 then fn_write else if n = 2 then fn_open else if n = 3 then fn_close
      else if n = 8 then fn_lseek else if n = 9 then fn_mmap else if n = 11 then fn_munmap else if n = 24 then fn_yield
      else if n = 35 then fn_nanosleep else if n = 39 then fn_getpid else if n = 60 then fn_exit
      else if n = 83 then fn_mkdir else if n = 228 then fn_gettime else fn_null)" if "n < 256" for n
  proof -
    have "syscall_table st1 = (syscall_table st)[SYS_READ := fn_read, SYS_WRITE := fn_write, SYS_OPEN := fn_open,
        SYS_CLOSE := fn_close, SYS_LSEEK := fn_lseek, SYS_MMAP := fn_mmap, SYS_MUNMAP := fn_munmap, SYS_EXIT := fn_exit,
        SYS_GETPID := fn_getpid, SYS_YIELD := fn_yield, SYS_NANOSLEEP := fn_nanosleep, SYS_MKDIR := fn_mkdir,
        SYS_GETTIME := fn_gettime]"
      using assms(2) by (simp add: syscall_init_def Let_def wrmsr_def)
    then show ?thesis
      using that unfolding assms(1)
      by (simp only: nth_list_update length_list_update length_replicate nth_replicate kdefs) auto
  qed
  have e: "syscall_entry table io st1 u = (if 512 \<le> u_rax u then Some (Ret (- ENOSYS), st2) else if 256 \<le> u_rax u
      then Some (if load64 (vmem st2) (table + 8 * u_rax u) = 0 then Ret (- ENOSYS) else Wild (load64 (vmem st2) (table + 8 * u_rax u)), st2)
      else syscall_call io st2 (syscall_table st1 ! unat (u_rax u)) u)"
    by (simp add: syscall_entry_def Let_def st2_def SYSCALL_MAX_def word_le_nat_alt mult.commute)
  have n: "unat (u_rax u) = k \<longleftrightarrow> u_rax u = of_nat k" if "k < 256" for k
    using that by (auto simp: u64_eq_iff_unat unat_of_nat)
  have "unat (u_rax u) < 256" if "\<not> 256 \<le> u_rax u" using that by (simp add: word_le_nat_alt)
  note tab' = tab [OF this]
  show ?thesis
    by (rule exI [of _ st2]) (simp add: t e tab' n syscall_call_def)
qed

text \<open>
  The entry code keeps the user stack pointer in one global.  When a task is switched out inside a
  system call and another task makes one, the first task returns with the stack
  pointer of the second.
\<close>

lemma syscall_rsp_shared:
  assumes "512 \<le> u_rax other" "syscall_entry table io st other = Some (r, st')"
  shows "u_rsp (syscall_leave st' k rax mine) = u_rsp other"
  using assms by (auto simp: syscall_entry_def Let_def syscall_leave_def)

section \<open>A small system\<close>

definition sys_demo :: "(u8 list \<times> nat) sys_state" where
  \<comment> \<open>the task at 0x2000 runs in the address space rooted at 0x1000; four frames are free\<close>
  "sys_demo = fs_state.extend (set_task (fs_demo (demo_dir [])) 0x2000
       (\<lambda>k. k\<lparr>t_cr3 := 4096, t_mmap_cursor := 0x500000000000, t_fds := (replicate MAX_FDS 0)[0 := 0x9000]\<rparr>))
     (sys_state.fields ([], 0) (replicate SYSCALL_MAX fn_null) 0)"

lemma sys_demo_sel:
  "mem sys_demo = mem vmm_demo" "pmm_bitmap sys_demo = pmm_bitmap vmm_demo" "free_frames sys_demo = free_frames vmm_demo"
  "current_task sys_demo = 0x2000" "t_cr3 (tasks sys_demo 0x2000) = 4096" "t_mmap_cursor (tasks sys_demo 0x2000) = 0x500000000000"
  "t_fds (tasks sys_demo 0x2000) = (replicate MAX_FDS 0)[0 := 0x9000]" "nodes sys_demo = demo_dir []"
  "syscall_table sys_demo = replicate SYSCALL_MAX fn_null"
  by (simp_all add: sys_demo_def fs_state.defs sys_state.defs set_task_def fs_demo_def proc_state.defs proc_demo_def
      sched_state.defs sched_base_def heap_state.defs heap_demo_def vmm_state.defs)

lemma sys_demo_vm: "pmm_inv sys_demo" "pt_wf sys_demo 4096" "free_set sys_demo = {3, 4, 5, 6}" "vmm_translate sys_demo 4096 v = 0"
  using pmm_cong [OF sys_demo_sel(1-3)] view_cong(1) [OF sys_demo_sel(1)] by simp_all


definition read_demo :: "(u8 list \<times> nat) sys_state" where
  \<comment> \<open>descriptor 0 is open on the file of four bytes, the first of which is 1\<close>
  "read_demo = sys_demo\<lparr>vmem := (\<lambda>_. 0)(demo_block := 1),
     files := (\<lambda>_. \<lparr>f_node = 0x8000, f_offset = 0, f_flags = 0, f_refcount = 1\<rparr>)\<rparr>"

theorem sys_read_confined_witness:
  "vmem (snd (sys_read read_demo 0 0x5000 1)) 0x5000 \<noteq> vmem read_demo 0x5000 \<and> unat (0x5000 :: u64) \<le> unat (0x5000 :: u64)"
proof -
  have u: "uptr_ok 0x5000 1" by (simp add: uptr_ok_iff)
  have f: "fd_get read_demo 0 = 0x9000"
    by (simp add: read_demo_def fd_get_def sys_demo_sel MAX_FDS_def)
  have v: "vmem (snd (sys_read read_demo 0 0x5000 1)) 0x5000 = 1" "vmem read_demo 0x5000 = 0"
    by (simp_all add: sys_read_def u vfs_read_def f c_int_def Let_def ramfs_read_def)
      (simp_all add: read_demo_def sys_demo_sel demo_dir_nodes set_file_def HEAP_VIRT_BASE_def)
  obtain r st' where r: "sys_read read_demo 0 0x5000 1 = (r, st')" by fastforce
  then have "vmem st' 0x5000 \<noteq> vmem read_demo 0x5000" using v by simp
  from sys_read_confined [OF r this] show ?thesis using v by simp
qed

theorem sys_mmap_correct_witness:
  "\<exists>st'. sys_mmap sys_demo 0 100 = (Ret 0x500000000000, st') \<and> user_byte st' 4096 0x500000000063 = 0"
proof -
  have va: "(0x500000000000 :: u64) = (if (0 :: u64) \<noteq> 0 then ALIGN_DOWN 0 PAGE_SIZE else t_mmap_cursor (tasks sys_demo 0x2000))"
    by (simp add: sys_demo_sel)
  have p: "pages_of 100 = 1" by (simp add: pages_of_def)
  have "pages_of 100 = 1" "4096 dvd unat (0x500000000000 :: u64)" "unat (0x500000000000 :: u64) + pages_of 100 * 4096 \<le> 140737488355328"
    "4 * pages_of 100 \<le> card (free_set sys_demo)" "(0x2000 :: u64) \<noteq> 0" "(100 :: u64) \<noteq> 0"
    by (simp_all add: p sys_demo_vm(3))
  from sys_mmap_correct [OF sys_demo_vm(1,2) sys_demo_sel(4) this(5) sys_demo_sel(5) this(6) va this(2-4)]
  obtain st' where "sys_mmap sys_demo 0 100 = (Ret 0x500000000000, st')"
    "\<forall>v. unat (0x500000000000 :: u64) \<le> unat v \<and> unat v < unat (0x500000000000 :: u64) + pages_of 100 * 4096 \<longrightarrow> user_byte st' 4096 v = 0 \<and>
       vmm_translate st' 4096 v \<noteq> 0 \<and> page_entry st' 4096 v AND NOT VMM_PHYS_MASK = VMM_USER_RW OR VMM_NO_EXEC \<and>
       unat (vmm_translate st' 4096 v) div 4096 \<in> free_set sys_demo - free_set st'"
    by (elim exE conjE) (rule that)
  note this(1) and this(2) [THEN spec, of "0x500000000063"]
  then show ?thesis by (simp add: p)
qed

theorem sys_munmap_unchecked_witness:
  "\<exists>st'. sys_munmap sys_demo 0xFFFFFFFF80000000 4096 = (Ret 0, st') \<and> pt_wf st' 4096"
proof -
  have "\<exists>st'. sys_munmap sys_demo 0xFFFFFFFF80000000 4096 = (Ret 0, st') \<and> pt_wf st' 4096 \<and> True"
    using sys_munmap_unchecked [OF sys_demo_vm(2), of 18446744071562067968 4096] zero_not_table [OF sys_demo_vm(2)]
    by (auto simp: sys_demo_sel sys_demo_vm)
  then show ?thesis by simp
qed

definition beyond_demo :: "(u8 list \<times> nat) sys_state" where
  \<comment> \<open>behind the table at 0x9000 lies the address 0xBAD where number 300 looks for its handler\<close>
  "beyond_demo = sys_demo\<lparr>vmem := store64 (\<lambda>_. 0) 0x9960 0xBAD, current_task := 0, syscall_kernel_rsp := 0x8000\<rparr>"

theorem syscall_dispatch_witness:
  "\<exists>st2. syscall_entry 0x9000 demo_uart (syscall_init 0x700 beyond_demo)
     \<lparr>u_rax = 300, u_rdi = 0, u_rsi = 0, u_rdx = 0, u_r10 = 0, u_r8 = 0, u_r9 = 0, u_rcx = 0, u_r11 = 0, u_rsp = 0\<rparr> = Some (Wild 0xBAD, st2)"
proof -
  let ?u = "\<lparr>u_rax = 300, u_rdi = 0, u_rsi = 0, u_rdx = 0, u_r10 = 0, u_r8 = 0, u_r9 = 0, u_rcx = 0, u_r11 = 0, u_rsp = 0\<rparr>"
  have t: "syscall_table beyond_demo = replicate SYSCALL_MAX fn_null" by (simp add: beyond_demo_def sys_demo_sel)
  have i: "vmem (syscall_init 0x700 beyond_demo) = store64 (\<lambda>_. 0) 0x9960 0xBAD" "syscall_kernel_rsp (syscall_init 0x700 beyond_demo) = 0x8000"
    by (simp_all add: syscall_init_def Let_def beyond_demo_def wrmsr_def)
  have "load64 (push_syscall_frame (vmem (syscall_init 0x700 beyond_demo)) (syscall_kernel_rsp (syscall_init 0x700 beyond_demo)) ?u) 0x9960 = 0xBAD"
    unfolding i by (simp add: push_syscall_frame_def load64_store64_same load64_store64_other)
  then show ?thesis using syscall_dispatch [OF t refl, of 1792 ?u "0x9000" demo_uart] by auto
qed

end
