(* ===== verification/Bytes.thy ===== *)
theory Bytes
  imports Prelude
begin

text \<open>
  Sixteen and 32-bit little-endian accesses to byte memory, and the conversions between word sizes
  that the drivers and the loader share.
\<close>

definition load16 :: "memory \<Rightarrow> u64 \<Rightarrow> u16" where
  "load16 m a = ucast (m a) OR push_bit 8 (ucast (m (a + 1)))"

definition load32 :: "memory \<Rightarrow> u64 \<Rightarrow> u32" where
  "load32 m a = ucast (load16 m a) OR push_bit 16 (ucast (load16 m (a + 2)))"

definition store16 :: "memory \<Rightarrow> u64 \<Rightarrow> u16 \<Rightarrow> memory" where
  "store16 m a v = m(a := ucast v, a + 1 := ucast (drop_bit 8 v))"

definition store32 :: "memory \<Rightarrow> u64 \<Rightarrow> u32 \<Rightarrow> memory" where
  "store32 m a v = store16 (store16 m a (ucast v)) (a + 2) (ucast (drop_bit 16 v))"

definition le16 :: "u16 \<Rightarrow> u8 list" where
  "le16 v = [ucast v, ucast (drop_bit 8 v)]"

definition le32 :: "u32 \<Rightarrow> u8 list" where
  "le32 v = le16 (ucast v) @ le16 (ucast (drop_bit 16 v))"

fun put_bytes :: "memory \<Rightarrow> u64 \<Rightarrow> u8 list \<Rightarrow> memory" where
  "put_bytes m a [] = m"
| "put_bytes m a (b # bs) = put_bytes (m(a := b)) (a + 1) bs"

definition get_bytes :: "memory \<Rightarrow> u64 \<Rightarrow> nat \<Rightarrow> u8 list" where
  "get_bytes m a n = map (\<lambda>i. m (a + of_nat i)) [0..<n]"

section \<open>Widening\<close>

lemma unat_u8_lt: "unat (x :: u8) < 256"
  using unsigned_less [of x, where ?'a = nat] by simp

lemma unat_u16_lt: "unat (x :: u16) < 65536"
  using unsigned_less [of x, where ?'a = nat] by simp

lemma unat_u32_lt: "unat (x :: u32) < 4294967296"
  using unsigned_less [of x, where ?'a = nat] by simp

lemma unat_widen [simp]:
  "unat (ucast (x :: u8) :: u16) = unat x" "unat (ucast (x :: u8) :: u32) = unat x" "unat (ucast (x :: u8) :: u64) = unat x"
  "unat (ucast (y :: u16) :: u32) = unat y" "unat (ucast (y :: u16) :: u64) = unat y" "unat (ucast (z :: u32) :: u64) = unat z"
  using unat_u8_lt [of x] unat_u16_lt [of y] unat_u32_lt [of z] by (simp_all add: unsigned_ucast_eq take_bit_nat_eq_self_iff)

lemma unat_narrow:
  "unat (ucast (w :: u64) :: u8) = unat w mod 256" "unat (ucast (w :: u64) :: u16) = unat w mod 65536"
  "unat (ucast (w :: u64) :: u32) = unat w mod 4294967296" "unat (ucast (v :: u32) :: u8) = unat v mod 256"
  "unat (ucast (v :: u32) :: u16) = unat v mod 65536" "unat (ucast (u :: u16) :: u8) = unat u mod 256"
  by (simp_all add: unsigned_ucast_eq take_bit_eq_mod)

lemma narrow_widen [simp]:
  "ucast (ucast (x :: u8) :: u16) = x" "ucast (ucast (x :: u8) :: u32) = x" "ucast (ucast (x :: u8) :: u64) = x"
  "ucast (ucast (y :: u16) :: u32) = y" "ucast (ucast (y :: u16) :: u64) = y" "ucast (ucast (z :: u32) :: u64) = z"
  by (auto intro!: bit_word_eqI simp: bit_simps)

lemma of_nat_u64_inj: "a < 18446744073709551616 \<Longrightarrow> b < 18446744073709551616 \<Longrightarrow> (of_nat a :: u64) = of_nat b \<longleftrightarrow> a = b"
  by (metis unat_of_nat_u64)

lemma offset_inj:
  "a < 18446744073709551616 \<Longrightarrow> b < 18446744073709551616 \<Longrightarrow> p + (of_nat a :: u64) = p + of_nat b \<longleftrightarrow> a = b"
  by (simp add: of_nat_u64_inj)

section \<open>Reading back\<close>

lemma u16_bytes: "ucast (ucast (v :: u16) :: u8) OR push_bit 8 (ucast (ucast (drop_bit 8 v) :: u8)) = v"
  by (rule bit_word_eqI) (auto simp: bit_simps)

lemma load16_store16 [mem_simps]: "load16 (store16 m a v) a = v"
  by (simp add: load16_def store16_def u16_bytes)

lemma load16_bytes: "ucast (load16 m a) = m a" "ucast (drop_bit 8 (load16 m a)) = m (a + 1)"
proof -
  have "\<not> bit (x :: u8) (8 + n)" for x n using bit_imp_le_length [of x "8 + n"] by auto
  then show "ucast (load16 m a) = m a" "ucast (drop_bit 8 (load16 m a)) = m (a + 1)"
    by (auto intro!: bit_word_eqI simp: load16_def bit_simps dest: bit_imp_le_length)
qed

lemma store16_load16: "store16 m a (load16 m a) = m"
  by (simp add: store16_def load16_bytes)

lemma u32_halves: "ucast (ucast (v :: u32) :: u16) OR push_bit 16 (ucast (ucast (drop_bit 16 v) :: u16)) = v"
  by (rule bit_word_eqI) (auto simp: bit_simps)

lemma load16_store16_apart: "b \<noteq> a \<Longrightarrow> b \<noteq> a + 1 \<Longrightarrow> b + 1 \<noteq> a \<Longrightarrow> load16 (store16 m a v) b = load16 m b"
  by (simp add: load16_def store16_def)

lemma load32_store32 [mem_simps]: "load32 (store32 m a v) a = v"
proof -
  have n: "a \<noteq> a + 2" "a \<noteq> a + 3" "a + 1 \<noteq> a + 2" by simp_all
  have "load16 (store16 (store16 m a w) (a + 2) u) a = w" for w u
    using n by (subst load16_store16_apart) (simp_all add: load16_store16)
  then show ?thesis by (simp add: load32_def store32_def load16_store16 u32_halves)
qed

lemma length_get_bytes [simp]: "length (get_bytes m a n) = n"
  by (simp add: get_bytes_def)

lemma nth_get_bytes [simp]: "i < n \<Longrightarrow> get_bytes m a n ! i = m (a + of_nat i)"
  by (simp add: get_bytes_def)

lemma put_bytes_eq:
  assumes "length bs \<le> 18446744073709551616"
  shows "put_bytes m a bs x = (if unat (x - a) < length bs then bs ! unat (x - a) else m x)"
  using assms
proof (induction bs arbitrary: m a)
  case (Cons b bs)
  show ?case
  proof (cases "x = a")
    case True
    have "unat (a - (a + 1)) = 18446744073709551615" by (simp add: unat_word_ariths)
    then show ?thesis using True Cons by simp
  next
    case False
    then have "x - a \<noteq> 0" by simp
    then have "unat (x - a) = Suc (unat (x - a - 1))"
      using unat_minus_one [of "x - a"] by (simp add: unat_gt_0)
    then show ?thesis using False Cons by (simp add: diff_diff_eq)
  qed
qed simp

lemma put_bytes_append: "put_bytes m a (xs @ ys) = put_bytes (put_bytes m a xs) (a + of_nat (length xs)) ys"
  by (induction xs arbitrary: m a) (simp_all add: add.assoc)

end
