(* ===== verification/Elf.thy ===== *)
theory Elf
  imports SchedCreate AddrSpace Bytes
begin

text \<open>
  The program loader, \<^verbatim>\<open>kernel/elf/elf.c\<close>.  The image lies in kernel virtual memory \<open>vmem\<close>; the
  pages of the new process are filled through the identity map, that is in physical memory
  \<open>mem\<close>.  The progress messages on the serial line are left out.
\<close>

section \<open>Headers\<close>

definition ELF_MAGIC :: u32 where [kdefs]: "ELF_MAGIC = 0x464C457F"
definition ET_EXEC :: u16 where [kdefs]: "ET_EXEC = 2"
definition EM_X86_64 :: u16 where [kdefs]: "EM_X86_64 = 62"
definition EV_CURRENT :: u32 where [kdefs]: "EV_CURRENT = 1"
definition ELFCLASS64 :: u8 where [kdefs]: "ELFCLASS64 = 2"
definition ELFDATA2LSB :: u8 where [kdefs]: "ELFDATA2LSB = 1"
definition PT_LOAD :: u32 where [kdefs]: "PT_LOAD = 1"
definition PF_X :: u32 where [kdefs]: "PF_X = 1"
definition PF_W :: u32 where [kdefs]: "PF_W = 2"
definition USER_STACK_TOP :: u64 where [kdefs]: "USER_STACK_TOP = 0x00007FFFFFFF0000"
definition USER_STACK_SIZE :: u64 where [kdefs]: "USER_STACK_SIZE = 0x10000"

record elf64_hdr =
  e_ident :: "u8 list"
  e_type :: u16
  e_machine :: u16
  e_version :: u32
  e_entry :: u64
  e_phoff :: u64
  e_phentsize :: u16
  e_phnum :: u16

record elf64_phdr =
  p_type :: u32
  p_flags :: u32
  p_offset :: u64
  p_vaddr :: u64
  p_filesz :: u64
  p_memsz :: u64

definition elf_hdr_at :: "memory \<Rightarrow> u64 \<Rightarrow> elf64_hdr" where
  \<comment> \<open>the packed header; the fields the loader never looks at are left out\<close>
  "elf_hdr_at m p = \<lparr>e_ident = map (\<lambda>i. m (p + of_nat i)) [0..<16], e_type = load16 m (p + 16), e_machine = load16 m (p + 18),
     e_version = load32 m (p + 20), e_entry = load64 m (p + 24), e_phoff = load64 m (p + 32),
     e_phentsize = load16 m (p + 54), e_phnum = load16 m (p + 56)\<rparr>"

definition elf_phdr_at :: "memory \<Rightarrow> u64 \<Rightarrow> elf64_phdr" where
  "elf_phdr_at m p = \<lparr>p_type = load32 m p, p_flags = load32 m (p + 4), p_offset = load64 m (p + 8), p_vaddr = load64 m (p + 16),
     p_filesz = load64 m (p + 32), p_memsz = load64 m (p + 40)\<rparr>"

definition SIZEOF_EHDR :: u64 where [kdefs]: "SIZEOF_EHDR = 64"
definition SIZEOF_PHDR :: u16 where [kdefs]: "SIZEOF_PHDR = 56"

section \<open>Loading\<close>

definition elf_flags_to_vmm :: "u32 \<Rightarrow> u64" where
  "elf_flags_to_vmm pf =
     (let flags = VMM_PRESENT OR VMM_USER;
          flags = (if pf AND PF_W \<noteq> 0 then flags OR VMM_WRITABLE else flags)
      in if pf AND PF_X = 0 then flags OR VMM_NO_EXEC else flags)"

definition elf_magic :: "elf64_hdr \<Rightarrow> u32" where
  \<comment> \<open>\<^verbatim>\<open>*(const uint32_t *)hdr->e_ident\<close>\<close>
  "elf_magic hdr = ucast (e_ident hdr ! 0) OR push_bit 8 (ucast (e_ident hdr ! 1)) OR
     push_bit 16 (ucast (e_ident hdr ! 2)) OR push_bit 24 (ucast (e_ident hdr ! 3))"

definition elf_validate :: "elf64_hdr \<Rightarrow> u64 \<Rightarrow> int" where
  "elf_validate hdr sz =
     (if sz < SIZEOF_EHDR then - 1
      else if elf_magic hdr \<noteq> ELF_MAGIC then - 1
      else if e_ident hdr ! 4 \<noteq> ELFCLASS64 then - 1
      else if e_ident hdr ! 5 \<noteq> ELFDATA2LSB then - 1
      else if e_type hdr \<noteq> ET_EXEC then - 1
      else if e_machine hdr \<noteq> EM_X86_64 then - 1
      else if e_version hdr \<noteq> EV_CURRENT then - 1
      else if e_phentsize hdr < SIZEOF_PHDR then - 1
      else if e_phnum hdr = 0 then - 1
      else if e_entry hdr = 0 then - 1
      else 0)"

fun memcpy_phys :: "memory \<Rightarrow> u64 \<Rightarrow> memory \<Rightarrow> u64 \<Rightarrow> nat \<Rightarrow> memory" where
  \<comment> \<open>\<^verbatim>\<open>memcpy\<close> from kernel memory into identity-mapped physical memory\<close>
  "memcpy_phys m d vm s 0 = m"
| "memcpy_phys m d vm s (Suc n) = memcpy_phys (m(d := vm s)) (d + 1) vm (s + 1) n"

definition elf_copy_page :: "memory \<Rightarrow> memory \<Rightarrow> u64 \<Rightarrow> elf64_phdr \<Rightarrow> u64 \<Rightarrow> u64 \<Rightarrow> memory" where
  \<comment> \<open>the part of the file that falls into the page at \<open>page_va\<close>, held by the frame at \<open>page_phys\<close>\<close>
  "elf_copy_page m vm src ph page_va page_phys =
     (let page_start = page_va;
          page_end = page_va + PAGE_SIZE;
          seg_start = p_vaddr ph;
          seg_fend = p_vaddr ph + p_filesz ph;
          copy_va_start = (if page_start < seg_start then seg_start else page_start);
          copy_va_end = (if seg_fend < page_end then seg_fend else page_end)
      in if copy_va_start < copy_va_end \<and> copy_va_start < seg_fend then
           let dst_off = copy_va_start - page_start;
               src_off = copy_va_start - seg_start;
               copy_len = copy_va_end - copy_va_start
           in memcpy_phys m (page_phys + dst_off) vm (src + src_off) (unat copy_len)
         else m)"

fun elf_map_pages :: "'a heap_state_scheme \<Rightarrow> u64 \<Rightarrow> u64 \<Rightarrow> elf64_phdr \<Rightarrow> u64 \<Rightarrow> u64 \<Rightarrow> nat list \<Rightarrow> int \<times> 'a heap_state_scheme" where
  \<comment> \<open>the page loop of \<^verbatim>\<open>elf_map_segment\<close>\<close>
  "elf_map_pages st pml4 src ph va_start flags [] = (0, st)"
| "elf_map_pages st pml4 src ph va_start flags (i # is) =
     (case pmm_alloc st of (phys, st1) \<Rightarrow>
        if phys = 0 then (- 1, st1)
        else
          let page_va = va_start + of_nat i * PAGE_SIZE;
              st2 = vmm_map st1 pml4 page_va phys flags;
              st3 = st2\<lparr>mem := elf_copy_page (mem st2) (vmem st2) src ph page_va phys\<rparr>
          in elf_map_pages st3 pml4 src ph va_start flags is)"

definition elf_map_segment :: "'a heap_state_scheme \<Rightarrow> u64 \<Rightarrow> u64 \<Rightarrow> u64 \<Rightarrow> elf64_phdr \<Rightarrow> int \<times> 'a heap_state_scheme" where
  "elf_map_segment st pml4 elf_data elf_size ph =
     (if p_memsz ph = 0 then (0, st)
      else if 0 < p_filesz ph \<and> elf_size < p_offset ph + p_filesz ph then (- 1, st)
      else
        let va_start = ALIGN_DOWN (p_vaddr ph) PAGE_SIZE;
            va_end = ALIGN_UP (p_vaddr ph + p_memsz ph) PAGE_SIZE;
            num_pages = (va_end - va_start) div PAGE_SIZE
        in elf_map_pages st pml4 (elf_data + p_offset ph) ph va_start (elf_flags_to_vmm (p_flags ph)) [0..<unat num_pages])"

fun elf_load_segments :: "'a heap_state_scheme \<Rightarrow> u64 \<Rightarrow> u64 \<Rightarrow> u64 \<Rightarrow> elf64_hdr \<Rightarrow> nat list \<Rightarrow> int \<times> 'a heap_state_scheme" where
  \<comment> \<open>the program header loop of \<^verbatim>\<open>elf_load\<close>\<close>
  "elf_load_segments st pml4 data elf_size hdr [] = (0, st)"
| "elf_load_segments st pml4 data elf_size hdr (i # is) =
     (let ph = elf_phdr_at (vmem st) (data + e_phoff hdr + of_nat i * ucast (e_phentsize hdr)) in
      if p_type ph \<noteq> PT_LOAD then elf_load_segments st pml4 data elf_size hdr is
      else case elf_map_segment st pml4 data elf_size ph of (r, st1) \<Rightarrow>
        if r \<noteq> 0 then (- 1, st1) else elf_load_segments st1 pml4 data elf_size hdr is)"

definition elf_stack_sentinel :: "'a heap_state_scheme \<Rightarrow> u64 \<Rightarrow> u64 \<Rightarrow> 'a heap_state_scheme" where
  \<comment> \<open>the null return address; \<^verbatim>\<open>vmm_translate\<close> already includes the offset in the page\<close>
  "elf_stack_sentinel st pml4 user_rsp =
     (let rsp_phys = vmm_translate st pml4 (user_rsp AND NOT 7)
      in if rsp_phys \<noteq> 0 then st\<lparr>mem := store64 (mem st) (rsp_phys + (user_rsp AND 0xFFF)) 0\<rparr> else st)"

definition elf_load :: "link_syms \<Rightarrow> 'a sched_state_scheme \<Rightarrow> string \<Rightarrow> u64 \<Rightarrow> u64 \<Rightarrow> u32 \<Rightarrow>
    (u64 \<times> 'a sched_state_scheme) option" where
  "elf_load ls st name elf_data elf_size priority =
     (let hdr = elf_hdr_at (vmem st) elf_data in
      if elf_validate hdr elf_size \<noteq> 0 then Some (0, st)
      else case vmm_create_address_space st of (pml4, st1) \<Rightarrow>
        if pml4 = 0 then Some (0, st1)
        else case elf_load_segments st1 pml4 elf_data elf_size hdr [0..<unat (e_phnum hdr)] of (r, st2) \<Rightarrow>
          if r \<noteq> 0 then Some (0, st2)
          else case vmm_alloc_range st2 pml4 (USER_STACK_TOP - USER_STACK_SIZE) USER_STACK_SIZE (VMM_USER_RW OR VMM_NO_EXEC) of (q, st3) \<Rightarrow>
            if q \<noteq> 0 then Some (0, st3)
            else do {
              let user_rsp = USER_STACK_TOP - 8;
              let st4 = elf_stack_sentinel st3 pml4 user_rsp;
              (t, st5) \<leftarrow> sched_create_user_task ls st4 name (e_entry hdr) user_rsp pml4 priority;
              if t = 0 then Some (0, st5) else Some (t, sched_enqueue st5 t)
            })"

section \<open>Copying a page\<close>

lemma memcpy_phys_eq:
  "unat d + n \<le> 18446744073709551616 \<Longrightarrow> memcpy_phys m d vm s n x =
     (if unat d \<le> unat x \<and> unat x < unat d + n then vm (s + of_nat (unat x - unat d)) else m x)"
proof (induction n arbitrary: m d s)
  case (Suc n)
  show ?case
  proof (cases "n = 0")
    case True
    then show ?thesis by (auto simp: u64_eq_iff_unat)
  next
    case False
    then have u: "unat (d + 1) = unat d + 1" using Suc.prems by (simp add: unat_word_ariths)
    have e: "s + 1 + of_nat (unat x - (unat d + 1)) = s + of_nat (unat x - unat d)" if "unat d < unat x"
    proof -
      have "unat x - unat d = Suc (unat x - (unat d + 1))" using that by simp
      then show ?thesis by (simp only: of_nat_Suc add_ac)
    qed
    have "unat (d + 1) + n \<le> 18446744073709551616" using Suc.prems u by simp
    note ih = Suc.IH [OF this, of "m(d := vm s)" "s + 1", unfolded u]
    have r: "memcpy_phys m d vm s (Suc n) x = (if unat d + 1 \<le> unat x \<and> unat x < unat d + 1 + n
        then vm (s + 1 + of_nat (unat x - (unat d + 1))) else (m(d := vm s)) x)"
      unfolding memcpy_phys.simps by (rule ih)
    show ?thesis
    proof (cases "x = d")
      case True
      then show ?thesis unfolding r by simp
    next
      case False
      then have "unat x \<noteq> unat d" by (simp add: u64_eq_iff_unat)
      then show ?thesis unfolding r using e False by (cases "unat d < unat x") simp_all
    qed
  qed
qed auto

definition segment_byte :: "memory \<Rightarrow> u64 \<Rightarrow> elf64_phdr \<Rightarrow> nat \<Rightarrow> u8" where
  \<comment> \<open>the byte a segment prescribes for an address: file contents, then zeros\<close>
  "segment_byte vm src ph v = (if unat (p_vaddr ph) \<le> v \<and> v < unat (p_vaddr ph) + unat (p_filesz ph)
     then vm (src + of_nat (v - unat (p_vaddr ph))) else 0)"

lemma elf_copy_page_eq:
  assumes "page_ptr phys" "unat va + 4096 \<le> 281474976710656" "unat (p_vaddr ph) + unat (p_filesz ph) \<le> 281474976710656"
  shows "unat x div 4096 \<noteq> unat phys div 4096 \<Longrightarrow> elf_copy_page m vm src ph va phys x = m x"
    "unat x div 4096 = unat phys div 4096 \<Longrightarrow> m x = 0 \<Longrightarrow>
       elf_copy_page m vm src ph va phys x = segment_byte vm src ph (unat va + unat x mod 4096)"
proof -
  define cs where "cs = (if va < p_vaddr ph then p_vaddr ph else va)"
  define ce where "ce = (if p_vaddr ph + p_filesz ph < va + PAGE_SIZE then p_vaddr ph + p_filesz ph else va + PAGE_SIZE)"
  let ?V = "unat (p_vaddr ph)" and ?F = "unat (p_filesz ph)"
  have u: "unat (va + PAGE_SIZE) = unat va + 4096" "unat (p_vaddr ph + p_filesz ph) = ?V + ?F"
    using assms(2,3) by (simp_all add: PAGE_SIZE_def unat_word_ariths)
  have ucs: "unat cs = max (unat va) ?V" by (simp add: cs_def word_less_nat_alt max_def)
  have uce: "unat ce = min (?V + ?F) (unat va + 4096)" by (simp add: ce_def word_less_nat_alt u min_def)
  obtain a where a: "unat phys = 4096 * a" "a < 1048576" using assms(1) by (auto simp: page_ptr_def PMM_MAX_FRAMES_def)
  have def: "elf_copy_page m vm src ph va phys = (if cs < ce
      then memcpy_phys m (phys + (cs - va)) vm (src + (cs - p_vaddr ph)) (unat (ce - cs)) else m)"
  proof -
    have "cs < p_vaddr ph + p_filesz ph" if "cs < ce" using that uce by (simp add: word_less_nat_alt u)
    then show ?thesis unfolding elf_copy_page_def Let_def cs_def [symmetric] ce_def [symmetric] by auto
  qed
  have eq: "elf_copy_page m vm src ph va phys x =
      (if unat phys + (unat cs - unat va) \<le> unat x \<and> unat x < unat phys + (unat ce - unat va) \<and> unat cs < unat ce
       then vm (src + of_nat (unat cs - ?V + (unat x - (unat phys + (unat cs - unat va))))) else m x)"
  proof (cases "cs < ce")
    case True
    then have lt: "unat cs < unat ce" by (simp add: word_less_nat_alt)
    have o: "unat (cs - va) = unat cs - unat va" "unat (cs - p_vaddr ph) = unat cs - ?V" "unat (ce - cs) = unat ce - unat cs"
      using lt ucs unat_sub [of va cs] unat_sub [of "p_vaddr ph" cs] unat_sub [of cs ce] by (simp_all add: word_le_nat_alt)
    have d: "unat (phys + (cs - va)) = unat phys + (unat cs - unat va)"
    proof -
      have "unat cs < unat va + 4096" using lt uce by simp
      then have "unat cs - unat va < 4096" by linarith
      then have "unat phys + unat (cs - va) < 18446744073709551616" using a o(1) by simp
      then show ?thesis using o(1) by (simp add: unat_word_ariths)
    qed
    have s: "cs - p_vaddr ph = of_nat (unat cs - ?V)" by (simp flip: o(2))
    have b: "unat ce \<le> unat va + 4096" "unat va \<le> unat cs" using ucs uce by simp_all
    then have "unat (phys + (cs - va)) + unat (ce - cs) \<le> 18446744073709551616" using d o(3) a lt by linarith
    note e = memcpy_phys_eq [OF this, of m vm "src + (cs - p_vaddr ph)" x, unfolded d o(3) s]
    have q: "unat phys + (unat cs - unat va) + (unat ce - unat cs) = unat phys + (unat ce - unat va)"
      using b lt by linarith
    show ?thesis
      unfolding def using True lt e [unfolded q] by (simp only: if_True simp_thms of_nat_add add.assoc s o(3))
  next
    case False
    then show ?thesis unfolding def by (simp add: word_less_nat_alt)
  qed
  show "elf_copy_page m vm src ph va phys x = m x" if "unat x div 4096 \<noteq> unat phys div 4096"
  proof (rule ccontr)
    assume "\<not> ?thesis"
    then have "unat phys \<le> unat x" "unat x < unat phys + 4096" using eq uce by (auto split: if_splits)
    then have "unat x div 4096 = a" using a(1) by (intro div_nat_eqI) simp_all
    then show False using that a(1) by simp
  qed
  show "elf_copy_page m vm src ph va phys x = segment_byte vm src ph (unat va + unat x mod 4096)"
    if x: "unat x div 4096 = unat phys div 4096" "m x = 0"
  proof -
    have xe: "unat x = unat phys + unat x mod 4096" using x(1) a(1) div_mult_mod_eq [of "unat x" 4096] by simp
    define j where "j = unat x mod 4096"
    have j: "unat x = unat phys + j" "j < 4096" using xe by (simp_all add: j_def)
    have c: "(unat phys + (unat cs - unat va) \<le> unat x \<and> unat x < unat phys + (unat ce - unat va) \<and> unat cs < unat ce) \<longleftrightarrow>
        ?V \<le> unat va + j \<and> unat va + j < ?V + ?F"
      unfolding j(1) ucs uce using j(2) by (auto simp: max_def min_def)
    have i: "unat cs - ?V + (unat x - (unat phys + (unat cs - unat va))) = unat va + j - ?V"
      if "?V \<le> unat va + j" using that unfolding j(1) ucs by (auto simp: max_def)
    show ?thesis unfolding eq c j_def [symmetric] segment_byte_def using i x(2) by auto
  qed
qed

section \<open>Segments\<close>

definition segment_pages :: "memory \<Rightarrow> u64 \<Rightarrow> elf64_phdr \<Rightarrow> page_spec list" where
  \<comment> \<open>the pages a segment asks for, with their permissions and contents\<close>
  "segment_pages vm data ph =
     (let va = ALIGN_DOWN (p_vaddr ph) PAGE_SIZE;
          n = (unat (p_vaddr ph) + unat (p_memsz ph) + 4095) div 4096 - unat (p_vaddr ph) div 4096
      in if p_memsz ph = 0 then [] else map (\<lambda>i. (va + of_nat i * PAGE_SIZE, elf_flags_to_vmm (p_flags ph),
            \<lambda>j. segment_byte vm (data + p_offset ph) ph (unat va + i * 4096 + j))) [0..<n])"

definition segment_ok :: "u64 \<Rightarrow> elf64_phdr \<Rightarrow> bool" where
  \<comment> \<open>the segment lies in the lower half and its file part in the image\<close>
  "segment_ok elf_size ph \<longleftrightarrow> unat (p_vaddr ph) + unat (p_memsz ph) \<le> 140737488355328 \<and>
     unat (p_vaddr ph) + unat (p_filesz ph) \<le> 140737488355328 \<and> unat (p_offset ph) + unat (p_filesz ph) \<le> unat elf_size"

lemma pmm_more_vmem: "pmm_state.more st' = pmm_state.more st \<Longrightarrow> vmem st' = vmem st"
  by (rule heap_fields_more)

lemma alloc_nonzero: "pmm_inv st \<Longrightarrow> free_set st \<noteq> {} \<Longrightarrow> pmm_alloc st = (phys, st1) \<Longrightarrow> phys \<noteq> 0"
  using alloc_result_ptr(2) [of st] by (cases st rule: pmm_alloc_cases) (auto simp: prod_eq_iff)

lemma elf_map_pages_mapped:
  assumes "pmm_inv st" "pt_wf st root" "4 * length is \<le> card (free_set st)"
    "distinct (map (\<lambda>i. virt_page (va + of_nat i * PAGE_SIZE)) is)"
    "\<forall>i \<in> set is. unat (va + of_nat i * PAGE_SIZE) = unat va + i * 4096 \<and> unat va + i * 4096 + 4096 \<le> 281474976710656"
    "unat (p_vaddr ph) + unat (p_filesz ph) \<le> 281474976710656"
  shows "\<exists>st'. elf_map_pages st root src ph va fl is = (0, st') \<and> pmm_state.more st' = pmm_state.more st \<and>
    pages_mapped root st st' (map (\<lambda>i. (va + of_nat i * PAGE_SIZE, fl, \<lambda>j. segment_byte (vmem st) src ph (unat va + i * 4096 + j))) is)"
  using assms
proof (induction "is" arbitrary: st)
  case Nil
  then show ?case by (simp add: pages_mapped_Nil)
next
  case (Cons i "is")
  let ?va = "va + of_nat i * PAGE_SIZE" and ?c = "\<lambda>i j. segment_byte (vmem st) src ph (unat va + i * 4096 + j)"
  obtain phys st1 where a: "pmm_alloc st = (phys, st1)" by fastforce
  define st2 where "st2 = vmm_map st1 root ?va phys fl"
  define m where "m = elf_copy_page (mem st2) (vmem st2) src ph ?va phys"
  define st3 where "st3 = st2\<lparr>mem := m\<rparr>"
  have m1: "pmm_state.more st1 = pmm_state.more st" using pmm_alloc_more [of st] a by simp
  have m2: "pmm_state.more st2 = pmm_state.more st" using m1 by (simp add: st2_def vmm_map_more)
  have m3: "pmm_state.more st3 = pmm_state.more st" using m2 by (simp add: st3_def)
  have v: "unat ?va = unat va + i * 4096" "unat ?va + 4096 \<le> 281474976710656" using Cons.prems(5) by simp_all
  have "4 \<le> card (free_set st)" using Cons.prems(3) by simp
  note mp = map_page [OF Cons.prems(1,2) this a st2_def, of m "?c i", folded st3_def]
  have p: "pages_mapped root st st3 [(?va, fl, ?c i)]"
  proof (rule mp(1))
    fix x :: u64 assume "page_ptr phys" "unat x div 4096 \<noteq> unat phys div 4096"
    then show "m x = mem st2 x" unfolding m_def by (rule elf_copy_page_eq(1) [OF _ v(2) Cons.prems(6)])
  next
    fix x :: u64 assume "page_ptr phys" "unat x div 4096 = unat phys div 4096" "mem st2 x = 0"
    then show "m x = ?c i (unat x mod 4096)"
      unfolding m_def using elf_copy_page_eq(2) [OF _ v(2) Cons.prems(6)] by (simp add: v(1) pmm_more_vmem [OF m2])
  qed
  have ph0: "phys \<noteq> 0" using Cons.prems(1,3) a by (intro alloc_nonzero) auto
  have 3: "pmm_inv st3" "pt_wf st3 root" "4 * length is \<le> card (free_set st3)"
    using p Cons.prems(3) by (auto simp: pages_mapped_def)
  from Cons.IH [OF 3] Cons.prems(4-6) obtain st' where
    r: "elf_map_pages st3 root src ph va fl is = (0, st')" "pmm_state.more st' = pmm_state.more st3"
      "pages_mapped root st3 st' (map (\<lambda>i. (va + of_nat i * PAGE_SIZE, fl, ?c i)) is)"
    unfolding pmm_more_vmem [OF m3] by auto
  have "pages_mapped root st st' ([(?va, fl, ?c i)] @ map (\<lambda>i. (va + of_nat i * PAGE_SIZE, fl, ?c i)) is)"
    using Cons.prems(4) by (intro pages_mapped_append [OF p r(3)]) auto
  moreover have "elf_map_pages st root src ph va fl (i # is) = (0, st')"
    using r(1) ph0 a by (simp add: st3_def m_def st2_def Let_def)
  ultimately show ?case using r(2) m3 by simp
qed

lemma segment_bounds:
  assumes "segment_ok elf_size ph"
  defines "va \<equiv> ALIGN_DOWN (p_vaddr ph) PAGE_SIZE" and "ve \<equiv> ALIGN_UP (p_vaddr ph + p_memsz ph) PAGE_SIZE"
  defines "n \<equiv> (unat (p_vaddr ph) + unat (p_memsz ph) + 4095) div 4096 - unat (p_vaddr ph) div 4096"
  shows "unat va = unat (p_vaddr ph) div 4096 * 4096" "4096 dvd unat va" "unat va + n * 4096 \<le> 281474976710656"
    "unat ((ve - va) div PAGE_SIZE) = n" "unat (p_vaddr ph) + unat (p_memsz ph) \<le> unat va + n * 4096"
proof -
  let ?V = "unat (p_vaddr ph)" and ?M = "unat (p_memsz ph)"
  have b: "?V + ?M \<le> 140737488355328" using assms(1) by (simp add: segment_ok_def)
  show va: "unat va = ?V div 4096 * 4096" by (simp add: va_def PAGE_SIZE_def unat_page_down)
  then show "4096 dvd unat va" by simp
  have le: "?V div 4096 \<le> (?V + ?M + 4095) div 4096" by (intro div_le_mono) simp
  have e: "unat va + n * 4096 = (?V + ?M + 4095) div 4096 * 4096" using le by (simp add: va n_def diff_mult_distrib)
  show "unat va + n * 4096 \<le> 281474976710656" "?V + ?M \<le> unat va + n * 4096" unfolding e using b by linarith+
  have "unat (p_vaddr ph + p_memsz ph) = ?V + ?M" using b by (simp add: unat_word_ariths)
  then have ve: "unat ve = (?V + ?M + 4095) div 4096 * 4096" using b by (simp add: ve_def PAGE_SIZE_def unat_page_up)
  have "va \<le> ve" using le by (simp add: word_le_nat_alt va ve)
  then have "unat (ve - va) = n * 4096" using e by (simp add: unat_sub ve va)
  then show "unat ((ve - va) div PAGE_SIZE) = n" by (simp add: unat_div PAGE_SIZE_def)
qed

lemma elf_map_segment_mapped:
  assumes "pmm_inv st" "pt_wf st root" "segment_ok elf_size ph" "4 * length (segment_pages (vmem st) data ph) \<le> card (free_set st)"
  shows "\<exists>st'. elf_map_segment st root data elf_size ph = (0, st') \<and> pmm_state.more st' = pmm_state.more st \<and>
    pages_mapped root st st' (segment_pages (vmem st) data ph)"
proof (cases "p_memsz ph = 0")
  case True
  then show ?thesis using assms(1,2) by (simp add: elf_map_segment_def segment_pages_def pages_mapped_Nil)
next
  case False
  let ?va = "ALIGN_DOWN (p_vaddr ph) PAGE_SIZE"
  define n where "n = (unat (p_vaddr ph) + unat (p_memsz ph) + 4095) div 4096 - unat (p_vaddr ph) div 4096"
  note b = segment_bounds [OF assms(3), folded n_def]
  have ps: "segment_pages (vmem st) data ph = map (\<lambda>i. (?va + of_nat i * PAGE_SIZE, elf_flags_to_vmm (p_flags ph),
      \<lambda>j. segment_byte (vmem st) (data + p_offset ph) ph (unat ?va + i * 4096 + j))) [0..<n]"
    using False by (simp add: segment_pages_def n_def Let_def)
  have "unat (p_offset ph + p_filesz ph) \<le> unat elf_size"
    using assms(3) by (auto simp: segment_ok_def unat_word_ariths intro: order_trans [OF mod_less_eq_dividend])
  then have fits: "\<not> elf_size < p_offset ph + p_filesz ph" by (simp add: word_less_nat_alt)
  have pg: "unat (?va + of_nat i * PAGE_SIZE) = unat ?va + i * 4096 \<and> unat ?va + i * 4096 + 4096 \<le> 281474976710656"
    if "i < n" for i
  proof -
    have "(i + 1) * 4096 \<le> n * 4096" using that by (intro mult_le_mono1) simp
    then show ?thesis using page_addr [OF b(3) that] b(3) by simp
  qed
  have "\<exists>st'. elf_map_pages st root (data + p_offset ph) ph ?va (elf_flags_to_vmm (p_flags ph)) [0..<n] = (0, st') \<and>
      pmm_state.more st' = pmm_state.more st \<and> pages_mapped root st st' (segment_pages (vmem st) data ph)"
    unfolding ps using assms(3,4) pg pages_distinct [OF b(2,3)]
    by (intro elf_map_pages_mapped [OF assms(1,2)]) (auto simp: ps segment_ok_def)
  then show ?thesis using False fits by (simp add: elf_map_segment_def Let_def b(4))
qed

definition load_pages :: "memory \<Rightarrow> u64 \<Rightarrow> elf64_hdr \<Rightarrow> nat list \<Rightarrow> page_spec list" where
  \<comment> \<open>the pages all loadable segments ask for\<close>
  "load_pages vm data hdr is = concat (map (\<lambda>i. let ph = elf_phdr_at vm (data + e_phoff hdr + of_nat i * ucast (e_phentsize hdr)) in
     if p_type ph \<noteq> PT_LOAD then [] else segment_pages vm data ph) is)"

lemma load_pages_simps:
  "load_pages vm data hdr [] = []"
  "load_pages vm data hdr (i # is) = (let ph = elf_phdr_at vm (data + e_phoff hdr + of_nat i * ucast (e_phentsize hdr)) in
     if p_type ph \<noteq> PT_LOAD then [] else segment_pages vm data ph) @ load_pages vm data hdr is"
  by (simp_all add: load_pages_def)

lemma elf_load_segments_mapped:
  assumes "pmm_inv st" "pt_wf st root" "4 * length (load_pages (vmem st) data hdr is) \<le> card (free_set st)"
    "\<forall>i \<in> set is. segment_ok elf_size (elf_phdr_at (vmem st) (data + e_phoff hdr + of_nat i * ucast (e_phentsize hdr)))"
    "distinct (map (\<lambda>p. virt_page (fst p)) (load_pages (vmem st) data hdr is))"
  shows "\<exists>st'. elf_load_segments st root data elf_size hdr is = (0, st') \<and> pmm_state.more st' = pmm_state.more st \<and>
    pages_mapped root st st' (load_pages (vmem st) data hdr is)"
  using assms
proof (induction "is" arbitrary: st)
  case Nil
  then show ?case by (simp add: load_pages_simps pages_mapped_Nil)
next
  case (Cons i "is")
  define ph where "ph = elf_phdr_at (vmem st) (data + e_phoff hdr + of_nat i * ucast (e_phentsize hdr))"
  show ?case
  proof (cases "p_type ph = PT_LOAD")
    case False
    then show ?thesis using Cons.IH [OF Cons.prems(1,2)] Cons.prems(3-5) by (simp add: load_pages_simps Let_def flip: ph_def)
  next
    case True
    let ?ps = "segment_pages (vmem st) data ph" and ?qs = "load_pages (vmem st) data hdr is"
    have l: "load_pages (vmem st) data hdr (i # is) = ?ps @ ?qs"
      using True by (simp add: load_pages_simps Let_def flip: ph_def)
    obtain st1 where s: "elf_map_segment st root data elf_size ph = (0, st1)" "pmm_state.more st1 = pmm_state.more st"
      "pages_mapped root st st1 ?ps"
      using elf_map_segment_mapped [OF Cons.prems(1,2), of elf_size ph data] Cons.prems(3,4) by (auto simp: l ph_def)
    note vm = pmm_more_vmem [OF s(2)]
    have w: "pmm_inv st1" "pt_wf st1 root" "4 * length ?qs \<le> card (free_set st1)"
      using s(3) Cons.prems(3) by (auto simp: pages_mapped_def l)
    obtain st' where t: "elf_load_segments st1 root data elf_size hdr is = (0, st')" "pmm_state.more st' = pmm_state.more st1"
      "pages_mapped root st1 st' ?qs"
      using Cons.IH [OF w(1,2)] w(3) Cons.prems(4,5) by (auto simp: vm l)
    have "pages_mapped root st st' (?ps @ ?qs)"
      using Cons.prems(5) by (intro pages_mapped_append [OF s(3) t(3)]) (auto simp: l)
    then show ?thesis using s t True by (simp add: l Let_def flip: ph_def)
  qed
qed

lemma elf_flags: "elf_flags_to_vmm pf AND VMM_PHYS_MASK = 0" "elf_flags_to_vmm pf AND VMM_PRESENT \<noteq> 0"
  by (simp_all add: elf_flags_to_vmm_def Let_def kdefs)

text \<open>
  C17: the loader puts a program in place.  When every loadable segment lies in the lower half with its
  file part inside the image, no two segments share a page and four frames per page are free,
  the segment loop succeeds, and in the new address space every byte of every segment
  reads as the file prescribes (zero beyond the file part) with exactly the permissions of the
  segment.
\<close>

theorem elf_image_loaded:
  fixes st :: "'a heap_state_scheme"
  assumes "pmm_inv st" "pt_wf st root" "4 * length (load_pages (vmem st) data hdr is) \<le> card (free_set st)"
    "\<forall>i \<in> set is. segment_ok elf_size (elf_phdr_at (vmem st) (data + e_phoff hdr + of_nat i * ucast (e_phentsize hdr)))"
    "distinct (map (\<lambda>p. virt_page (fst p)) (load_pages (vmem st) data hdr is))"
  shows "\<exists>st'. elf_load_segments st root data elf_size hdr is = (0, st') \<and> pmm_inv st' \<and> pt_wf st' root \<and>
    (\<forall>i \<in> set is. let ph = elf_phdr_at (vmem st) (data + e_phoff hdr + of_nat i * ucast (e_phentsize hdr)) in
       p_type ph = PT_LOAD \<longrightarrow> (\<forall>v. unat (p_vaddr ph) \<le> unat v \<and> unat v < unat (p_vaddr ph) + unat (p_memsz ph) \<longrightarrow>
         user_byte st' root v = segment_byte (vmem st) (data + p_offset ph) ph (unat v) \<and>
         page_entry st' root v AND NOT VMM_PHYS_MASK = elf_flags_to_vmm (p_flags ph)))"
proof -
  obtain st' where r: "elf_load_segments st root data elf_size hdr is = (0, st')"
    "pages_mapped root st st' (load_pages (vmem st) data hdr is)"
    using elf_load_segments_mapped [OF assms] by blast
  have "user_byte st' root v = segment_byte (vmem st) (data + p_offset ph) ph (unat v) \<and>
      page_entry st' root v AND NOT VMM_PHYS_MASK = elf_flags_to_vmm (p_flags ph)"
    if i: "i \<in> set is" and ph: "ph = elf_phdr_at (vmem st) (data + e_phoff hdr + of_nat i * ucast (e_phentsize hdr))"
      and ld: "p_type ph = PT_LOAD" and v: "unat (p_vaddr ph) \<le> unat v" "unat v < unat (p_vaddr ph) + unat (p_memsz ph)" for i ph v
  proof -
    let ?va = "ALIGN_DOWN (p_vaddr ph) PAGE_SIZE"
    define n where "n = (unat (p_vaddr ph) + unat (p_memsz ph) + 4095) div 4096 - unat (p_vaddr ph) div 4096"
    have ok: "segment_ok elf_size ph" using assms(4) i ph by blast
    note b = segment_bounds [OF ok, folded n_def]
    define k where "k = (unat v - unat ?va) div 4096"
    have lo: "unat ?va \<le> unat v" using b(1) v(1) by (simp add: order_trans [OF div_times_less_eq_dividend])
    have hi: "unat v < unat ?va + n * 4096" using v(2) b(5) by linarith
    have k: "k < n" "unat ?va + k * 4096 \<le> unat v" "unat v < unat ?va + (k + 1) * 4096"
      using lo hi by (auto simp: k_def less_mult_imp_div_less)
    have "unat v < 281474976710656" using hi b(3) by linarith
    then have pg: "virt_page v = virt_page (?va + of_nat k * PAGE_SIZE)" using page_index [OF b(2,3) k(1)] k(2,3) by simp
    let ?c = "\<lambda>k j. segment_byte (vmem st) (data + p_offset ph) ph (unat ?va + k * 4096 + j)"
    have "p_memsz ph \<noteq> 0" using v by auto
    then have "(?va + of_nat k * PAGE_SIZE, elf_flags_to_vmm (p_flags ph), ?c k) \<in> set (segment_pages (vmem st) data ph)"
      using k(1) by (auto simp: segment_pages_def Let_def n_def)
    then have "(?va + of_nat k * PAGE_SIZE, elf_flags_to_vmm (p_flags ph), ?c k) \<in> set (load_pages (vmem st) data hdr is)"
      using i ld ph by (auto simp: load_pages_def Let_def intro!: bexI [of _ i])
    note pv = page_view [OF r(2) this assms(1,2) pg elf_flags]
    have "unat v mod 4096 = unat v - (unat ?va + k * 4096)"
    proof -
      obtain q where q: "unat ?va = 4096 * q" using b(2) by (auto simp: dvd_def)
      have "unat v div 4096 = q + k" using k(2,3) q by (intro div_nat_eqI) simp_all
      then show ?thesis using q minus_div_mult_eq_mod [of "unat v" 4096] by (simp add: algebra_simps)
    qed
    then show ?thesis using pv(1,3) k(2) by simp
  qed
  then show ?thesis using r by (auto simp: pages_mapped_def Let_def)
qed

lemma elf_sentinel_misplaced:
  \<comment> \<open>with the stack page in frame \<open>F\<close>, the sentinel lands in the frame behind it\<close>
  assumes "vmm_translate st pml4 (USER_STACK_TOP - 8) = F + 0xFF8" "page_ptr F" "unat F + 8192 < 18446744073709551616"
    "mem (elf_stack_sentinel st pml4 (USER_STACK_TOP - 8)) x \<noteq> mem st x"
  shows "unat x div 4096 = unat F div 4096 + 1"
proof -
  have u: "unat (F + 0x1FF0) = unat F + 8176" using assms(3) by (simp add: unat_word_ariths)
  have a: "(USER_STACK_TOP - 8) AND NOT 7 = USER_STACK_TOP - 8" "(USER_STACK_TOP - 8) AND 0xFFF = 0xFF8"
    by (simp_all add: USER_STACK_TOP_def)
  have "mem (elf_stack_sentinel st pml4 (USER_STACK_TOP - 8)) x = store64 (mem st) (F + 0x1FF0) 0 x \<or>
      mem (elf_stack_sentinel st pml4 (USER_STACK_TOP - 8)) x = mem st x"
    unfolding elf_stack_sentinel_def Let_def a assms(1) by (simp add: add.commute)
  then have "store64 (mem st) (F + 0x1FF0) 0 x \<noteq> mem st x" using assms(4) by metis
  then have "\<not> (unat x < unat F + 8176 \<or> unat F + 8176 + 8 \<le> unat x)"
    using store64_range [of "F + 0x1FF0" x "mem st" 0, unfolded u] assms(3) by linarith
  then have x: "unat F + 8176 \<le> unat x" "unat x < unat F + 8184" by simp_all
  obtain k where "unat F = 4096 * k" using assms(2) by (auto simp: page_ptr_def dvd_def)
  then show ?thesis using x by (intro div_nat_eqI) simp_all
qed

section \<open>Witness\<close>

definition elf_demo :: heap_state where
  \<comment> \<open>one segment of 100 bytes, two of them in the file, readable and executable\<close>
  "elf_demo = heap_demo\<lparr>vmem := (\<lambda>_. 0)(0x10000 := 0x7F, 0x10001 := 0x45, 0x10040 := 1, 0x10044 := 5, 0x10052 := 0x40,
     0x10060 := 2, 0x10068 := 100)\<rparr>"

definition elf_demo_hdr :: elf64_hdr where
  "elf_demo_hdr = \<lparr>e_ident = [], e_type = 2, e_machine = 62, e_version = 1, e_entry = 0x400000, e_phoff = 64, e_phentsize = 56, e_phnum = 1\<rparr>"

lemma elf_demo_vm: "pmm_inv elf_demo" "pt_wf elf_demo 4096" "free_set elf_demo = {3, 4, 5, 6}"
proof -
  have "mem elf_demo = mem vmm_demo" "pmm_bitmap elf_demo = pmm_bitmap vmm_demo" "free_frames elf_demo = free_frames vmm_demo"
    by (simp_all add: elf_demo_def heap_demo_def heap_state.defs vmm_state.defs)
  from pmm_cong [OF this] show "pmm_inv elf_demo" "pt_wf elf_demo 4096" "free_set elf_demo = {3, 4, 5, 6}" by simp_all
qed

lemma elf_demo_phdr: "elf_phdr_at (vmem elf_demo) 0x10040 =
   \<lparr>p_type = 1, p_flags = 5, p_offset = 0, p_vaddr = 0x400000, p_filesz = 2, p_memsz = 100\<rparr>"
  by (simp add: elf_demo_def elf_phdr_at_def load32_def load16_def load64_def)

theorem elf_image_loaded_witness:
  "\<exists>st'. elf_load_segments elf_demo 4096 0x10000 200 elf_demo_hdr [0] = (0, st') \<and>
     user_byte st' 4096 0x400001 = 0x45 \<and> user_byte st' 4096 0x400002 = 0 \<and>
     page_entry st' 4096 0x400001 AND NOT VMM_PHYS_MASK = VMM_PRESENT OR VMM_USER"
proof -
  have h: "0x10000 + e_phoff elf_demo_hdr + of_nat 0 * ucast (e_phentsize elf_demo_hdr) = (0x10040 :: u64)"
    by (simp add: elf_demo_hdr_def)
  have pg: "length (load_pages (vmem elf_demo) 0x10000 elf_demo_hdr [0]) = 1"
    by (simp add: load_pages_def elf_demo_hdr_def elf_demo_phdr PT_LOAD_def segment_pages_def Let_def)
  have "distinct (map (\<lambda>p. virt_page (fst p)) (load_pages (vmem elf_demo) 0x10000 elf_demo_hdr [0]))"
    using pg by (cases "load_pages (vmem elf_demo) 0x10000 elf_demo_hdr [0]") auto
  moreover have "\<forall>i \<in> set [0]. segment_ok 200 (elf_phdr_at (vmem elf_demo)
      (0x10000 + e_phoff elf_demo_hdr + of_nat i * ucast (e_phentsize elf_demo_hdr)))"
    by (simp add: h [simplified] elf_demo_phdr segment_ok_def)
  moreover have "4 * length (load_pages (vmem elf_demo) 0x10000 elf_demo_hdr [0]) \<le> card (free_set elf_demo)"
    by (simp add: pg elf_demo_vm)
  ultimately obtain st' where s: "elf_load_segments elf_demo 4096 0x10000 200 elf_demo_hdr [0] = (0, st')"
    "\<forall>i \<in> set [0]. let ph = elf_phdr_at (vmem elf_demo) (0x10000 + e_phoff elf_demo_hdr + of_nat i * ucast (e_phentsize elf_demo_hdr)) in
       p_type ph = PT_LOAD \<longrightarrow> (\<forall>v. unat (p_vaddr ph) \<le> unat v \<and> unat v < unat (p_vaddr ph) + unat (p_memsz ph) \<longrightarrow>
         user_byte st' 4096 v = segment_byte (vmem elf_demo) (0x10000 + p_offset ph) ph (unat v) \<and>
         page_entry st' 4096 v AND NOT VMM_PHYS_MASK = elf_flags_to_vmm (p_flags ph))"
    using elf_image_loaded [OF elf_demo_vm(1,2), of 65536 elf_demo_hdr "[0]" 200] by blast
  from s(2) have v: "user_byte st' 4096 v = segment_byte (vmem elf_demo) 0x10000
        \<lparr>p_type = 1, p_flags = 5, p_offset = 0, p_vaddr = 0x400000, p_filesz = 2, p_memsz = 100\<rparr> (unat v) \<and>
      page_entry st' 4096 v AND NOT VMM_PHYS_MASK = elf_flags_to_vmm 5"
    if "0x400000 \<le> unat v" "unat v < 0x400064" for v using that by (simp add: h [simplified] elf_demo_phdr PT_LOAD_def)
  show ?thesis using s(1) v [of "0x400001"] v [of "0x400002"]
    by (simp add: segment_byte_def) (simp add: elf_demo_def elf_flags_to_vmm_def PF_W_def PF_X_def)
qed

end
