(* ===== verification/Irq.thy ===== *)
theory Irq
  imports Gdt Serial Bytes
begin

text \<open>
  The interrupt controller and the hardware interrupt table, \<^verbatim>\<open>kernel/arch/x86_64/irq.c\<close>.  The two
  8259 chips are reached through the port parameter; what the code relies on of them is the
  hypothesis \<open>pic_hw\<close>, the initialisation sequence and the mask register of the data sheet.
\<close>

section \<open>The driver\<close>

definition PIC1_CMD :: u16 where [kdefs]: "PIC1_CMD = 0x20"
definition PIC1_DATA :: u16 where [kdefs]: "PIC1_DATA = 0x21"
definition PIC2_CMD :: u16 where [kdefs]: "PIC2_CMD = 0xA0"
definition PIC2_DATA :: u16 where [kdefs]: "PIC2_DATA = 0xA1"
definition PIC_EOI :: u8 where [kdefs]: "PIC_EOI = 0x20"
definition ICW1_ICW4 :: u8 where [kdefs]: "ICW1_ICW4 = 0x01"
definition ICW1_INIT :: u8 where [kdefs]: "ICW1_INIT = 0x10"
definition ICW4_8086 :: u8 where [kdefs]: "ICW4_8086 = 0x01"
definition IRQ_BASE :: u8 where [kdefs]: "IRQ_BASE = 32"

datatype 'h isr_fn = fn_irq_dispatch | fn_isr 'h

record ('h, 'd) irq_state = "'h isr_fn idt_state" +
  irq_handlers :: "'h option list"
  irq_dev :: 'd

definition io_wait :: "'d ports \<Rightarrow> 'd \<Rightarrow> 'd" where
  "io_wait io d = p_outb io 0x80 0 d"

definition pic_init :: "'d ports \<Rightarrow> 'd \<Rightarrow> 'd" where
  "pic_init io d =
     (let d = io_wait io (p_outb io PIC1_CMD (ICW1_INIT OR ICW1_ICW4) d);
          d = io_wait io (p_outb io PIC2_CMD (ICW1_INIT OR ICW1_ICW4) d);
          d = io_wait io (p_outb io PIC1_DATA IRQ_BASE d);
          d = io_wait io (p_outb io PIC2_DATA (IRQ_BASE + 8) d);
          d = io_wait io (p_outb io PIC1_DATA 0x04 d);
          d = io_wait io (p_outb io PIC2_DATA 0x02 d);
          d = io_wait io (p_outb io PIC1_DATA ICW4_8086 d);
          d = io_wait io (p_outb io PIC2_DATA ICW4_8086 d);
          d = p_outb io PIC1_DATA 0xFB d
      in p_outb io PIC2_DATA 0xFF d)"

definition pic_eoi :: "'d ports \<Rightarrow> u8 \<Rightarrow> 'd \<Rightarrow> 'd" where
  "pic_eoi io irq d = p_outb io PIC1_CMD PIC_EOI (if 8 \<le> irq then p_outb io PIC2_CMD PIC_EOI d else d)"

definition irq_dispatch :: "'d ports \<Rightarrow> ('h \<Rightarrow> ('h, 'd, 'a) irq_state_scheme \<Rightarrow> ('h, 'd, 'a) irq_state_scheme option) \<Rightarrow>
    ('h, 'd, 'a) irq_state_scheme \<Rightarrow> u64 \<Rightarrow> ('h, 'd, 'a) irq_state_scheme option" where
  \<comment> \<open>\<open>run\<close> is the call through the function pointer\<close>
  "irq_dispatch io run st vec = do {
     let irq = ucast (vec - ucast IRQ_BASE);
     st1 \<leftarrow> (case irq_handlers st ! unat (irq :: u8) of
         Some h \<Rightarrow> run h st
       | None \<Rightarrow> do {
           d \<leftarrow> serial_printf io (irq_dev st) (''[IRQ] Spurious IRQ%u'' @ [CHR 0x0A]) [Slot (ucast irq)];
           Some (st\<lparr>irq_dev := d\<rparr>)
         });
     Some (st1\<lparr>irq_dev := pic_eoi io irq (irq_dev st1)\<rparr>)
   }"

definition irq_port :: "u8 \<Rightarrow> u16" where
  "irq_port irq = (if irq < 8 then PIC1_DATA else PIC2_DATA)"

definition irq_bit :: "u8 \<Rightarrow> nat" where
  "irq_bit irq = unat (if irq < 8 then irq else irq - 8)"

definition irq_register :: "'d ports \<Rightarrow> ('h, 'd, 'a) irq_state_scheme \<Rightarrow> u8 \<Rightarrow> 'h option \<Rightarrow> ('h, 'd, 'a) irq_state_scheme" where
  "irq_register io st irq h =
     (if 16 \<le> irq then st
      else
        let st = st\<lparr>irq_handlers := (irq_handlers st)[unat irq := h]\<rparr>;
            st = idt_set_handler st (IRQ_BASE + irq) (Some fn_irq_dispatch)
        in case p_inb io (irq_port irq) (irq_dev st) of (m, d) \<Rightarrow>
             st\<lparr>irq_dev := p_outb io (irq_port irq) (m AND NOT (push_bit (irq_bit irq) 1)) d\<rparr>)"

definition irq_unregister :: "'d ports \<Rightarrow> ('h, 'd, 'a) irq_state_scheme \<Rightarrow> u8 \<Rightarrow> ('h, 'd, 'a) irq_state_scheme" where
  "irq_unregister io st irq =
     (if 16 \<le> irq then st
      else
        let st = st\<lparr>irq_handlers := (irq_handlers st)[unat irq := None]\<rparr>
        in case p_inb io (irq_port irq) (irq_dev st) of (m, d) \<Rightarrow>
             st\<lparr>irq_dev := p_outb io (irq_port irq) (m OR push_bit (irq_bit irq) 1) d\<rparr>)"

section \<open>The chips\<close>

record pic8259 =
  icw :: nat   \<comment> \<open>the next initialisation word expected, 0 in operation\<close>
  vbase :: u8
  imr :: u8

definition chip_cmd :: "u8 \<Rightarrow> pic8259 \<Rightarrow> pic8259" where
  "chip_cmd v c = (if v AND 0x10 \<noteq> 0 then c\<lparr>icw := 2, imr := 0\<rparr> else c)"

definition chip_data :: "u8 \<Rightarrow> pic8259 \<Rightarrow> pic8259" where
  "chip_data v c = (if icw c = 0 then c\<lparr>imr := v\<rparr> else if icw c = 2 then c\<lparr>icw := 3, vbase := v AND 0xF8\<rparr>
     else if icw c = 3 then c\<lparr>icw := 4\<rparr> else c\<lparr>icw := 0\<rparr>)"

definition cmd_port :: "bool \<Rightarrow> u16" where "cmd_port second = (if second then PIC2_CMD else PIC1_CMD)"
definition data_port :: "bool \<Rightarrow> u16" where "data_port second = (if second then PIC2_DATA else PIC1_DATA)"

definition pic_hw :: "'d ports \<Rightarrow> (bool \<Rightarrow> 'd \<Rightarrow> pic8259) \<Rightarrow> bool" where
  \<comment> \<open>the cascaded pair: commands, initialisation words in sequence, then the mask register; the delay port does nothing\<close>
  "pic_hw io chip \<longleftrightarrow>
     (\<forall>b d v. chip b (p_outb io (cmd_port b) v d) = chip_cmd v (chip b d) \<and> chip (\<not> b) (p_outb io (cmd_port b) v d) = chip (\<not> b) d) \<and>
     (\<forall>b d v. chip b (p_outb io (data_port b) v d) = chip_data v (chip b d) \<and> chip (\<not> b) (p_outb io (data_port b) v d) = chip (\<not> b) d) \<and>
     (\<forall>b d v. chip b (p_outb io 0x80 v d) = chip b d) \<and>
     (\<forall>b c d. icw (chip b d) = 0 \<longrightarrow> fst (p_inb io (data_port b) d) = imr (chip b d) \<and> chip c (snd (p_inb io (data_port b) d)) = chip c d)"

lemma pic_hwD:
  assumes "pic_hw io chip"
  shows "chip False (p_outb io PIC1_CMD v d) = chip_cmd v (chip False d)" "chip True (p_outb io PIC1_CMD v d) = chip True d"
    "chip True (p_outb io PIC2_CMD v d) = chip_cmd v (chip True d)" "chip False (p_outb io PIC2_CMD v d) = chip False d"
    "chip False (p_outb io PIC1_DATA v d) = chip_data v (chip False d)" "chip True (p_outb io PIC1_DATA v d) = chip True d"
    "chip True (p_outb io PIC2_DATA v d) = chip_data v (chip True d)" "chip False (p_outb io PIC2_DATA v d) = chip False d"
    "chip b (io_wait io d) = chip b d"
  using assms [unfolded pic_hw_def, THEN conjunct1, THEN spec [of _ True]] assms [unfolded pic_hw_def, THEN conjunct1, THEN spec [of _ False]]
    assms [unfolded pic_hw_def, THEN conjunct2, THEN conjunct1, THEN spec [of _ True]]
    assms [unfolded pic_hw_def, THEN conjunct2, THEN conjunct1, THEN spec [of _ False]]
    assms [unfolded pic_hw_def, THEN conjunct2, THEN conjunct2, THEN conjunct1]
  by (simp_all add: cmd_port_def data_port_def io_wait_def)

lemma pic_inb:
  assumes "pic_hw io chip" "icw (chip b d) = 0"
  obtains d1 where "p_inb io (data_port b) d = (imr (chip b d), d1)" "\<And>c. chip c d1 = chip c d"
proof -
  have "\<And>c. fst (p_inb io (data_port b) d) = imr (chip b d) \<and> chip c (snd (p_inb io (data_port b) d)) = chip c d"
    using assms unfolding pic_hw_def by blast
  then show thesis using that [of "snd (p_inb io (data_port b) d)"] by (cases "p_inb io (data_port b) d") auto
qed

lemma pic_init_chips:
  assumes "pic_hw io chip"
  shows "chip False (pic_init io d) = \<lparr>icw = 0, vbase = 0x20, imr = 0xFB\<rparr>" "chip True (pic_init io d) = \<lparr>icw = 0, vbase = 0x28, imr = 0xFF\<rparr>"
  by (simp_all add: pic_init_def Let_def pic_hwD [OF assms] chip_cmd_def chip_data_def ICW1_INIT_def ICW1_ICW4_def IRQ_BASE_def)


section \<open>Witness\<close>

definition demo_pic :: "(bool \<Rightarrow> pic8259) ports" where
  "demo_pic = \<lparr>p_inb = (\<lambda>p d. (if p = PIC1_DATA then imr (d False) else imr (d True), d)),
     p_outb = (\<lambda>p v d. if p = PIC1_CMD then d(False := chip_cmd v (d False)) else if p = PIC2_CMD then d(True := chip_cmd v (d True))
        else if p = PIC1_DATA then d(False := chip_data v (d False)) else if p = PIC2_DATA then d(True := chip_data v (d True)) else d),
     p_inw = (\<lambda>p d. (0, d)), p_outw = (\<lambda>p v d. d), p_inl = (\<lambda>p d. (0, d)), p_outl = (\<lambda>p v d. d)\<rparr>"

lemma demo_pic: "pic_hw demo_pic (\<lambda>b d. d b)"
  by (simp add: pic_hw_def demo_pic_def cmd_port_def data_port_def kdefs)

definition irq_demo :: "(nat, bool \<Rightarrow> pic8259) irq_state" where
  "irq_demo = \<lparr>idt = [], idtr_limit = 0, idtr_base = 0, handlers = replicate 256 None, irq_handlers = replicate 16 None,
     irq_dev = pic_init demo_pic (\<lambda>_. \<lparr>icw = 0, vbase = 0, imr = 0\<rparr>)\<rparr>"


end
