(* ===== verification/Pci.thy ===== *)
theory Pci
  imports Vmm Serial Bytes
begin

text \<open>
  The PCI bus driver, \<^verbatim>\<open>kernel/drivers/pci/pci.c\<close>.  Configuration space is reached through the ports
  0xCF8 and 0xCFC of the port parameter; a device pointer is an index into the table of
  descriptors.  The message at the end of the scan is left out.
\<close>

section \<open>Configuration space\<close>

record pci_device =
  pd_bus :: u8
  pd_device :: u8
  pd_function :: u8
  vendor_id :: u16
  device_id :: u16
  class_code :: u8
  sub_class :: u8
  prog_if :: u8
  header_type :: u8
  revision :: u8
  irq_line :: u8
  irq_pin :: u8
  bar :: "u32 list"

definition PCI_MAX_DEVICES :: nat where [kdefs]: "PCI_MAX_DEVICES = 256"
definition PCI_ADDR_PORT :: u16 where [kdefs]: "PCI_ADDR_PORT = 0xCF8"
definition PCI_DATA_PORT :: u16 where [kdefs]: "PCI_DATA_PORT = 0xCFC"
definition PCI_CMD_IO_SPACE :: u16 where [kdefs]: "PCI_CMD_IO_SPACE = 0x0001"
definition PCI_CMD_MEM_SPACE :: u16 where [kdefs]: "PCI_CMD_MEM_SPACE = 0x0002"
definition PCI_CMD_BUS_MASTER :: u16 where [kdefs]: "PCI_CMD_BUS_MASTER = 0x0004"

record pci_table =
  pci_devices :: "pci_device list"
  pci_device_count :: nat

definition pci_address :: "u8 \<Rightarrow> u8 \<Rightarrow> u8 \<Rightarrow> u8 \<Rightarrow> u32" where
  "pci_address bus dev func reg =
     0x80000000 OR push_bit 16 (ucast bus) OR push_bit 11 (ucast dev) OR push_bit 8 (ucast func) OR ucast (reg AND 0xFC)"

definition pci_read32 :: "'d ports \<Rightarrow> 'd \<Rightarrow> u8 \<Rightarrow> u8 \<Rightarrow> u8 \<Rightarrow> u8 \<Rightarrow> u32 \<times> 'd" where
  "pci_read32 io d bus dev func reg = p_inl io PCI_DATA_PORT (p_outl io PCI_ADDR_PORT (pci_address bus dev func reg) d)"

definition pci_read16 :: "'d ports \<Rightarrow> 'd \<Rightarrow> u8 \<Rightarrow> u8 \<Rightarrow> u8 \<Rightarrow> u8 \<Rightarrow> u16 \<times> 'd" where
  "pci_read16 io d bus dev func reg =
     p_inw io (PCI_DATA_PORT + ucast (reg AND 2)) (p_outl io PCI_ADDR_PORT (pci_address bus dev func reg) d)"

definition pci_read8 :: "'d ports \<Rightarrow> 'd \<Rightarrow> u8 \<Rightarrow> u8 \<Rightarrow> u8 \<Rightarrow> u8 \<Rightarrow> u8 \<times> 'd" where
  "pci_read8 io d bus dev func reg =
     p_inb io (PCI_DATA_PORT + ucast (reg AND 3)) (p_outl io PCI_ADDR_PORT (pci_address bus dev func reg) d)"

definition pci_write32 :: "'d ports \<Rightarrow> 'd \<Rightarrow> u8 \<Rightarrow> u8 \<Rightarrow> u8 \<Rightarrow> u8 \<Rightarrow> u32 \<Rightarrow> 'd" where
  "pci_write32 io d bus dev func reg val =
     p_outl io PCI_DATA_PORT val (p_outl io PCI_ADDR_PORT (pci_address bus dev func reg) d)"

definition pci_write16 :: "'d ports \<Rightarrow> 'd \<Rightarrow> u8 \<Rightarrow> u8 \<Rightarrow> u8 \<Rightarrow> u8 \<Rightarrow> u16 \<Rightarrow> 'd" where
  "pci_write16 io d bus dev func reg val =
     p_outw io (PCI_DATA_PORT + ucast (reg AND 2)) val (p_outl io PCI_ADDR_PORT (pci_address bus dev func reg) d)"

definition pci_set_command :: "'d ports \<Rightarrow> 'd \<Rightarrow> pci_device \<Rightarrow> u16 \<Rightarrow> 'd" where
  \<comment> \<open>read, modify and write the command register, the common body of the three functions below\<close>
  "pci_set_command io d p b =
     (case pci_read16 io d (pd_bus p) (pd_device p) (pd_function p) 0x04 of (cmd, d1) \<Rightarrow>
        pci_write16 io d1 (pd_bus p) (pd_device p) (pd_function p) 0x04 (cmd OR b))"

definition pci_enable_bus_master :: "'d ports \<Rightarrow> 'd \<Rightarrow> pci_device \<Rightarrow> 'd" where
  "pci_enable_bus_master io d p = pci_set_command io d p PCI_CMD_BUS_MASTER"

definition pci_enable_memory_space :: "'d ports \<Rightarrow> 'd \<Rightarrow> pci_device \<Rightarrow> 'd" where
  "pci_enable_memory_space io d p = pci_set_command io d p PCI_CMD_MEM_SPACE"

definition pci_enable_io_space :: "'d ports \<Rightarrow> 'd \<Rightarrow> pci_device \<Rightarrow> 'd" where
  "pci_enable_io_space io d p = pci_set_command io d p PCI_CMD_IO_SPACE"

section \<open>Base address registers\<close>

definition pci_bar_is_mmio :: "pci_device \<Rightarrow> nat \<Rightarrow> bool" where
  "pci_bar_is_mmio p idx \<longleftrightarrow> bar p ! idx AND 1 = 0"

definition pci_bar_is_64bit :: "pci_device \<Rightarrow> nat \<Rightarrow> bool" where
  "pci_bar_is_64bit p idx \<longleftrightarrow> pci_bar_is_mmio p idx \<and> drop_bit 1 (bar p ! idx) AND 3 = 2"

definition pci_bar_address :: "pci_device \<Rightarrow> nat \<Rightarrow> u64" where
  "pci_bar_address p idx =
     (if \<not> pci_bar_is_mmio p idx then ucast (bar p ! idx AND NOT 0x3)
      else
        let addr = ucast (bar p ! idx AND NOT 0xF)
        in if pci_bar_is_64bit p idx \<and> idx < 5 then addr OR push_bit 32 (ucast (bar p ! (idx + 1))) else addr)"

definition pci_map_bar :: "'a vmm_state_scheme \<Rightarrow> pci_device \<Rightarrow> nat \<Rightarrow> u64 \<times> 'a vmm_state_scheme" where
  "pci_map_bar st p idx =
     (if \<not> pci_bar_is_mmio p idx then (0, st)
      else
        let phys = pci_bar_address p idx;
            virt = KERNEL_VIRT_BASE + phys
        in (virt, vmm_map_range st (kernel_pml4 st) virt phys (4 * PAGE_SIZE) VMM_MMIO))"

section \<open>Scanning\<close>

fun read_bars :: "'d ports \<Rightarrow> 'd \<Rightarrow> u8 \<Rightarrow> u8 \<Rightarrow> u8 \<Rightarrow> nat list \<Rightarrow> u32 list \<Rightarrow> u32 list \<times> 'd" where
  "read_bars io d bus dev func [] bs = (bs, d)"
| "read_bars io d bus dev func (i # is) bs =
     (case pci_read32 io d bus dev func (0x10 + of_nat i * 4) of (v, d1) \<Rightarrow>
        read_bars io d1 bus dev func is (bs[i := v]))"

definition scan_function :: "'d ports \<Rightarrow> pci_table \<times> 'd \<Rightarrow> u8 \<Rightarrow> u8 \<Rightarrow> u8 \<Rightarrow> pci_table \<times> 'd" where
  "scan_function io s bus dev func =
     (case s of (t, d) \<Rightarrow>
      case pci_read32 io d bus dev func 0x00 of (idw, d) \<Rightarrow>
        if idw AND 0xFFFF = 0xFFFF then (t, d)
        else if PCI_MAX_DEVICES \<le> pci_device_count t then (t, d)
        else
          let k = pci_device_count t;
              p = (pci_devices t ! k)\<lparr>pd_bus := bus, pd_device := dev, pd_function := func,
                     vendor_id := ucast (idw AND 0xFFFF), device_id := ucast (drop_bit 16 idw)\<rparr>
          in case pci_read32 io d bus dev func 0x08 of (class_rev, d) \<Rightarrow>
             let p = p\<lparr>revision := ucast (class_rev AND 0xFF), prog_if := ucast (drop_bit 8 class_rev AND 0xFF),
                       sub_class := ucast (drop_bit 16 class_rev AND 0xFF), class_code := ucast (drop_bit 24 class_rev AND 0xFF)\<rparr>
             in case pci_read32 io d bus dev func 0x0C of (hdr, d) \<Rightarrow>
                let p = p\<lparr>header_type := ucast (drop_bit 16 hdr AND 0xFF)\<rparr>
                in case (if header_type p AND 0x7F = 0 then read_bars io d bus dev func [0..<6] (bar p) else (bar p, d)) of (bs, d) \<Rightarrow>
                   case pci_read32 io d bus dev func 0x3C of (irq, d) \<Rightarrow>
                     let p = p\<lparr>bar := bs, irq_line := ucast (irq AND 0xFF), irq_pin := ucast (drop_bit 8 irq AND 0xFF)\<rparr>
                     in (\<lparr>pci_devices = (pci_devices t)[k := p], pci_device_count = k + 1\<rparr>, d))"

definition scan_device :: "'d ports \<Rightarrow> pci_table \<times> 'd \<Rightarrow> u8 \<Rightarrow> u8 \<Rightarrow> pci_table \<times> 'd" where
  "scan_device io s bus dev =
     (case s of (t, d) \<Rightarrow>
      case pci_read32 io d bus dev 0 0x00 of (idw, d) \<Rightarrow>
        if idw AND 0xFFFF = 0xFFFF then (t, d)
        else
          case scan_function io (t, d) bus dev 0 of (t, d) \<Rightarrow>
          case pci_read32 io d bus dev 0 0x0C of (hdr, d) \<Rightarrow>
            if drop_bit 16 hdr AND 0x80 \<noteq> 0 then
              foldl (\<lambda>(t, d) f. case pci_read32 io d bus dev (of_nat f) 0x00 of (fid, d) \<Rightarrow>
                       if fid AND 0xFFFF \<noteq> 0xFFFF then scan_function io (t, d) bus dev (of_nat f) else (t, d)) (t, d) [1..<8]
            else (t, d))"

definition pci_scan :: "'d ports \<Rightarrow> pci_table \<times> 'd \<Rightarrow> pci_table \<times> 'd" where
  "pci_scan io s =
     (case s of (t, d) \<Rightarrow>
        foldl (\<lambda>s bus. foldl (\<lambda>s dev. scan_device io s (of_nat bus) (of_nat dev)) s [0..<32]) (t\<lparr>pci_device_count := 0\<rparr>, d) [0..<256])"

definition pci_init :: "'d ports \<Rightarrow> pci_table \<times> 'd \<Rightarrow> pci_table \<times> 'd" where
  "pci_init io s = pci_scan io s"

section \<open>Lookup\<close>

fun first_index :: "('b \<Rightarrow> bool) \<Rightarrow> 'b list \<Rightarrow> nat \<Rightarrow> nat \<Rightarrow> nat option" where
  \<comment> \<open>the search loop of the three lookups: indices \<open>i\<close>, \<dots>, \<open>i + n - 1\<close>\<close>
  "first_index P xs i 0 = None"
| "first_index P xs i (Suc n) = (if P (xs ! i) then Some i else first_index P xs (Suc i) n)"

definition pci_find_device :: "pci_table \<Rightarrow> u16 \<Rightarrow> u16 \<Rightarrow> nat option" where
  "pci_find_device t vendor dev_id =
     first_index (\<lambda>p. vendor_id p = vendor \<and> device_id p = dev_id) (pci_devices t) 0 (pci_device_count t)"

definition pci_find_class :: "pci_table \<Rightarrow> u8 \<Rightarrow> u8 \<Rightarrow> nat option" where
  "pci_find_class t cls sub = first_index (\<lambda>p. class_code p = cls \<and> sub_class p = sub) (pci_devices t) 0 (pci_device_count t)"

definition pci_find_class_progif :: "pci_table \<Rightarrow> u8 \<Rightarrow> u8 \<Rightarrow> u8 \<Rightarrow> nat option" where
  "pci_find_class_progif t cls sub pif =
     first_index (\<lambda>p. class_code p = cls \<and> sub_class p = sub \<and> prog_if p = pif) (pci_devices t) 0 (pci_device_count t)"

definition pci_class_name :: "u8 \<Rightarrow> u8 \<Rightarrow> string" where
  "pci_class_name cls sub =
     (if cls = 0x00 then ''Unclassified''
      else if cls = 0x01 then
        (if sub = 0x01 then ''IDE Controller'' else if sub = 0x06 then ''SATA/AHCI Controller''
         else if sub = 0x08 then ''NVMe Controller'' else ''Storage Controller'')
      else if cls = 0x02 then (if sub = 0x00 then ''Ethernet Controller'' else ''Network Controller'')
      else if cls = 0x03 then ''VGA Controller''
      else if cls = 0x04 then (if sub = 0x03 then ''HD Audio Controller'' else ''Multimedia Controller'')
      else if cls = 0x06 then
        (if sub = 0x00 then ''Host Bridge'' else if sub = 0x01 then ''ISA Bridge''
         else if sub = 0x04 then ''PCI-to-PCI Bridge'' else ''Bridge'')
      else if cls = 0x0C then (if sub = 0x03 then ''USB Controller'' else ''Serial Bus Controller'')
      else ''Unknown'')"

section \<open>What a scan finds\<close>

definition pci_hw :: "'d ports \<Rightarrow> ('d \<Rightarrow> u32 \<Rightarrow> u32) \<Rightarrow> bool" where
  \<comment> \<open>configuration mechanism 1: the data port reads the register the address port selects, and
      neither selecting nor reading changes configuration space\<close>
  "pci_hw io cfg \<longleftrightarrow>
     (\<forall>d a. cfg (p_outl io PCI_ADDR_PORT a d) = cfg d \<and>
        fst (p_inl io PCI_DATA_PORT (p_outl io PCI_ADDR_PORT a d)) = cfg d a \<and>
        cfg (snd (p_inl io PCI_DATA_PORT (p_outl io PCI_ADDR_PORT a d))) = cfg d)"

type_synonym pci_fn = "nat \<times> nat \<times> nat"

definition conf :: "(u32 \<Rightarrow> u32) \<Rightarrow> pci_fn \<Rightarrow> u8 \<Rightarrow> u32" where
  "conf c p reg = (case p of (b, d, f) \<Rightarrow> c (pci_address (of_nat b) (of_nat d) (of_nat f) reg))"

definition fn_present :: "(u32 \<Rightarrow> u32) \<Rightarrow> pci_fn \<Rightarrow> bool" where
  "fn_present c p \<longleftrightarrow> conf c p 0 AND 0xFFFF \<noteq> 0xFFFF"

definition device_functions :: "(u32 \<Rightarrow> u32) \<Rightarrow> nat \<Rightarrow> nat \<Rightarrow> pci_fn list" where
  \<comment> \<open>function 0 and, on a multifunction device, the other functions that answer\<close>
  "device_functions c b d =
     (if fn_present c (b, d, 0) then
        (b, d, 0) # (if drop_bit 16 (conf c (b, d, 0) 0x0C) AND 0x80 \<noteq> 0 then filter (fn_present c) (map (\<lambda>f. (b, d, f)) [1..<8]) else [])
      else [])"

definition pci_functions :: "(u32 \<Rightarrow> u32) \<Rightarrow> pci_fn list" where
  "pci_functions c = concat (map (\<lambda>b. concat (map (device_functions c b) [0..<32])) [0..<256])"

definition fn_entry :: "(u32 \<Rightarrow> u32) \<Rightarrow> pci_fn \<Rightarrow> u32 list \<Rightarrow> pci_device" where
  \<comment> \<open>the descriptor of a function; \<open>old\<close> are the registers kept for bridges\<close>
  "fn_entry c p old = (case p of (b, d, f) \<Rightarrow>
     \<lparr>pd_bus = of_nat b, pd_device = of_nat d, pd_function = of_nat f,
      vendor_id = ucast (conf c p 0 AND 0xFFFF), device_id = ucast (drop_bit 16 (conf c p 0)),
      class_code = ucast (drop_bit 24 (conf c p 8) AND 0xFF), sub_class = ucast (drop_bit 16 (conf c p 8) AND 0xFF),
      prog_if = ucast (drop_bit 8 (conf c p 8) AND 0xFF), header_type = ucast (drop_bit 16 (conf c p 0x0C) AND 0xFF),
      revision = ucast (conf c p 8 AND 0xFF), irq_line = ucast (conf c p 0x3C AND 0xFF), irq_pin = ucast (drop_bit 8 (conf c p 0x3C) AND 0xFF),
      bar = (if (ucast (drop_bit 16 (conf c p 0x0C) AND 0xFF) :: u8) AND 0x7F = 0
             then map (\<lambda>i. conf c p (0x10 + of_nat i * 4)) [0..<6] else old)\<rparr>)"

definition add_fn :: "(u32 \<Rightarrow> u32) \<Rightarrow> pci_table \<Rightarrow> pci_fn \<Rightarrow> pci_table" where
  "add_fn c t p = (if PCI_MAX_DEVICES \<le> pci_device_count t then t
     else \<lparr>pci_devices = (pci_devices t)[pci_device_count t := fn_entry c p (bar (pci_devices t ! pci_device_count t))],
           pci_device_count = pci_device_count t + 1\<rparr>)"

definition pci_table_ok :: "pci_table \<Rightarrow> bool" where
  "pci_table_ok t \<longleftrightarrow> length (pci_devices t) = PCI_MAX_DEVICES \<and> (\<forall>p \<in> set (pci_devices t). length (bar p) = 6)"

lemma pci_read32_hw:
  assumes "pci_hw io cfg"
  obtains d' where "pci_read32 io d bus dev func reg = (cfg d (pci_address bus dev func reg), d')" "cfg d' = cfg d"
proof -
  note h = assms [unfolded pci_hw_def, THEN spec [of _ d], THEN spec [of _ "pci_address bus dev func reg"]]
  show thesis using that [of "snd (pci_read32 io d bus dev func reg)"] h by (simp add: pci_read32_def prod_eq_iff)
qed

lemma read_bars_hw:
  assumes "pci_hw io cfg"
  shows "\<exists>d'. read_bars io d bus dev func is bs = (foldl (\<lambda>bs i. bs[i := cfg d (pci_address bus dev func (0x10 + of_nat i * 4))]) bs is, d') \<and>
    cfg d' = cfg d"
proof (induction "is" arbitrary: d bs)
  case (Cons i "is")
  obtain d1 where d1: "pci_read32 io d bus dev func (0x10 + of_nat i * 4) = (cfg d (pci_address bus dev func (0x10 + of_nat i * 4)), d1)" "cfg d1 = cfg d"
    by (rule pci_read32_hw [OF assms])
  then show ?case using Cons.IH [of d1 "bs[i := cfg d (pci_address bus dev func (0x10 + of_nat i * 4))]"] by simp
qed simp

lemma six_updates: "length bs = 6 \<Longrightarrow> foldl (\<lambda>bs i. bs[i := f i]) bs [0..<6] = map f [0..<6]"
proof -
  assume l: "length bs = 6"
  have h: "length (foldl (\<lambda>bs i. bs[i := f i]) bs [0..<n]) = 6 \<and>
      (\<forall>i < 6. foldl (\<lambda>bs i. bs[i := f i]) bs [0..<n] ! i = (if i < n then f i else bs ! i))" if "n \<le> 6" for n
    using that l by (induction n) (auto simp: nth_list_update less_Suc_eq)
  show ?thesis by (rule nth_equalityI) (simp_all add: h [OF order_refl] del: upt_rec_numeral)
qed

lemma scan_function_hw:
  assumes "pci_hw io cfg" "cfg d = c" "pci_table_ok t" "fn_present c (b, dv, f)"
  shows "\<exists>d'. scan_function io (t, d) (of_nat b) (of_nat dv) (of_nat f) = (add_fn c t (b, dv, f), d') \<and> cfg d' = c"
proof -
  let ?r = "\<lambda>d. pci_read32 io d (of_nat b) (of_nat dv) (of_nat f)" and ?p = "(b, dv, f)"
  have r: "\<exists>d'. ?r d1 reg = (conf c ?p reg, d') \<and> cfg d' = c" if "cfg d1 = c" for d1 reg
    using pci_read32_hw [OF assms(1), of d1 "of_nat b" "of_nat dv" "of_nat f" reg] that by (auto simp: conf_def)
  obtain d1 where d1: "?r d 0x00 = (conf c ?p 0, d1)" "cfg d1 = c" using r [OF assms(2), of 0] by auto
  show ?thesis
  proof (cases "PCI_MAX_DEVICES \<le> pci_device_count t")
    case True
    then show ?thesis using d1 assms(4) by (simp add: scan_function_def add_fn_def fn_present_def)
  next
    case False
    obtain d2 where d2: "?r d1 0x08 = (conf c ?p 0x08, d2)" "cfg d2 = c" using r [OF d1(2), of "0x08"] by auto
    obtain d3 where d3: "?r d2 0x0C = (conf c ?p 0x0C, d3)" "cfg d3 = c" using r [OF d2(2), of "0x0C"] by auto
    let ?bs = "bar (pci_devices t ! pci_device_count t)" and ?ht = "ucast (drop_bit 16 (conf c ?p 0x0C) AND 0xFF) :: u8"
    have len: "length ?bs = 6" using assms(3) False by (simp add: pci_table_ok_def)
    obtain e where e: "read_bars io d3 (of_nat b) (of_nat dv) (of_nat f) [0..<6] ?bs = (map (\<lambda>i. conf c ?p (0x10 + of_nat i * 4)) [0..<6], e)" "cfg e = c"
      using read_bars_hw [OF assms(1), of d3 "of_nat b" "of_nat dv" "of_nat f" "[0..<6]" ?bs] d3(2)
      by (simp add: conf_def six_updates [OF len] del: upt_rec_numeral) blast
    have "\<exists>d4. (if ?ht AND 0x7F = 0 then read_bars io d3 (of_nat b) (of_nat dv) (of_nat f) [0..<6] ?bs else (?bs, d3)) =
        (bar (fn_entry c ?p ?bs), d4) \<and> cfg d4 = c"
      using d3(2) e by (cases "?ht AND 0x7F = 0") (simp_all add: fn_entry_def del: upt_rec_numeral)
    then obtain d4 where d4: "(if ?ht AND 0x7F = 0 then read_bars io d3 (of_nat b) (of_nat dv) (of_nat f) [0..<6] ?bs else (?bs, d3)) =
        (bar (fn_entry c ?p ?bs), d4)" "cfg d4 = c" by blast
    obtain d5 where d5: "?r d4 0x3C = (conf c ?p 0x3C, d5)" "cfg d5 = c" using r [OF d4(2), of "0x3C"] by auto
    have "fn_entry c ?p ?bs = (pci_devices t ! pci_device_count t)\<lparr>pd_bus := of_nat b, pd_device := of_nat dv, pd_function := of_nat f,
        vendor_id := ucast (conf c ?p 0 AND 0xFFFF), device_id := ucast (drop_bit 16 (conf c ?p 0)),
        revision := ucast (conf c ?p 8 AND 0xFF), prog_if := ucast (drop_bit 8 (conf c ?p 8) AND 0xFF),
        sub_class := ucast (drop_bit 16 (conf c ?p 8) AND 0xFF), class_code := ucast (drop_bit 24 (conf c ?p 8) AND 0xFF),
        header_type := ?ht, bar := bar (fn_entry c ?p ?bs),
        irq_line := ucast (conf c ?p 0x3C AND 0xFF), irq_pin := ucast (drop_bit 8 (conf c ?p 0x3C) AND 0xFF)\<rparr>"
      by (cases "pci_devices t ! pci_device_count t") (simp add: fn_entry_def del: upt_rec_numeral)
    note e = this [symmetric]
    have a: "add_fn c t ?p = \<lparr>pci_devices = (pci_devices t)[pci_device_count t := fn_entry c ?p ?bs], pci_device_count = pci_device_count t + 1\<rparr>"
      using False by (simp add: add_fn_def)
    have id0: "conf c ?p 0 AND 0xFFFF \<noteq> 0xFFFF" using assms(4) by (simp add: fn_present_def)
    show ?thesis using d4(1) e
      by (cases "?ht AND 0x7F = 0")
        (simp_all add: a scan_function_def d1(1) id0 False [simplified] d2(1) d3(1) d5 Let_def del: upt_rec_numeral)
  qed
qed

lemma add_fn_ok: "pci_table_ok t \<Longrightarrow> pci_table_ok (add_fn c t p)"
proof -
  assume t: "pci_table_ok t"
  have "length (bar (fn_entry c p (bar (pci_devices t ! k)))) = 6" if "k < 256" for k
    using t that by (cases p) (simp add: fn_entry_def pci_table_ok_def PCI_MAX_DEVICES_def del: upt_rec_numeral)
  then show ?thesis using t by (auto simp: add_fn_def pci_table_ok_def PCI_MAX_DEVICES_def dest: set_update_subset_insert [THEN subsetD])
qed

lemma scan_functions_hw:
  assumes "pci_hw io cfg" "cfg d = c" "pci_table_ok t"
  shows "\<exists>d'. foldl (\<lambda>(t, d) f. case pci_read32 io d (of_nat b) (of_nat dv) (of_nat f) 0x00 of (fid, d) \<Rightarrow>
      if fid AND 0xFFFF \<noteq> 0xFFFF then scan_function io (t, d) (of_nat b) (of_nat dv) (of_nat f) else (t, d)) (t, d) fs =
    (foldl (add_fn c) t (filter (fn_present c) (map (\<lambda>f. (b, dv, f)) fs)), d') \<and> cfg d' = c"
  using assms(2,3)
proof (induction fs arbitrary: t d)
  case (Cons f fs)
  obtain d1 where d1: "pci_read32 io d (of_nat b) (of_nat dv) (of_nat f) 0x00 = (conf c (b, dv, f) 0, d1)" "cfg d1 = c"
    using pci_read32_hw [OF assms(1), of d "of_nat b" "of_nat dv" "of_nat f" 0] Cons.prems(1) by (auto simp: conf_def)
  show ?case
  proof (cases "fn_present c (b, dv, f)")
    case True
    obtain d2 where "scan_function io (t, d1) (of_nat b) (of_nat dv) (of_nat f) = (add_fn c t (b, dv, f), d2)" "cfg d2 = c"
      using scan_function_hw [OF assms(1) d1(2) Cons.prems(2) True] by blast
    then show ?thesis
      using Cons.IH [of d2 "add_fn c t (b, dv, f)"] add_fn_ok [OF Cons.prems(2)] True [unfolded fn_present_def] d1(1)
      by (simp add: fn_present_def)
  next
    case False
    then show ?thesis using Cons.IH [OF d1(2) Cons.prems(2)] d1(1) by (simp add: fn_present_def)
  qed
qed simp

lemma foldl_add_ok: "pci_table_ok t \<Longrightarrow> pci_table_ok (foldl (add_fn c) t ps)"
  by (induction ps arbitrary: t) (simp_all add: add_fn_ok)

lemma scan_device_hw:
  assumes "pci_hw io cfg" "cfg d = c" "pci_table_ok t"
  shows "\<exists>d'. scan_device io (t, d) (of_nat b) (of_nat dv) = (foldl (add_fn c) t (device_functions c b dv), d') \<and> cfg d' = c"
proof -
  have r: "\<exists>d'. pci_read32 io d1 (of_nat b) (of_nat dv) 0 reg = (conf c (b, dv, 0) reg, d') \<and> cfg d' = c" if "cfg d1 = c" for d1 reg
    using pci_read32_hw [OF assms(1), of d1 "of_nat b" "of_nat dv" 0 reg] that by (auto simp: conf_def)
  obtain d1 where d1: "pci_read32 io d (of_nat b) (of_nat dv) 0 0x00 = (conf c (b, dv, 0) 0, d1)" "cfg d1 = c"
    using r [OF assms(2), of 0] by auto
  show ?thesis
  proof (cases "fn_present c (b, dv, 0)")
    case True
    obtain d2 where d2: "scan_function io (t, d1) (of_nat b) (of_nat dv) 0 = (add_fn c t (b, dv, 0), d2)" "cfg d2 = c"
      using scan_function_hw [OF assms(1) d1(2) assms(3) True] by auto
    obtain d3 where d3: "pci_read32 io d2 (of_nat b) (of_nat dv) 0 0x0C = (conf c (b, dv, 0) 0x0C, d3)" "cfg d3 = c"
      using r [OF d2(2), of "0x0C"] by auto
    show ?thesis
      using True [unfolded fn_present_def] True d1(1) d2(1) d3 scan_functions_hw [OF assms(1) d3(2) add_fn_ok [OF assms(3), of c "(b, dv, 0)"], of b dv "[1..<8]"]
      by (cases "drop_bit 16 (conf c (b, dv, 0) 0x0C) AND 0x80 = 0") (simp_all add: scan_device_def device_functions_def del: upt_rec_numeral)
  next
    case False
    then show ?thesis using d1 by (simp add: scan_device_def device_functions_def fn_present_def)
  qed
qed

lemma scan_bus_hw:
  assumes "pci_hw io cfg" "cfg d = c" "pci_table_ok t"
  shows "\<exists>d'. foldl (\<lambda>s dev. scan_device io s (of_nat b) (of_nat dev)) (t, d) ds =
    (foldl (add_fn c) t (concat (map (device_functions c b) ds)), d') \<and> cfg d' = c"
  using assms(2,3)
proof (induction ds arbitrary: t d)
  case (Cons dv ds)
  obtain d1 where d1: "scan_device io (t, d) (of_nat b) (of_nat dv) = (foldl (add_fn c) t (device_functions c b dv), d1)" "cfg d1 = c"
    using scan_device_hw [OF assms(1) Cons.prems] by blast
  then show ?case using Cons.IH [OF d1(2) foldl_add_ok [OF Cons.prems(2)]] by simp
qed simp

lemma pci_scan_hw:
  assumes "pci_hw io cfg" "pci_table_ok t"
  shows "\<exists>d'. pci_scan io (t, d) = (foldl (add_fn (cfg d)) (t\<lparr>pci_device_count := 0\<rparr>) (pci_functions (cfg d)), d') \<and> cfg d' = cfg d"
proof -
  have "\<exists>d'. foldl (\<lambda>s bus. foldl (\<lambda>s dev. scan_device io s (of_nat bus) (of_nat dev)) s [0..<32]) (t, d) bs =
      (foldl (add_fn c) t (concat (map (\<lambda>b. concat (map (device_functions c b) [0..<32])) bs)), d') \<and> cfg d' = c"
    if "cfg d = c" "pci_table_ok t" for c t d bs
    using that
  proof (induction bs arbitrary: t d)
    case (Cons b bs)
    obtain d1 where d1: "foldl (\<lambda>s dev. scan_device io s (of_nat b) (of_nat dev)) (t, d) [0..<32] =
        (foldl (add_fn c) t (concat (map (device_functions c b) [0..<32])), d1)" "cfg d1 = c"
      using scan_bus_hw [OF assms(1) Cons.prems] by blast
    then show ?case using Cons.IH [OF d1(2) foldl_add_ok [OF Cons.prems(2)]] by (simp del: upt_rec_numeral)
  qed simp
  from this [of d "cfg d" "t\<lparr>pci_device_count := 0\<rparr>" "[0..<256]"] show ?thesis
    using assms(2) by (simp add: pci_scan_def pci_functions_def pci_table_ok_def del: upt_rec_numeral)
qed

lemma foldl_add_entries:
  assumes "pci_table_ok t" "pci_device_count t = 0"
  shows "pci_device_count (foldl (add_fn c) t ps) = min PCI_MAX_DEVICES (length ps) \<and>
    (\<forall>i < 256. pci_devices (foldl (add_fn c) t ps) ! i = (if i < length ps then fn_entry c (ps ! i) (bar (pci_devices t ! i)) else pci_devices t ! i))"
proof (induction ps rule: rev_induct)
  case (snoc p ps)
  define T where "T = foldl (add_fn c) t ps"
  have l: "length (pci_devices T) = 256" using foldl_add_ok [OF assms(1)] by (simp add: T_def pci_table_ok_def PCI_MAX_DEVICES_def)
  note s = snoc [folded T_def, unfolded PCI_MAX_DEVICES_def]
  have f: "foldl (add_fn c) t (ps @ [p]) = add_fn c T p" by (simp add: T_def)
  show ?case
  proof (cases "length ps < 256")
    case True
    then have k: "pci_device_count T = length ps" using s by simp
    have "pci_devices T ! length ps = pci_devices t ! length ps" using s True by simp
    then show ?thesis unfolding f using k s True l by (auto simp: add_fn_def PCI_MAX_DEVICES_def nth_list_update nth_append)
  next
    case False
    then show ?thesis unfolding f using s by (auto simp: add_fn_def PCI_MAX_DEVICES_def nth_append)
  qed
qed (simp add: assms(2))

lemma first_index_spec:
  "case first_index P xs i n of None \<Rightarrow> \<forall>j. i \<le> j \<and> j < i + n \<longrightarrow> \<not> P (xs ! j)
   | Some k \<Rightarrow> i \<le> k \<and> k < i + n \<and> P (xs ! k) \<and> (\<forall>j. i \<le> j \<and> j < k \<longrightarrow> \<not> P (xs ! j))"
proof (induction n arbitrary: i)
  case (Suc n)
  show ?case
  proof (cases "P (xs ! i)")
    case False
    have "i \<le> j \<longleftrightarrow> j = i \<or> Suc i \<le> j" for j by auto
    then show ?thesis using Suc [of "Suc i"] False by (auto split: option.splits)
  qed auto
qed auto

text \<open>
  C29: the scan finds the devices of the machine.  On configuration mechanism 1 it describes, in bus order,
  every function that answers (function 0 of each device and all functions of multifunction
  devices) with exactly its configuration registers, up to 256 of them, and a lookup by
  vendor and device returns the first descriptor that matches, or NULL if none does.
\<close>

theorem pci_scan_finds:
  assumes "pci_hw io cfg" "pci_table_ok t"
  shows "\<exists>t' d'. pci_scan io (t, d) = (t', d') \<and> cfg d' = cfg d \<and> pci_table_ok t' \<and>
    pci_device_count t' = min 256 (length (pci_functions (cfg d))) \<and>
    (\<forall>i < pci_device_count t'. pci_devices t' ! i = fn_entry (cfg d) (pci_functions (cfg d) ! i) (bar (pci_devices t ! i))) \<and>
    (\<forall>v w. case pci_find_device t' v w of
        None \<Rightarrow> \<forall>i < pci_device_count t'. \<not> (vendor_id (pci_devices t' ! i) = v \<and> device_id (pci_devices t' ! i) = w)
      | Some k \<Rightarrow> k < pci_device_count t' \<and> vendor_id (pci_devices t' ! k) = v \<and> device_id (pci_devices t' ! k) = w \<and>
          (\<forall>i < k. \<not> (vendor_id (pci_devices t' ! i) = v \<and> device_id (pci_devices t' ! i) = w)))"
proof -
  let ?c = "cfg d" and ?t = "t\<lparr>pci_device_count := 0\<rparr>"
  have ok: "pci_table_ok ?t" using assms(2) by (simp add: pci_table_ok_def)
  obtain d' where s: "pci_scan io (t, d) = (foldl (add_fn ?c) ?t (pci_functions ?c), d')" "cfg d' = ?c"
    using pci_scan_hw [OF assms] by blast
  define t' where "t' = foldl (add_fn ?c) ?t (pci_functions ?c)"
  have e: "pci_device_count t' = min 256 (length (pci_functions ?c))"
    "\<forall>i < 256. pci_devices t' ! i = (if i < length (pci_functions ?c) then fn_entry ?c (pci_functions ?c ! i) (bar (pci_devices t ! i)) else pci_devices t ! i)"
    using foldl_add_entries [OF ok, of ?c "pci_functions ?c"] by (simp_all add: t'_def PCI_MAX_DEVICES_def)
  have f: "case pci_find_device t' v w of
        None \<Rightarrow> \<forall>i < pci_device_count t'. \<not> (vendor_id (pci_devices t' ! i) = v \<and> device_id (pci_devices t' ! i) = w)
      | Some k \<Rightarrow> k < pci_device_count t' \<and> vendor_id (pci_devices t' ! k) = v \<and> device_id (pci_devices t' ! k) = w \<and>
          (\<forall>i < k. \<not> (vendor_id (pci_devices t' ! i) = v \<and> device_id (pci_devices t' ! i) = w))" for v w
    using first_index_spec [where P = "\<lambda>p. vendor_id p = v \<and> device_id p = w" and xs = "pci_devices t'" and i = 0 and n = "pci_device_count t'"]
    unfolding pci_find_device_def by (simp split: option.splits)
  have "pci_table_ok t'" unfolding t'_def by (rule foldl_add_ok [OF ok])
  moreover have "\<forall>i < pci_device_count t'. pci_devices t' ! i = fn_entry ?c (pci_functions ?c ! i) (bar (pci_devices t ! i))"
    using e by simp
  ultimately show ?thesis using s e(1) f unfolding t'_def [symmetric] by blast
qed

lemma pci_map_bar_wraps:
  \<comment> \<open>a register block at or above 2 GB, the usual place, is mapped into the lower half\<close>
  assumes "pci_bar_is_mmio p idx" "0x80000000 \<le> unat (pci_bar_address p idx)" "unat (pci_bar_address p idx) < 0x100000000"
  shows "unat (fst (pci_map_bar st p idx)) = unat (pci_bar_address p idx) - 0x80000000"
proof -
  obtain y where y: "unat (pci_bar_address p idx) = 0x80000000 + y" using assms(2) by (auto simp: le_iff_add)
  then have "unat (KERNEL_VIRT_BASE + pci_bar_address p idx) = (18446744073709551616 + y) mod 18446744073709551616"
    by (simp add: KERNEL_VIRT_BASE_def unat_word_ariths)
  also have "\<dots> = y" using y assms(3) by (simp only: mod_add_self1) simp
  finally show ?thesis using assms(1) y by (simp add: pci_map_bar_def Let_def)
qed

section \<open>Witness\<close>

definition demo_pci :: "unit ports" where
  \<comment> \<open>every configuration register of every function reads the same\<close>
  "demo_pci = \<lparr>p_inb = (\<lambda>p d. (0, d)), p_outb = (\<lambda>p v d. d), p_inw = (\<lambda>p d. (0, d)), p_outw = (\<lambda>p v d. d),
     p_inl = (\<lambda>p d. (0x813910EC, d)), p_outl = (\<lambda>p v d. d)\<rparr>"

definition demo_table :: pci_table where
  "demo_table = \<lparr>pci_devices = replicate 256 \<lparr>pd_bus = 0, pd_device = 0, pd_function = 0, vendor_id = 0, device_id = 0, class_code = 0,
     sub_class = 0, prog_if = 0, header_type = 0, revision = 0, irq_line = 0, irq_pin = 0, bar = replicate 6 0\<rparr>, pci_device_count = 0\<rparr>"

theorem pci_scan_finds_witness:
  "\<exists>t' d'. pci_scan demo_pci (demo_table, ()) = (t', d') \<and> pci_device_count t' = 256 \<and> pci_find_device t' 0x10EC 0x8139 = Some 0"
proof -
  let ?c = "\<lambda>_. 0x813910EC :: u32"
  have hw: "pci_hw demo_pci (\<lambda>_. ?c)" by (simp add: pci_hw_def demo_pci_def)
  have ok: "pci_table_ok demo_table" by (simp add: pci_table_ok_def demo_table_def PCI_MAX_DEVICES_def)
  have df: "device_functions ?c b d = [(b, d, 0)]" for b d by (simp add: device_functions_def fn_present_def conf_def)
  have "length (pci_functions ?c) = 8192" by (simp add: pci_functions_def df length_concat o_def sum_list_triv del: upt_rec_numeral)
  then have l: "min 256 (length (pci_functions ?c)) = 256" by simp
  obtain t' d' where t: "pci_scan demo_pci (demo_table, ()) = (t', d')" "pci_device_count t' = 256"
    "\<forall>i < pci_device_count t'. pci_devices t' ! i = fn_entry ?c (pci_functions ?c ! i) (bar (pci_devices demo_table ! i))"
    "\<forall>v w. case pci_find_device t' v w of
        None \<Rightarrow> \<forall>i < pci_device_count t'. \<not> (vendor_id (pci_devices t' ! i) = v \<and> device_id (pci_devices t' ! i) = w)
      | Some k \<Rightarrow> k < pci_device_count t' \<and> vendor_id (pci_devices t' ! k) = v \<and> device_id (pci_devices t' ! k) = w \<and>
          (\<forall>i < k. \<not> (vendor_id (pci_devices t' ! i) = v \<and> device_id (pci_devices t' ! i) = w))"
    using pci_scan_finds [OF hw ok, of "()", unfolded l] by blast
  have "vendor_id (pci_devices t' ! 0) = 0x10EC \<and> device_id (pci_devices t' ! 0) = 0x8139"
    using t(2,3) by (cases "pci_functions ?c ! 0") (simp add: fn_entry_def conf_def)
  then have "pci_find_device t' 0x10EC 0x8139 = Some 0" using t(2) t(4) [THEN spec [of _ "0x10EC"], THEN spec [of _ "0x8139"]]
    by (cases "pci_find_device t' 0x10EC 0x8139") auto
  then show ?thesis using t(1,2) by blast
qed

end
