(* ===== verification/Net.thy ===== *)
theory Net
  imports SchedCreate Irq Pci
begin

text \<open>
  The network stack under \<^verbatim>\<open>kernel/drivers/net\<close>: device registry, Ethernet, ARP, IPv4, ICMP and the
  RTL8139 driver.  Packets lie in kernel memory \<open>vmem\<close> and are addressed by pointers;
  objects on the C stack are byte lists.  Function pointers are values of a datatype with
  one constructor per function the sources store in them.  Messages on the serial line are left out.
\<close>

section \<open>State\<close>

definition NETDEV_MAX :: nat where [kdefs]: "NETDEV_MAX = 8"
definition ETH_ALEN :: nat where [kdefs]: "ETH_ALEN = 6"
definition ETH_TYPE_ARP :: u16 where [kdefs]: "ETH_TYPE_ARP = 0x0806"
definition ETH_TYPE_IPV4 :: u16 where [kdefs]: "ETH_TYPE_IPV4 = 0x0800"
definition ETH_HEADER_LEN :: u64 where [kdefs]: "ETH_HEADER_LEN = 14"
definition ARP_HW_ETH :: u16 where [kdefs]: "ARP_HW_ETH = 1"
definition ARP_PROTO_IPV4 :: u16 where [kdefs]: "ARP_PROTO_IPV4 = 0x0800"
definition ARP_REQUEST :: u16 where [kdefs]: "ARP_REQUEST = 1"
definition ARP_REPLY :: u16 where [kdefs]: "ARP_REPLY = 2"
definition ARP_CACHE_SIZE :: nat where [kdefs]: "ARP_CACHE_SIZE = 32"
definition IP_PROTO_ICMP :: u8 where [kdefs]: "IP_PROTO_ICMP = 1"
definition ICMP_ECHO_REQUEST :: u8 where [kdefs]: "ICMP_ECHO_REQUEST = 8"
definition ICMP_ECHO_REPLY :: u8 where [kdefs]: "ICMP_ECHO_REPLY = 0"
definition RTL_TSD0 :: u16 where [kdefs]: "RTL_TSD0 = 0x10"
definition RTL_TSAD0 :: u16 where [kdefs]: "RTL_TSAD0 = 0x20"
definition RTL_TX_BUF_SIZE :: u64 where [kdefs]: "RTL_TX_BUF_SIZE = 2048"
definition RTL_TX_DESCS :: nat where [kdefs]: "RTL_TX_DESCS = 4"
definition RTL_RX_BUF_SIZE :: u64 where [kdefs]: "RTL_RX_BUF_SIZE = 64 * 1024 + 16"

datatype send_fn = send_null | send_rtl8139
datatype rx_fn = rx_null | rx_eth

record net_device =
  nd_name :: string
  nd_mac :: "u8 list"
  nd_up :: bool
  nd_send :: send_fn

record arp_entry =
  ae_ip :: u32
  ae_mac :: "u8 list"
  ae_valid :: bool

record 'd net_state = heap_state +
  nic :: 'd
  netdevs :: "u64 \<Rightarrow> net_device"
  devs :: "u64 list"
  dev_cnt :: nat
  rx_handler :: rx_fn
  arp_entries :: "arp_entry list"
  my_ip :: u32
  g_my_ip :: u32
  g_ip_id :: u16
  rtl_io_base :: u16
  rtl_rx_buf :: u64
  rtl_tx_buf :: "u64 list"
  rtl_tx_cur :: u32
  rtl_rx_cur :: u16

datatype buf = Local "u8 list" | At u64

definition copy_in :: "memory \<Rightarrow> u64 \<Rightarrow> buf \<Rightarrow> nat \<Rightarrow> memory" where
  \<comment> \<open>\<^verbatim>\<open>memcpy\<close> into kernel memory from a stack object or from kernel memory\<close>
  "copy_in m d b n = (case b of Local bs \<Rightarrow> put_bytes m d (take n bs) | At s \<Rightarrow> memcpy m d s n)"


section \<open>Device registry\<close>

definition netdev_register :: "('d, 'a) net_state_scheme \<Rightarrow> u64 \<Rightarrow> int \<times> ('d, 'a) net_state_scheme" where
  "netdev_register st dev =
     (if dev = 0 \<or> NETDEV_MAX \<le> dev_cnt st then (- 1, st)
      else (int (dev_cnt st), st\<lparr>devs := (devs st)[dev_cnt st := dev], dev_cnt := dev_cnt st + 1\<rparr>))"

definition netdev_get :: "('d, 'a) net_state_scheme \<Rightarrow> int \<Rightarrow> u64" where
  "netdev_get st index = (if index < 0 \<or> int (dev_cnt st) \<le> index then 0 else devs st ! nat index)"

definition netdev_count :: "('d, 'a) net_state_scheme \<Rightarrow> int" where
  "netdev_count st = int (dev_cnt st)"

definition netdev_set_rx_handler :: "('d, 'a) net_state_scheme \<Rightarrow> rx_fn \<Rightarrow> ('d, 'a) net_state_scheme" where
  "netdev_set_rx_handler st fn = st\<lparr>rx_handler := fn\<rparr>"

section \<open>Byte order\<close>

definition htons :: "u16 \<Rightarrow> u16" where "htons v = drop_bit 8 v OR push_bit 8 v"
definition ntohs :: "u16 \<Rightarrow> u16" where "ntohs v = htons v"

definition htonl :: "u32 \<Rightarrow> u32" where
  "htonl v = push_bit 24 (v AND 0xFF) OR push_bit 16 (drop_bit 8 v AND 0xFF) OR push_bit 8 (drop_bit 16 v AND 0xFF) OR (drop_bit 24 v AND 0xFF)"

definition ntohl :: "u32 \<Rightarrow> u32" where "ntohl v = htonl v"

section \<open>Transmission\<close>

fun rtl_tx_wait :: "'d ports \<Rightarrow> u16 \<Rightarrow> 'd \<Rightarrow> nat \<Rightarrow> u32 \<times> 'd" where
  \<comment> \<open>\<^verbatim>\<open>while (!(R32(...) & (1 << 13)) && timeout--);\<close> with the final value of \<^verbatim>\<open>timeout\<close>\<close>
  "rtl_tx_wait io p d 0 = (case p_inl io p d of (v, d1) \<Rightarrow> if bit v 13 then (0, d1) else (0 - 1, d1))"
| "rtl_tx_wait io p d (Suc n) = (case p_inl io p d of (v, d1) \<Rightarrow> if bit v 13 then (of_nat (Suc n), d1) else rtl_tx_wait io p d1 n)"

definition rtl8139_send :: "'d ports \<Rightarrow> ('d, 'a) net_state_scheme \<Rightarrow> u64 \<Rightarrow> u64 \<Rightarrow> int \<times> ('d, 'a) net_state_scheme" where
  "rtl8139_send io st data len =
     (if RTL_TX_BUF_SIZE < len then (- 1, st)
      else
        let desc = unat (rtl_tx_cur st) mod RTL_TX_DESCS
        in case rtl_tx_wait io (rtl_io_base st + (RTL_TSD0 + of_nat (desc * 4))) (nic st) 1000000 of (timeout, d) \<Rightarrow>
             if timeout = 0 then (- 1, st\<lparr>nic := d\<rparr>)
             else
               let phys = rtl_tx_buf st ! desc;
                   m = memcpy (vmem st) phys data (unat len);
                   d = p_outl io (rtl_io_base st + (RTL_TSAD0 + of_nat (desc * 4))) (ucast (phys AND 0xFFFFFFFF)) d;
                   d = p_outl io (rtl_io_base st + (RTL_TSD0 + of_nat (desc * 4))) (ucast ((if len < 60 then 60 else len) AND 0x1FFF)) d
               in (0, st\<lparr>vmem := m, nic := d, rtl_tx_cur := rtl_tx_cur st + 1\<rparr>))"

definition eth_tx :: "'d ports \<Rightarrow> ('d, 'a) net_state_scheme \<Rightarrow> u64 \<Rightarrow> buf \<Rightarrow> u16 \<Rightarrow> buf \<Rightarrow> u64 \<Rightarrow>
    (int \<times> ('d, 'a) net_state_scheme) option" where
  "eth_tx io st dev dst ethertype payload payload_len =
     (if dev = 0 \<or> nd_send (netdevs st dev) = send_null then Some (- 1, st)
      else do {
        let total = ETH_HEADER_LEN + payload_len;
        (frame, st1) \<leftarrow> kmalloc st (if total < 64 then 64 else total);
        if frame = 0 then Some (- 1, st1)
        else do {
          let m = copy_in (vmem st1) frame dst ETH_ALEN;
          let m = put_bytes m (frame + 6) (nd_mac (netdevs st1 dev));
          let m = store16 m (frame + 12) (htons ethertype);
          let m = copy_in m (frame + ETH_HEADER_LEN) payload (unat payload_len);
          let m = (if total < 60 then memset m (frame + total) 0 (unat (60 - total)) else m);
          let (r, st2) = rtl8139_send io (st1\<lparr>vmem := m\<rparr>) frame (if total < 60 then 60 else total);
          Some (r, kfree st2 frame)
        }
      })"

section \<open>ARP\<close>

record arp_packet =
  hw_type :: u16
  proto_type :: u16
  hw_len :: u8
  proto_len :: u8
  operation :: u16
  sender_mac :: "u8 list"
  sender_ip :: u32
  target_mac :: "u8 list"
  target_ip :: u32

definition SIZEOF_ARP :: u64 where [kdefs]: "SIZEOF_ARP = 28"

definition arp_bytes :: "arp_packet \<Rightarrow> u8 list" where
  \<comment> \<open>the packed struct in memory\<close>
  "arp_bytes p = le16 (hw_type p) @ le16 (proto_type p) @ [hw_len p, proto_len p] @ le16 (operation p) @
     sender_mac p @ le32 (sender_ip p) @ target_mac p @ le32 (target_ip p)"

definition arp_packet_at :: "memory \<Rightarrow> u64 \<Rightarrow> arp_packet" where
  "arp_packet_at m p = \<lparr>hw_type = load16 m p, proto_type = load16 m (p + 2), hw_len = m (p + 4), proto_len = m (p + 5),
     operation = load16 m (p + 6), sender_mac = get_bytes m (p + 8) 6, sender_ip = load32 m (p + 14),
     target_mac = get_bytes m (p + 18) 6, target_ip = load32 m (p + 24)\<rparr>"

definition arp_init :: "('d, 'a) net_state_scheme \<Rightarrow> u32 \<Rightarrow> ('d, 'a) net_state_scheme" where
  "arp_init st ip = st\<lparr>my_ip := ip, arp_entries := replicate ARP_CACHE_SIZE \<lparr>ae_ip = 0, ae_mac = replicate 6 0, ae_valid = False\<rparr>\<rparr>"

fun arp_find :: "arp_entry list \<Rightarrow> u32 \<Rightarrow> nat option" where
  \<comment> \<open>the first loop of \<^verbatim>\<open>arp_cache_update\<close> and the loop of \<^verbatim>\<open>arp_resolve\<close>\<close>
  "arp_find [] ip = None"
| "arp_find (e # es) ip = (if ae_valid e \<and> ae_ip e = ip then Some 0 else map_option Suc (arp_find es ip))"

fun arp_free :: "arp_entry list \<Rightarrow> nat option" where
  "arp_free [] = None"
| "arp_free (e # es) = (if \<not> ae_valid e then Some 0 else map_option Suc (arp_free es))"

definition arp_cache_update :: "arp_entry list \<Rightarrow> u32 \<Rightarrow> u8 list \<Rightarrow> arp_entry list" where
  "arp_cache_update c ip mac =
     (case arp_find c ip of
        Some i \<Rightarrow> c[i := (c ! i)\<lparr>ae_mac := mac\<rparr>]
      | None \<Rightarrow> (case arp_free c of
          Some i \<Rightarrow> c[i := \<lparr>ae_ip = ip, ae_mac = mac, ae_valid = True\<rparr>]
        | None \<Rightarrow> c))"

definition arp_rx :: "'d ports \<Rightarrow> ('d, 'a) net_state_scheme \<Rightarrow> u64 \<Rightarrow> u64 \<Rightarrow> u64 \<Rightarrow> ('d, 'a) net_state_scheme option" where
  "arp_rx io st dev data len =
     (if len < SIZEOF_ARP then Some st
      else do {
        let pkt = arp_packet_at (vmem st) data;
        let st = st\<lparr>arp_entries := arp_cache_update (arp_entries st) (ntohl (sender_ip pkt)) (sender_mac pkt)\<rparr>;
        if ntohs (operation pkt) = ARP_REQUEST \<and> ntohl (target_ip pkt) = ntohl (my_ip st) then do {
          let reply = \<lparr>hw_type = htons ARP_HW_ETH, proto_type = htons ARP_PROTO_IPV4, hw_len = 6, proto_len = 4,
                       operation = htons ARP_REPLY, sender_mac = nd_mac (netdevs st dev), sender_ip = my_ip st,
                       target_mac = sender_mac pkt, target_ip = sender_ip pkt\<rparr>;
          (r, st1) \<leftarrow> eth_tx io st dev (At (data + 8)) ETH_TYPE_ARP (Local (arp_bytes reply)) SIZEOF_ARP;
          Some st1
        }
        else Some st
      })"

definition eth_broadcast :: "u8 list" where "eth_broadcast = [0xFF, 0xFF, 0xFF, 0xFF, 0xFF, 0xFF]"

definition arp_resolve :: "'d ports \<Rightarrow> ('d, 'a) net_state_scheme \<Rightarrow> u64 \<Rightarrow> u32 \<Rightarrow>
    (u8 list option \<times> ('d, 'a) net_state_scheme) option" where
  \<comment> \<open>the MAC address written to \<^verbatim>\<open>mac_out\<close>, or \<^const>\<open>None\<close> for the result -1\<close>
  "arp_resolve io st dev ip =
     (case arp_find (arp_entries st) ip of
        Some i \<Rightarrow> Some (Some (ae_mac (arp_entries st ! i)), st)
      | None \<Rightarrow> do {
          let req = \<lparr>hw_type = htons ARP_HW_ETH, proto_type = htons ARP_PROTO_IPV4, hw_len = 6, proto_len = 4,
                     operation = htons ARP_REQUEST, sender_mac = nd_mac (netdevs st dev), sender_ip = my_ip st,
                     target_mac = replicate 6 0, target_ip = htonl ip\<rparr>;
          (r, st1) \<leftarrow> eth_tx io st dev (Local eth_broadcast) ETH_TYPE_ARP (Local (arp_bytes req)) SIZEOF_ARP;
          Some (None, st1)
        })"

section \<open>IPv4\<close>

definition SIZEOF_IPV4 :: u64 where [kdefs]: "SIZEOF_IPV4 = 20"
definition SIZEOF_ICMP :: u64 where [kdefs]: "SIZEOF_ICMP = 8"

fun checksum_sum :: "memory \<Rightarrow> u64 \<Rightarrow> nat \<Rightarrow> u32 \<Rightarrow> u32" where
  "checksum_sum m p 0 s = s"
| "checksum_sum m p (Suc 0) s = s + ucast (m p)"
| "checksum_sum m p (Suc (Suc n)) s = checksum_sum m (p + 2) n (s + ucast (load16 m p))"

partial_function (option) checksum_fold :: "u32 \<Rightarrow> u32 option" where
  \<comment> \<open>\<^verbatim>\<open>while (sum >> 16) sum = (sum & 0xFFFF) + (sum >> 16);\<close>\<close>
  "checksum_fold s = (if drop_bit 16 s \<noteq> 0 then checksum_fold ((s AND 0xFFFF) + drop_bit 16 s) else Some s)"

definition ipv4_checksum :: "memory \<Rightarrow> u64 \<Rightarrow> u64 \<Rightarrow> u16 option" where
  "ipv4_checksum m data len = do {
     s \<leftarrow> checksum_fold (checksum_sum m data (unat len) 0);
     Some (ucast (NOT s))
   }"

definition ipv4_init :: "('d, 'a) net_state_scheme \<Rightarrow> u32 \<Rightarrow> ('d, 'a) net_state_scheme" where
  "ipv4_init st ip = arp_init (st\<lparr>g_my_ip := ip\<rparr>) ip"

definition ipv4_build :: "memory \<Rightarrow> u64 \<Rightarrow> u16 \<Rightarrow> u32 \<Rightarrow> u32 \<Rightarrow> u8 \<Rightarrow> u64 \<Rightarrow> buf \<Rightarrow> u64 \<Rightarrow> memory option" where
  \<comment> \<open>header and payload of \<^verbatim>\<open>ipv4_send\<close>\<close>
  "ipv4_build m pkt ident src dst_ip proto total_len payload payload_len = do {
     let m = m(pkt := 0x45);
     let m = m(pkt + 1 := 0);
     let m = store16 m (pkt + 2) (htons (ucast total_len));
     let m = store16 m (pkt + 4) (htons ident);
     let m = store16 m (pkt + 6) 0;
     let m = m(pkt + 8 := 64);
     let m = m(pkt + 9 := proto);
     let m = store16 m (pkt + 10) 0;
     let m = store32 m (pkt + 12) (htonl src);
     let m = store32 m (pkt + 16) (htonl dst_ip);
     c \<leftarrow> ipv4_checksum m pkt SIZEOF_IPV4;
     let m = store16 m (pkt + 10) c;
     Some (copy_in m (pkt + SIZEOF_IPV4) payload (unat payload_len))
   }"

definition ipv4_send :: "'d ports \<Rightarrow> ('d, 'a) net_state_scheme \<Rightarrow> u64 \<Rightarrow> u32 \<Rightarrow> u8 \<Rightarrow> buf \<Rightarrow> u64 \<Rightarrow>
    (int \<times> ('d, 'a) net_state_scheme) option" where
  "ipv4_send io st dev dst_ip proto payload payload_len = do {
     let total = SIZEOF_IPV4 + payload_len;
     (pkt, st1) \<leftarrow> kmalloc st total;
     if pkt = 0 then Some (- 1, st1)
     else do {
       m \<leftarrow> ipv4_build (vmem st1) pkt (g_ip_id st1) (g_my_ip st1) dst_ip proto total payload payload_len;
       let st2 = st1\<lparr>vmem := m, g_ip_id := g_ip_id st1 + 1\<rparr>;
       (mac, st3) \<leftarrow> arp_resolve io st2 dev dst_ip;
       case mac of
         None \<Rightarrow> Some (- 1, kfree st3 pkt)
       | Some dst_mac \<Rightarrow> do {
           (r, st4) \<leftarrow> eth_tx io st3 dev (Local dst_mac) ETH_TYPE_IPV4 (At pkt) total;
           Some (r, kfree st4 pkt)
         }
     }
   }"

section \<open>Reception\<close>

definition icmp_rx :: "'d ports \<Rightarrow> ('d, 'a) net_state_scheme \<Rightarrow> u64 \<Rightarrow> u64 \<Rightarrow> u64 \<Rightarrow> u64 \<Rightarrow> ('d, 'a) net_state_scheme option" where
  "icmp_rx io st dev ip_hdr data len =
     (if len < SIZEOF_ICMP then Some st
      else do {
        c \<leftarrow> ipv4_checksum (vmem st) data len;
        if c \<noteq> 0 then Some st
        else if vmem st data = ICMP_ECHO_REQUEST then do {
          (reply, st1) \<leftarrow> kmalloc st len;
          if reply = 0 then Some st1
          else do {
            let m = memcpy (vmem st1) reply data (unat len);
            let m = m(reply := ICMP_ECHO_REPLY);
            let m = store16 m (reply + 2) 0;
            c \<leftarrow> ipv4_checksum m reply len;
            let st2 = st1\<lparr>vmem := store16 m (reply + 2) c\<rparr>;
            (r, st3) \<leftarrow> ipv4_send io st2 dev (ntohl (load32 (vmem st2) (ip_hdr + 12))) IP_PROTO_ICMP (At reply) len;
            Some (kfree st3 reply)
          }
        }
        else Some st
      })"

definition ipv4_rx :: "'d ports \<Rightarrow> ('d, 'a) net_state_scheme \<Rightarrow> u64 \<Rightarrow> u64 \<Rightarrow> u64 \<Rightarrow> ('d, 'a) net_state_scheme option" where
  "ipv4_rx io st dev data len =
     (if len < SIZEOF_IPV4 then Some st
      else do {
        let ihl = (vmem st data AND 0xF) * 4;
        if ihl < 20 \<or> ucast len < ihl then Some st
        else do {
          c \<leftarrow> ipv4_checksum (vmem st) data (ucast ihl);
          if c \<noteq> 0 then Some st
          else if ntohl (load32 (vmem st) (data + 16)) \<noteq> g_my_ip st then Some st
          else
            let payload_len = ucast (ntohs (load16 (vmem st) (data + 2))) - ucast ihl
            in if vmem st (data + 9) = IP_PROTO_ICMP then icmp_rx io st dev data (data + ucast ihl) payload_len
               else Some st
        }
      })"

definition eth_rx :: "'d ports \<Rightarrow> ('d, 'a) net_state_scheme \<Rightarrow> u64 \<Rightarrow> u64 \<Rightarrow> u64 \<Rightarrow> ('d, 'a) net_state_scheme option" where
  "eth_rx io st dev frame len =
     (if len < ETH_HEADER_LEN then Some st
      else
        let ethertype = ntohs (load16 (vmem st) (frame + 12))
        in if ethertype = ETH_TYPE_ARP then arp_rx io st dev (frame + ETH_HEADER_LEN) (len - ETH_HEADER_LEN)
           else if ethertype = ETH_TYPE_IPV4 then ipv4_rx io st dev (frame + ETH_HEADER_LEN) (len - ETH_HEADER_LEN)
           else Some st)"

definition netdev_dispatch_rx :: "'d ports \<Rightarrow> ('d, 'a) net_state_scheme \<Rightarrow> u64 \<Rightarrow> u64 \<Rightarrow> u64 \<Rightarrow> ('d, 'a) net_state_scheme option" where
  "netdev_dispatch_rx io st dev data len = (if rx_handler st = rx_eth then eth_rx io st dev data len else Some st)"

section \<open>The RTL8139 driver\<close>

definition RTL_VENDOR :: u16 where [kdefs]: "RTL_VENDOR = 0x10EC"
definition RTL_DEVICE :: u16 where [kdefs]: "RTL_DEVICE = 0x8139"
definition RTL_IDR0 :: u16 where [kdefs]: "RTL_IDR0 = 0x00"
definition RTL_RBSTART :: u16 where [kdefs]: "RTL_RBSTART = 0x30"
definition RTL_CR :: u16 where [kdefs]: "RTL_CR = 0x37"
definition RTL_CAPR :: u16 where [kdefs]: "RTL_CAPR = 0x38"
definition RTL_IMR :: u16 where [kdefs]: "RTL_IMR = 0x3C"
definition RTL_ISR :: u16 where [kdefs]: "RTL_ISR = 0x3E"
definition RTL_RCR :: u16 where [kdefs]: "RTL_RCR = 0x44"
definition RTL_9346CR :: u16 where [kdefs]: "RTL_9346CR = 0x52"
definition RTL_ISR_ROK :: u16 where [kdefs]: "RTL_ISR_ROK = 0x1"
definition RTL_ISR_RER :: u16 where [kdefs]: "RTL_ISR_RER = 0x2"
definition RTL_ISR_TOK :: u16 where [kdefs]: "RTL_ISR_TOK = 0x4"
definition RTL_ISR_TER :: u16 where [kdefs]: "RTL_ISR_TER = 0x8"
definition RTL_CR_RST :: u8 where [kdefs]: "RTL_CR_RST = 0x10"
definition RTL_CR_RE :: u8 where [kdefs]: "RTL_CR_RE = 0x08"
definition RTL_CR_TE :: u8 where [kdefs]: "RTL_CR_TE = 0x04"

definition u16_mod :: "u16 \<Rightarrow> u16 \<Rightarrow> u16 option" where
  \<comment> \<open>the C remainder; by zero it is a division fault\<close>
  "u16_mod a b = (if b = 0 then None else Some (a mod b))"

definition rtl_advance :: "u16 \<Rightarrow> u16 \<Rightarrow> u16 option" where
  \<comment> \<open>the new ring offset after a packet of \<open>pkt_len\<close> bytes at \<open>offset\<close>\<close>
  "rtl_advance offset pkt_len =
     u16_mod (ucast ((ucast offset + ucast pkt_len + 4 + 3 :: u32) AND NOT 3)) (ucast (RTL_RX_BUF_SIZE - 16))"

partial_function (option) rtl_rx_loop :: "'d ports \<Rightarrow> u64 \<Rightarrow> ('d, 'a) net_state_scheme \<Rightarrow> ('d, 'a) net_state_scheme option" where
  "rtl_rx_loop io nd st = (case p_inb io (rtl_io_base st + RTL_CR) (nic st) of (cr, d) \<Rightarrow>
     if cr AND 0x01 \<noteq> 0 then Some (st\<lparr>nic := d\<rparr>)
     else do {
       let st = st\<lparr>nic := d\<rparr>;
       let offset = rtl_rx_cur st;
       let ptr = rtl_rx_buf st + ucast offset;
       let pkt_hdr = load16 (vmem st) ptr;
       let pkt_len = load16 (vmem st) (ptr + 2);
       if pkt_hdr AND 1 = 0 then Some st
       else do {
         st1 \<leftarrow> (if 4 < pkt_len \<and> pkt_len < 1514 + 4 then netdev_dispatch_rx io st nd (ptr + 4) (ucast (pkt_len - 4)) else Some st);
         cur \<leftarrow> rtl_advance offset pkt_len;
         rtl_rx_loop io nd (st1\<lparr>rtl_rx_cur := cur, nic := p_outw io (rtl_io_base st1 + RTL_CAPR) (cur - 16) (nic st1)\<rparr>)
       }
     })"

definition rtl8139_irq :: "'d ports \<Rightarrow> u64 \<Rightarrow> ('d, 'a) net_state_scheme \<Rightarrow> ('d, 'a) net_state_scheme option" where
  \<comment> \<open>\<open>nd\<close> is the address of \<^verbatim>\<open>rtl.netdev\<close>\<close>
  "rtl8139_irq io nd st = (case p_inw io (rtl_io_base st + RTL_ISR) (nic st) of (status, d) \<Rightarrow>
     let st = st\<lparr>nic := p_outw io (rtl_io_base st + RTL_ISR) status d\<rparr>
     in if status AND RTL_ISR_ROK \<noteq> 0 then rtl_rx_loop io nd st else Some st)"

fun rtl_alloc_tx :: "('d, 'a) net_state_scheme \<Rightarrow> nat list \<Rightarrow> (bool \<times> ('d, 'a) net_state_scheme) option" where
  "rtl_alloc_tx st [] = Some (True, st)"
| "rtl_alloc_tx st (i # is) = do {
     (p, st1) \<leftarrow> kzalloc st RTL_TX_BUF_SIZE;
     let st1 = st1\<lparr>rtl_tx_buf := (rtl_tx_buf st1)[i := p]\<rparr>;
     if p = 0 then Some (False, st1) else rtl_alloc_tx st1 is
   }"

fun rtl_reset_wait :: "'d ports \<Rightarrow> u16 \<Rightarrow> 'd \<Rightarrow> nat \<Rightarrow> 'd" where
  "rtl_reset_wait io p d 0 = snd (p_inb io p d)"
| "rtl_reset_wait io p d (Suc n) = (case p_inb io p d of (v, d1) \<Rightarrow> if v AND RTL_CR_RST \<noteq> 0 then rtl_reset_wait io p d1 n else d1)"

fun rtl_read_mac :: "'d ports \<Rightarrow> u16 \<Rightarrow> 'd \<Rightarrow> nat list \<Rightarrow> u8 list \<times> 'd" where
  "rtl_read_mac io p d [] = ([], d)"
| "rtl_read_mac io p d (i # is) = (case p_inb io (p + (RTL_IDR0 + of_nat i)) d of (b, d1) \<Rightarrow>
     case rtl_read_mac io p d1 is of (bs, d2) \<Rightarrow> (b # bs, d2))"

definition rtl8139_init :: "'d ports \<Rightarrow> pci_table \<Rightarrow> u64 \<Rightarrow> 'h \<Rightarrow> ('h, 'd, 'b) irq_state_scheme \<Rightarrow> ('d, 'a) net_state_scheme \<Rightarrow>
    (bool \<times> ('h, 'd, 'b) irq_state_scheme \<times> ('d, 'a) net_state_scheme) option" where
  \<comment> \<open>\<open>nd\<close> is the address of \<^verbatim>\<open>rtl.netdev\<close> and \<open>h\<close> the handler \<^verbatim>\<open>rtl8139_irq\<close>\<close>
  "rtl8139_init io pt nd h ir st =
     (case pci_find_device pt RTL_VENDOR RTL_DEVICE of
        None \<Rightarrow> Some (False, ir, st)
      | Some k \<Rightarrow> do {
          let pdev = pci_devices pt ! k;
          let d = pci_enable_io_space io (pci_enable_bus_master io (nic st) pdev) pdev;
          let st = st\<lparr>nic := d, rtl_io_base := ucast (bar pdev ! 0 AND NOT 0x3)\<rparr>;
          (p, st) \<leftarrow> kzalloc st RTL_RX_BUF_SIZE;
          let st = st\<lparr>rtl_rx_buf := p\<rparr>;
          if p = 0 then Some (False, ir, st)
          else do {
            (ok, st) \<leftarrow> rtl_alloc_tx st [0..<RTL_TX_DESCS];
            if \<not> ok then Some (False, ir, st)
            else do {
              let b = rtl_io_base st;
              let d = p_outb io (b + RTL_CR) RTL_CR_RST (nic st);
              let d = rtl_reset_wait io (b + RTL_CR) d 100000;
              let d = p_outb io (b + RTL_9346CR) 0xC0 d;
              let (mac, d) = rtl_read_mac io b d [0..<ETH_ALEN];
              let d = p_outl io (b + RTL_RBSTART) (ucast (rtl_rx_buf st AND 0xFFFFFFFF)) d;
              let d = p_outl io (b + RTL_RCR) 0x0000F40F d;
              let d = p_outw io (b + RTL_IMR) (RTL_ISR_ROK OR RTL_ISR_TOK OR RTL_ISR_TER OR RTL_ISR_RER) d;
              let d = p_outb io (b + RTL_9346CR) 0x00 d;
              let d = p_outb io (b + RTL_CR) (RTL_CR_RE OR RTL_CR_TE) d;
              let ir = irq_register io (ir\<lparr>irq_dev := d\<rparr>) (irq_line pdev) (Some h);
              let st = st\<lparr>nic := irq_dev ir, rtl_rx_cur := 0, rtl_tx_cur := 0,
                          netdevs := (netdevs st)(nd := \<lparr>nd_name = ''eth0'', nd_mac = mac, nd_up = True, nd_send = send_rtl8139\<rparr>)\<rparr>;
              Some (True, ir, snd (netdev_register st nd))
            }
          }
        })"

end
