(* ===== verification/NetCorrect.thy ===== *)
theory NetCorrect
  imports NetChecksum
begin

text \<open>
  What the network stack does on the kernel heap: the frame a transmission hands to the card, the
  echo reply, the ARP cache, and the faults of the RTL8139 driver.
\<close>

section \<open>Writing byte lists\<close>

definition disjoint_bytes :: "u64 \<Rightarrow> nat \<Rightarrow> u64 \<Rightarrow> nat \<Rightarrow> bool" where
  "disjoint_bytes p n q k \<longleftrightarrow> (\<forall>i < n. \<forall>j < k. p + of_nat i \<noteq> q + of_nat j)"

lemma put_bytes_at:
  "length bs \<le> 18446744073709551616 \<Longrightarrow> i < length bs \<Longrightarrow> put_bytes m a bs (a + of_nat i) = bs ! i"
  by (simp add: put_bytes_eq unat_of_nat_u64)

lemma put_bytes_other:
  assumes "length bs \<le> 18446744073709551616" "\<forall>i < length bs. x \<noteq> a + of_nat i"
  shows "put_bytes m a bs x = m x"
proof -
  have "\<not> unat (x - a) < length bs"
  proof
    assume "unat (x - a) < length bs"
    then have "x \<noteq> a + of_nat (unat (x - a))" using assms(2) by blast
    then show False by simp
  qed
  then show ?thesis using assms(1) by (simp add: put_bytes_eq)
qed

lemma get_put_same: "length bs \<le> 18446744073709551616 \<Longrightarrow> get_bytes (put_bytes m a bs) a (length bs) = bs"
  by (rule nth_equalityI) (simp_all add: put_bytes_at)

lemma get_put_disjoint:
  "length bs \<le> 18446744073709551616 \<Longrightarrow> disjoint_bytes p n a (length bs) \<Longrightarrow> get_bytes (put_bytes m a bs) p n = get_bytes m p n"
  by (rule nth_equalityI) (simp_all add: put_bytes_other disjoint_bytes_def)

lemma store16_put: "store16 m a v = put_bytes m a (le16 v)"
  by (simp add: store16_def le16_def)

lemma memset_put: "n \<le> 18446744073709551616 \<Longrightarrow> memset m a 0 n = put_bytes m a (replicate n 0)"
  by (simp add: memset_fill fun_eq_iff put_bytes_eq fill_def)

lemma memcpy_put:
  assumes "n < 18446744073709551616" "disjoint_bytes s n d n"
  shows "memcpy m d s n = put_bytes m d (get_bytes m s n)"
proof -
  have "s + of_nat i \<noteq> d + of_nat j" if "j < i" "i < n" for i j
    using assms(2) that unfolding disjoint_bytes_def by (meson order.strict_trans)
  then have "memcpy m d s n = copied m d s n" using assms(1) by (intro memcpy_copied) simp_all
  then show ?thesis using assms(1) by (simp add: fun_eq_iff copied_def put_bytes_eq)
qed

section \<open>Buffers on the heap\<close>

definition in_block :: "(u64 \<times> nat) set \<Rightarrow> u64 \<Rightarrow> nat \<Rightarrow> bool" where
  \<comment> \<open>the \<open>n\<close> bytes from \<open>p\<close> on lie in a live block\<close>
  "in_block L p n \<longleftrightarrow> (\<exists>(q, k) \<in> L. \<exists>off. p = q + of_nat off \<and> off + n \<le> k)"

definition buf_in :: "(u64 \<times> nat) set \<Rightarrow> buf \<Rightarrow> nat \<Rightarrow> bool" where
  "buf_in L b n = (case b of Local bs \<Rightarrow> n \<le> length bs | At p \<Rightarrow> in_block L p n)"

definition buf_val :: "memory \<Rightarrow> buf \<Rightarrow> nat \<Rightarrow> u8 list" where
  "buf_val m b n = (case b of Local bs \<Rightarrow> take n bs | At p \<Rightarrow> get_bytes m p n)"

lemma length_buf_val: "buf_in L b n \<Longrightarrow> length (buf_val m b n) = n"
  by (cases b) (simp_all add: buf_in_def buf_val_def)

lemma in_block_disjoint:
  assumes "heap_ok st (insert (f, m) L)" "\<And>b. b \<in> L \<Longrightarrow> apart (f, m) b" "in_block L p n" "off + k \<le> m"
  shows "disjoint_bytes p n (f + of_nat off) k"
proof -
  obtain q l e where q: "(q, l) \<in> L" "p = q + of_nat e" "e + n \<le> l" using assms(3) by (auto simp: in_block_def)
  have "p + of_nat i \<noteq> f + of_nat off + of_nat j" if "i < n" "j < k" for i j
  proof -
    have u: "unat (f + of_nat (off + j)) = unat f + (off + j)" "unat (q + of_nat (e + i)) = unat q + (e + i)"
      using heap_ok_byte(1) [OF assms(1), of f m "off + j"] heap_ok_byte(1) [OF assms(1), of q l "e + i"] that assms(4) q by simp_all
    have "f + of_nat (off + j) \<noteq> q + of_nat (e + i)"
      by (rule apart_bytes [OF assms(2) [OF q(1)] _ _ u]) (use that assms(4) q(3) in simp_all)
    then show ?thesis by (simp add: q(2) add_ac)
  qed
  then show ?thesis by (simp add: disjoint_bytes_def)
qed

lemma in_block_keeps:
  assumes "keeps st st' L" "in_block L p n"
  shows "get_bytes (vmem st') p n = get_bytes (vmem st) p n"
proof -
  obtain q k off where q: "(q, k) \<in> L" "p = q + of_nat off" "off + n \<le> k" using assms(2) by (auto simp: in_block_def)
  have "vmem st' (p + of_nat i) = vmem st (p + of_nat i)" if "i < n" for i
    using assms(1) q that unfolding keeps_def by (auto simp: add.assoc dest!: bspec spec [of _ "off + i"])
  then show ?thesis by (simp add: get_bytes_def)
qed

lemma copy_in_put:
  assumes "heap_ok st (insert (f, m) L)" "\<And>b. b \<in> L \<Longrightarrow> apart (f, m) b" "buf_in L b n" "off + n \<le> m" "n < 18446744073709551616"
  shows "copy_in v (f + of_nat off) b n = put_bytes v (f + of_nat off) (buf_val v b n)"
proof (cases b)
  case (At p)
  then have "disjoint_bytes p n (f + of_nat off) n" using in_block_disjoint [OF assms(1,2) _ assms(4)] assms(3) by (simp add: buf_in_def)
  then show ?thesis using At memcpy_put [OF assms(5)] by (simp add: copy_in_def buf_val_def)
qed (simp add: copy_in_def buf_val_def)

lemma buf_val_put:
  assumes "heap_ok st (insert (f, m) L)" "\<And>b. b \<in> L \<Longrightarrow> apart (f, m) b" "buf_in L b n" "off + length bs \<le> m" "length bs < 18446744073709551616"
  shows "buf_val (put_bytes v (f + of_nat off) bs) b n = buf_val v b n"
  using in_block_disjoint [OF assms(1,2), of _ n off "length bs"] assms(3-5)
  by (cases b) (simp_all add: buf_val_def buf_in_def get_put_disjoint)

section \<open>Transmission\<close>

definition eth_frame :: "u8 list \<Rightarrow> u8 list \<Rightarrow> u16 \<Rightarrow> u8 list \<Rightarrow> u8 list" where
  \<comment> \<open>an Ethernet frame without its check sequence, padded to 60 bytes\<close>
  "eth_frame dst src ethertype payload =
     (let f = dst @ src @ [ucast (drop_bit 8 ethertype), ucast ethertype] @ payload in f @ replicate (60 - length f) 0)"

lemma le16_htons: "le16 (htons v) = [ucast (drop_bit 8 v), ucast v]"
  by (auto simp: le16_def htons_def bit_simps dest: bit_imp_le_length intro!: bit_word_eqI)

lemma heap_ok_net [simp]:
  "heap_ok (st\<lparr>nic := d\<rparr>) L = heap_ok st L" "heap_ok (st\<lparr>rtl_tx_cur := c\<rparr>) L = heap_ok st L"
  "heap_ok (st\<lparr>g_ip_id := i\<rparr>) L = heap_ok st L" "heap_ok (st\<lparr>arp_entries := e\<rparr>) L = heap_ok st L"
  by (rule heap_ok_cong; simp)+

lemma net_fields_more:
  assumes "heap_state.more s = heap_state.more t"
  shows "nic s = nic t" "netdevs s = netdevs t" "rtl_io_base s = rtl_io_base t" "rtl_tx_buf s = rtl_tx_buf t" "rtl_tx_cur s = rtl_tx_cur t"
    "arp_entries s = arp_entries t" "my_ip s = my_ip t" "g_my_ip s = g_my_ip t" "g_ip_id s = g_ip_id t"
  using assms by (cases s, cases t, simp add: heap_state.defs)+

lemma eth_memory:
  fixes plen :: u64
  assumes "heap_ok st (insert (f, m) L)" "\<And>b. b \<in> L \<Longrightarrow> apart (f, m) b"
    "buf_in L dst 6" "buf_in L payload (unat plen)" "length mac = 6" "unat plen \<le> 1500" "max 60 (14 + unat plen) \<le> m"
  shows "(let v1 = copy_in v f dst ETH_ALEN; v2 = put_bytes v1 (f + 6) mac; v3 = store16 v2 (f + 12) (htons ty);
       v4 = copy_in v3 (f + ETH_HEADER_LEN) payload (unat plen);
       tot = ETH_HEADER_LEN + plen
     in if tot < 60 then memset v4 (f + tot) 0 (unat (60 - tot)) else v4) =
    put_bytes v f (eth_frame (buf_val v dst 6) mac ty (buf_val v payload (unat plen)))"
proof -
  let ?n = "unat plen" and ?d = "buf_val v dst 6" and ?p = "buf_val v payload (unat plen)"
  have l: "length ?d = 6" "length ?p = ?n" using assms(3,4) by (simp_all add: length_buf_val)
  have c1: "copy_in v f dst 6 = put_bytes v f ?d"
    using copy_in_put [OF assms(1,2,3), of 0 v] assms(7) by simp
  define h where "h = ?d @ mac @ le16 (htons ty)"
  have lh: "length h = 14" using l assms(5) by (simp add: h_def le16_def)
  have s3: "store16 (put_bytes (put_bytes v f ?d) (f + 6) mac) (f + 12) (htons ty) = put_bytes v f h"
    by (simp add: store16_put h_def put_bytes_append l assms(5) add.assoc)
  have c4: "copy_in (put_bytes v f h) (f + ETH_HEADER_LEN) payload ?n = put_bytes v f (h @ ?p)"
  proof -
    have "buf_val (put_bytes v f h) payload ?n = ?p" using buf_val_put [OF assms(1,2,4), of 0 h v] lh assms(7) by simp
    then show ?thesis using copy_in_put [OF assms(1,2,4), of 14 "put_bytes v f h"] assms(6,7) lh by (simp add: put_bytes_append ETH_HEADER_LEN_def)
  qed
  have ut: "unat (ETH_HEADER_LEN + plen) = 14 + ?n" using assms(6) by (simp add: ETH_HEADER_LEN_def unat_word_ariths)
  have ft: "f + (ETH_HEADER_LEN + plen) = f + of_nat (length (h @ ?p))" by (simp add: ETH_HEADER_LEN_def lh l)
  have e: "eth_frame ?d mac ty ?p = (h @ ?p) @ replicate (60 - (14 + ?n)) 0"
    using lh l by (simp add: eth_frame_def h_def le16_htons)
  show ?thesis
  proof (cases "14 + ?n < 60")
    case True
    then have lt: "ETH_HEADER_LEN + plen < 60" by (simp add: word_less_nat_alt ut)
    then have u: "unat (60 - (ETH_HEADER_LEN + plen)) = 60 - (14 + ?n)" by (simp add: unat_sub ut)
    have "memset (put_bytes v f (h @ ?p)) (f + of_nat (length (h @ ?p))) 0 (60 - (14 + ?n)) = put_bytes v f (eth_frame ?d mac ty ?p)"
      unfolding e put_bytes_append [of v f "h @ ?p"] by (rule memset_put) simp
    then show ?thesis using lt unfolding Let_def ETH_ALEN_def c1 s3 c4 u ft by simp
  next
    case False
    then have "\<not> ETH_HEADER_LEN + plen < 60" by (simp add: word_less_nat_alt ut)
    then show ?thesis using False unfolding Let_def ETH_ALEN_def c1 s3 c4 e by simp
  qed
qed

lemma length_eth_frame: "length d = 6 \<Longrightarrow> length s = 6 \<Longrightarrow> length (eth_frame d s ty p) = max 60 (14 + length p)"
  by (simp add: eth_frame_def Let_def max_def)

lemma rtl_tx_wait_ready: "bit (fst (p_inl io p d)) 13 \<Longrightarrow> rtl_tx_wait io p d n = (of_nat n, snd (p_inl io p d))"
  by (cases n) (auto split: prod.splits)

lemma keeps_put:
  assumes "heap_ok st L" "(p, m) \<in> L" "length bs \<le> m"
  shows "keeps (st\<lparr>vmem := v\<rparr>) (st'\<lparr>vmem := put_bytes v p bs\<rparr>) (L - {(p, m)})"
proof (rule keeps_write)
  show "heap_ok (st\<lparr>vmem := v\<rparr>) (insert (p, m) (L - {(p, m)}))" using assms(1,2) by (simp add: insert_absorb)
  show "apart (p, m) b" if "b \<in> L - {(p, m)}" for b using heap_ok_apart [OF assms(1,2)] that by blast
  have "length bs \<le> 18446744073709551616" using heap_ok_span(3) [OF assms(1,2)] assms(3) by simp
  then show "\<exists>i < length bs. x = p + of_nat i" if "vmem (st'\<lparr>vmem := put_bytes v p bs\<rparr>) x \<noteq> vmem (st\<lparr>vmem := v\<rparr>) x" for x
    using that put_bytes_other [of bs x p v] by auto
qed (fact assms(3))

lemma keeps_mem: "vmem s = vmem t \<Longrightarrow> vmem s' = vmem t' \<Longrightarrow> keeps s s' L = keeps t t' L"
  by (simp add: keeps_def)

lemma rtl8139_send_ready:
  assumes "unat len \<le> 2048" "desc = unat (rtl_tx_cur st) mod 4" "q = rtl_tx_buf st ! desc"
    "bit (fst (p_inl io (rtl_io_base st + (RTL_TSD0 + of_nat (desc * 4))) (nic st))) 13"
    "60 \<le> unat len" "disjoint_bytes data (unat len) q (unat len)"
  shows "rtl8139_send io st data len = (0, st\<lparr>vmem := put_bytes (vmem st) q (get_bytes (vmem st) data (unat len)),
      nic := p_outl io (rtl_io_base st + (RTL_TSD0 + of_nat (desc * 4))) (ucast len)
        (p_outl io (rtl_io_base st + (RTL_TSAD0 + of_nat (desc * 4))) (ucast q)
           (snd (p_inl io (rtl_io_base st + (RTL_TSD0 + of_nat (desc * 4))) (nic st)))),
      rtl_tx_cur := rtl_tx_cur st + 1\<rparr>)"
proof -
  have "\<not> RTL_TX_BUF_SIZE < len" "\<not> len < 60" using assms(1,5) by (simp_all add: RTL_TX_BUF_SIZE_def word_less_nat_alt)
  moreover have "len AND 0x1FFF = len"
  proof -
    have "len AND 0x1FFF = take_bit 13 len" by (simp add: take_bit_eq_mask mask_eq_exp_minus_1)
    moreover have "unat (take_bit 13 len) = unat len" using assms(1) by (simp only: unsigned_take_bit_eq) (simp add: take_bit_eq_mod)
    ultimately show ?thesis by (simp add: u64_eq_iff_unat)
  qed
  moreover have "ucast (q AND 0xFFFFFFFF) = (ucast q :: u32)"
  proof -
    have "q AND 0xFFFFFFFF = take_bit 32 q" by (simp add: take_bit_eq_mask mask_eq_exp_minus_1)
    then show ?thesis by (auto intro!: bit_word_eqI simp: bit_simps)
  qed
  moreover have "memcpy (vmem st) q data (unat len) = put_bytes (vmem st) q (get_bytes (vmem st) data (unat len))"
    using assms(1,6) by (intro memcpy_put) simp_all
  ultimately show ?thesis using assms(2-4)
    by (simp add: rtl8139_send_def RTL_TX_DESCS_def rtl_tx_wait_ready Let_def)
qed

definition nic_ready :: "'d ports \<Rightarrow> ('d, 'a) net_state_scheme \<Rightarrow> bool" where
  \<comment> \<open>the current transmit descriptor reports its last frame sent\<close>
  "nic_ready io st = bit (fst (p_inl io (rtl_io_base st + (RTL_TSD0 + of_nat (unat (rtl_tx_cur st) mod 4 * 4))) (nic st))) 13"

definition nic_start :: "'d ports \<Rightarrow> ('d, 'a) net_state_scheme \<Rightarrow> u64 \<Rightarrow> nat \<Rightarrow> 'd" where
  \<comment> \<open>the descriptor polled once, then its address register and its length written\<close>
  "nic_start io st q n = (let k = of_nat (unat (rtl_tx_cur st) mod 4 * 4) in
     p_outl io (rtl_io_base st + (RTL_TSD0 + k)) (of_nat n) (p_outl io (rtl_io_base st + (RTL_TSAD0 + k)) (ucast q)
       (snd (p_inl io (rtl_io_base st + (RTL_TSD0 + k)) (nic st)))))"

lemma eth_tx_sent:
  fixes st :: "('d, 'a) net_state_scheme"
  assumes "heap_ok st L" "dev \<noteq> 0" "nd_send (netdevs st dev) = send_rtl8139" "length (nd_mac (netdevs st dev)) = 6"
    "buf_in L dst 6" "buf_in L payload (unat plen)" "unat plen \<le> 1500"
    "q = rtl_tx_buf st ! (unat (rtl_tx_cur st) mod 4)" "(q, k) \<in> L" "2048 \<le> k" "nic_ready io st"
    "F = eth_frame (buf_val (vmem st) dst 6) (nd_mac (netdevs st dev)) ty (buf_val (vmem st) payload (unat plen))"
  shows "\<exists>r st'. eth_tx io st dev dst ty payload plen = Some (r, st') \<and> heap_ok st' L \<and>
    (r = - 1 \<and> keeps st st' L \<and> heap_state.more st' = heap_state.more st \<or>
     r = 0 \<and> keeps st st' (L - {(q, k)}) \<and> get_bytes (vmem st') q (length F) = F \<and>
     heap_state.more st' = heap_state.more (st\<lparr>nic := nic_start io st q (length F), rtl_tx_cur := rtl_tx_cur st + 1\<rparr>))"
proof -
  let ?tot = "ETH_HEADER_LEN + plen" and ?n = "max 60 (14 + unat plen)"
  let ?sz = "if ?tot < 64 then 64 else ?tot"
  have ut: "unat ?tot = 14 + unat plen" using assms(7) by (simp add: ETH_HEADER_LEN_def unat_word_ariths)
  have sz: "unat ?sz \<le> alloc_limit" "?n \<le> unat ?sz" using assms(7) ut by (auto simp: word_less_nat_alt)
  have nn: "\<not> (dev = 0 \<or> nd_send (netdevs st dev) = send_null)" using assms(2,3) by simp
  from assms(1) sz(1) show ?thesis
  proof (cases rule: kmalloc_ok)
    case (null st')
    then show ?thesis using nn kmalloc_more [OF null(1)] by (simp add: eth_tx_def)
  next
    case (block f m st1)
    note mo = kmalloc_more [OF block(1)] and fm = net_fields_more [OF kmalloc_more [OF block(1)]]
    have bv: "buf_val (vmem st1) b n = buf_val (vmem st) b n" if "buf_in L b n" for b n
      using in_block_keeps [OF block(7)] that by (cases b) (simp_all add: buf_val_def buf_in_def)
    let ?mac = "nd_mac (netdevs st dev)"
    have mem: "(let v1 = copy_in (vmem st1) f dst ETH_ALEN; v2 = put_bytes v1 (f + 6) ?mac; v3 = store16 v2 (f + 12) (htons ty);
         v4 = copy_in v3 (f + ETH_HEADER_LEN) payload (unat plen)
       in if ?tot < 60 then memset v4 (f + ?tot) 0 (unat (60 - ?tot)) else v4) = put_bytes (vmem st1) f F"
      using eth_memory [OF block(4,5) assms(5,6,4,7), of "vmem st1" ty] sz(2) block(3) bv [OF assms(5)] bv [OF assms(6)] assms(12)
      by (simp add: Let_def)
    have lF: "length F = ?n" using assms(4-6,12) by (simp add: length_eth_frame length_buf_val)
    have u60: "unat (if ?tot < 60 then 60 else ?tot) = ?n" by (auto simp: word_less_nat_alt ut)
    define st2 where "st2 = st1\<lparr>vmem := put_bytes (vmem st1) f F\<rparr>"
    have dj: "disjoint_bytes f ?n q ?n"
    proof -
      have "in_block L q ?n" unfolding in_block_def using assms(7,9,10) by (intro bexI [of _ "(q, k)"]) (auto intro!: exI [of _ 0])
      from in_block_disjoint [OF block(4,5) this, of 0 ?n] sz(2) block(3)
      show ?thesis by (simp add: disjoint_bytes_def) metis
    qed
    have gF: "get_bytes (vmem st2) f ?n = F" using get_put_same [of F "vmem st1" f] lF assms(7) by (simp add: st2_def)
    define st3 where "st3 = st2\<lparr>vmem := put_bytes (vmem st2) q F, nic := nic_start io st q (length F), rtl_tx_cur := rtl_tx_cur st + 1\<rparr>"
    define ln where "ln = (if ?tot < 60 then 60 else ?tot)"
    have ln: "unat ln = ?n" using u60 by (simp add: ln_def)
    have f2: "rtl_tx_cur st2 = rtl_tx_cur st" "rtl_io_base st2 = rtl_io_base st" "rtl_tx_buf st2 = rtl_tx_buf st" "nic st2 = nic st"
      by (simp_all add: st2_def fm)
    have "ucast ln = (of_nat (length F) :: u32)" unfolding lF ln [symmetric] by simp
    moreover have "unat ln \<le> 2048" "60 \<le> unat ln" using assms(7) by (simp_all add: ln)
    ultimately have send: "rtl8139_send io st2 f ln = (0, st3)"
      using rtl8139_send_ready [of ln "unat (rtl_tx_cur st) mod 4" st2 q io f] assms(8,11) dj gF
      by (simp add: st3_def nic_start_def nic_ready_def Let_def f2 ln)
    have r: "eth_tx io st dev dst ty payload plen = Some (0, kfree st3 f)"
      using nn block(1,2) send mem by (cases "?tot < 60") (simp_all add: eth_tx_def Let_def fm st2_def ln_def)
    have nf: "(f, m) \<notin> L" using block(3,5) sz(2) fresh_notin [of f m L] by (auto simp: fresh_def)
    have "heap_ok st3 (insert (f, m) L)" using block(4) by (simp add: st3_def st2_def)
    then have ok: "heap_ok (kfree st3 f) L" using kfree_ok [of st3 "insert (f, m) L" f m] nf by simp
    have v3: "vmem (kfree st3 f) = put_bytes (vmem st2) q F" by (simp add: kfree_vmem st3_def)
    have "keeps st1 st2 L"
      using keeps_put [OF block(4), of f m F "vmem st1" st2] nf lF sz(2) block(3) by (simp add: st2_def keeps_def)
    then have k2: "keeps st st2 L" by (rule keeps_trans [OF block(7)])
    have "keeps st2 (kfree st3 f) (L - {(q, k)})"
      using keeps_put [OF ok assms(9), of F "vmem st2" "kfree st3 f"] lF assms(7,10) by (simp add: keeps_def v3)
    then have k3: "keeps st (kfree st3 f) (L - {(q, k)})" using keeps_mono [OF k2, of "L - {(q, k)}"] keeps_trans by blast
    have "get_bytes (vmem (kfree st3 f)) q (length F) = F" unfolding v3 using lF assms(7) by (intro get_put_same) simp
    moreover have "heap_state.more (kfree st3 f) = heap_state.more (st\<lparr>nic := nic_start io st q (length F), rtl_tx_cur := rtl_tx_cur st + 1\<rparr>)"
      using mo by (cases st, cases st1) (simp add: kfree_more st3_def st2_def heap_state.defs)
    ultimately show ?thesis using r ok k3 by blast
  qed
qed

text \<open>
  transmitting a frame.  On a well formed heap, with the card ready and its current buffer a live block
  of 2048 bytes, eth_tx returns.  It answers -1 with nothing changed when memory is short; otherwise it
  answers 0, the buffer holds exactly the Ethernet frame (both addresses, the type in network order, the
  payload, zeros up to 60 bytes), the card is given its address and length, the temporary copy is freed and no
  other live block is touched.
\<close>

theorem eth_tx_transmits:
  fixes st :: "('d, 'a) net_state_scheme"
  assumes "heap_ok st L" "dev \<noteq> 0" "nd_send (netdevs st dev) = send_rtl8139" "length (nd_mac (netdevs st dev)) = 6"
    "buf_in L dst 6" "buf_in L payload (unat plen)" "unat plen \<le> 1500"
    "q = rtl_tx_buf st ! (unat (rtl_tx_cur st) mod 4)" "(q, k) \<in> L" "2048 \<le> k" "nic_ready io st"
    "F = eth_frame (buf_val (vmem st) dst 6) (nd_mac (netdevs st dev)) ty (buf_val (vmem st) payload (unat plen))"
  shows "\<exists>r st'. eth_tx io st dev dst ty payload plen = Some (r, st') \<and> heap_ok st' L \<and>
    (r = - 1 \<and> keeps st st' L \<and> nic st' = nic st \<or>
     r = 0 \<and> keeps st st' (L - {(q, k)}) \<and> get_bytes (vmem st') q (length F) = F \<and>
     nic st' = nic_start io st q (length F) \<and> rtl_tx_cur st' = rtl_tx_cur st + 1)"
proof -
  obtain r st' where r: "eth_tx io st dev dst ty payload plen = Some (r, st')" "heap_ok st' L"
    "r = - 1 \<and> keeps st st' L \<and> heap_state.more st' = heap_state.more st \<or>
     r = 0 \<and> keeps st st' (L - {(q, k)}) \<and> get_bytes (vmem st') q (length F) = F \<and>
     heap_state.more st' = heap_state.more (st\<lparr>nic := nic_start io st q (length F), rtl_tx_cur := rtl_tx_cur st + 1\<rparr>)"
    using eth_tx_sent [OF assms] by blast
  show ?thesis
    using r(1,2) r(3) net_fields_more [of st' st]
      net_fields_more [of st' "st\<lparr>nic := nic_start io st q (length F), rtl_tx_cur := rtl_tx_cur st + 1\<rparr>"]
    by (intro exI [of _ r] exI [of _ st']) auto
qed

lemma ipv4_build_inside:
  assumes "unat plen \<le> 65515" "ipv4_build v pkt ident src dst proto tot payload plen = Some m'"
    "\<forall>i < 20 + unat plen. x \<noteq> pkt + of_nat i"
  shows "m' x = v x"
proof -
  have n: "x \<noteq> pkt + of_nat i" if "i < 20 + unat plen" for i using assms(3) that by blast
  have h: "x \<noteq> pkt" "x \<noteq> pkt + 1" "x \<noteq> pkt + 2" "x \<noteq> pkt + 3" "x \<noteq> pkt + 4" "x \<noteq> pkt + 5" "x \<noteq> pkt + 6" "x \<noteq> pkt + 7"
    "x \<noteq> pkt + 8" "x \<noteq> pkt + 9" "x \<noteq> pkt + 10" "x \<noteq> pkt + 11" "x \<noteq> pkt + 12" "x \<noteq> pkt + 13" "x \<noteq> pkt + 14" "x \<noteq> pkt + 15"
    "x \<noteq> pkt + 16" "x \<noteq> pkt + 17" "x \<noteq> pkt + 18" "x \<noteq> pkt + 19"
    using n [of 0] n [of 1] n [of 2] n [of 3] n [of 4] n [of 5] n [of 6] n [of 7] n [of 8] n [of 9] n [of 10] n [of 11] n [of 12]
      n [of 13] n [of 14] n [of 15] n [of 16] n [of 17] n [of 18] n [of 19] by simp_all
  have "unat plen \<le> unat (x - (pkt + SIZEOF_IPV4))"
  proof (rule ccontr)
    assume "\<not> unat plen \<le> unat (x - (pkt + SIZEOF_IPV4))"
    then have "x \<noteq> pkt + of_nat (20 + unat (x - (pkt + SIZEOF_IPV4)))" by (intro n) simp
    then show False by (simp add: SIZEOF_IPV4_def)
  qed
  then have "copy_in m2 (pkt + SIZEOF_IPV4) payload (unat plen) x = m2 x" for m2 using assms(1) by (intro copy_in_outside) simp_all
  then show ?thesis using assms(2) h h [unfolded add.commute [of pkt]]
    by (auto simp: ipv4_build_def bind_eq_Some_conv store32_def store16_def Let_def)
qed


end
