(* ===== verification/NetRx.thy ===== *)
theory NetRx
  imports NetCorrect
begin

text \<open>
  Reception: the ARP cache as a bounded map, the echo reply, and what the RTL8139 driver does when its
  polling times out and when a packet has arrived.
\<close>

section \<open>The ARP cache\<close>

definition arp_lookup :: "arp_entry list \<Rightarrow> u32 \<Rightarrow> u8 list option" where
  "arp_lookup c ip = map_option (\<lambda>i. ae_mac (c ! i)) (arp_find c ip)"

definition arp_room :: "arp_entry list \<Rightarrow> nat" where
  "arp_room c = length (filter (\<lambda>e. \<not> ae_valid e) c)"

locale bounded_map =
  fixes lookup :: "'s \<Rightarrow> 'k \<Rightarrow> 'v option" and update :: "'s \<Rightarrow> 'k \<Rightarrow> 'v \<Rightarrow> 's" and room :: "'s \<Rightarrow> nat"
  assumes lookup_same: "lookup s k \<noteq> None \<or> 0 < room s \<Longrightarrow> lookup (update s k v) k = Some v"
    and lookup_other: "j \<noteq> k \<Longrightarrow> lookup (update s k v) j = lookup s j"
    and lookup_full: "lookup s k = None \<Longrightarrow> room s = 0 \<Longrightarrow> update s k v = s"
    and room_update: "room s \<le> Suc (room (update s k v))"
begin

lemma lookup_sequence:
  "length ps \<le> room s \<Longrightarrow> lookup (foldl (\<lambda>s (k, v). update s k v) s ps) k = (case map_of (rev ps) k of Some v \<Rightarrow> Some v | None \<Rightarrow> lookup s k)"
proof (induction ps arbitrary: s)
  case (Cons p ps)
  obtain j v where p: "p = (j, v)" by (cases p)
  have "length ps \<le> room (update s j v)" using Cons.prems room_update [of s j v] by simp
  moreover have "lookup (update s j v) k = (if k = j then Some v else lookup s k)"
    using Cons.prems lookup_same [of s j v] lookup_other [of k j s v] by simp
  ultimately show ?case using Cons.IH [of "update s j v"] by (simp add: p map_add_def map_of_append split: option.splits)
qed simp

lemma lookup_full_sequence: "room s = 0 \<Longrightarrow> (\<forall>(k, v) \<in> set ps. lookup s k = None) \<Longrightarrow> foldl (\<lambda>s (k, v). update s k v) s ps = s"
  by (induction ps) (auto simp: lookup_full)

end

lemma arp_lookup_None: "arp_lookup c ip = None \<longleftrightarrow> arp_find c ip = None"
  by (simp add: arp_lookup_def)

lemma arp_find_Some: "arp_find c ip = Some i \<Longrightarrow> i < length c \<and> ae_valid (c ! i) \<and> ae_ip (c ! i) = ip"
  by (induction c arbitrary: i) (auto split: if_splits)

lemma arp_free_Some: "arp_free c = Some i \<Longrightarrow> i < length c \<and> \<not> ae_valid (c ! i)"
  by (induction c arbitrary: i) (auto split: if_splits)

lemma arp_free_None: "arp_free c = None \<longleftrightarrow> arp_room c = 0"
  by (induction c) (auto simp: arp_room_def)

lemma arp_lookup_mac:
  "arp_find c ip = Some i \<Longrightarrow> arp_lookup (c[i := (c ! i)\<lparr>ae_mac := mac\<rparr>]) j = (if j = ip then Some mac else arp_lookup c j)"
proof (induction c arbitrary: i)
  case (Cons e c)
  then show ?case by (cases i) (auto simp: arp_lookup_def option.map_comp o_def split: if_splits)
qed simp

lemma arp_lookup_new:
  "arp_free c = Some i \<Longrightarrow> arp_find c ip = None \<Longrightarrow>
   arp_lookup (c[i := \<lparr>ae_ip = ip, ae_mac = mac, ae_valid = True\<rparr>]) j = (if j = ip then Some mac else arp_lookup c j)"
proof (induction c arbitrary: i)
  case (Cons e c)
  then show ?case by (cases i) (auto simp: arp_lookup_def option.map_comp o_def split: if_splits)
qed simp

lemma arp_room_update: "i < length c \<Longrightarrow> arp_room c \<le> Suc (arp_room (c[i := e]))"
proof (induction c arbitrary: i)
  case (Cons x c)
  then show ?case by (cases i) (auto simp: arp_room_def)
qed simp

interpretation arp: bounded_map arp_lookup arp_cache_update arp_room
proof
  fix c :: "arp_entry list" and ip j :: u32 and mac :: "u8 list"
  have u: "arp_lookup (arp_cache_update c ip mac) k = (if k = ip then Some mac else arp_lookup c k)"
    if "arp_lookup c ip \<noteq> None \<or> 0 < arp_room c" for k
    using that arp_free_None [of c] by (auto simp: arp_cache_update_def arp_lookup_mac arp_lookup_new arp_lookup_None split: option.splits)
  then show "arp_lookup (arp_cache_update c ip mac) ip = Some mac" if "arp_lookup c ip \<noteq> None \<or> 0 < arp_room c" using that by simp
  show full: "arp_cache_update c ip mac = c" if "arp_lookup c ip = None" "arp_room c = 0"
    using that arp_free_None [of c] by (simp add: arp_cache_update_def arp_lookup_None)
  show "arp_lookup (arp_cache_update c ip mac) j = arp_lookup c j" if "j \<noteq> ip"
    using u [of j] full that by (cases "arp_lookup c ip \<noteq> None \<or> 0 < arp_room c") auto
  show "arp_room c \<le> Suc (arp_room (arp_cache_update c ip mac))"
    by (auto simp: arp_cache_update_def arp_room_update dest: arp_find_Some arp_free_Some split: option.splits)
qed

text \<open>
  the ARP cache remembers what it is told while it has room, and only that.  From the empty cache of
  arp_init, after any sequence of at most 32 announcements every address resolves to the most recent MAC
  announced for it, all others to none; a full cache ignores addresses it does not know.
\<close>

theorem arp_cache_remembers:
  fixes st :: "('d, 'a) net_state_scheme"
  shows "(length ps \<le> 32 \<longrightarrow>
      arp_lookup (foldl (\<lambda>c (ip, mac). arp_cache_update c ip mac) (arp_entries (arp_init st own)) ps) ip = map_of (rev ps) ip) \<and>
    (arp_room c = 0 \<and> arp_lookup c ip = None \<longrightarrow> arp_cache_update c ip mac = c)"
proof -
  have "arp_find (replicate k \<lparr>ae_ip = 0, ae_mac = m, ae_valid = False\<rparr>) j = None" for k m j by (induction k) simp_all
  moreover have "arp_room (replicate k \<lparr>ae_ip = 0, ae_mac = m, ae_valid = False\<rparr>) = k" for k m by (simp add: arp_room_def)
  ultimately show ?thesis
    using arp.lookup_sequence [of ps "arp_entries (arp_init st own)" ip] arp.lookup_full [of c ip mac]
    by (simp add: arp_init_def ARP_CACHE_SIZE_def arp_lookup_None split: option.splits)
qed

section \<open>The driver\<close>

lemma rtl_tx_wait_never:
  "\<forall>d. \<not> bit (fst (p_inl io p d)) 13 \<Longrightarrow> fst (rtl_tx_wait io p d n) = - 1"
  by (induction n arbitrary: d) (simp_all add: case_prod_beta)

text \<open>
  the time-out of rtl8139_send never reports.  The counter wraps past zero when the loop gives up, so on
  a card that never finishes a transmission the function still overwrites the buffer in use and
  answers 0.
\<close>

theorem rtl8139_send_timeout_lost:
  fixes st :: "('d, 'a) net_state_scheme"
  assumes "\<forall>p d. \<not> bit (fst (p_inl io p d)) 13" "unat len \<le> 2048"
  shows "\<exists>st'. rtl8139_send io st data len = (0, st') \<and>
    vmem st' = memcpy (vmem st) (rtl_tx_buf st ! (unat (rtl_tx_cur st) mod 4)) data (unat len)"
proof -
  let ?p = "rtl_io_base st + (RTL_TSD0 + of_nat (unat (rtl_tx_cur st) mod 4 * 4))"
  obtain t d where w: "rtl_tx_wait io ?p (nic st) 1000000 = (t, d)" by fastforce
  then have "t = - 1" using rtl_tx_wait_never [of io ?p "nic st" 1000000] assms(1) by simp
  moreover have "\<not> RTL_TX_BUF_SIZE < len" using assms(2) by (simp add: RTL_TX_BUF_SIZE_def word_less_nat_alt)
  ultimately show ?thesis using w by (simp add: rtl8139_send_def RTL_TX_DESCS_def Let_def)
qed

lemma rtl_advance_faults: "rtl_advance offset n = None"
  by (simp add: rtl_advance_def u16_mod_def RTL_RX_BUF_SIZE_def)

text \<open>
  the receive interrupt never gets past a packet.  The ring size 65536 is cast to 16 bits before the
  offset is reduced by it, so with a good packet in the ring the handler divides by zero,
  whatever the packet and whatever the protocol code does with it.
\<close>

theorem rtl8139_irq_faults:
  fixes st :: "('d, 'a) net_state_scheme"
  assumes "p_inw io (rtl_io_base st + RTL_ISR) (nic st) = (status, d)" "status AND RTL_ISR_ROK \<noteq> 0"
    "d1 = p_outw io (rtl_io_base st + RTL_ISR) status d"
    "fst (p_inb io (rtl_io_base st + RTL_CR) d1) AND 0x01 = 0"
    "load16 (vmem st) (rtl_rx_buf st + ucast (rtl_rx_cur st)) AND 1 \<noteq> 0"
  shows "rtl8139_irq io nd st = None"
proof -
  obtain cr d2 where c: "p_inb io (rtl_io_base st + RTL_CR) d1 = (cr, d2)" by fastforce
  show ?thesis using assms c
    by (simp add: rtl8139_irq_def rtl_rx_loop.simps [of io nd] rtl_advance_faults Let_def)
qed

section \<open>Echo replies\<close>

lemma get_bytes_nth_eq: "get_bytes m p n = get_bytes m' q n \<Longrightarrow> i < n \<Longrightarrow> m (p + of_nat i) = m' (q + of_nat i)"
  by (metis nth_get_bytes)


end
