(* ===== verification/NetDemo.thy ===== *)
theory NetDemo
  imports NetRx
begin

text \<open>
  A concrete card and network state on which the theorems about the network stack are instantiated.
\<close>

definition demo_nic :: "unit ports" where
  \<comment> \<open>every transmit descriptor is done, a packet has arrived and the ring is not empty\<close>
  "demo_nic = \<lparr>p_inb = (\<lambda>p d. (0, d)), p_outb = (\<lambda>p v d. d), p_inw = (\<lambda>p d. (1, d)), p_outw = (\<lambda>p v d. d),
     p_inl = (\<lambda>p d. (0x2000, d)), p_outl = (\<lambda>p v d. d)\<rparr>"

definition dead_nic :: "unit ports" where
  "dead_nic = demo_nic\<lparr>p_inl := (\<lambda>p d. (0, d))\<rparr>"

abbreviation demo_live :: u64 where "demo_live \<equiv> HEAP_VIRT_BASE + 0x4020"

definition net_demo :: "unit net_state" where
  \<comment> \<open>the live block of the demonstration heap is the card's buffer; it holds an echo request; 10.0.0.2 is resolved\<close>
  "net_demo = heap_state.extend (heap_demo\<lparr>vmem := (\<lambda>_. 0)(demo_live := 8, demo_live + 2 := 0xF7, demo_live + 3 := 0xFF)\<rparr>)
     (net_state.fields () (\<lambda>_. \<lparr>nd_name = ''eth0'', nd_mac = [2, 0, 0, 0, 0, 1], nd_up = True, nd_send = send_rtl8139\<rparr>)
        (replicate 8 0) 0 rx_eth [\<lparr>ae_ip = 0x0A000002, ae_mac = [2, 0, 0, 0, 0, 2], ae_valid = True\<rparr>] 0x0A000001 0x0A000001 1
        0xC000 demo_live (replicate 4 demo_live) 0 0)"

lemma net_demo_sel:
  "vmem net_demo = (\<lambda>_. 0)(demo_live := 8, demo_live + 2 := 0xF7, demo_live + 3 := 0xFF)"
  "netdevs net_demo d = \<lparr>nd_name = ''eth0'', nd_mac = [2, 0, 0, 0, 0, 1], nd_up = True, nd_send = send_rtl8139\<rparr>"
  "arp_entries net_demo = [\<lparr>ae_ip = 0x0A000002, ae_mac = [2, 0, 0, 0, 0, 2], ae_valid = True\<rparr>]"
  "rtl_tx_buf net_demo = replicate 4 demo_live" "rtl_tx_cur net_demo = 0" "rtl_rx_buf net_demo = demo_live" "rtl_rx_cur net_demo = 0"
  by (simp_all add: net_demo_def heap_state.defs net_state.defs)

lemma net_demo_ok: "heap_ok net_demo {(demo_live, 4064)}"
proof -
  have "heap_ok net_demo {(demo_live, 4064)} = heap_ok heap_demo {(demo_live, 4064)}"
    by (rule heap_ok_cong; simp add: net_demo_def heap_state.defs)
  then show ?thesis using heap_demo_ok by simp
qed

lemma net_demo_ready: "nic_ready demo_nic net_demo"
  by (simp add: nic_ready_def demo_nic_def bit_numeral_rec)

theorem eth_tx_transmits_witness:
  "\<exists>r st'. eth_tx demo_nic net_demo 0x7000 (Local eth_broadcast) 0x0806 (Local [1, 2]) 2 = Some (r, st') \<and>
     heap_ok st' {(demo_live, 4064)} \<and> (r = - 1 \<or> vmem st' (demo_live + 12) = 8)"
proof -
  define F where "F = eth_frame (buf_val (vmem net_demo) (Local eth_broadcast) 6) (nd_mac (netdevs net_demo 0x7000)) 0x0806
    (buf_val (vmem net_demo) (Local [1, 2]) (unat (2 :: u64)))"
  have F12: "length F = 60" "F ! 12 = 8" by (simp_all add: F_def eth_frame_def buf_val_def eth_broadcast_def net_demo_sel Let_def)
  have p: "(0x7000 :: u64) \<noteq> 0" "nd_send (netdevs net_demo 0x7000) = send_rtl8139" "length (nd_mac (netdevs net_demo 0x7000)) = 6"
    "buf_in {(demo_live, 4064)} (Local eth_broadcast) 6" "buf_in {(demo_live, 4064)} (Local [1, 2]) (unat (2 :: u64))" "unat (2 :: u64) \<le> 1500"
    "demo_live = rtl_tx_buf net_demo ! (unat (rtl_tx_cur net_demo) mod 4)" "(demo_live, 4064) \<in> {(demo_live, 4064 :: nat)}" "2048 \<le> (4064 :: nat)"
    by (simp_all add: net_demo_sel buf_in_def eth_broadcast_def)
  obtain r st' where r: "eth_tx demo_nic net_demo 0x7000 (Local eth_broadcast) 0x0806 (Local [1, 2]) 2 = Some (r, st')"
    "heap_ok st' {(demo_live, 4064)}" "r = - 1 \<or> get_bytes (vmem st') demo_live (length F) = F"
    using eth_tx_transmits [OF net_demo_ok p net_demo_ready F_def] by blast
  have "get_bytes (vmem st') demo_live 60 ! 12 = vmem st' (demo_live + of_nat 12)" by (rule nth_get_bytes) simp
  then have "r = - 1 \<or> vmem st' (demo_live + 12) = 8" using r(3) F12 by auto
  then show ?thesis using r(1,2) by blast
qed


theorem ipv4_checksum_verifies_witness:
  "\<exists>c. ipv4_checksum (\<lambda>x. if x < 10 then 7 else 0) 0 20 = Some c \<and>
     ipv4_checksum (store16 (\<lambda>x. if x < 10 then 7 else 0) 10 c) 0 20 = Some 0"
  using ipv4_checksum_verifies [of 10 20 "\<lambda>x. if x < 10 then 7 else 0" 0] by (simp add: load16_def)

theorem ipv4_packet_accepted_witness:
  "\<exists>m. ipv4_build (\<lambda>_. 0) 0x1000 1 5 0x0A000001 1 (SIZEOF_IPV4 + 240) (Local (replicate 240 0)) 240 = Some m \<and>
     ipv4_rx demo_nic (net_demo\<lparr>vmem := m\<rparr>) 0x7000 0x1000 (SIZEOF_IPV4 + 240) = Some (net_demo\<lparr>vmem := m\<rparr>)"
proof -
  have g: "g_my_ip net_demo = 0x0A000001" by (simp add: net_demo_def heap_state.defs net_state.defs)
  obtain m where m: "ipv4_build (\<lambda>_. 0) 0x1000 1 5 0x0A000001 1 (SIZEOF_IPV4 + 240) (Local (replicate 240 0)) 240 = Some m"
    using ipv4_build_header [of 240 "\<lambda>_. 0" "0x1000" 1 5 "0x0A000001" 1 "Local (replicate 240 0)"] by auto
  then show ?thesis using ipv4_packet_accepted [of 240 "net_demo\<lparr>vmem := m\<rparr>" "0x0A000001"] g by simp
qed

theorem arp_cache_remembers_witness:
  "arp_lookup (foldl (\<lambda>c (ip, mac). arp_cache_update c ip mac) (arp_entries (arp_init net_demo 5)) [(7, [1]), (8, [2]), (7, [3])]) 7 = Some [3]"
  using arp_cache_remembers [of "[(7, [1]), (8, [2]), (7, [3])]" net_demo 5 7 "[]" "[]"] by simp

theorem rtl8139_send_timeout_lost_witness:
  "\<exists>st'. rtl8139_send dead_nic net_demo 0x5000 64 = (0, st')"
  using rtl8139_send_timeout_lost [of dead_nic 64 net_demo "0x5000"] by (auto simp: dead_nic_def)

theorem rtl8139_irq_faults_witness: "rtl8139_irq demo_nic 0x7000 (net_demo\<lparr>vmem := (\<lambda>_. 1)\<rparr>) = None"
proof (rule rtl8139_irq_faults [OF _ _ refl])
  show "p_inw demo_nic (rtl_io_base (net_demo\<lparr>vmem := (\<lambda>_. 1)\<rparr>) + RTL_ISR) (nic (net_demo\<lparr>vmem := (\<lambda>_. 1)\<rparr>)) = (1, ())"
    by (simp add: demo_nic_def)
qed (simp_all add: demo_nic_def RTL_ISR_ROK_def load16_def)


end
