(* ===== verification/Ata.thy ===== *)
theory Ata
  imports Heap Serial Bytes
begin

text \<open>
  The block device registry and the ATA driver, \<^verbatim>\<open>kernel/drivers/storage/block.c\<close> and
  \<^verbatim>\<open>kernel/drivers/storage/ata.c\<close>.  The drives are reached through the port parameter; transfer buffers lie in
  kernel memory \<open>vmem\<close>.  The driver runs on any state that contains the heap, so that it can share memory with the rest
  of the kernel.  Messages on the serial line are left out.
\<close>

section \<open>Block devices\<close>

definition BLKDEV_MAX :: nat where [kdefs]: "BLKDEV_MAX = 16"
definition ATA_MAX_DRIVES :: nat where [kdefs]: "ATA_MAX_DRIVES = 4"

datatype blk_fn = blk_null | ata_blk_read_fn | ata_blk_write_fn

record block_device =
  bd_name :: string
  sector_count :: u64
  sector_size :: u32
  read_only :: bool
  bd_private :: u64
  bd_read :: blk_fn
  bd_write :: blk_fn

record ata_drive =
  present :: bool
  is_atapi :: bool
  lba48 :: bool
  model :: "u8 list"
  lba28_sectors :: u32
  lba48_sectors :: u64

record 'd disk_state = heap_state +
  disk :: 'd
  block_devices :: "u64 \<Rightarrow> block_device"
  blkdevs :: "u64 list"
  blkdev_cnt :: nat
  ata_drives :: "ata_drive list"

definition blkdev_register :: "('d, 'a) disk_state_scheme \<Rightarrow> u64 \<Rightarrow> int \<times> ('d, 'a) disk_state_scheme" where
  "blkdev_register st dev =
     (if dev = 0 \<or> BLKDEV_MAX \<le> blkdev_cnt st then (- 1, st)
      else (int (blkdev_cnt st), st\<lparr>blkdevs := (blkdevs st)[blkdev_cnt st := dev], blkdev_cnt := blkdev_cnt st + 1\<rparr>))"

definition blkdev_get :: "('d, 'a) disk_state_scheme \<Rightarrow> int \<Rightarrow> u64" where
  "blkdev_get st index = (if index < 0 \<or> int (blkdev_cnt st) \<le> index then 0 else blkdevs st ! nat index)"

definition blkdev_count :: "('d, 'a) disk_state_scheme \<Rightarrow> int" where
  "blkdev_count st = int (blkdev_cnt st)"

section \<open>Polling\<close>

definition ata_base :: "u16 list" where "ata_base = [0x1F0, 0x170]"
definition ata_ctrl :: "u16 list" where "ata_ctrl = [0x3F6, 0x376]"

definition ATA_SECT_CNT :: u16 where [kdefs]: "ATA_SECT_CNT = 2"
definition ATA_LBA_LO :: u16 where [kdefs]: "ATA_LBA_LO = 3"
definition ATA_LBA_MID :: u16 where [kdefs]: "ATA_LBA_MID = 4"
definition ATA_LBA_HI :: u16 where [kdefs]: "ATA_LBA_HI = 5"
definition ATA_DRIVE_SEL :: u16 where [kdefs]: "ATA_DRIVE_SEL = 6"
definition ATA_STATUS :: u16 where [kdefs]: "ATA_STATUS = 7"
definition ATA_CMD :: u16 where [kdefs]: "ATA_CMD = 7"
definition ATA_SR_BSY :: u8 where [kdefs]: "ATA_SR_BSY = 0x80"
definition ATA_SR_DRQ :: u8 where [kdefs]: "ATA_SR_DRQ = 0x08"
definition ATA_SR_ERR :: u8 where [kdefs]: "ATA_SR_ERR = 0x01"
definition ATA_CMD_IDENTIFY :: u8 where [kdefs]: "ATA_CMD_IDENTIFY = 0xEC"
definition ATA_CMD_READ28 :: u8 where [kdefs]: "ATA_CMD_READ28 = 0x20"
definition ATA_CMD_WRITE28 :: u8 where [kdefs]: "ATA_CMD_WRITE28 = 0x30"
definition ATA_CMD_CACHE_FLUSH :: u8 where [kdefs]: "ATA_CMD_CACHE_FLUSH = 0xE7"

definition ata_delay :: "'d ports \<Rightarrow> u16 \<Rightarrow> 'd \<Rightarrow> 'd" where
  "ata_delay io ctrl d =
     (let d = snd (p_inb io ctrl d); d = snd (p_inb io ctrl d); d = snd (p_inb io ctrl d) in snd (p_inb io ctrl d))"

fun poll_not_busy :: "'d ports \<Rightarrow> u16 \<Rightarrow> nat \<Rightarrow> 'd \<Rightarrow> int \<times> 'd" where
  \<comment> \<open>the loop of \<^verbatim>\<open>ata_wait_not_busy\<close> with \<open>n\<close> tries left\<close>
  "poll_not_busy io p 0 d = (0, d)"
| "poll_not_busy io p (Suc n) d = (case p_inb io p d of (s, d1) \<Rightarrow> if s AND ATA_SR_BSY = 0 then (1, d1) else poll_not_busy io p n d1)"

definition ata_wait_not_busy :: "'d ports \<Rightarrow> u16 \<Rightarrow> u32 \<Rightarrow> 'd \<Rightarrow> int \<times> 'd" where
  "ata_wait_not_busy io base timeout_ms d = poll_not_busy io (base + ATA_STATUS) (unat (timeout_ms * 10000)) d"

fun poll_drq :: "'d ports \<Rightarrow> u16 \<Rightarrow> nat \<Rightarrow> 'd \<Rightarrow> int \<times> 'd" where
  "poll_drq io p 0 d = (0, d)"
| "poll_drq io p (Suc n) d = (case p_inb io p d of (s, d1) \<Rightarrow>
     if s AND ATA_SR_ERR \<noteq> 0 then (- 1, d1) else if s AND ATA_SR_DRQ \<noteq> 0 then (1, d1) else poll_drq io p n d1)"

definition ata_wait_drq :: "'d ports \<Rightarrow> u16 \<Rightarrow> u32 \<Rightarrow> 'd \<Rightarrow> int \<times> 'd" where
  "ata_wait_drq io base timeout_ms d = poll_drq io (base + ATA_STATUS) (unat (timeout_ms * 10000)) d"

section \<open>Identification\<close>

fun read_words :: "'d ports \<Rightarrow> u16 \<Rightarrow> nat \<Rightarrow> 'd \<Rightarrow> u16 list \<times> 'd" where
  "read_words io p 0 d = ([], d)"
| "read_words io p (Suc n) d = (case p_inw io p d of (w, d1) \<Rightarrow> case read_words io p n d1 of (ws, d2) \<Rightarrow> (w # ws, d2))"

fun trim_spaces :: "u8 list \<Rightarrow> nat \<Rightarrow> u8 list" where
  \<comment> \<open>\<^verbatim>\<open>for (int i = 39; i >= 0 && model[i] == ' '; i--) model[i] = 0\<close>, with \<open>i + 1\<close> as argument\<close>
  "trim_spaces m 0 = m"
| "trim_spaces m (Suc i) = (if m ! i = 0x20 then trim_spaces (m[i := 0]) i else m)"

definition ata_model :: "u16 list \<Rightarrow> u8 list" where
  "ata_model ident = trim_spaces (concat (map (\<lambda>i. [ucast (drop_bit 8 (ident ! (27 + i))), ucast (ident ! (27 + i) AND 0xFF)]) [0..<20]) @ [0]) 40"

definition ata_identify :: "'d ports \<Rightarrow> ('d, 'a) disk_state_scheme \<Rightarrow> nat \<Rightarrow> nat \<Rightarrow> nat \<Rightarrow> ('d, 'a) disk_state_scheme" where
  "ata_identify io st chan sel idx =
     (let base = ata_base ! chan; ctrl = ata_ctrl ! chan;
          st = st\<lparr>ata_drives := (ata_drives st)[idx := (ata_drives st ! idx)\<lparr>present := False\<rparr>]\<rparr>;
          d = ata_delay io ctrl (p_outb io (base + ATA_DRIVE_SEL) (if sel \<noteq> 0 then 0xB0 else 0xA0) (disk st));
          d = ata_delay io ctrl (p_outb io (base + ATA_CMD) ATA_CMD_IDENTIFY d)
      in case p_inb io (base + ATA_STATUS) d of (s, d) \<Rightarrow>
         if s = 0 then st\<lparr>disk := d\<rparr>
         else case ata_wait_not_busy io base 5000 d of (r, d) \<Rightarrow>
           if r = 0 then st\<lparr>disk := d\<rparr>
           else case p_inb io (base + ATA_STATUS) d of (s, d) \<Rightarrow>
             if s AND ATA_SR_ERR \<noteq> 0 then
               case p_inb io (base + ATA_LBA_MID) d of (mid, d) \<Rightarrow>
               case p_inb io (base + ATA_LBA_HI) d of (hi, d) \<Rightarrow>
                 let st = st\<lparr>disk := d\<rparr>
                 in if mid = 0x14 \<and> hi = 0xEB then
                      st\<lparr>ata_drives := (ata_drives st)[idx := (ata_drives st ! idx)\<lparr>present := True, is_atapi := True,
                         model := map of_char ''ATAPI device'' @ 0 # drop 13 (model (ata_drives st ! idx))\<rparr>]\<rparr>
                    else st
             else case ata_wait_drq io base 5000 d of (r, d) \<Rightarrow>
               if r = 0 then st\<lparr>disk := d\<rparr>
               else case read_words io base 256 d of (ident, d) \<Rightarrow>
                 let dr = (ata_drives st ! idx)\<lparr>model := ata_model ident,
                       lba28_sectors := push_bit 16 (ucast (ident ! 61)) OR ucast (ident ! 60),
                       lba48 := (drop_bit 10 (ident ! 83) AND 1 \<noteq> 0)\<rparr>;
                     dr = (if lba48 dr then dr\<lparr>lba48_sectors := push_bit 48 (ucast (ident ! 103)) OR push_bit 32 (ucast (ident ! 102)) OR
                             push_bit 16 (ucast (ident ! 101)) OR ucast (ident ! 100)\<rparr> else dr)
                 in st\<lparr>disk := d, ata_drives := (ata_drives st)[idx := dr\<lparr>present := True\<rparr>]\<rparr>)"

section \<open>Transfers\<close>

definition ata_setup :: "'d ports \<Rightarrow> u16 \<Rightarrow> u16 \<Rightarrow> nat \<Rightarrow> u32 \<Rightarrow> u8 \<Rightarrow> u8 \<Rightarrow> 'd \<Rightarrow> 'd" where
  \<comment> \<open>the register writes that start a transfer\<close>
  "ata_setup io base ctrl sel lba count cmd d =
     (let d = p_outb io (base + ATA_DRIVE_SEL) (0xE0 OR push_bit 4 (of_nat sel) OR ucast (drop_bit 24 lba AND 0x0F)) d;
          d = p_outb io (base + ATA_SECT_CNT) count d;
          d = p_outb io (base + ATA_LBA_LO) (ucast (lba AND 0xFF)) d;
          d = p_outb io (base + ATA_LBA_MID) (ucast (drop_bit 8 lba AND 0xFF)) d;
          d = p_outb io (base + ATA_LBA_HI) (ucast (drop_bit 16 lba AND 0xFF)) d;
          d = p_outb io (base + ATA_CMD) cmd d
      in ata_delay io ctrl d)"

definition ata_sector_ready :: "'d ports \<Rightarrow> u16 \<Rightarrow> 'd \<Rightarrow> bool \<times> 'd" where
  \<comment> \<open>the waits before each sector\<close>
  "ata_sector_ready io base d = (case ata_wait_not_busy io base 5000 d of (r, d) \<Rightarrow>
     if r = 0 then (False, d) else case ata_wait_drq io base 5000 d of (r, d) \<Rightarrow> (0 < r, d))"

fun words_in :: "'d ports \<Rightarrow> u16 \<Rightarrow> nat \<Rightarrow> memory \<Rightarrow> u64 \<Rightarrow> 'd \<Rightarrow> memory \<times> 'd" where
  "words_in io p 0 m a d = (m, d)"
| "words_in io p (Suc n) m a d = (case p_inw io p d of (w, d1) \<Rightarrow> words_in io p n (store16 m a w) (a + 2) d1)"

fun words_out :: "'d ports \<Rightarrow> u16 \<Rightarrow> nat \<Rightarrow> memory \<Rightarrow> u64 \<Rightarrow> 'd \<Rightarrow> 'd" where
  "words_out io p 0 m a d = d"
| "words_out io p (Suc n) m a d = words_out io p n m (a + 2) (p_outw io p (load16 m a) d)"

fun sectors_in :: "'d ports \<Rightarrow> u16 \<Rightarrow> nat \<Rightarrow> memory \<Rightarrow> u64 \<Rightarrow> 'd \<Rightarrow> int \<times> memory \<times> 'd" where
  "sectors_in io base 0 m a d = (0, m, d)"
| "sectors_in io base (Suc n) m a d = (case ata_sector_ready io base d of (ok, d) \<Rightarrow>
     if \<not> ok then (- 1, m, d)
     else case words_in io base 256 m a d of (m, d) \<Rightarrow> sectors_in io base n m (a + 512) d)"

fun sectors_out :: "'d ports \<Rightarrow> u16 \<Rightarrow> nat \<Rightarrow> memory \<Rightarrow> u64 \<Rightarrow> 'd \<Rightarrow> int \<times> 'd" where
  "sectors_out io base 0 m a d = (0, d)"
| "sectors_out io base (Suc n) m a d = (case ata_sector_ready io base d of (ok, d) \<Rightarrow>
     if \<not> ok then (- 1, d) else sectors_out io base n m (a + 512) (words_out io base 256 m a d))"

definition ata_do_read :: "'d ports \<Rightarrow> ('d, 'a) disk_state_scheme \<Rightarrow> nat \<Rightarrow> nat \<Rightarrow> u32 \<Rightarrow> u8 \<Rightarrow> u64 \<Rightarrow> int \<times> ('d, 'a) disk_state_scheme" where
  "ata_do_read io st chan sel lba count buf =
     (let base = ata_base ! chan; ctrl = ata_ctrl ! chan
      in case ata_wait_not_busy io base 5000 (disk st) of (r, d) \<Rightarrow>
         if r = 0 then (- 1, st\<lparr>disk := d\<rparr>)
         else
           case sectors_in io base (unat count) (vmem st) buf (ata_setup io base ctrl sel lba count ATA_CMD_READ28 d) of (r, m, d) \<Rightarrow>
             (r, st\<lparr>vmem := m, disk := d\<rparr>))"

definition ata_do_write :: "'d ports \<Rightarrow> ('d, 'a) disk_state_scheme \<Rightarrow> nat \<Rightarrow> nat \<Rightarrow> u32 \<Rightarrow> u8 \<Rightarrow> u64 \<Rightarrow> int \<times> ('d, 'a) disk_state_scheme" where
  "ata_do_write io st chan sel lba count buf =
     (let base = ata_base ! chan; ctrl = ata_ctrl ! chan
      in case ata_wait_not_busy io base 5000 (disk st) of (r, d) \<Rightarrow>
         if r = 0 then (- 1, st\<lparr>disk := d\<rparr>)
         else
           case sectors_out io base (unat count) (vmem st) buf (ata_setup io base ctrl sel lba count ATA_CMD_WRITE28 d) of (r, d) \<Rightarrow>
             if r \<noteq> 0 then (r, st\<lparr>disk := d\<rparr>)
             else (0, st\<lparr>disk := snd (ata_wait_not_busy io base 5000 (p_outb io (base + ATA_CMD) ATA_CMD_CACHE_FLUSH d))\<rparr>))"

function ata_blk_loop :: "(('d, 'a) disk_state_scheme \<Rightarrow> u32 \<Rightarrow> u8 \<Rightarrow> u64 \<Rightarrow> int \<times> ('d, 'a) disk_state_scheme) \<Rightarrow>
    ('d, 'a) disk_state_scheme \<Rightarrow> u64 \<Rightarrow> u32 \<Rightarrow> u64 \<Rightarrow> int \<times> ('d, 'a) disk_state_scheme" where
  \<comment> \<open>the chunking loop of the two callbacks; \<open>xfer\<close> is \<^verbatim>\<open>ata_do_read\<close> or \<^verbatim>\<open>ata_do_write\<close> on their drive\<close>
  "ata_blk_loop xfer st lba count b =
     (if 0 < count then
        let n = (if 255 < count then 255 else ucast count :: u8)
        in case xfer st (ucast lba) n b of (r, st1) \<Rightarrow>
             if r \<noteq> 0 then (- 1, st1) else ata_blk_loop xfer st1 (lba + ucast n) (count - ucast n) (b + ucast n * 512)
      else (0, st))"
  by pat_completeness auto

lemma ata_chunk:
  assumes "0 < count"
  defines "n \<equiv> if 255 < count then 255 else ucast (count :: u32) :: u8"
  shows "0 < unat n" "unat n = min 255 (unat count)" "unat (count - ucast n) = unat count - unat n"
proof -
  have c: "unat count > 0" using assms(1) by (simp add: unat_gt_0)
  show n: "unat n = min 255 (unat count)"
    by (cases "255 < count") (auto simp: n_def unat_narrow word_less_nat_alt)
  show "0 < unat n" using c n by simp
  have "ucast n \<le> count" using n by (simp add: word_le_nat_alt)
  then show "unat (count - ucast n) = unat count - unat n" by (simp add: unat_sub)
qed

termination ata_blk_loop
  by (relation "measure (\<lambda>(xfer, st, lba, count, b). unat count)") (use ata_chunk in \<open>auto\<close>)

declare ata_blk_loop.simps [simp del]

definition bd_drive :: "('d, 'a) disk_state_scheme \<Rightarrow> u64 \<Rightarrow> nat" where
  \<comment> \<open>\<^verbatim>\<open>int drive = (int)(uint64_t)dev->private\<close>, on the drive numbers that \<^verbatim>\<open>ata_init\<close> stores\<close>
  "bd_drive st dev = unat (ucast (bd_private (block_devices st dev)) :: u32)"

definition ata_blk_read :: "'d ports \<Rightarrow> ('d, 'a) disk_state_scheme \<Rightarrow> u64 \<Rightarrow> u64 \<Rightarrow> u32 \<Rightarrow> u64 \<Rightarrow> int \<times> ('d, 'a) disk_state_scheme" where
  "ata_blk_read io st dev lba count buf =
     (let drive = bd_drive st dev
      in ata_blk_loop (\<lambda>st. ata_do_read io st (drive div 2) (drive mod 2)) st lba count buf)"

definition ata_blk_write :: "'d ports \<Rightarrow> ('d, 'a) disk_state_scheme \<Rightarrow> u64 \<Rightarrow> u64 \<Rightarrow> u32 \<Rightarrow> u64 \<Rightarrow> int \<times> ('d, 'a) disk_state_scheme" where
  "ata_blk_write io st dev lba count buf =
     (let drive = bd_drive st dev
      in ata_blk_loop (\<lambda>st. ata_do_write io st (drive div 2) (drive mod 2)) st lba count buf)"

definition ata_read_sectors :: "'d ports \<Rightarrow> ('d, 'a) disk_state_scheme \<Rightarrow> int \<Rightarrow> u32 \<Rightarrow> u8 \<Rightarrow> u64 \<Rightarrow> int \<times> ('d, 'a) disk_state_scheme" where
  "ata_read_sectors io st drive lba count buf =
     (if drive < 0 \<or> int ATA_MAX_DRIVES \<le> drive \<or> \<not> present (ata_drives st ! nat drive) then (- 1, st)
      else ata_do_read io st (nat drive div 2) (nat drive mod 2) lba count buf)"

definition ata_write_sectors :: "'d ports \<Rightarrow> ('d, 'a) disk_state_scheme \<Rightarrow> int \<Rightarrow> u32 \<Rightarrow> u8 \<Rightarrow> u64 \<Rightarrow> int \<times> ('d, 'a) disk_state_scheme" where
  "ata_write_sectors io st drive lba count buf =
     (if drive < 0 \<or> int ATA_MAX_DRIVES \<le> drive \<or> \<not> present (ata_drives st ! nat drive) then (- 1, st)
      else ata_do_write io st (nat drive div 2) (nat drive mod 2) lba count buf)"

section \<open>Initialisation\<close>

definition ata_zero :: ata_drive where
  "ata_zero = \<lparr>present = False, is_atapi = False, lba48 = False, model = replicate 41 0, lba28_sectors = 0, lba48_sectors = 0\<rparr>"

definition ata_blkdev_names :: "string list" where
  "ata_blkdev_names = [''ata0'', ''ata1'', ''ata2'', ''ata3'']"

definition ata_probe :: "'d ports \<Rightarrow> (nat \<Rightarrow> u64) \<Rightarrow> nat \<times> nat \<Rightarrow> ('d, 'a) disk_state_scheme \<Rightarrow> ('d, 'a) disk_state_scheme" where
  \<comment> \<open>one round of the loops of \<^verbatim>\<open>ata_init\<close>; \<open>bds idx\<close> is the address of \<^verbatim>\<open>ata_blkdevs[idx]\<close>\<close>
  "ata_probe io bds cs st =
     (case cs of (chan, sel) \<Rightarrow>
        let idx = chan * 2 + sel;
            st = ata_identify io st chan sel idx;
            dr = ata_drives st ! idx
        in if present dr \<and> \<not> is_atapi dr
           then snd (blkdev_register (st\<lparr>block_devices := (block_devices st)(bds idx :=
                  \<lparr>bd_name = ata_blkdev_names ! idx,
                   sector_count = (if lba48 dr then lba48_sectors dr else ucast (lba28_sectors dr)),
                   sector_size = 512, read_only = False, bd_private = of_nat idx,
                   bd_read = ata_blk_read_fn, bd_write = ata_blk_write_fn\<rparr>)\<rparr>) (bds idx))
           else st)"

definition ata_init :: "'d ports \<Rightarrow> (nat \<Rightarrow> u64) \<Rightarrow> ('d, 'a) disk_state_scheme \<Rightarrow> ('d, 'a) disk_state_scheme" where
  "ata_init io bds st =
     fold (ata_probe io bds) [(0, 0), (0, 1), (1, 0), (1, 1)] (st\<lparr>ata_drives := replicate ATA_MAX_DRIVES ata_zero\<rparr>)"

end
