(* ===== verification/AtaCorrect.thy ===== *)
theory AtaCorrect
  imports Ata
begin

text \<open>
  What the ATA driver reads and writes.  A drive pair on one channel is described by the registers, the data words
  waiting in either direction, how long it stays busy, and the sectors; \<open>ata_dev\<close> states what the ATA standard
  says of the registers of a channel whose drives answer within the time the driver waits.  On such a channel the
  block callbacks transfer exactly the sectors asked for, as long as their numbers fit the 28 bits of the commands.
\<close>

section \<open>The drives of a channel\<close>

record ata_hw =
  hw_sel :: u8
  hw_cnt :: u8
  hw_lo :: u8
  hw_mid :: u8
  hw_hi :: u8
  hw_busy :: nat
  hw_in :: "u16 list"
  hw_want :: nat
  hw_got :: "u16 list"
  hw_next :: nat
  hw_disk :: "bool \<times> nat \<Rightarrow> u16 list"

definition hw_lba :: "ata_hw \<Rightarrow> nat" where
  "hw_lba h = unat (hw_lo h) + 2 ^ 8 * unat (hw_mid h) + 2 ^ 16 * unat (hw_hi h) + 2 ^ 24 * unat (hw_sel h AND 0x0F)"

definition hw_slave :: "ata_hw \<Rightarrow> bool" where
  "hw_slave h = bit (hw_sel h) 4"

definition hw_count :: "ata_hw \<Rightarrow> nat" where
  "hw_count h = (if hw_cnt h = 0 then 256 else unat (hw_cnt h))"

definition hw_command :: "u8 \<Rightarrow> ata_hw \<Rightarrow> ata_hw" where
  "hw_command c h =
     (if c = ATA_CMD_READ28 then h\<lparr>hw_in := concat (map (\<lambda>s. hw_disk h (hw_slave h, s)) [hw_lba h..<hw_lba h + hw_count h])\<rparr>
      else if c = ATA_CMD_WRITE28 then h\<lparr>hw_want := 256 * hw_count h, hw_got := [], hw_next := hw_lba h\<rparr>
      else h)"

definition hw_take :: "u16 \<Rightarrow> ata_hw \<Rightarrow> ata_hw" where
  "hw_take w h =
     (if length (hw_got h) < 255 then h\<lparr>hw_got := hw_got h @ [w], hw_want := hw_want h - 1\<rparr>
      else h\<lparr>hw_disk := (hw_disk h)((hw_slave h, hw_next h) := hw_got h @ [w]), hw_got := [],
             hw_next := hw_next h + 1, hw_want := hw_want h - 1\<rparr>)"

definition hw_limit :: nat where "hw_limit = 50000000"

definition busy_as :: "ata_hw \<Rightarrow> ata_hw \<Rightarrow> bool" where
  \<comment> \<open>the two agree up to how long the drive is busy, which is less than the driver's patience\<close>
  "busy_as h1 h \<longleftrightarrow> hw_busy h1 < hw_limit \<and> h1\<lparr>hw_busy := 0\<rparr> = h\<lparr>hw_busy := 0\<rparr>"

definition ata_dev :: "'d ports \<Rightarrow> u16 \<Rightarrow> u16 \<Rightarrow> ('d \<Rightarrow> ata_hw) \<Rightarrow> bool" where
  "ata_dev io base ctrl dk \<longleftrightarrow>
     (\<forall>d. hw_busy (dk (snd (p_inb io ctrl d))) \<le> hw_busy (dk d) \<and> (dk (snd (p_inb io ctrl d)))\<lparr>hw_busy := 0\<rparr> = (dk d)\<lparr>hw_busy := 0\<rparr>) \<and>
     (\<forall>d. 0 < hw_busy (dk d) \<longrightarrow> fst (p_inb io (base + ATA_STATUS) d) AND ATA_SR_BSY \<noteq> 0 \<and>
        hw_busy (dk (snd (p_inb io (base + ATA_STATUS) d))) < hw_busy (dk d) \<and>
        (dk (snd (p_inb io (base + ATA_STATUS) d)))\<lparr>hw_busy := 0\<rparr> = (dk d)\<lparr>hw_busy := 0\<rparr>) \<and>
     (\<forall>d. hw_busy (dk d) = 0 \<longrightarrow> dk (snd (p_inb io (base + ATA_STATUS) d)) = dk d \<and>
        fst (p_inb io (base + ATA_STATUS) d) AND ATA_SR_BSY = 0 \<and> fst (p_inb io (base + ATA_STATUS) d) AND ATA_SR_ERR = 0 \<and>
        (fst (p_inb io (base + ATA_STATUS) d) AND ATA_SR_DRQ \<noteq> 0 \<longleftrightarrow> hw_in (dk d) \<noteq> [] \<or> 0 < hw_want (dk d))) \<and>
     (\<forall>d v. hw_busy (dk d) = 0 \<longrightarrow>
        dk (p_outb io (base + ATA_DRIVE_SEL) v d) = (dk d)\<lparr>hw_sel := v\<rparr> \<and>
        dk (p_outb io (base + ATA_SECT_CNT) v d) = (dk d)\<lparr>hw_cnt := v\<rparr> \<and>
        dk (p_outb io (base + ATA_LBA_LO) v d) = (dk d)\<lparr>hw_lo := v\<rparr> \<and>
        dk (p_outb io (base + ATA_LBA_MID) v d) = (dk d)\<lparr>hw_mid := v\<rparr> \<and>
        dk (p_outb io (base + ATA_LBA_HI) v d) = (dk d)\<lparr>hw_hi := v\<rparr> \<and>
        busy_as (dk (p_outb io (base + ATA_CMD) v d)) (hw_command v (dk d))) \<and>
     (\<forall>d w ws. hw_busy (dk d) = 0 \<and> hw_in (dk d) = w # ws \<longrightarrow> fst (p_inw io base d) = w \<and>
        busy_as (dk (snd (p_inw io base d))) ((dk d)\<lparr>hw_in := ws\<rparr>) \<and>
        (length ws mod 256 \<noteq> 0 \<longrightarrow> hw_busy (dk (snd (p_inw io base d))) = 0)) \<and>
     (\<forall>d w. hw_busy (dk d) = 0 \<and> 0 < hw_want (dk d) \<longrightarrow>
        busy_as (dk (p_outw io base w d)) (hw_take w (dk d)) \<and>
        (length (hw_got (dk d)) < 255 \<longrightarrow> hw_busy (dk (p_outw io base w d)) = 0))"

lemma ata_devD:
  assumes "ata_dev io base ctrl dk"
  shows "hw_busy (dk (snd (p_inb io ctrl d))) \<le> hw_busy (dk d)"
    "(dk (snd (p_inb io ctrl d)))\<lparr>hw_busy := 0\<rparr> = (dk d)\<lparr>hw_busy := 0\<rparr>"
    "0 < hw_busy (dk d) \<Longrightarrow> fst (p_inb io (base + ATA_STATUS) d) AND ATA_SR_BSY \<noteq> 0"
    "0 < hw_busy (dk d) \<Longrightarrow> hw_busy (dk (snd (p_inb io (base + ATA_STATUS) d))) < hw_busy (dk d)"
    "0 < hw_busy (dk d) \<Longrightarrow> (dk (snd (p_inb io (base + ATA_STATUS) d)))\<lparr>hw_busy := 0\<rparr> = (dk d)\<lparr>hw_busy := 0\<rparr>"
    "hw_busy (dk d) = 0 \<Longrightarrow> dk (snd (p_inb io (base + ATA_STATUS) d)) = dk d"
    "hw_busy (dk d) = 0 \<Longrightarrow> fst (p_inb io (base + ATA_STATUS) d) AND ATA_SR_BSY = 0"
    "hw_busy (dk d) = 0 \<Longrightarrow> fst (p_inb io (base + ATA_STATUS) d) AND ATA_SR_ERR = 0"
    "hw_busy (dk d) = 0 \<Longrightarrow> fst (p_inb io (base + ATA_STATUS) d) AND ATA_SR_DRQ \<noteq> 0 \<longleftrightarrow> hw_in (dk d) \<noteq> [] \<or> 0 < hw_want (dk d)"
    "hw_busy (dk d) = 0 \<Longrightarrow> dk (p_outb io (base + ATA_DRIVE_SEL) v d) = (dk d)\<lparr>hw_sel := v\<rparr>"
    "hw_busy (dk d) = 0 \<Longrightarrow> dk (p_outb io (base + ATA_SECT_CNT) v d) = (dk d)\<lparr>hw_cnt := v\<rparr>"
    "hw_busy (dk d) = 0 \<Longrightarrow> dk (p_outb io (base + ATA_LBA_LO) v d) = (dk d)\<lparr>hw_lo := v\<rparr>"
    "hw_busy (dk d) = 0 \<Longrightarrow> dk (p_outb io (base + ATA_LBA_MID) v d) = (dk d)\<lparr>hw_mid := v\<rparr>"
    "hw_busy (dk d) = 0 \<Longrightarrow> dk (p_outb io (base + ATA_LBA_HI) v d) = (dk d)\<lparr>hw_hi := v\<rparr>"
    "hw_busy (dk d) = 0 \<Longrightarrow> busy_as (dk (p_outb io (base + ATA_CMD) v d)) (hw_command v (dk d))"
    "hw_busy (dk d) = 0 \<Longrightarrow> hw_in (dk d) = w # ws \<Longrightarrow> fst (p_inw io base d) = w"
    "hw_busy (dk d) = 0 \<Longrightarrow> hw_in (dk d) = w # ws \<Longrightarrow> busy_as (dk (snd (p_inw io base d))) ((dk d)\<lparr>hw_in := ws\<rparr>)"
    "hw_busy (dk d) = 0 \<Longrightarrow> hw_in (dk d) = w # ws \<Longrightarrow> length ws mod 256 \<noteq> 0 \<Longrightarrow> hw_busy (dk (snd (p_inw io base d))) = 0"
    "hw_busy (dk d) = 0 \<Longrightarrow> 0 < hw_want (dk d) \<Longrightarrow> busy_as (dk (p_outw io base w d)) (hw_take w (dk d))"
    "hw_busy (dk d) = 0 \<Longrightarrow> 0 < hw_want (dk d) \<Longrightarrow> length (hw_got (dk d)) < 255 \<Longrightarrow> hw_busy (dk (p_outw io base w d)) = 0"
  by (use assms [unfolded ata_dev_def] in \<open>elim conjE, simp\<close>)+

section \<open>Polling\<close>

lemma busy_as_refl: "hw_busy h < hw_limit \<Longrightarrow> busy_as h h"
  by (simp add: busy_as_def)

lemma busy_as_trans: "busy_as a b \<Longrightarrow> busy_as b c \<Longrightarrow> busy_as a c"
  by (simp add: busy_as_def)

lemma busy_as_fields:
  "busy_as a b \<Longrightarrow> hw_sel a = hw_sel b \<and> hw_cnt a = hw_cnt b \<and> hw_lo a = hw_lo b \<and> hw_mid a = hw_mid b \<and> hw_hi a = hw_hi b \<and>
     hw_in a = hw_in b \<and> hw_want a = hw_want b \<and> hw_got a = hw_got b \<and> hw_next a = hw_next b \<and> hw_disk a = hw_disk b"
  by (cases a, cases b) (simp add: busy_as_def)

lemma poll_not_busy_ok:
  assumes "ata_dev io base ctrl dk"
  shows "hw_busy (dk d) < n \<Longrightarrow> \<exists>d1. poll_not_busy io (base + ATA_STATUS) n d = (1, d1) \<and> dk d1 = (dk d)\<lparr>hw_busy := 0\<rparr>"
proof (induction n arbitrary: d)
  case (Suc n)
  let ?i = "p_inb io (base + ATA_STATUS) d"
  show ?case
  proof (cases "hw_busy (dk d) = 0")
    case True
    then show ?thesis using ata_devD(6,7) [OF assms True] by (simp add: case_prod_beta)
  next
    case False
    then have p: "0 < hw_busy (dk d)" by simp
    have "hw_busy (dk (snd ?i)) < n" using ata_devD(4) [OF assms p] Suc.prems by simp
    then obtain d1 where "poll_not_busy io (base + ATA_STATUS) n (snd ?i) = (1, d1)" "dk d1 = (dk (snd ?i))\<lparr>hw_busy := 0\<rparr>"
      using Suc.IH by blast
    then show ?thesis using ata_devD(3,5) [OF assms p] by (simp add: case_prod_beta)
  qed
qed simp

lemma patience: "unat ((5000 :: u32) * 10000) = hw_limit"
  by (simp add: hw_limit_def)

lemma ata_wait_not_busy_ok:
  assumes "ata_dev io base ctrl dk" "hw_busy (dk d) < hw_limit"
  shows "\<exists>d1. ata_wait_not_busy io base 5000 d = (1, d1) \<and> dk d1 = (dk d)\<lparr>hw_busy := 0\<rparr>"
  unfolding ata_wait_not_busy_def patience using poll_not_busy_ok [OF assms] .

lemma ata_wait_drq_ok:
  assumes "ata_dev io base ctrl dk" "hw_busy (dk d) = 0" "hw_in (dk d) \<noteq> [] \<or> 0 < hw_want (dk d)"
  shows "\<exists>d1. ata_wait_drq io base 5000 d = (1, d1) \<and> dk d1 = dk d"
proof -
  have "\<exists>d1. poll_drq io (base + ATA_STATUS) n d = (1, d1) \<and> dk d1 = dk d" if "0 < n" for n
    using that ata_devD(6,8,9) [OF assms(1,2)] assms(3) by (cases n) (simp_all add: case_prod_beta)
  then show ?thesis unfolding ata_wait_drq_def patience by (simp add: hw_limit_def)
qed

lemma ata_sector_ready_ok:
  assumes "ata_dev io base ctrl dk" "hw_busy (dk d) < hw_limit" "hw_in (dk d) \<noteq> [] \<or> 0 < hw_want (dk d)"
  shows "\<exists>d1. ata_sector_ready io base d = (True, d1) \<and> dk d1 = (dk d)\<lparr>hw_busy := 0\<rparr>"
proof -
  obtain d1 where 1: "ata_wait_not_busy io base 5000 d = (1, d1)" "dk d1 = (dk d)\<lparr>hw_busy := 0\<rparr>"
    using ata_wait_not_busy_ok [OF assms(1,2)] by blast
  then obtain d2 where "ata_wait_drq io base 5000 d1 = (1, d2)" "dk d2 = dk d1"
    using ata_wait_drq_ok [OF assms(1), of d1] assms(3) by auto
  then show ?thesis using 1 by (simp add: ata_sector_ready_def)
qed

lemma ata_delay_ok:
  assumes "ata_dev io base ctrl dk" "hw_busy (dk d) < hw_limit"
  shows "busy_as (dk (ata_delay io ctrl d)) (dk d)"
proof -
  have s: "busy_as (dk (snd (p_inb io ctrl e))) (dk e)" if "hw_busy (dk e) < hw_limit" for e
    using ata_devD(1,2) [OF assms(1), of e] that by (simp add: busy_as_def)
  have b: "busy_as h g \<Longrightarrow> hw_busy h < hw_limit" for h g by (simp add: busy_as_def)
  let ?f = "\<lambda>e. snd (p_inb io ctrl e)"
  have 1: "busy_as (dk (?f d)) (dk d)" using s assms(2) .
  have 2: "busy_as (dk (?f (?f d))) (dk (?f d))" using s b [OF 1] .
  have 3: "busy_as (dk (?f (?f (?f d)))) (dk (?f (?f d)))" using s b [OF 2] .
  have 4: "busy_as (dk (?f (?f (?f (?f d))))) (dk (?f (?f (?f d))))" using s b [OF 3] .
  show ?thesis using busy_as_trans [OF 4 busy_as_trans [OF 3 busy_as_trans [OF 2 1]]] by (simp add: ata_delay_def Let_def)
qed

section \<open>Starting a command\<close>

definition hw_setup :: "nat \<Rightarrow> u32 \<Rightarrow> u8 \<Rightarrow> ata_hw \<Rightarrow> ata_hw" where
  "hw_setup sel lba count h = h\<lparr>hw_sel := 0xE0 OR push_bit 4 (of_nat sel) OR ucast (drop_bit 24 lba AND 0x0F), hw_cnt := count,
     hw_lo := ucast (lba AND 0xFF), hw_mid := ucast (drop_bit 8 lba AND 0xFF), hw_hi := ucast (drop_bit 16 lba AND 0xFF)\<rparr>"

lemma ata_setup_ok:
  assumes "ata_dev io base ctrl dk" "hw_busy (dk d) = 0"
  shows "busy_as (dk (ata_setup io base ctrl sel lba count cmd d)) (hw_command cmd (hw_setup sel lba count (dk d)))"
proof -
  note r = ata_devD(10-14) [OF assms(1)]
  let ?d = "p_outb io (base + ATA_LBA_HI) (ucast (drop_bit 16 lba AND 0xFF)) (p_outb io (base + ATA_LBA_MID) (ucast (drop_bit 8 lba AND 0xFF))
    (p_outb io (base + ATA_LBA_LO) (ucast (lba AND 0xFF)) (p_outb io (base + ATA_SECT_CNT) count
    (p_outb io (base + ATA_DRIVE_SEL) (0xE0 OR push_bit 4 (of_nat sel) OR ucast (drop_bit 24 lba AND 0x0F)) d))))"
  have d: "dk ?d = hw_setup sel lba count (dk d)" using assms(2) by (simp add: r hw_setup_def)
  have z: "hw_busy (dk ?d) = 0" unfolding d using assms(2) by (simp add: hw_setup_def)
  have c: "busy_as (dk (p_outb io (base + ATA_CMD) cmd ?d)) (hw_command cmd (hw_setup sel lba count (dk d)))"
    using ata_devD(15) [OF assms(1) z, of cmd] unfolding d .
  have "hw_busy (dk (p_outb io (base + ATA_CMD) cmd ?d)) < hw_limit" using c by (simp add: busy_as_def)
  from busy_as_trans [OF ata_delay_ok [OF assms(1) this] c] show ?thesis by (simp add: ata_setup_def Let_def)
qed

lemma and_low: "w AND 0xFF = take_bit 8 w" "w AND 0x0F = take_bit 4 w" for w :: u32
  by (simp_all add: take_bit_eq_mask mask_eq_exp_minus_1)

lemma unat_lba_byte:
  "unat (ucast ((lba :: u32) AND 0xFF) :: u8) = unat lba mod 256"
  "unat (ucast (drop_bit k (lba :: u32) AND 0xFF) :: u8) = unat lba div 2 ^ k mod 256"
  "unat (ucast (drop_bit k (lba :: u32) AND 0x0F) :: u8) = unat lba div 2 ^ k mod 16"
proof -
  have "x mod 256 mod 16 = x mod 16" for x :: nat by (simp add: mod_mod_cancel)
  moreover have "unat lba mod 4294967296 = unat lba" using unat_u32_lt [of lba] by simp
  ultimately show "unat (ucast ((lba :: u32) AND 0xFF) :: u8) = unat lba mod 256"
    "unat (ucast (drop_bit k (lba :: u32) AND 0xFF) :: u8) = unat lba div 2 ^ k mod 256"
    "unat (ucast (drop_bit k (lba :: u32) AND 0x0F) :: u8) = unat lba div 2 ^ k mod 16"
    unfolding and_low unat_narrow unsigned_take_bit_eq unsigned_drop_bit_eq by (simp_all add: take_bit_eq_mod drop_bit_eq_div)
qed

lemma hw_setup_lba:
  assumes "unat lba < 2 ^ 28" "sel < 2"
  shows "hw_lba (hw_setup sel lba count h) = unat lba"
proof -
  have d: "(a OR b OR c) AND (m :: u8) = (a AND m) OR (b AND m) OR (c AND m)" for a b c m
    by (rule bit_word_eqI) (auto simp: bit_simps)
  have z: "push_bit 4 (of_nat sel :: u8) AND 0x0F = 0" using assms(2) by (auto simp: less_2_cases_iff)
  have c: "(ucast (drop_bit 24 lba AND 0x0F) :: u8) AND 0x0F = ucast (drop_bit 24 lba AND 0x0F)"
    by (rule bit_word_eqI) (auto simp: bit_simps)
  have s: "(0xE0 OR push_bit 4 (of_nat sel) OR ucast (drop_bit 24 lba AND 0x0F) :: u8) AND 0x0F = ucast (drop_bit 24 lba AND 0x0F)"
    unfolding d z c by simp
  obtain n where n: "unat lba = n" "n < 268435456" using assms(1) by simp
  have q: "n div 65536 = n div 256 div 256" "n div 16777216 mod 16 = n div 256 div 256 div 256"
    using n(2) by (simp_all add: div_mult2_eq [symmetric])
  have "x = a + 256 * y \<Longrightarrow> y = b + 256 * z \<Longrightarrow> z = c + 256 * w \<Longrightarrow> a + 256 * b + 65536 * c + 16777216 * w = x" for x a y b z c w :: nat
    by simp
  from this [OF mod_mult_div_eq [symmetric] mod_mult_div_eq [symmetric] mod_mult_div_eq [symmetric], of n]
  have "n mod 256 + 256 * (n div 256 mod 256) + 65536 * (n div 65536 mod 256) + 16777216 * (n div 16777216 mod 16) = n"
    unfolding q .
  moreover have e: "hw_lba (hw_setup sel lba count h) = unat (ucast (lba AND 0xFF) :: u8) + 2 ^ 8 * unat (ucast (drop_bit 8 lba AND 0xFF) :: u8) +
      2 ^ 16 * unat (ucast (drop_bit 16 lba AND 0xFF) :: u8) + 2 ^ 24 * unat (ucast (drop_bit 24 lba AND 0x0F) :: u8)"
    by (cases h) (simp only: hw_lba_def hw_setup_def ata_hw.simps s)
  ultimately show ?thesis unfolding e unfolding unat_lba_byte(2,3) unfolding unat_lba_byte(1) n(1) using n(2) by simp
qed

lemma hw_setup_slave: "sel < 2 \<Longrightarrow> hw_slave (hw_setup sel lba count h) \<longleftrightarrow> sel = 1"
  by (auto simp: hw_slave_def hw_setup_def less_2_cases_iff bit_simps)

section \<open>Sectors\<close>

fun words_bytes :: "u16 list \<Rightarrow> u8 list" where
  "words_bytes [] = []"
| "words_bytes (w # ws) = ucast w # ucast (drop_bit 8 w) # words_bytes ws"

fun get_words :: "memory \<Rightarrow> u64 \<Rightarrow> nat \<Rightarrow> u16 list" where
  "get_words m a 0 = []"
| "get_words m a (Suc n) = load16 m a # get_words m (a + 2) n"

lemma words_bytes_append: "words_bytes (xs @ ys) = words_bytes xs @ words_bytes ys"
  by (induction xs) auto

lemma length_words_bytes [simp]: "length (words_bytes ws) = 2 * length ws"
  by (induction ws) auto

lemma length_get_words [simp]: "length (get_words m a n) = n"
  by (induction n arbitrary: a) auto

lemma get_words_add: "get_words m a (k + n) = get_words m a k @ get_words m (a + 2 * of_nat k) n"
  by (induction k arbitrary: a) (auto simp: algebra_simps)

lemma get_bytes_Suc: "get_bytes m a (Suc n) = m a # get_bytes m (a + 1) n"
  by (rule nth_equalityI) (auto simp: nth_Cons split: nat.splits simp: algebra_simps)

lemma words_bytes_get: "words_bytes (get_words m a n) = get_bytes m a (2 * n)"
  by (induction n arbitrary: a) (simp_all add: get_bytes_Suc load16_bytes add.assoc, simp add: get_bytes_def)

lemma words_in_ok:
  assumes "ata_dev io base ctrl dk"
  shows "hw_busy (dk d) = 0 \<Longrightarrow> hw_in (dk d) = ws @ rest \<Longrightarrow> length rest mod 256 = 0 \<Longrightarrow> length ws \<le> 256 \<Longrightarrow>
    \<exists>d1. words_in io base (length ws) m a d = (put_bytes m a (words_bytes ws), d1) \<and> busy_as (dk d1) ((dk d)\<lparr>hw_in := rest\<rparr>)"
proof (induction ws arbitrary: d m a)
  case Nil
  then show ?case by (auto simp: busy_as_def hw_limit_def)
next
  case (Cons w ws)
  have h: "hw_in (dk d) = w # (ws @ rest)" using Cons.prems by simp
  note r = ata_devD(16-18) [OF assms Cons.prems(1) h]
  obtain e where i: "p_inw io base d = (w, e)" using r(1) by (cases "p_inw io base d") simp
  note r = r(2,3) [unfolded i snd_conv]
  show ?case
  proof (cases "ws = []")
    case True
    then show ?thesis using r(1) i by (auto simp: store16_def)
  next
    case False
    have "length (ws @ rest) mod 256 = length ws"
      using Cons.prems by (simp add: mod_add_right_eq [symmetric])
    then have z: "hw_busy (dk e) = 0" using r(2) False by simp
    have "hw_in (dk e) = ws @ rest" using busy_as_fields [OF r(1)] by simp
    from Cons.IH [OF z this] Cons.prems obtain d1 where
      1: "words_in io base (length ws) (store16 m a w) (a + 2) e = (put_bytes (store16 m a w) (a + 2) (words_bytes ws), d1)"
        "busy_as (dk d1) ((dk e)\<lparr>hw_in := rest\<rparr>)" by auto
    have "busy_as (dk d1) ((dk d)\<lparr>hw_in := rest\<rparr>)"
      using 1(2) r(1) by (cases "dk d", cases "dk e") (simp add: busy_as_def)
    then show ?thesis using 1(1) i by (auto simp: store16_def add.assoc)
  qed
qed

lemma sectors_in_ok:
  assumes "ata_dev io base ctrl dk"
  shows "hw_busy (dk d) < hw_limit \<Longrightarrow> hw_in (dk d) = concat secs \<Longrightarrow> (\<And>s. s \<in> set secs \<Longrightarrow> length s = 256) \<Longrightarrow>
    \<exists>d1. sectors_in io base (length secs) m a d = (0, put_bytes m a (words_bytes (concat secs)), d1) \<and>
      busy_as (dk d1) ((dk d)\<lparr>hw_in := []\<rparr>)"
proof (induction secs arbitrary: d m a)
  case Nil
  then show ?case by (cases "dk d") (auto simp: busy_as_def)
next
  case (Cons s secs)
  have s: "length s = 256" "s \<noteq> []" using Cons.prems(3) [of s] by auto
  obtain d1 where 1: "ata_sector_ready io base d = (True, d1)" "dk d1 = (dk d)\<lparr>hw_busy := 0\<rparr>"
    using ata_sector_ready_ok [OF assms Cons.prems(1)] Cons.prems(2) s by auto
  have l: "length (concat secs) mod 256 = 0"
    using Cons.prems(3) by (induction secs) (auto simp: mod_add_eq [symmetric])
  obtain d2 where 2: "words_in io base 256 m a d1 = (put_bytes m a (words_bytes s), d2)"
      "busy_as (dk d2) ((dk d1)\<lparr>hw_in := concat secs\<rparr>)"
    using words_in_ok [OF assms, of d1 s "concat secs" m a] 1(2) Cons.prems(2) l s by auto
  have "hw_busy (dk d2) < hw_limit" "hw_in (dk d2) = concat secs"
    using 2(2) busy_as_fields [OF 2(2)] by (simp_all add: busy_as_def)
  then obtain d3 where 3: "sectors_in io base (length secs) (put_bytes m a (words_bytes s)) (a + 512) d2 =
        (0, put_bytes (put_bytes m a (words_bytes s)) (a + 512) (words_bytes (concat secs)), d3)"
      "busy_as (dk d3) ((dk d2)\<lparr>hw_in := []\<rparr>)"
    using Cons.IH [of d2 "put_bytes m a (words_bytes s)" "a + 512"] Cons.prems(3) by auto
  have "busy_as (dk d3) ((dk d)\<lparr>hw_in := []\<rparr>)"
    using 3(2) 2(2) 1(2) by (cases "dk d", cases "dk d2") (simp add: busy_as_def)
  moreover have "put_bytes (put_bytes m a (words_bytes s)) (a + 512) bs = put_bytes m a (words_bytes s @ bs)" for bs
    using s by (simp add: put_bytes_append)
  ultimately show ?case using 1(1) 2(1) 3(1) by (simp add: words_bytes_append)
qed

lemma words_out_ok:
  assumes "ata_dev io base ctrl dk"
  shows "hw_busy (dk d) = 0 \<Longrightarrow> length (hw_got (dk d)) + n = 256 \<Longrightarrow> 0 < n \<Longrightarrow> n \<le> hw_want (dk d) \<Longrightarrow>
    busy_as (dk (words_out io base n m a d))
      ((dk d)\<lparr>hw_disk := (hw_disk (dk d))((hw_slave (dk d), hw_next (dk d)) := hw_got (dk d) @ get_words m a n),
        hw_got := [], hw_next := hw_next (dk d) + 1, hw_want := hw_want (dk d) - n\<rparr>)"
proof (induction n arbitrary: d a)
  case (Suc n)
  define e where "e = p_outw io base (load16 m a) d"
  have w: "0 < hw_want (dk d)" using Suc.prems by simp
  note r = ata_devD(19,20) [OF assms Suc.prems(1) w, of "load16 m a", folded e_def]
  show ?case
  proof (cases "n = 0")
    case True
    then have "\<not> length (hw_got (dk d)) < 255" using Suc.prems by simp
    then show ?thesis using r(1) True by (simp add: hw_take_def e_def [symmetric] fun_upd_def)
  next
    case False
    then have l: "length (hw_got (dk d)) < 255" using Suc.prems by simp
    have f: "hw_got (dk e) = hw_got (dk d) @ [load16 m a]" "hw_want (dk e) = hw_want (dk d) - 1" "hw_next (dk e) = hw_next (dk d)"
      "hw_disk (dk e) = hw_disk (dk d)" "hw_sel (dk e) = hw_sel (dk d)"
      using busy_as_fields [OF r(1)] l by (simp_all add: hw_take_def)
    have "hw_slave (dk e) = hw_slave (dk d)" by (simp add: hw_slave_def f)
    then show ?thesis
      using Suc.IH [of e "a + 2", OF r(2) [OF l]] Suc.prems False r(1) l f
      by (cases "dk d", cases "dk e") (simp add: e_def [symmetric] busy_as_def hw_take_def)
  qed
qed simp

definition put_sectors :: "(bool \<times> nat \<Rightarrow> u16 list) \<Rightarrow> bool \<Rightarrow> nat \<Rightarrow> nat \<Rightarrow> memory \<Rightarrow> u64 \<Rightarrow> bool \<times> nat \<Rightarrow> u16 list" where
  \<comment> \<open>the sectors after \<open>n\<close> of them from number \<open>s\<close> on have been written from memory\<close>
  "put_sectors D b s n m a = (\<lambda>(c, t). if c = b \<and> s \<le> t \<and> t < s + n then get_words m (a + 512 * of_nat (t - s)) 256 else D (c, t))"

lemma put_sectors_0 [simp]: "put_sectors D b s 0 m a = D"
  by (rule ext) (auto simp: put_sectors_def)

lemma put_sectors_add:
  "put_sectors (put_sectors D b s k m a) b (s + k) n m (a + 512 * of_nat k) = put_sectors D b s (k + n) m a"
  by (rule ext) (auto simp: put_sectors_def of_nat_diff algebra_simps)

lemma put_sectors_Suc:
  "put_sectors (D((b, s) := get_words m a 256)) b (s + 1) n m (a + 512) = put_sectors D b s (Suc n) m a"
proof -
  have "D((b, s) := get_words m a 256) = put_sectors D b s 1 m a" by (auto simp: put_sectors_def)
  then show ?thesis using put_sectors_add [of D b s 1 m a n] by simp
qed

lemma sectors_out_ok:
  assumes "ata_dev io base ctrl dk"
  shows "hw_busy (dk d) < hw_limit \<Longrightarrow> hw_want (dk d) = 256 * n \<Longrightarrow> hw_got (dk d) = [] \<Longrightarrow>
    \<exists>d1. sectors_out io base n m a d = (0, d1) \<and> hw_busy (dk d1) < hw_limit \<and> hw_in (dk d1) = hw_in (dk d) \<and> hw_want (dk d1) = 0 \<and>
      hw_disk (dk d1) = put_sectors (hw_disk (dk d)) (hw_slave (dk d)) (hw_next (dk d)) n m a"
proof (induction n arbitrary: d a)
  case (Suc n)
  obtain d1 where 1: "ata_sector_ready io base d = (True, d1)" "dk d1 = (dk d)\<lparr>hw_busy := 0\<rparr>"
    using ata_sector_ready_ok [OF assms Suc.prems(1)] Suc.prems(2) by auto
  define d2 where "d2 = words_out io base 256 m a d1"
  have "busy_as (dk d2) ((dk d1)\<lparr>hw_disk := (hw_disk (dk d1))((hw_slave (dk d1), hw_next (dk d1)) := hw_got (dk d1) @ get_words m a 256),
        hw_got := [], hw_next := hw_next (dk d1) + 1, hw_want := hw_want (dk d1) - 256\<rparr>)"
    unfolding d2_def by (rule words_out_ok [OF assms]) (use 1(2) Suc.prems in simp_all)
  note b = this [unfolded 1(2)]
  have f: "hw_busy (dk d2) < hw_limit" "hw_want (dk d2) = 256 * n" "hw_got (dk d2) = []" "hw_in (dk d2) = hw_in (dk d)"
    "hw_next (dk d2) = hw_next (dk d) + 1" "hw_disk (dk d2) = (hw_disk (dk d))((hw_slave (dk d), hw_next (dk d)) := get_words m a 256)"
    "hw_slave (dk d2) = hw_slave (dk d)"
    using busy_as_fields [OF b] b Suc.prems by (simp_all add: busy_as_def hw_slave_def)
  from Suc.IH [OF f(1-3), of "a + 512"] obtain d3 where
    "sectors_out io base n m (a + 512) d2 = (0, d3)" "hw_busy (dk d3) < hw_limit" "hw_in (dk d3) = hw_in (dk d)" "hw_want (dk d3) = 0"
    "hw_disk (dk d3) = put_sectors ((hw_disk (dk d))((hw_slave (dk d), hw_next (dk d)) := get_words m a 256))
       (hw_slave (dk d)) (hw_next (dk d) + 1) n m (a + 512)"
    unfolding f(4-7) by blast
  then show ?case using 1(1) by (simp add: put_sectors_Suc [simplified] d2_def [symmetric])
qed simp

section \<open>One command\<close>

definition hw_idle :: "ata_hw \<Rightarrow> bool" where
  "hw_idle h \<longleftrightarrow> hw_busy h < hw_limit \<and> hw_in h = [] \<and> hw_want h = 0 \<and> (\<forall>x. length (hw_disk h x) = 256)"

definition sectors :: "ata_hw \<Rightarrow> bool \<Rightarrow> nat \<Rightarrow> nat \<Rightarrow> u16 list" where
  "sectors h b s n = concat (map (\<lambda>t. hw_disk h (b, t)) [s..<s + n])"

lemma sectors_add: "sectors h b s (k + n) = sectors h b s k @ sectors h b (s + k) n"
  by (simp add: sectors_def upt_add_eq_append [of s "s + k" n, simplified] add.assoc [symmetric])

lemma length_sectors: "hw_idle h \<Longrightarrow> length (sectors h b s n) = 256 * n"
  by (induction n) (auto simp: sectors_def hw_idle_def)

lemma hw_count_pos: "0 < count \<Longrightarrow> hw_count (hw_setup sel lba count h) = unat count"
  by (auto simp: hw_count_def hw_setup_def)

lemma hw_setup_keeps [simp]:
  "hw_busy (hw_setup sel lba count h) = hw_busy h" "hw_in (hw_setup sel lba count h) = hw_in h" "hw_want (hw_setup sel lba count h) = hw_want h"
  "hw_disk (hw_setup sel lba count h) = hw_disk h"
  by (simp_all add: hw_setup_def)

lemma hw_command_setup:
  assumes "unat lba + unat count \<le> 2 ^ 28" "0 < count" "sel < 2"
  shows "hw_command ATA_CMD_READ28 (hw_setup sel lba count h) =
      (hw_setup sel lba count h)\<lparr>hw_in := sectors h (sel = 1) (unat lba) (unat count)\<rparr>"
    "hw_command ATA_CMD_WRITE28 (hw_setup sel lba count h) =
      (hw_setup sel lba count h)\<lparr>hw_want := 256 * unat count, hw_got := [], hw_next := unat lba\<rparr>"
proof -
  have "unat lba < 2 ^ 28" using assms by (auto simp: word_less_nat_alt)
  note f = hw_setup_lba [OF this assms(3)] hw_setup_slave [OF assms(3)] hw_count_pos [OF assms(2)]
  show "hw_command ATA_CMD_READ28 (hw_setup sel lba count h) =
      (hw_setup sel lba count h)\<lparr>hw_in := sectors h (sel = 1) (unat lba) (unat count)\<rparr>"
    unfolding hw_command_def f sectors_def by simp
  show "hw_command ATA_CMD_WRITE28 (hw_setup sel lba count h) =
      (hw_setup sel lba count h)\<lparr>hw_want := 256 * unat count, hw_got := [], hw_next := unat lba\<rparr>"
    unfolding hw_command_def f ATA_CMD_READ28_def ATA_CMD_WRITE28_def by simp
qed

lemma ata_do_read_ok:
  assumes dev: "ata_dev io (ata_base ! chan) (ata_ctrl ! chan) dk" and idle: "hw_idle (dk (disk st))"
    and range: "unat lba + unat count \<le> 2 ^ 28" "0 < count" "sel < 2"
  shows "\<exists>d1. ata_do_read io st chan sel lba count buf =
      (0, st\<lparr>vmem := put_bytes (vmem st) buf (words_bytes (sectors (dk (disk st)) (sel = 1) (unat lba) (unat count))), disk := d1\<rparr>) \<and>
      hw_idle (dk d1) \<and> hw_disk (dk d1) = hw_disk (dk (disk st))"
proof -
  let ?b = "ata_base ! chan" and ?D = "hw_disk (dk (disk st))"
  let ?secs = "map (\<lambda>t. ?D (sel = 1, t)) [unat lba..<unat lba + unat count]"
  obtain d where 1: "ata_wait_not_busy io ?b 5000 (disk st) = (1, d)" "dk d = (dk (disk st))\<lparr>hw_busy := 0\<rparr>"
    using ata_wait_not_busy_ok [OF dev, of "disk st"] idle by (auto simp: hw_idle_def)
  define d2 where "d2 = ata_setup io ?b (ata_ctrl ! chan) sel lba count ATA_CMD_READ28 d"
  have b: "busy_as (dk d2) ((hw_setup sel lba count (dk d))\<lparr>hw_in := sectors (dk d) (sel = 1) (unat lba) (unat count)\<rparr>)"
    unfolding d2_def hw_command_setup [OF range, symmetric] by (rule ata_setup_ok [OF dev]) (simp add: 1(2))
  then have 2: "hw_busy (dk d2) < hw_limit" "hw_in (dk d2) = concat ?secs" "hw_want (dk d2) = 0" "hw_disk (dk d2) = ?D"
    using busy_as_fields [OF b] idle by (simp_all add: busy_as_def hw_idle_def sectors_def 1(2))
  have "\<And>s. s \<in> set ?secs \<Longrightarrow> length s = 256" using idle by (auto simp: hw_idle_def)
  from sectors_in_ok [OF dev 2(1,2) this] obtain d3 where
    3: "sectors_in io ?b (length ?secs) (vmem st) buf d2 = (0, put_bytes (vmem st) buf (words_bytes (concat ?secs)), d3)"
      "busy_as (dk d3) ((dk d2)\<lparr>hw_in := []\<rparr>)" by blast
  have "hw_idle (dk d3)" "hw_disk (dk d3) = ?D"
    using busy_as_fields [OF 3(2)] 3(2) 2 idle by (auto simp: hw_idle_def busy_as_def)
  then show ?thesis using 1(1) 3(1) by (auto simp: ata_do_read_def d2_def [symmetric] sectors_def)
qed

definition ata_ignores_busy :: "'d ports \<Rightarrow> u16 \<Rightarrow> ('d \<Rightarrow> ata_hw) \<Rightarrow> bool" where
  \<comment> \<open>a command that comes while the drive is busy is dropped; the driver sends its cache flush without waiting\<close>
  "ata_ignores_busy io base dk \<longleftrightarrow> (\<forall>d v. 0 < hw_busy (dk d) \<and> hw_busy (dk d) < hw_limit \<longrightarrow>
     busy_as (dk (p_outb io (base + ATA_CMD) v d)) (dk d))"

lemma ata_do_write_ok:
  assumes dev: "ata_dev io (ata_base ! chan) (ata_ctrl ! chan) dk" and ign: "ata_ignores_busy io (ata_base ! chan) dk"
    and idle: "hw_idle (dk (disk st))"
    and range: "unat lba + unat count \<le> 2 ^ 28" "0 < count" "sel < 2"
  shows "\<exists>d1. ata_do_write io st chan sel lba count buf = (0, st\<lparr>disk := d1\<rparr>) \<and> hw_idle (dk d1) \<and>
      hw_disk (dk d1) = put_sectors (hw_disk (dk (disk st))) (sel = 1) (unat lba) (unat count) (vmem st) buf"
proof -
  let ?b = "ata_base ! chan" and ?D = "hw_disk (dk (disk st))"
  obtain d where 1: "ata_wait_not_busy io ?b 5000 (disk st) = (1, d)" "dk d = (dk (disk st))\<lparr>hw_busy := 0\<rparr>"
    using ata_wait_not_busy_ok [OF dev, of "disk st"] idle by (auto simp: hw_idle_def)
  define d2 where "d2 = ata_setup io ?b (ata_ctrl ! chan) sel lba count ATA_CMD_WRITE28 d"
  let ?h = "hw_setup sel lba count (dk d)"
  have b: "busy_as (dk d2) (?h\<lparr>hw_want := 256 * unat count, hw_got := [], hw_next := unat lba\<rparr>)"
    unfolding d2_def hw_command_setup [OF range, symmetric] by (rule ata_setup_ok [OF dev]) (simp add: 1(2))
  then have 2: "hw_busy (dk d2) < hw_limit" "hw_in (dk d2) = []" "hw_want (dk d2) = 256 * unat count" "hw_got (dk d2) = []"
      "hw_next (dk d2) = unat lba" "hw_disk (dk d2) = ?D" "hw_sel (dk d2) = hw_sel ?h"
    using busy_as_fields [OF b] idle by (simp_all add: busy_as_def hw_idle_def 1(2))
  have s: "hw_slave (dk d2) = (sel = 1)" using hw_setup_slave [OF range(3)] 2(7) by (simp add: hw_slave_def)
  from sectors_out_ok [OF dev 2(1,3,4), of "vmem st" buf] obtain d3 where
    3: "sectors_out io ?b (unat count) (vmem st) buf d2 = (0, d3)" "hw_busy (dk d3) < hw_limit" "hw_in (dk d3) = []" "hw_want (dk d3) = 0"
      "hw_disk (dk d3) = put_sectors ?D (sel = 1) (unat lba) (unat count) (vmem st) buf"
    unfolding s 2(2,5,6) by blast
  let ?f = "p_outb io (?b + ATA_CMD) ATA_CMD_CACHE_FLUSH d3"
  have "hw_command ATA_CMD_CACHE_FLUSH h = h" for h by (simp add: hw_command_def kdefs)
  then have f: "busy_as (dk ?f) (dk d3)"
    using ata_devD(15) [OF dev, of d3 ATA_CMD_CACHE_FLUSH] ign 3(2) by (cases "hw_busy (dk d3) = 0") (auto simp: ata_ignores_busy_def)
  then have "hw_busy (dk ?f) < hw_limit" by (simp add: busy_as_def)
  from ata_wait_not_busy_ok [OF dev this] obtain d4 where
    4: "ata_wait_not_busy io ?b 5000 ?f = (1, d4)" "dk d4 = (dk ?f)\<lparr>hw_busy := 0\<rparr>" by blast
  have "hw_idle (dk d4)" "hw_disk (dk d4) = put_sectors ?D (sel = 1) (unat lba) (unat count) (vmem st) buf"
    using 4(2) 3 busy_as_fields [OF f] idle by (auto simp: hw_idle_def hw_limit_def put_sectors_def)
  then show ?thesis using 1(1) 3(1) 4(1) by (auto simp: ata_do_write_def d2_def [symmetric])
qed

section \<open>The block callbacks\<close>

lemma ata_blk_loop_0 [simp]: "ata_blk_loop xfer st lba 0 b = (0, st)"
  by (subst ata_blk_loop.simps) simp

lemma ata_blk_chunk_range:
  assumes "unat (lba :: u64) + unat (count :: u32) \<le> 2 ^ 28" "unat (n :: u8) \<le> unat count"
  shows "unat (ucast lba :: u32) = unat lba" "unat (lba + ucast n) = unat lba + unat n"
    "unat (ucast lba :: u32) + unat n \<le> 2 ^ 28"
  using assms by (simp_all add: unat_narrow unat_word_ariths)

lemma ata_blk_loop_step:
  assumes "0 < count" "n = (if 255 < count then 255 else ucast count :: u8)" "xfer st (ucast lba) n b = (0, st1)"
  shows "ata_blk_loop xfer st lba count b = ata_blk_loop xfer st1 (lba + ucast n) (count - ucast n) (b + ucast n * 512)"
  using assms(1,3) by (subst ata_blk_loop.simps) (simp add: assms(2) [symmetric])

lemma ata_read_loop_ok:
  assumes dev: "ata_dev io (ata_base ! chan) (ata_ctrl ! chan) dk" and sel: "sel < 2"
  shows "hw_idle (dk (disk st)) \<Longrightarrow> unat lba + unat count \<le> 2 ^ 28 \<Longrightarrow>
    \<exists>d1. ata_blk_loop (\<lambda>st. ata_do_read io st chan sel) st lba count buf =
      (0, st\<lparr>vmem := put_bytes (vmem st) buf (words_bytes (sectors (dk (disk st)) (sel = 1) (unat lba) (unat count))), disk := d1\<rparr>) \<and>
      hw_idle (dk d1) \<and> hw_disk (dk d1) = hw_disk (dk (disk st))"
proof (induction "unat count" arbitrary: st lba count buf rule: less_induct)
  case less
  show ?case
  proof (cases "count = 0")
    case True
    then show ?thesis using less.prems by (auto simp: sectors_def intro: exI [of _ "disk st"])
  next
    case False
    then have pos: "0 < count" by (simp add: word_gt_0)
    define n where "n = (if 255 < count then 255 else ucast count :: u8)"
    note c = ata_chunk [OF pos, folded n_def]
    have le: "unat n \<le> unat count" by (simp add: c(2))
    note r = ata_blk_chunk_range [OF less.prems(2) le]
    have n0: "0 < n" using c(1) by (simp add: word_less_nat_alt)
    obtain d1 where 1: "ata_do_read io st chan sel (ucast lba) n buf =
        (0, st\<lparr>vmem := put_bytes (vmem st) buf (words_bytes (sectors (dk (disk st)) (sel = 1) (unat lba) (unat n))), disk := d1\<rparr>)"
        "hw_idle (dk d1)" "hw_disk (dk d1) = hw_disk (dk (disk st))"
      using ata_do_read_ok [OF dev less.prems(1) r(3) n0 sel, of buf] unfolding r(1) by blast
    let ?m1 = "put_bytes (vmem st) buf (words_bytes (sectors (dk (disk st)) (sel = 1) (unat lba) (unat n)))"
    let ?st1 = "st\<lparr>vmem := ?m1, disk := d1\<rparr>"
    have lt: "unat (count - ucast n) < unat count" "unat (lba + ucast n) + unat (count - ucast n) \<le> 2 ^ 28"
      using c r(2) le less.prems(2) by simp_all
    have idle: "hw_idle (dk (disk ?st1))" using 1(2) by simp
    from less.hyps [OF lt(1) idle lt(2), of "buf + ucast n * 512"] obtain d2 where
      2: "ata_blk_loop (\<lambda>st. ata_do_read io st chan sel) ?st1 (lba + ucast n) (count - ucast n) (buf + ucast n * 512) =
        (0, st\<lparr>vmem := put_bytes ?m1 (buf + ucast n * 512) (words_bytes (sectors (dk d1) (sel = 1) (unat lba + unat n) (unat count - unat n))), disk := d2\<rparr>)"
        "hw_idle (dk d2)" "hw_disk (dk d2) = hw_disk (dk d1)"
      unfolding c(3) r(2) by auto
    have s: "sectors (dk d1) b k j = sectors (dk (disk st)) b k j" for b k j by (simp add: sectors_def 1(3))
    have "put_bytes ?m1 (buf + ucast n * 512) bs =
        put_bytes (vmem st) buf (words_bytes (sectors (dk (disk st)) (sel = 1) (unat lba) (unat n)) @ bs)" for bs
      by (simp add: put_bytes_append length_sectors [OF less.prems(1)] mult.commute)
    then have e: "put_bytes ?m1 (buf + ucast n * 512) (words_bytes (sectors (dk d1) (sel = 1) (unat lba + unat n) (unat count - unat n))) =
        put_bytes (vmem st) buf (words_bytes (sectors (dk (disk st)) (sel = 1) (unat lba) (unat count)))"
      using sectors_add [of "dk (disk st)" "sel = 1" "unat lba" "unat n" "unat count - unat n"] le by (simp add: s words_bytes_append)
    have "ata_blk_loop (\<lambda>st. ata_do_read io st chan sel) st lba count buf =
        ata_blk_loop (\<lambda>st. ata_do_read io st chan sel) ?st1 (lba + ucast n) (count - ucast n) (buf + ucast n * 512)"
      using 1(1) by (simp add: ata_blk_loop_step [OF pos n_def])
    then show ?thesis using 2 1(3) unfolding e by auto
  qed
qed

lemma ata_write_loop_ok:
  assumes dev: "ata_dev io (ata_base ! chan) (ata_ctrl ! chan) dk" "ata_ignores_busy io (ata_base ! chan) dk" and sel: "sel < 2"
  shows "hw_idle (dk (disk st)) \<Longrightarrow> unat lba + unat count \<le> 2 ^ 28 \<Longrightarrow>
    \<exists>d1. ata_blk_loop (\<lambda>st. ata_do_write io st chan sel) st lba count buf = (0, st\<lparr>disk := d1\<rparr>) \<and> hw_idle (dk d1) \<and>
      hw_disk (dk d1) = put_sectors (hw_disk (dk (disk st))) (sel = 1) (unat lba) (unat count) (vmem st) buf"
proof (induction "unat count" arbitrary: st lba count buf rule: less_induct)
  case less
  show ?case
  proof (cases "count = 0")
    case True
    then show ?thesis using less.prems by (auto intro: exI [of _ "disk st"])
  next
    case False
    then have pos: "0 < count" by (simp add: word_gt_0)
    define n where "n = (if 255 < count then 255 else ucast count :: u8)"
    note c = ata_chunk [OF pos, folded n_def]
    have le: "unat n \<le> unat count" by (simp add: c(2))
    note r = ata_blk_chunk_range [OF less.prems(2) le]
    have n0: "0 < n" using c(1) by (simp add: word_less_nat_alt)
    let ?D = "put_sectors (hw_disk (dk (disk st))) (sel = 1) (unat lba) (unat n) (vmem st) buf"
    obtain d1 where 1: "ata_do_write io st chan sel (ucast lba) n buf = (0, st\<lparr>disk := d1\<rparr>)" "hw_idle (dk d1)" "hw_disk (dk d1) = ?D"
      using ata_do_write_ok [OF dev less.prems(1) r(3) n0 sel, of buf] unfolding r(1) by blast
    have lt: "unat (count - ucast n) < unat count" "unat (lba + ucast n) + unat (count - ucast n) \<le> 2 ^ 28"
      using c r(2) le less.prems(2) by simp_all
    have idle: "hw_idle (dk (disk (st\<lparr>disk := d1\<rparr>)))" using 1(2) by simp
    from less.hyps [OF lt(1) idle lt(2), of "buf + ucast n * 512"] obtain d2 where
      2: "ata_blk_loop (\<lambda>st. ata_do_write io st chan sel) (st\<lparr>disk := d1\<rparr>) (lba + ucast n) (count - ucast n) (buf + ucast n * 512) =
        (0, st\<lparr>disk := d2\<rparr>)" "hw_idle (dk d2)"
        "hw_disk (dk d2) = put_sectors ?D (sel = 1) (unat lba + unat n) (unat count - unat n) (vmem st) (buf + ucast n * 512)"
      unfolding c(3) r(2) using 1(3) by auto
    have "put_sectors ?D (sel = 1) (unat lba + unat n) (unat count - unat n) (vmem st) (buf + ucast n * 512) =
        put_sectors (hw_disk (dk (disk st))) (sel = 1) (unat lba) (unat count) (vmem st) buf"
      using put_sectors_add [of "hw_disk (dk (disk st))" "sel = 1" "unat lba" "unat n" "vmem st" buf "unat count - unat n"] le
      by (simp add: mult.commute)
    then show ?thesis using 2 1(1) by (auto simp: ata_blk_loop_step [OF pos n_def])
  qed
qed

lemma put_bytes_get:
  assumes "length bs \<le> 18446744073709551616"
  shows "get_bytes (put_bytes m a bs) a (length bs) = bs"
  using assms by (intro nth_equalityI) (simp_all add: put_bytes_eq unat_of_nat_u64)

lemma sectors_put_sectors:
  assumes "hw_disk h = put_sectors D b s n m a"
  shows "sectors h b s n = get_words m a (256 * n)"
proof -
  have "concat (map (\<lambda>t. get_words m (a + 512 * of_nat (t - s)) 256) [s..<s + k]) = get_words m a (256 * k)" for k
  proof (induction k)
    case (Suc k)
    then show ?case using get_words_add [of m a "256 * k" 256] by (simp add: algebra_simps)
  qed simp
  moreover have e: "map (\<lambda>t. hw_disk h (b, t)) [s..<s + n] = map (\<lambda>t. get_words m (a + 512 * of_nat (t - s)) 256) [s..<s + n]"
    by (simp add: assms put_sectors_def)
  ultimately show ?thesis unfolding sectors_def e by simp
qed

lemma ata_blk_write_ok:
  assumes "bd_drive st dev = drive" "ata_dev io (ata_base ! (drive div 2)) (ata_ctrl ! (drive div 2)) dk"
    "ata_ignores_busy io (ata_base ! (drive div 2)) dk" "hw_idle (dk (disk st))" "unat lba + unat count \<le> 2 ^ 28"
  shows "\<exists>d1. ata_blk_write io st dev lba count buf = (0, st\<lparr>disk := d1\<rparr>) \<and> hw_idle (dk d1) \<and>
      hw_disk (dk d1) = put_sectors (hw_disk (dk (disk st))) (odd drive) (unat lba) (unat count) (vmem st) buf"
  using ata_write_loop_ok [OF assms(2,3) _ assms(4,5), of "drive mod 2" buf] assms(1)
  by (simp add: ata_blk_write_def odd_iff_mod_2_eq_one)

lemma ata_blk_read_ok:
  assumes "bd_drive st dev = drive" "ata_dev io (ata_base ! (drive div 2)) (ata_ctrl ! (drive div 2)) dk"
    "hw_idle (dk (disk st))" "unat lba + unat count \<le> 2 ^ 28"
  shows "\<exists>d1. ata_blk_read io st dev lba count buf =
      (0, st\<lparr>vmem := put_bytes (vmem st) buf (words_bytes (sectors (dk (disk st)) (odd drive) (unat lba) (unat count))), disk := d1\<rparr>) \<and>
      hw_idle (dk d1) \<and> hw_disk (dk d1) = hw_disk (dk (disk st))"
  using ata_read_loop_ok [OF assms(2) _ assms(3,4), of "drive mod 2" buf] assms(1)
  by (simp add: ata_blk_read_def odd_iff_mod_2_eq_one)

lemma length_read_bytes:
  assumes "hw_idle h"
  shows "length (words_bytes (sectors h b s (unat (count :: u32)))) = 512 * unat count"
    "length (words_bytes (sectors h b s (unat (count :: u32)))) \<le> 18446744073709551616"
  using unat_u32_lt [of count] by (simp_all add: length_sectors [OF assms])

text \<open>
  C23: On a channel whose drives answer in time, the read callback of a drive returns 0 and fills the buffer with exactly
  the requested sectors, in however many commands of at most 255 sectors that takes; memory outside the buffer and the
  contents of the disk are unchanged.  The sectors must lie below \<open>2 ^ 28\<close>.
\<close>

theorem ata_blk_read_reads:
  assumes "bd_drive st dev = drive" "ata_dev io (ata_base ! (drive div 2)) (ata_ctrl ! (drive div 2)) dk"
    "hw_idle (dk (disk st))" "unat lba + unat count \<le> 2 ^ 28"
  shows "\<exists>st1. ata_blk_read io st dev lba count buf = (0, st1) \<and>
     get_bytes (vmem st1) buf (512 * unat count) = words_bytes (sectors (dk (disk st)) (odd drive) (unat lba) (unat count)) \<and>
     (\<forall>x. unat (x - buf) < 512 * unat count \<or> vmem st1 x = vmem st x) \<and>
     hw_idle (dk (disk st1)) \<and> hw_disk (dk (disk st1)) = hw_disk (dk (disk st))"
proof -
  let ?bs = "words_bytes (sectors (dk (disk st)) (odd drive) (unat lba) (unat count))"
  note l = length_read_bytes [OF assms(3), of "odd drive" "unat lba" count]
  obtain d1 where 1: "ata_blk_read io st dev lba count buf = (0, st\<lparr>vmem := put_bytes (vmem st) buf ?bs, disk := d1\<rparr>)"
      "hw_idle (dk d1)" "hw_disk (dk d1) = hw_disk (dk (disk st))" using ata_blk_read_ok [OF assms] by blast
  have "get_bytes (put_bytes (vmem st) buf ?bs) buf (512 * unat count) = ?bs" using put_bytes_get [OF l(2)] unfolding l(1) .
  moreover have "unat (x - buf) < 512 * unat count \<or> put_bytes (vmem st) buf ?bs x = vmem st x" for x
    using put_bytes_eq [OF l(2)] unfolding l(1) by simp
  ultimately show ?thesis using 1 by auto
qed

text \<open>
  C22: What the write callback takes from memory, the read callback returns: writing \<open>count\<close> sectors from one buffer and
  reading them back into another leaves a copy of the first buffer in the second, and no other sector of either drive
  has changed.
\<close>

theorem ata_write_read_roundtrip:
  assumes "bd_drive st dev = drive" "ata_dev io (ata_base ! (drive div 2)) (ata_ctrl ! (drive div 2)) dk"
    "ata_ignores_busy io (ata_base ! (drive div 2)) dk" "hw_idle (dk (disk st))" "unat lba + unat count \<le> 2 ^ 28"
  shows "\<exists>st1 st2. ata_blk_write io st dev lba count buf = (0, st1) \<and> ata_blk_read io st1 dev lba count buf2 = (0, st2) \<and>
     vmem st1 = vmem st \<and> get_bytes (vmem st2) buf2 (512 * unat count) = get_bytes (vmem st) buf (512 * unat count) \<and>
     (\<forall>b s. b = odd drive \<and> unat lba \<le> s \<and> s < unat lba + unat count \<or> hw_disk (dk (disk st2)) (b, s) = hw_disk (dk (disk st)) (b, s))"
proof -
  obtain d1 where 1: "ata_blk_write io st dev lba count buf = (0, st\<lparr>disk := d1\<rparr>)" "hw_idle (dk d1)"
      "hw_disk (dk d1) = put_sectors (hw_disk (dk (disk st))) (odd drive) (unat lba) (unat count) (vmem st) buf"
    using ata_blk_write_ok [OF assms] by blast
  let ?st1 = "st\<lparr>disk := d1\<rparr>" and ?bs = "words_bytes (sectors (dk d1) (odd drive) (unat lba) (unat count))"
  have "bd_drive ?st1 dev = drive" "hw_idle (dk (disk ?st1))" using assms(1) 1(2) by (simp_all add: bd_drive_def)
  from ata_blk_read_ok [OF this(1) assms(2) this(2) assms(5), of buf2] obtain d2 where
    2: "ata_blk_read io ?st1 dev lba count buf2 = (0, ?st1\<lparr>vmem := put_bytes (vmem st) buf2 ?bs, disk := d2\<rparr>)"
      "hw_disk (dk d2) = hw_disk (dk d1)" by auto
  have "?bs = get_bytes (vmem st) buf (512 * unat count)"
    unfolding sectors_put_sectors [OF 1(3)] words_bytes_get by simp
  moreover note l = length_read_bytes [OF 1(2), of "odd drive" "unat lba" count]
  have "get_bytes (put_bytes (vmem st) buf2 ?bs) buf2 (512 * unat count) = ?bs" using put_bytes_get [OF l(2)] unfolding l(1) .
  ultimately show ?thesis using 1(1) 2 1(3) by (auto simp: put_sectors_def)
qed

section \<open>Addresses that do not fit\<close>

lemma ata_setup_28: "take_bit 28 lba = take_bit 28 lba1 \<Longrightarrow> ata_setup io base ctrl sel lba count cmd d = ata_setup io base ctrl sel lba1 count cmd d"
proof -
  assume "take_bit 28 lba = take_bit 28 lba1"
  then have b: "bit lba n = bit lba1 n" if "n < 28" for n using that by (metis bit_take_bit_iff)
  have "drop_bit 24 lba AND 0x0F = drop_bit 24 lba1 AND 0x0F" "lba AND 0xFF = lba1 AND 0xFF"
    "drop_bit 8 lba AND 0xFF = drop_bit 8 lba1 AND 0xFF" "drop_bit 16 lba AND 0xFF = drop_bit 16 lba1 AND 0xFF"
    unfolding and_low by (auto intro!: bit_word_eqI simp: bit_take_bit_iff bit_drop_bit_eq b)
  then show ?thesis by (simp add: ata_setup_def)
qed

text \<open>
  The read callback forgets the upper bits of the sector number: a request for sector \<open>lba + 2 ^ 28\<close> issues the same
  commands and fills the buffer with the same bytes as one for sector \<open>lba\<close>, although the size that \<^verbatim>\<open>ata_init\<close>
  announces for a drive with 48-bit addresses can be larger than \<open>2 ^ 28\<close> sectors.
\<close>

theorem ata_blk_read_aliases:
  fixes st :: "('d, 'a) disk_state_scheme"
  shows "ata_blk_read io st dev (lba + 2 ^ 28) count buf = ata_blk_read io st dev lba count buf"
proof -
  have t: "take_bit 28 (ucast (l + 2 ^ 28) :: u32) = take_bit 28 (ucast l)" for l :: u64
  proof -
    have "take_bit 28 (ucast (l + 2 ^ 28) :: u32) = ucast (take_bit 28 (l + 2 ^ 28))" "take_bit 28 (ucast l :: u32) = ucast (take_bit 28 l)"
      by (auto intro!: bit_word_eqI simp: bit_simps)
    moreover have "take_bit 28 (l + 2 ^ 28) = take_bit 28 l"
      by (intro word_unat_eq_iff [THEN iffD2])
        (simp add: unsigned_take_bit_eq take_bit_eq_mod unat_word_ariths mod_mod_cancel)
    ultimately show ?thesis by simp
  qed
  have x: "ata_do_read io st chan sel (ucast (l + 2 ^ 28)) n b = ata_do_read io st chan sel (ucast l) n b" for st chan sel n b and l :: u64
    unfolding ata_do_read_def ata_setup_28 [OF t] ..
  have "ata_blk_loop (\<lambda>st. ata_do_read io st chan sel) st (l + 2 ^ 28) count b = ata_blk_loop (\<lambda>st. ata_do_read io st chan sel) st l count b"
    for chan sel l count b and st :: "('d, 'a) disk_state_scheme"
  proof (induction "unat count" arbitrary: st l count b rule: less_induct)
    case less
    have "ata_blk_loop (\<lambda>st. ata_do_read io st chan sel) st1 (l + 2 ^ 28 + ucast n) (count - ucast n) b1 =
        ata_blk_loop (\<lambda>st. ata_do_read io st chan sel) st1 (l + ucast n) (count - ucast n) b1"
      if "0 < count" "n = (if 255 < count then 255 else ucast count :: u8)" for n b1 and st1 :: "('d, 'a) disk_state_scheme"
      using less [of "count - ucast n" st1 "l + ucast n" b1] ata_chunk [OF that(1), folded that(2)] by (simp add: ac_simps)
    then show ?case
      by (subst (1 2) ata_blk_loop.simps) (simp only: x Let_def split: prod.splits, auto)
  qed
  then show ?thesis by (simp add: ata_blk_read_def)
qed

section \<open>A drive that answers at once\<close>

definition demo_ata :: "ata_hw ports" where
  "demo_ata = \<lparr>p_inb = (\<lambda>p h. (if p = 0x1F7 \<and> (hw_in h \<noteq> [] \<or> 0 < hw_want h) then 0x08 else 0, h\<lparr>hw_busy := 0\<rparr>)),
     p_outb = (\<lambda>p v h. if p = 0x1F6 then h\<lparr>hw_sel := v\<rparr> else if p = 0x1F2 then h\<lparr>hw_cnt := v\<rparr> else if p = 0x1F3 then h\<lparr>hw_lo := v\<rparr>
        else if p = 0x1F4 then h\<lparr>hw_mid := v\<rparr> else if p = 0x1F5 then h\<lparr>hw_hi := v\<rparr> else hw_command v (h\<lparr>hw_busy := 0\<rparr>)),
     p_inw = (\<lambda>p h. case hw_in h of [] \<Rightarrow> (0, h) | w # ws \<Rightarrow> (w, h\<lparr>hw_in := ws\<rparr>)),
     p_outw = (\<lambda>p w h. hw_take w h), p_inl = (\<lambda>p h. (0, h)), p_outl = (\<lambda>p v h. h)\<rparr>"

definition demo_dk :: "ata_hw \<Rightarrow> ata_hw" where
  "demo_dk h = h\<lparr>hw_busy := 0\<rparr>"

definition disk_demo :: "ata_hw disk_state" where
  "disk_demo = \<lparr>mem = (\<lambda>_. 0), pmm_bitmap = (\<lambda>_. 0), total_frames = 0, free_frames = 0, search_hint = 0, kernel_pml4 = 0, cr3 = 0,
     msrs = (\<lambda>_. 0), vmem = (\<lambda>a. ucast a), hmagic = (\<lambda>_. 0), slabs = (\<lambda>_. undefined), larges = (\<lambda>_. undefined), slab_classes = (\<lambda>_. 0),
     large_free_list = 0, heap_cursor = 0, heap_limit = 0,
     disk = \<lparr>hw_sel = 0, hw_cnt = 0, hw_lo = 0, hw_mid = 0, hw_hi = 0, hw_busy = 0, hw_in = [], hw_want = 0, hw_got = [], hw_next = 0,
       hw_disk = (\<lambda>(b, s). replicate 256 (of_nat s))\<rparr>,
     block_devices = (\<lambda>_. \<lparr>bd_name = ''ata1'', sector_count = 1000, sector_size = 512, read_only = False, bd_private = 1,
       bd_read = ata_blk_read_fn, bd_write = ata_blk_write_fn\<rparr>),
     blkdevs = replicate 16 0, blkdev_cnt = 0, ata_drives = replicate 4 ata_zero\<rparr>"

lemma demo_ata_dev: "ata_dev demo_ata (ata_base ! (1 div 2)) (ata_ctrl ! (1 div 2)) demo_dk"
  "ata_ignores_busy demo_ata (ata_base ! (1 div 2)) demo_dk"
  by (simp_all add: ata_dev_def ata_ignores_busy_def demo_ata_def demo_dk_def ata_base_def ata_ctrl_def kdefs busy_as_def hw_limit_def
      hw_command_def hw_take_def hw_slave_def hw_lba_def hw_count_def split: list.splits)

lemma demo_disk_ok: "bd_drive disk_demo 0x5000 = 1" "hw_idle (demo_dk (disk disk_demo))"
  by (simp_all add: disk_demo_def bd_drive_def hw_idle_def demo_dk_def hw_limit_def)

theorem ata_blk_read_reads_witness:
  "\<exists>st1. ata_blk_read demo_ata disk_demo 0x5000 5 300 0x9000 = (0, st1) \<and>
     get_bytes (vmem st1) 0x9000 153600 = words_bytes (sectors (disk disk_demo) True 5 300)"
  using ata_blk_read_reads [OF demo_disk_ok(1) demo_ata_dev(1) demo_disk_ok(2), where lba = 5 and count = 300 and buf = "0x9000"]
  by (simp add: sectors_def demo_dk_def) blast

theorem ata_write_read_roundtrip_witness:
  "\<exists>st1 st2. ata_blk_write demo_ata disk_demo 0x5000 5 300 0x9000 = (0, st1) \<and> ata_blk_read demo_ata st1 0x5000 5 300 0x90000 = (0, st2) \<and>
     get_bytes (vmem st2) 0x90000 153600 = get_bytes (\<lambda>a. ucast a) 0x9000 153600"
proof -
  have "vmem disk_demo = (\<lambda>a. ucast a)" by (simp add: disk_demo_def)
  then show ?thesis
    using ata_write_read_roundtrip [OF demo_disk_ok(1) demo_ata_dev demo_disk_ok(2), where lba = 5 and count = 300 and buf = "0x9000" and ?buf2.0 = "0x90000"] by simp blast
qed

end
