(* ===== verification/Ring.thy ===== *)
theory Ring
  imports Prelude
begin

text \<open>
  Ring buffers of the input drivers.  A ring is an array with a head index where the interrupt handler writes and a
  tail index where the reader reads; one slot stays empty.  The locale \<open>ring_queue\<close> is the contract the two
  drivers promise: a queue of bounded capacity that drops what does not fit.
\<close>

section \<open>Index arithmetic\<close>

definition ring_items :: "'e list \<Rightarrow> nat \<Rightarrow> nat \<Rightarrow> 'e list" where
  "ring_items b h t = map (\<lambda>i. b ! ((t + i) mod length b)) [0..<(h + length b - t) mod length b]"

lemma ring_dist:
  assumes "(h :: nat) < n" "t < n"
  shows "(t + (h + n - t) mod n) mod n = h" "(h + n - t) mod n < n"
proof -
  have "(t + (h + n - t) mod n) mod n = (h + n) mod n" using assms by (simp add: mod_add_right_eq)
  then show "(t + (h + n - t) mod n) mod n = h" "(h + n - t) mod n < n" using assms by simp_all
qed

lemma ring_dist_at:
  assumes "(t :: nat) < n" "k < n"
  shows "((t + k) mod n + n - t) mod n = k"
proof (cases "t + k < n")
  case False
  then have "(t + k) mod n = t + k - n" using assms by (simp add: mod_if)
  then show ?thesis using assms False by simp
qed (use assms in simp)

lemma ring_slots_distinct:
  assumes "(t :: nat) < n" "i < n" "k < n" "(t + i) mod n = (t + k) mod n"
  shows "i = k"
  using ring_dist_at [OF assms(1,2)] ring_dist_at [OF assms(1,3)] unfolding assms(4) by (rule trans [OF sym])

lemma ring_items_empty [simp]: "t < length b \<Longrightarrow> ring_items b t t = []"
  by (simp add: ring_items_def)

lemma ring_items_at: "t < length b \<Longrightarrow> k < length b \<Longrightarrow> ring_items b ((t + k) mod length b) t = map (\<lambda>i. b ! ((t + i) mod length b)) [0..<k]"
  by (simp add: ring_items_def ring_dist_at)

lemma length_ring_items: "h < length b \<Longrightarrow> t < length b \<Longrightarrow> length (ring_items b h t) < length b"
  using ring_dist(2) [of h "length b" t] by (simp add: ring_items_def)

lemma ring_put:
  assumes "h < length b" "t < length b"
  shows "(h + 1) mod length b = t \<longleftrightarrow> \<not> length (ring_items b h t) < length b - 1"
    "(h + 1) mod length b \<noteq> t \<Longrightarrow> ring_items (b[h := e]) ((h + 1) mod length b) t = ring_items b h t @ [e]"
proof -
  let ?n = "length b"
  define k where "k = (h + ?n - t) mod ?n"
  have k: "h = (t + k) mod ?n" "k < ?n" using ring_dist [OF assms] by (simp_all add: k_def)
  have l: "ring_items b h t = map (\<lambda>i. b ! ((t + i) mod ?n)) [0..<k]"
    unfolding k(1) by (rule ring_items_at [OF assms(2) k(2)])
  have s: "(h + 1) mod ?n = (t + Suc k) mod ?n" unfolding k(1) by (simp add: mod_Suc_eq)
  have "(t + Suc k) mod ?n = t \<longleftrightarrow> Suc k = ?n"
  proof
    assume a: "(t + Suc k) mod ?n = t"
    show "Suc k = ?n"
    proof (rule ccontr)
      assume "Suc k \<noteq> ?n"
      then have lt: "Suc k < ?n" and n: "0 < ?n" using k(2) by linarith+
      have "(t + Suc k) mod ?n = (t + 0) mod ?n" unfolding a using assms(2) by simp
      from ring_slots_distinct [OF assms(2) lt n this] have "Suc k = 0" .
      then show False by simp
    qed
  qed (use assms in simp)
  then show 1: "(h + 1) mod ?n = t \<longleftrightarrow> \<not> length (ring_items b h t) < ?n - 1"
    unfolding s l using k(2) by simp linarith
  assume "(h + 1) mod ?n \<noteq> t"
  then have lt: "Suc k < ?n" using 1 by (simp add: l)
  have "ring_items (b[h := e]) ((h + 1) mod ?n) t = map (\<lambda>i. b[h := e] ! ((t + i) mod ?n)) [0..<Suc k]"
    unfolding s using ring_items_at [of t "b[h := e]" "Suc k"] lt assms(2) by simp
  also have "\<dots> = map (\<lambda>i. b ! ((t + i) mod ?n)) [0..<k] @ [e]"
  proof -
    have "h \<noteq> (t + i) mod ?n" if "i < k" for i using ring_slots_distinct [OF assms(2), of i k] that k by auto
    then show ?thesis using assms k(1) by (auto simp: nth_list_update)
  qed
  finally show "ring_items (b[h := e]) ((h + 1) mod ?n) t = ring_items b h t @ [e]" by (simp add: l)
qed

lemma ring_get:
  assumes "h < length b" "t < length b" "h \<noteq> t"
  shows "ring_items b h t = b ! t # ring_items b h ((t + 1) mod length b)"
proof -
  let ?n = "length b"
  define k where "k = (h + ?n - t) mod ?n"
  have k: "h = (t + k) mod ?n" "k < ?n" using ring_dist [OF assms(1,2)] by (simp_all add: k_def)
  then obtain j where j: "k = Suc j" using assms by (cases k) auto
  let ?t = "(t + 1) mod ?n"
  have t: "?t < ?n" using assms(2) by (intro mod_less_divisor) linarith
  have m: "(?t + i) mod ?n = (t + Suc i) mod ?n" for i by (simp add: mod_add_left_eq)
  have "ring_items b h ?t = map (\<lambda>i. b ! ((?t + i) mod ?n)) [0..<j]"
    using ring_items_at [OF t, of j] k(2) unfolding k(1) j m [of j] by simp
  moreover have "ring_items b h t = map (\<lambda>i. b ! ((t + i) mod ?n)) [0..<Suc j]"
    unfolding k(1) j using ring_items_at [OF assms(2) k(2)] unfolding j .
  moreover have "(Suc t mod ?n + i) mod ?n = Suc (t + i) mod ?n" for i using m [of i] by simp
  ultimately show ?thesis using assms(2) by (simp add: map_upt_Suc del: upt_Suc)
qed

section \<open>The contract\<close>

locale ring_queue =
  fixes put :: "'e \<Rightarrow> 's \<Rightarrow> 's" and get :: "'s \<Rightarrow> ('e \<times> 's) option" and inv :: "'s \<Rightarrow> bool" and items :: "'s \<Rightarrow> 'e list" and room :: nat
  assumes put_inv: "inv s \<Longrightarrow> inv (put e s)"
    and items_le: "inv s \<Longrightarrow> length (items s) \<le> room"
    and put_items: "inv s \<Longrightarrow> items (put e s) = (if length (items s) < room then items s @ [e] else items s)"
    and get_empty: "inv s \<Longrightarrow> items s = [] \<Longrightarrow> get s = None"
    and get_items: "inv s \<Longrightarrow> items s = e # es \<Longrightarrow> \<exists>s'. get s = Some (e, s') \<and> inv s' \<and> items s' = es"
begin

lemma puts_inv: "inv s \<Longrightarrow> inv (fold put es s)"
  by (induction es arbitrary: s) (simp_all add: put_inv)

lemma puts_items: "inv s \<Longrightarrow> items (fold put es s) = items s @ take (room - length (items s)) es"
proof (induction es arbitrary: s)
  case (Cons e es)
  then show ?case using Cons.IH [OF put_inv [OF Cons.prems], of e] items_le [OF Cons.prems]
    by (auto simp: put_items take_Cons' Suc_diff_Suc)
qed simp

lemma fifo:
  assumes "inv s" "items s = []" "length (e # es) \<le> room"
  shows "\<exists>s'. get (fold put (e # es) s) = Some (e, s') \<and> items s' = es"
  using get_items [OF puts_inv [OF assms(1)], of "e # es" e es] puts_items [OF assms(1), of "e # es"] assms(2,3) by auto

end

end
