(* ===== verification/Keyboard.thy ===== *)
theory Keyboard
  imports Ring Proc Irq
begin

text \<open>
  The PS/2 keyboard driver, \<^verbatim>\<open>kernel/drivers/keyboard.c\<close>: the interrupt handler that turns scan codes into
  characters, the ring between it and the readers, and the tasks that wait for a key.  The ring is an
  interpretation of the contract \<open>ring_queue\<close>.

  A reader that finds the ring empty takes part in the second half of \<^verbatim>\<open>keyboard_read_char\<close> with interrupts
  disabled; the two halves are the operations \<open>keyboard_read_check\<close> and \<open>keyboard_read_block\<close>, and interrupts
  come between them.
\<close>

section \<open>State\<close>

definition KB_DATA :: u16 where [kdefs]: "KB_DATA = 0x60"
definition KB_STATUS :: u16 where [kdefs]: "KB_STATUS = 0x64"
definition KB_BUF_SIZE :: nat where [kdefs]: "KB_BUF_SIZE = 256"
definition KB_WAIT_MAX :: nat where [kdefs]: "KB_WAIT_MAX = 8"

record 'd kb_state = sched_state +
  kb_dev :: 'd
  kb_buf :: "u8 list"
  kb_head :: u32
  kb_tail :: u32
  kb_waiters :: "u64 list"   \<comment> \<open>the first \<^verbatim>\<open>kb_waiter_count\<close> entries\<close>
  shift_state :: bool
  caps_state :: bool

definition scancode_map :: "u8 list" where
  "scancode_map = [0, 0x1B] @ map of_char ''1234567890-='' @ [0x08, 0x09] @ map of_char ''qwertyuiop[]'' @ [0x0A, 0] @
     map of_char ''asdfghjkl;'' @ [0x27, 0x60, 0, 0x5C] @ map of_char ''zxcvbnm,./'' @ [0, 0x2A, 0, 0x20] @ replicate 70 0"

definition scancode_shift_map :: "u8 list" where
  "scancode_shift_map = [0, 0x1B] @ map of_char ''!@#$%^&*()_+'' @ [0x08, 0x09] @ map of_char ''QWERTYUIOP{}'' @ [0x0A, 0] @
     map of_char ''ASDFGHJKL:'' @ [0x22, 0x7E, 0, 0x7C] @ map of_char ''ZXCVBNM<>?'' @ [0, 0x2A, 0, 0x20] @ replicate 70 0"

section \<open>The interrupt handler\<close>

definition kb_put :: "u8 \<Rightarrow> ('d, 'a) kb_state_scheme \<Rightarrow> ('d, 'a) kb_state_scheme" where
  "kb_put c st =
     (let next = (kb_head st + 1) mod of_nat KB_BUF_SIZE
      in if next \<noteq> kb_tail st then st\<lparr>kb_buf := (kb_buf st)[unat (kb_head st) := c], kb_head := next\<rparr> else st)"

definition kb_irq_handler :: "'d ports \<Rightarrow> ('d, 'a) kb_state_scheme \<Rightarrow> ('d, 'a) kb_state_scheme" where
  "kb_irq_handler io st =
     (case p_inb io KB_DATA (kb_dev st) of (sc, d) \<Rightarrow>
        let st = st\<lparr>kb_dev := d\<rparr>
        in if sc AND 0x80 \<noteq> 0 then
             (if sc AND 0x7F = 0x2A \<or> sc AND 0x7F = 0x36 then st\<lparr>shift_state := False\<rparr> else st)
           else if sc = 0x2A \<or> sc = 0x36 then st\<lparr>shift_state := True\<rparr>
           else if sc = 0x3A then st\<lparr>caps_state := \<not> caps_state st\<rparr>
           else if 128 \<le> sc then st
           else
             let c = (if shift_state st \<or> caps_state st then scancode_shift_map else scancode_map) ! unat sc
             in if c = 0 then st
                else
                  let st = kb_put c st;
                      st = unblock_all st (kb_waiters st)
                  in st\<lparr>kb_waiters := []\<rparr>)"

partial_function (option) kb_drain :: "'d ports \<Rightarrow> 'd \<Rightarrow> 'd option" where
  \<comment> \<open>\<^verbatim>\<open>while (inb(KB_STATUS) & 1) inb(KB_DATA)\<close>\<close>
  "kb_drain io d = (case p_inb io KB_STATUS d of (s, d) \<Rightarrow>
     if s AND 1 \<noteq> 0 then kb_drain io (snd (p_inb io KB_DATA d)) else Some d)"

definition keyboard_init :: "'d ports \<Rightarrow> 'h \<Rightarrow> ('h, 'd, 'a) irq_state_scheme \<Rightarrow> ('h, 'd, 'a) irq_state_scheme option" where
  \<comment> \<open>\<open>handler\<close> is the address of \<^verbatim>\<open>kb_irq_handler\<close>\<close>
  "keyboard_init io handler st = do {
     d \<leftarrow> kb_drain io (irq_dev st);
     let st1 = irq_register io (st\<lparr>irq_dev := d\<rparr>) 1 (Some handler);
     d1 \<leftarrow> serial_printf io (irq_dev st1) (''[KB] PS/2 keyboard initialized'' @ [CHR 0x0A]) [];
     Some (st1\<lparr>irq_dev := d1\<rparr>)
   }"

section \<open>Readers\<close>

definition keyboard_poll :: "('d, 'a) kb_state_scheme \<Rightarrow> int \<times> ('d, 'a) kb_state_scheme" where
  "keyboard_poll st =
     (if kb_head st = kb_tail st then (- 1, st)
      else (uint (kb_buf st ! unat (kb_tail st)), st\<lparr>kb_tail := (kb_tail st + 1) mod of_nat KB_BUF_SIZE\<rparr>))"

definition keyboard_read_check :: "('d, 'a) kb_state_scheme \<Rightarrow> int option \<times> ('d, 'a) kb_state_scheme" where
  \<comment> \<open>the head of the loop of \<^verbatim>\<open>keyboard_read_char\<close>: the character it returns, or \<open>None\<close> to go on\<close>
  "keyboard_read_check st =
     (if kb_head st \<noteq> kb_tail st then case keyboard_poll st of (c, st1) \<Rightarrow> (Some c, st1) else (None, st))"

definition keyboard_read_block :: "('d, 'a) kb_state_scheme \<Rightarrow> (bool \<times> ('d, 'a) kb_state_scheme) option" where
  \<comment> \<open>the rest of the loop body, and whether another task runs now; when the reader runs again it is at the head of the loop\<close>
  "keyboard_read_block st =
     (let (flags, st1) = irq_save st
      in if kb_head st1 \<noteq> kb_tail st1 then Some (False, irq_restore st1 flags)
         else do {
           let st2 = (if current_task st1 \<noteq> 0 \<and> length (kb_waiters st1) < KB_WAIT_MAX
                      then st1\<lparr>kb_waiters := kb_waiters st1 @ [current_task st1]\<rparr> else st1);
           (sw, st3) \<leftarrow> sched_block st2 (current_task st2) 0xFFFFFFFFFFFFFFFF;
           Some (sw, if sw then st3 else irq_restore st3 flags)
         })"

section \<open>The ring is a queue of 255 characters\<close>

definition kb_inv :: "('d, 'a) kb_state_scheme \<Rightarrow> bool" where
  "kb_inv st \<longleftrightarrow> length (kb_buf st) = KB_BUF_SIZE \<and> unat (kb_head st) < KB_BUF_SIZE \<and> unat (kb_tail st) < KB_BUF_SIZE"

definition kb_items :: "('d, 'a) kb_state_scheme \<Rightarrow> u8 list" where
  "kb_items st = ring_items (kb_buf st) (unat (kb_head st)) (unat (kb_tail st))"

definition kb_get :: "('d, 'a) kb_state_scheme \<Rightarrow> (u8 \<times> ('d, 'a) kb_state_scheme) option" where
  \<comment> \<open>\<^verbatim>\<open>keyboard_poll\<close> with its answer -1 as \<open>None\<close>\<close>
  "kb_get st = (case keyboard_poll st of (r, st1) \<Rightarrow> if r = - 1 then None else Some (of_int r, st1))"

lemma ring_next:
  assumes "unat (h :: u32) < n" "n \<le> 65536"
  shows "unat ((h + 1) mod of_nat n) = (unat h + 1) mod n"
proof -
  have "unat (h + 1) = unat h + 1" "unat (of_nat n :: u32) = n"
    using assms by (simp_all add: unat_word_ariths unat_of_nat take_bit_nat_eq_self)
  then show ?thesis by (simp add: unat_mod)
qed

lemma ring_next_less: "0 < n \<Longrightarrow> (x :: nat) mod n < n"
  by simp

lemma uint_not_m1: "uint c \<noteq> - 1" for c :: u8
  using unsigned_greater_eq [of c, where ?'a = int] by linarith

interpretation kb: ring_queue kb_put kb_get kb_inv kb_items 255
proof
  fix st :: "('a, 'b) kb_state_scheme" and c :: u8 and es
  assume inv: "kb_inv st"
  let ?b = "kb_buf st" and ?h = "unat (kb_head st)" and ?t = "unat (kb_tail st)"
  have l: "length ?b = 256" and h: "?h < length ?b" and t: "?t < length ?b" using inv by (simp_all add: kb_inv_def KB_BUF_SIZE_def)
  have n: "unat ((w + 1) mod of_nat KB_BUF_SIZE) = (unat w + 1) mod length ?b" if "unat w < length ?b" for w :: u32
    using ring_next [of w 256] that l by (simp add: KB_BUF_SIZE_def)
  have m: "(x :: nat) mod length ?b < 256" for x using l by simp
  have e: "(kb_head st + 1) mod of_nat KB_BUF_SIZE = kb_tail st \<longleftrightarrow> (?h + 1) mod length ?b = ?t"
    using n [OF h] by (simp add: word_unat_eq_iff)
  show "kb_inv (kb_put c st)"
    using inv n [OF h] m by (simp add: kb_put_def kb_inv_def KB_BUF_SIZE_def Let_def l)
  show "length (kb_items st) \<le> 255" using length_ring_items [OF h t] l by (simp add: kb_items_def)
  show "kb_items (kb_put c st) = (if length (kb_items st) < 255 then kb_items st @ [c] else kb_items st)"
    using ring_put [OF h t] e n [OF h] l by (simp add: kb_put_def kb_items_def Let_def)
  have z: "?h = ?t \<longleftrightarrow> kb_head st = kb_tail st" by (simp add: word_unat_eq_iff)
  show "kb_get st = None" if "kb_items st = []"
    using that ring_get [OF h t] by (cases "?h = ?t") (simp_all add: kb_items_def kb_get_def keyboard_poll_def z)
  show "\<exists>st1. kb_get st = Some (c, st1) \<and> kb_inv st1 \<and> kb_items st1 = es" if i: "kb_items st = c # es"
  proof -
    have ne: "?h \<noteq> ?t" using i t by (auto simp: kb_items_def)
    then have g: "?b ! ?t = c" "ring_items ?b ?h ((?t + 1) mod length ?b) = es" using ring_get [OF h t ne] i by (simp_all add: kb_items_def)
    show ?thesis using ne g n [OF t] m inv uint_not_m1 [of c] by (simp add: kb_get_def keyboard_poll_def z kb_inv_def kb_items_def KB_BUF_SIZE_def l)
  qed
qed

section \<open>From scan codes to text\<close>

definition kb_hw :: "'d ports \<Rightarrow> ('d \<Rightarrow> u8 list) \<Rightarrow> bool" where
  \<comment> \<open>reading the data port of a controller takes the next scan code out of its queue\<close>
  "kb_hw io codes \<longleftrightarrow> (\<forall>d sc scs. codes d = sc # scs \<longrightarrow> fst (p_inb io KB_DATA d) = sc \<and> codes (snd (p_inb io KB_DATA d)) = scs)"

fun kb_text :: "bool \<Rightarrow> bool \<Rightarrow> u8 list \<Rightarrow> u8 list" where
  \<comment> \<open>what a sequence of scan codes types, from the states of the shift and caps keys\<close>
  "kb_text shift caps [] = []"
| "kb_text shift caps (sc # scs) =
     (if sc = 0x2A \<or> sc = 0x36 then kb_text True caps scs
      else if sc = 0xAA \<or> sc = 0xB6 then kb_text False caps scs
      else if sc = 0x3A then kb_text shift (\<not> caps) scs
      else if 128 \<le> sc \<or> scancode_map ! unat sc = 0 then kb_text shift caps scs
      else (if shift \<or> caps then scancode_shift_map else scancode_map) ! unat sc # kb_text shift caps scs)"

lemma release_code: "(sc :: u8) AND 0x80 \<noteq> 0 \<longleftrightarrow> 128 \<le> sc" "128 \<le> sc \<Longrightarrow> sc AND 0x7F = sc - 128"
proof -
  have "sc AND 0x80 = 0 \<longleftrightarrow> \<not> bit sc 7" using and_exp_eq_0_iff_not_bit [of sc 7] by simp
  moreover have "bit sc 7 \<longleftrightarrow> odd (unat sc div 128)" 
    using bit_unsigned_iff [of sc 7, where ?'a = nat] by (simp add: bit_iff_odd [of "unat sc"])
  moreover have "unat sc div 128 < 2" using unat_u8_lt [of sc] by simp
  ultimately show 1: "sc AND 0x80 \<noteq> 0 \<longleftrightarrow> 128 \<le> sc" by (auto simp: word_le_nat_alt less_2_cases_iff)
  assume ge: "128 \<le> sc"
  have "sc AND 0x7F = take_bit 7 sc" by (simp add: take_bit_eq_mask mask_eq_exp_minus_1)
  then have "unat (sc AND 0x7F) = take_bit 7 (unat sc)" by (simp only: unsigned_take_bit_eq)
  then have "unat (sc AND 0x7F) = unat sc mod 128" by (simp add: take_bit_eq_mod)
  also have "\<dots> = unat (sc - 128)" using ge unat_u8_lt [of sc] by (simp add: unat_sub word_le_nat_alt mod_if)
  finally show "sc AND 0x7F = sc - 128" by (simp add: word_unat_eq_iff)
qed

lemma maps_agree: "unat (sc :: u8) < 128 \<Longrightarrow> scancode_shift_map ! unat sc = 0 \<longleftrightarrow> scancode_map ! unat sc = 0"
proof -
  have "list_all (\<lambda>i. scancode_shift_map ! i = 0 \<longleftrightarrow> scancode_map ! i = 0) [0..<128]" by code_simp
  then show "unat sc < 128 \<Longrightarrow> scancode_shift_map ! unat sc = 0 \<longleftrightarrow> scancode_map ! unat sc = 0" by (simp add: list_all_iff)
qed

lemma kb_fields_more:
  assumes "sched_state.more s = sched_state.more t"
  shows "kb_dev s = kb_dev t" "kb_buf s = kb_buf t" "kb_head s = kb_head t" "kb_tail s = kb_tail t" "kb_waiters s = kb_waiters t"
    "shift_state s = shift_state t" "caps_state s = caps_state t"
  using assms by (cases s, cases t, simp add: sched_state.defs)+

lemma unblock_all_more [simp]: "sched_state.more (unblock_all st ws) = sched_state.more st"
  by (induction st ws rule: unblock_all.induct) (simp_all add: sched_unblock_more)

lemmas unblock_all_kb [simp] = kb_fields_more [OF unblock_all_more]

lemma kb_put_keeps [simp]:
  "kb_dev (kb_put c st) = kb_dev st" "kb_waiters (kb_put c st) = kb_waiters st" "shift_state (kb_put c st) = shift_state st"
  "caps_state (kb_put c st) = caps_state st" "tasks (kb_put c st) = tasks st" "current_task (kb_put c st) = current_task st"
  "run_queue_head (kb_put c st) = run_queue_head st" "idle_task (kb_put c st) = idle_task st" "sleep_list (kb_put c st) = sleep_list st"
  by (simp_all add: kb_put_def Let_def)

lemma kb_ring_cong:
  assumes "kb_buf s = kb_buf t" "kb_head s = kb_head t" "kb_tail s = kb_tail t"
  shows "kb_inv s = kb_inv t" "kb_items s = kb_items t"
  using assms by (simp_all add: kb_inv_def kb_items_def)

definition kb_event :: "bool \<Rightarrow> bool \<Rightarrow> u8 \<Rightarrow> bool \<times> bool \<times> u8 option" where
  \<comment> \<open>the key states after a scan code, and the character it types\<close>
  "kb_event shift caps sc =
     (if sc = 0x2A \<or> sc = 0x36 then (True, caps, None)
      else if sc = 0xAA \<or> sc = 0xB6 then (False, caps, None)
      else if sc = 0x3A then (shift, \<not> caps, None)
      else if 128 \<le> sc \<or> scancode_map ! unat sc = 0 then (shift, caps, None)
      else (shift, caps, Some ((if shift \<or> caps then scancode_shift_map else scancode_map) ! unat sc)))"

lemma kb_text_event:
  "kb_text shift caps (sc # scs) = (case kb_event shift caps sc of (s, c, e) \<Rightarrow> (case e of None \<Rightarrow> [] | Some x \<Rightarrow> [x]) @ kb_text s c scs)"
  by (simp add: kb_event_def)

lemma kb_irq_handler_event:
  assumes "p_inb io KB_DATA (kb_dev st) = (sc, d)"
  shows "kb_irq_handler io st = (case kb_event (shift_state st) (caps_state st) sc of (s, c, e) \<Rightarrow>
     let st1 = st\<lparr>kb_dev := d, shift_state := s, caps_state := c\<rparr>
     in (case e of None \<Rightarrow> st1 | Some x \<Rightarrow> (unblock_all (kb_put x st1) (kb_waiters st))\<lparr>kb_waiters := []\<rparr>))"
proof -
  have a: "sc AND 0x7F = 0x2A \<longleftrightarrow> sc = 0xAA" "sc AND 0x7F = 0x36 \<longleftrightarrow> sc = 0xB6" if "128 \<le> sc"
    using release_code(2) [OF that] by (auto simp: diff_eq_eq)
  have b: "scancode_shift_map ! unat sc = 0 \<longleftrightarrow> scancode_map ! unat sc = 0" if "\<not> 128 \<le> sc"
    using maps_agree [of sc] that by (simp add: word_le_nat_alt)
  have n: "\<not> (128 :: u8) \<le> 0x2A" "\<not> (128 :: u8) \<le> 0x36" "\<not> (128 :: u8) \<le> 0x3A" "(128 :: u8) \<le> 0xAA" "(128 :: u8) \<le> 0xB6" by simp_all
  show ?thesis
  proof (cases "128 \<le> sc")
    case True
    then have "sc \<noteq> 0x2A" "sc \<noteq> 0x36" "sc \<noteq> 0x3A" using n by auto
    then show ?thesis using True assms by (simp add: kb_irq_handler_def kb_event_def release_code(1) a [OF True])
  next
    case False
    then have "sc \<noteq> 0xAA" "sc \<noteq> 0xB6" using n by auto
    then show ?thesis using False assms b [OF False] by (cases st) (simp add: kb_irq_handler_def kb_event_def release_code(1) Let_def)
  qed
qed

lemma keyboard_poll_get:
  "kb_get st = None \<Longrightarrow> keyboard_poll st = (- 1, st)" "kb_get st = Some (c, st1) \<Longrightarrow> keyboard_poll st = (uint c, st1)"
  by (cases "kb_head st = kb_tail st"; simp add: kb_get_def keyboard_poll_def uint_not_m1)+

lemma kb_irq_step:
  assumes "kb_hw io codes" "codes (kb_dev st) = sc # scs" "kb_inv st" "kb_event (shift_state st) (caps_state st) sc = (s, c, e)"
    "st1 = kb_irq_handler io st"
  shows "codes (kb_dev st1) = scs" "shift_state st1 = s" "caps_state st1 = c" "kb_inv st1"
    "kb_items st1 = kb_items st @ take (255 - length (kb_items st)) (case e of None \<Rightarrow> [] | Some x \<Rightarrow> [x])"
proof -
  obtain d where d: "p_inb io KB_DATA (kb_dev st) = (sc, d)" "codes d = scs"
    using assms(1) [unfolded kb_hw_def, rule_format, OF assms(2)] by (cases "p_inb io KB_DATA (kb_dev st)") auto
  let ?s = "st\<lparr>kb_dev := d, shift_state := s, caps_state := c\<rparr>"
  have e: "st1 = (case e of None \<Rightarrow> ?s | Some x \<Rightarrow> (unblock_all (kb_put x ?s) (kb_waiters st))\<lparr>kb_waiters := []\<rparr>)"
    using kb_irq_handler_event [OF d(1)] assms(4,5) by (simp add: Let_def)
  have r: "kb_inv ?s" "kb_items ?s = kb_items st" using assms(3) by (simp_all add: kb_inv_def kb_items_def)
  have i: "kb_inv (kb_put x ?s)" "kb_items (kb_put x ?s) = kb_items st @ take (255 - length (kb_items st)) [x]" for x
    using kb.put_inv [OF r(1)] kb.put_items [OF r(1)] kb.items_le [OF r(1)] r(2) by auto
  have u: "kb_inv ((unblock_all y ws)\<lparr>kb_waiters := []\<rparr>) = kb_inv y" "kb_items ((unblock_all y ws)\<lparr>kb_waiters := []\<rparr>) = kb_items y" for y :: "('a, 'b) kb_state_scheme" and ws
    by (simp_all add: kb_inv_def kb_items_def)
  show "codes (kb_dev st1) = scs" "shift_state st1 = s" "caps_state st1 = c" using d(2) by (simp_all add: e split: option.splits)
  show "kb_inv st1" "kb_items st1 = kb_items st @ take (255 - length (kb_items st)) (case e of None \<Rightarrow> [] | Some x \<Rightarrow> [x])"
    using r i by (simp_all add: e u split: option.splits)
qed

text \<open>
  C24: The keyboard delivers what is typed.  After one interrupt per scan code the ring holds the characters that were
  waiting followed by the characters the scan codes stand for, up to the 255 that fit; and
  \<^verbatim>\<open>keyboard_poll\<close> takes them out in order, answering -1 when none is left.
\<close>

theorem keyboard_types:
  assumes "kb_hw io codes" "codes (kb_dev st) = scs" "kb_inv st" "st1 = (kb_irq_handler io ^^ length scs) st"
  shows "kb_inv st1 \<and>
    kb_items st1 = kb_items st @ take (255 - length (kb_items st)) (kb_text (shift_state st) (caps_state st) scs) \<and>
    (case kb_items st1 of [] \<Rightarrow> keyboard_poll st1 = (- 1, st1)
     | c # cs \<Rightarrow> (\<exists>st2. keyboard_poll st1 = (uint c, st2) \<and> kb_inv st2 \<and> kb_items st2 = cs))"
proof -
  have "kb_inv st1 \<and> kb_items st1 = kb_items st @ take (255 - length (kb_items st)) (kb_text (shift_state st) (caps_state st) scs)"
    using assms(2-4)
  proof (induction scs arbitrary: st)
    case (Cons sc scs)
    obtain s c e where ev: "kb_event (shift_state st) (caps_state st) sc = (s, c, e)" by (cases "kb_event (shift_state st) (caps_state st) sc")
    note r = kb_irq_step [OF assms(1) Cons.prems(1,2) ev refl]
    have "st1 = (kb_irq_handler io ^^ length scs) (kb_irq_handler io st)" using Cons.prems(3) by (simp add: funpow_swap1)
    note ih = Cons.IH [OF r(1,4) this, unfolded r(2,3,5)]
    have t: "kb_text (shift_state st) (caps_state st) (sc # scs) = (case e of None \<Rightarrow> [] | Some x \<Rightarrow> [x]) @ kb_text s c scs"
      unfolding kb_text_event ev by simp
    obtain k where k: "255 - length (kb_items st) = k" by simp
    have "255 - length (kb_items st @ take k es) = k - length es" if "length es \<le> 1" for es
      using k that by (cases "k = 0") auto
    then have "take k es @ take (255 - length (kb_items st @ take k es)) xs = take k (es @ xs)" if "length es \<le> 1" for es xs
      using that by simp
    moreover have "length (case e of None \<Rightarrow> [] | Some x \<Rightarrow> [x]) \<le> 1" by (simp split: option.splits)
    ultimately show ?case using ih unfolding t k by simp
  qed simp
  moreover have "case kb_items st1 of [] \<Rightarrow> keyboard_poll st1 = (- 1, st1)
     | c # cs \<Rightarrow> (\<exists>st2. keyboard_poll st1 = (uint c, st2) \<and> kb_inv st2 \<and> kb_items st2 = cs)" if "kb_inv st1"
    using kb.get_empty [OF that] kb.get_items [OF that] keyboard_poll_get [of st1] by (cases "kb_items st1") force+
  ultimately show ?thesis by blast
qed

section \<open>Waiting for a key\<close>

lemma run_queue_more [simp]:
  "sched_state.more (run_queue_add st t) = sched_state.more st" "sched_state.more (run_queue_remove st t) = sched_state.more st"
  by (simp_all add: run_queue_add_def run_queue_remove_def Let_def)

lemma sched_do_switch_more [simp]: "sched_state.more (snd (sched_do_switch st next)) = sched_state.more st"
  by (simp add: sched_do_switch_def sched_switch_def Let_def)

lemma sched_block_more: "sched_block st t w = Some (sw, st1) \<Longrightarrow> sched_state.more st1 = sched_state.more st"
  using sched_do_switch_more
  by (auto simp: sched_block_def Let_def irq_save_def irq_restore_def case_prod_beta bind_eq_Some_conv split: if_splits)

lemma sched_do_switch_state:
  "u \<noteq> next \<Longrightarrow> t_state (tasks st u) \<noteq> TASK_RUNNING \<Longrightarrow> t_state (tasks (snd (sched_do_switch st next)) u) = t_state (tasks st u)"
  by (auto simp: sched_do_switch_def sched_switch_def Let_def run_queue_add_state run_queue_remove_state set_task_def)

lemma sched_block_state:
  assumes "sched_inv T st xs" "current_task st \<noteq> idle_task st" "sched_block st (current_task st) w = Some (sw, st1)"
  shows "t_state (tasks st1 (current_task st)) = TASK_BLOCKED"
proof -
  let ?t = "current_task st"
  note i = sched_invD [OF assms(1)]
  obtain sw' st' where b: "sched_block st ?t w = Some (sw', st')" "current_task st' = next_up st xs"
    using sched_block_inv [OF assms(1) _ assms(2), of w] i(2) by (metis (full_types))
  then have c: "current_task st1 = next_up st xs" using assms(3) by simp
  let ?f = "\<lambda>k. k\<lparr>t_state := TASK_BLOCKED, t_wake_tick := w\<rparr>"
  define st3 where "st3 = run_queue_remove (set_task (st\<lparr>irq_enabled := False\<rparr>) ?t ?f) ?t"
  define st5 where "st5 = (if length (sleep_list st3) < SLEEP_LIST_MAX then st3\<lparr>sleep_list := sleep_list st3 @ [?t]\<rparr> else st3)\<lparr>in_sched := True\<rparr>"
  have 3: "current_task st5 = ?t" "t_state (tasks st5 ?t) = TASK_BLOCKED"
    by (simp_all add: st5_def st3_def run_queue_remove_state set_task_def)
  obtain n where n: "st1 = snd (sched_do_switch st5 n) \<or> st1 = irq_restore (snd (sched_do_switch st5 n)) (irq_enabled st)"
    using assms(3) 3(1)
    by (auto simp: sched_block_def Let_def irq_save_def case_prod_beta bind_eq_Some_conv st5_def st3_def split: if_splits)
  have k: "current_task (snd (sched_do_switch st5 n)) = n" by (simp add: sched_do_switch_def sched_switch_def Let_def)
  have "current_task st1 = n" "t_state (tasks st1 ?t) = t_state (tasks (snd (sched_do_switch st5 n)) ?t)"
    using n k by (auto simp: irq_restore_def)
  moreover have "n \<noteq> ?t" using c calculation(1) assms(2) i(3) by (cases xs) (auto simp: next_up_def)
  ultimately show ?thesis using sched_do_switch_state [of ?t n st5] 3(2) by simp
qed

lemma kb_irq_wakes:
  assumes "sched_inv T st xs" "set (kb_waiters st) - {0} \<subseteq> T" "p_inb io KB_DATA (kb_dev st) = (sc, d)"
    "kb_event (shift_state st) (caps_state st) sc = (s, c, Some x)"
  shows "\<exists>ys. sched_inv T (kb_irq_handler io st) (xs @ ys)" "kb_waiters (kb_irq_handler io st) = []"
    "t_state (tasks (kb_irq_handler io st) u) =
       (if u \<in> set (kb_waiters st) - {0} \<and> t_state (tasks st u) = TASK_BLOCKED then TASK_READY else t_state (tasks st u))"
proof -
  let ?s = "kb_put x (st\<lparr>kb_dev := d, shift_state := s, caps_state := c\<rparr>)"
  have e: "kb_irq_handler io st = (unblock_all ?s (kb_waiters st))\<lparr>kb_waiters := []\<rparr>"
    using kb_irq_handler_event [OF assms(3)] assms(4) by (simp add: Let_def)
  have "sched_inv T ?s xs" by (rule sched_inv_cong [OF assms(1)]) simp_all
  note u = unblock_all_inv [OF this assms(2)]
  then obtain ys where "sched_inv T (unblock_all ?s (kb_waiters st)) (xs @ ys)" by blast
  then have "sched_inv T (kb_irq_handler io st) (xs @ ys)" unfolding e by (rule sched_inv_cong) simp_all
  then show "\<exists>ys. sched_inv T (kb_irq_handler io st) (xs @ ys)" by blast
  show "kb_waiters (kb_irq_handler io st) = []" by (simp add: e)
  show "t_state (tasks (kb_irq_handler io st) u) =
       (if u \<in> set (kb_waiters st) - {0} \<and> t_state (tasks st u) = TASK_BLOCKED then TASK_READY else t_state (tasks st u))"
    using u [THEN conjunct2, THEN conjunct2, THEN spec [of _ u]] by (simp add: e)
qed


section \<open>Witnesses\<close>

definition demo_kb :: "u8 list ports" where
  "demo_kb = \<lparr>p_inb = (\<lambda>p d. (hd (d @ [0]), tl d)), p_outb = (\<lambda>p v d. d), p_inw = (\<lambda>p d. (0, d)), p_outw = (\<lambda>p v d. d),
     p_inl = (\<lambda>p d. (0, d)), p_outl = (\<lambda>p v d. d)\<rparr>"

definition kb_demo :: "u8 list \<Rightarrow> u8 list kb_state" where
  "kb_demo scs = sched_state.extend (sched_demo 0x2000 [0x3000])
     \<lparr>kb_dev = scs, kb_buf = replicate 256 0, kb_head = 7, kb_tail = 7, kb_waiters = [], shift_state = False, caps_state = False\<rparr>"

lemma kb_demo_sel [simp]:
  "kb_dev (kb_demo scs) = scs" "kb_buf (kb_demo scs) = replicate 256 0" "kb_head (kb_demo scs) = 7" "kb_tail (kb_demo scs) = 7"
  "kb_waiters (kb_demo scs) = []" "shift_state (kb_demo scs) = False" "caps_state (kb_demo scs) = False"
  "tasks (kb_demo scs) = tasks (sched_demo 0x2000 [0x3000])" "current_task (kb_demo scs) = current_task (sched_demo 0x2000 [0x3000])"
  "idle_task (kb_demo scs) = idle_task (sched_demo 0x2000 [0x3000])" "sleep_list (kb_demo scs) = sleep_list (sched_demo 0x2000 [0x3000])"
  "run_queue_head (kb_demo scs) = run_queue_head (sched_demo 0x2000 [0x3000])"
  by (simp_all add: kb_demo_def sched_state.defs)

lemma kb_demo_ok: "kb_hw demo_kb (\<lambda>d. d)" "kb_inv (kb_demo scs)" "kb_items (kb_demo scs) = []"
  by (simp_all add: kb_hw_def demo_kb_def kb_inv_def kb_items_def KB_BUF_SIZE_def)

theorem keyboard_types_witness:
  "kb_items ((kb_irq_handler demo_kb ^^ 4) (kb_demo [0x2A, 0x23, 0xAA, 0x17])) = map of_char ''Hi''"
proof -
  have "kb_text False False [0x2A, 0x23, 0xAA, 0x17] = map of_char ''Hi''" by code_simp
  then show ?thesis
    using keyboard_types [OF kb_demo_ok(1) refl kb_demo_ok(2) refl, of "[0x2A, 0x23, 0xAA, 0x17]"] by (simp add: kb_demo_ok(3) numeral_eq_Suc)
qed


end
