(* ===== verification/Mouse.thy ===== *)
theory Mouse
  imports Keyboard
begin

text \<open>
  The PS/2 mouse driver, \<^verbatim>\<open>kernel/drivers/mouse.c\<close>: the controller commands, the interrupt handler that assembles
  three-byte packets into events, and the ring between it and the readers, which is a second interpretation of the
  contract \<open>ring_queue\<close>.
\<close>

section \<open>State\<close>

definition PS2_DATA :: u16 where [kdefs]: "PS2_DATA = 0x60"
definition PS2_STATUS :: u16 where [kdefs]: "PS2_STATUS = 0x64"
definition PS2_CMD :: u16 where [kdefs]: "PS2_CMD = 0x64"
definition PS2_STATUS_OBF :: u8 where [kdefs]: "PS2_STATUS_OBF = 1"
definition PS2_STATUS_IBF :: u8 where [kdefs]: "PS2_STATUS_IBF = 2"
definition MOUSE_BUF_SIZE :: nat where [kdefs]: "MOUSE_BUF_SIZE = 64"
definition MOUSE_WAIT_MAX :: nat where [kdefs]: "MOUSE_WAIT_MAX = 4"

record mouse_event =
  dx :: u8   \<comment> \<open>\<^verbatim>\<open>int8_t\<close>\<close>
  dy :: u8   \<comment> \<open>\<^verbatim>\<open>int8_t\<close>\<close>
  buttons :: u8
  overflow_x :: bool
  overflow_y :: bool
  ev_valid :: bool

record 'd mouse_state = sched_state +
  mouse_dev :: 'd
  mouse_buf :: "mouse_event list"
  mouse_head :: u32
  mouse_tail :: u32
  packet :: "u8 list"   \<comment> \<open>the three bytes\<close>
  packet_idx :: nat
  mouse_waiters :: "u64 list"   \<comment> \<open>the first \<^verbatim>\<open>mouse_waiter_count\<close> entries\<close>

section \<open>The controller\<close>

fun ps2_wait_write_loop :: "'d ports \<Rightarrow> nat \<Rightarrow> 'd \<Rightarrow> 'd" where
  \<comment> \<open>\<^verbatim>\<open>while ((inb(PS2_STATUS) & PS2_STATUS_IBF) && timeout--)\<close>\<close>
  "ps2_wait_write_loop io 0 d = snd (p_inb io PS2_STATUS d)"
| "ps2_wait_write_loop io (Suc n) d = (case p_inb io PS2_STATUS d of (s, d) \<Rightarrow>
     if s AND PS2_STATUS_IBF \<noteq> 0 then ps2_wait_write_loop io n d else d)"

definition ps2_wait_write :: "'d ports \<Rightarrow> 'd \<Rightarrow> 'd" where
  "ps2_wait_write io d = ps2_wait_write_loop io 100000 d"

fun ps2_wait_read_loop :: "'d ports \<Rightarrow> nat \<Rightarrow> 'd \<Rightarrow> 'd" where
  "ps2_wait_read_loop io 0 d = snd (p_inb io PS2_STATUS d)"
| "ps2_wait_read_loop io (Suc n) d = (case p_inb io PS2_STATUS d of (s, d) \<Rightarrow>
     if s AND PS2_STATUS_OBF = 0 then ps2_wait_read_loop io n d else d)"

definition ps2_wait_read :: "'d ports \<Rightarrow> 'd \<Rightarrow> 'd" where
  "ps2_wait_read io d = ps2_wait_read_loop io 100000 d"

definition ps2_cmd :: "'d ports \<Rightarrow> u8 \<Rightarrow> 'd \<Rightarrow> 'd" where
  "ps2_cmd io cmd d = p_outb io PS2_CMD cmd (ps2_wait_write io d)"

definition ps2_write :: "'d ports \<Rightarrow> u8 \<Rightarrow> 'd \<Rightarrow> 'd" where
  "ps2_write io val d = p_outb io PS2_DATA val (ps2_wait_write io d)"

definition mouse_write :: "'d ports \<Rightarrow> u8 \<Rightarrow> 'd \<Rightarrow> 'd" where
  "mouse_write io val d = ps2_write io val (ps2_cmd io 0xD4 d)"

definition ps2_read :: "'d ports \<Rightarrow> 'd \<Rightarrow> u8 \<times> 'd" where
  "ps2_read io d = p_inb io PS2_DATA (ps2_wait_read io d)"

section \<open>The interrupt handler\<close>

definition mouse_put :: "mouse_event \<Rightarrow> ('d, 'a) mouse_state_scheme \<Rightarrow> ('d, 'a) mouse_state_scheme" where
  "mouse_put ev st =
     (let next = (mouse_head st + 1) mod of_nat MOUSE_BUF_SIZE
      in if next \<noteq> mouse_tail st then st\<lparr>mouse_buf := (mouse_buf st)[unat (mouse_head st) := ev], mouse_head := next\<rparr> else st)"

definition mouse_decode :: "u8 \<Rightarrow> u8 \<Rightarrow> u8 \<Rightarrow> mouse_event" where
  "mouse_decode flags raw_x raw_y =
     (let x = (if flags AND 0x10 \<noteq> 0 then ucast (ucast raw_x OR 0x100 :: u32) else raw_x);
          y = (if flags AND 0x20 \<noteq> 0 then ucast (ucast raw_y OR 0x100 :: u32) else raw_y)
      in \<lparr>dx = x, dy = - y, buttons = flags AND 0x07, overflow_x = (drop_bit 6 flags AND 1 \<noteq> 0),
          overflow_y = (drop_bit 7 flags AND 1 \<noteq> 0), ev_valid = True\<rparr>)"

definition mouse_irq_handler :: "'d ports \<Rightarrow> ('d, 'a) mouse_state_scheme \<Rightarrow> ('d, 'a) mouse_state_scheme option" where
  "mouse_irq_handler io st =
     (case p_inb io PS2_STATUS (mouse_dev st) of (s, d) \<Rightarrow>
        if s AND PS2_STATUS_OBF = 0 then Some (st\<lparr>mouse_dev := d\<rparr>)
        else case p_inb io PS2_DATA d of (byte, d) \<Rightarrow>
          let st = st\<lparr>mouse_dev := d\<rparr>
          in if packet_idx st = 0 \<and> byte AND 0x08 = 0 then do {
               d1 \<leftarrow> serial_puts io (mouse_dev st) (''[MOUSE] sync lost, skipping byte'' @ [CHR 0x0A]);
               Some (st\<lparr>mouse_dev := d1\<rparr>)
             } else
               let st = st\<lparr>packet := (packet st)[packet_idx st := byte], packet_idx := packet_idx st + 1\<rparr>
               in if packet_idx st < 3 then Some st
                  else
                    let st = st\<lparr>packet_idx := 0\<rparr>;
                        st = mouse_put (mouse_decode (packet st ! 0) (packet st ! 1) (packet st ! 2)) st;
                        st = unblock_all st (mouse_waiters st)
                    in Some (st\<lparr>mouse_waiters := []\<rparr>))"

definition mouse_init :: "'d ports \<Rightarrow> 'h \<Rightarrow> ('h, 'd, 'a) irq_state_scheme \<Rightarrow> ('h, 'd, 'a) irq_state_scheme option" where
  \<comment> \<open>\<open>handler\<close> is the address of \<^verbatim>\<open>mouse_irq_handler\<close>\<close>
  "mouse_init io handler st =
     (let d = ps2_cmd io 0x20 (ps2_cmd io 0xA8 (irq_dev st))
      in case ps2_read io d of (cfg, d) \<Rightarrow>
         let cfg = (cfg OR 0x02) AND NOT 0x20;
             d = ps2_write io cfg (ps2_cmd io 0x60 d);
             d = snd (ps2_read io (mouse_write io 0xF6 d));
             d = snd (ps2_read io (mouse_write io 0xF4 d));
             st = irq_register io (st\<lparr>irq_dev := d\<rparr>) 12 (Some handler)
         in do {
              d \<leftarrow> serial_puts io (irq_dev st) (''[MOUSE] PS/2 mouse initialized (IRQ12)'' @ [CHR 0x0A]);
              Some (st\<lparr>irq_dev := d\<rparr>)
            })"

section \<open>Readers\<close>

definition mouse_get_event :: "('d, 'a) mouse_state_scheme \<Rightarrow> u64 \<Rightarrow> int \<times> mouse_event option \<times> ('d, 'a) mouse_state_scheme" where
  \<comment> \<open>the answer and what is stored through the pointer\<close>
  "mouse_get_event st ev =
     (if ev = 0 \<or> mouse_head st = mouse_tail st then (0, None, st)
      else (1, Some (mouse_buf st ! unat (mouse_tail st)), st\<lparr>mouse_tail := (mouse_tail st + 1) mod of_nat MOUSE_BUF_SIZE\<rparr>))"

definition mouse_read_check :: "('d, 'a) mouse_state_scheme \<Rightarrow> u64 \<Rightarrow> (int \<times> mouse_event option) option \<times> ('d, 'a) mouse_state_scheme" where
  \<comment> \<open>the head of the loop of \<^verbatim>\<open>mouse_read\<close>: what it returns, or \<open>None\<close> to go on\<close>
  "mouse_read_check st ev =
     (if mouse_head st \<noteq> mouse_tail st then case mouse_get_event st ev of (r, e, st1) \<Rightarrow> (Some (r, e), st1) else (None, st))"

definition mouse_read_block :: "('d, 'a) mouse_state_scheme \<Rightarrow> (bool \<times> ('d, 'a) mouse_state_scheme) option" where
  \<comment> \<open>the rest of the loop body, and whether another task runs now\<close>
  "mouse_read_block st =
     (let (flags, st1) = irq_save st
      in if mouse_head st1 \<noteq> mouse_tail st1 then Some (False, irq_restore st1 flags)
         else do {
           let st2 = (if current_task st1 \<noteq> 0 \<and> length (mouse_waiters st1) < MOUSE_WAIT_MAX
                      then st1\<lparr>mouse_waiters := mouse_waiters st1 @ [current_task st1]\<rparr> else st1);
           (sw, st3) \<leftarrow> sched_block st2 (current_task st2) 0xFFFFFFFFFFFFFFFF;
           Some (sw, if sw then st3 else irq_restore st3 flags)
         })"

section \<open>The ring is a queue of 63 events\<close>

definition mouse_inv :: "('d, 'a) mouse_state_scheme \<Rightarrow> bool" where
  "mouse_inv st \<longleftrightarrow> length (mouse_buf st) = MOUSE_BUF_SIZE \<and> unat (mouse_head st) < MOUSE_BUF_SIZE \<and> unat (mouse_tail st) < MOUSE_BUF_SIZE"

definition mouse_items :: "('d, 'a) mouse_state_scheme \<Rightarrow> mouse_event list" where
  "mouse_items st = ring_items (mouse_buf st) (unat (mouse_head st)) (unat (mouse_tail st))"

definition mouse_take :: "('d, 'a) mouse_state_scheme \<Rightarrow> (mouse_event \<times> ('d, 'a) mouse_state_scheme) option" where
  \<comment> \<open>\<^verbatim>\<open>mouse_get_event\<close> for a pointer that is not null\<close>
  "mouse_take st = (case mouse_get_event st 1 of (r, e, st1) \<Rightarrow> map_option (\<lambda>e. (e, st1)) e)"

interpretation mouse: ring_queue mouse_put mouse_take mouse_inv mouse_items 63
proof
  fix st :: "('a, 'b) mouse_state_scheme" and c :: mouse_event and es
  assume inv: "mouse_inv st"
  let ?b = "mouse_buf st" and ?h = "unat (mouse_head st)" and ?t = "unat (mouse_tail st)"
  have l: "length ?b = 64" and h: "?h < length ?b" and t: "?t < length ?b" using inv by (simp_all add: mouse_inv_def MOUSE_BUF_SIZE_def)
  have n: "unat ((w + 1) mod of_nat MOUSE_BUF_SIZE) = (unat w + 1) mod length ?b" if "unat w < length ?b" for w :: u32
    using ring_next [of w 64] that l by (simp add: MOUSE_BUF_SIZE_def)
  have m: "(x :: nat) mod length ?b < 64" for x using l by simp
  have e: "(mouse_head st + 1) mod of_nat MOUSE_BUF_SIZE = mouse_tail st \<longleftrightarrow> (?h + 1) mod length ?b = ?t"
    using n [OF h] by (simp add: word_unat_eq_iff)
  show "mouse_inv (mouse_put c st)"
    using inv n [OF h] m by (simp add: mouse_put_def mouse_inv_def MOUSE_BUF_SIZE_def Let_def l)
  show "length (mouse_items st) \<le> 63" using length_ring_items [OF h t] l by (simp add: mouse_items_def)
  show "mouse_items (mouse_put c st) = (if length (mouse_items st) < 63 then mouse_items st @ [c] else mouse_items st)"
    using ring_put [OF h t] e n [OF h] l by (simp add: mouse_put_def mouse_items_def Let_def)
  have z: "?h = ?t \<longleftrightarrow> mouse_head st = mouse_tail st" by (simp add: word_unat_eq_iff)
  show "mouse_take st = None" if "mouse_items st = []"
    using that ring_get [OF h t] by (cases "?h = ?t") (simp_all add: mouse_items_def mouse_take_def mouse_get_event_def z)
  show "\<exists>st1. mouse_take st = Some (c, st1) \<and> mouse_inv st1 \<and> mouse_items st1 = es" if i: "mouse_items st = c # es"
  proof -
    have ne: "?h \<noteq> ?t" using i t by (auto simp: mouse_items_def)
    then have g: "?b ! ?t = c" "ring_items ?b ?h ((?t + 1) mod length ?b) = es" using ring_get [OF h t ne] i by (simp_all add: mouse_items_def)
    show ?thesis using ne g n [OF t] m inv by (simp add: mouse_take_def mouse_get_event_def z mouse_inv_def mouse_items_def MOUSE_BUF_SIZE_def l)
  qed
qed

section \<open>Packets\<close>

definition mouse_hw :: "'d ports \<Rightarrow> ('d \<Rightarrow> u8 list) \<Rightarrow> bool" where
  \<comment> \<open>the output buffer of the controller: the status tells whether a byte is waiting, reading the data port takes it\<close>
  "mouse_hw io queued \<longleftrightarrow> (\<forall>d. queued (snd (p_inb io PS2_STATUS d)) = queued d \<and>
     (fst (p_inb io PS2_STATUS d) AND PS2_STATUS_OBF \<noteq> 0 \<longleftrightarrow> queued d \<noteq> [])) \<and>
     (\<forall>d b bs. queued d = b # bs \<longrightarrow> fst (p_inb io PS2_DATA d) = b \<and> queued (snd (p_inb io PS2_DATA d)) = bs)"

definition movement :: "bool \<Rightarrow> u8 \<Rightarrow> int" where
  \<comment> \<open>the nine-bit two's complement number of a packet\<close>
  "movement sign raw = uint raw - (if sign then 256 else 0)"

definition wrap8 :: "int \<Rightarrow> int" where
  "wrap8 v = (v + 128) mod 256 - 128"

lemma wrap8_id: "- 128 \<le> v \<Longrightarrow> v < 128 \<Longrightarrow> wrap8 v = v"
  by (simp add: wrap8_def)

lemma sint_u8: "sint (w :: u8) = wrap8 (uint w)"
  by (simp add: wrap8_def sint_uint signed_take_bit_eq_take_bit_shift take_bit_eq_mod)

lemma mouse_decode_moves:
  "sint (dx (mouse_decode f x y)) = wrap8 (movement (bit f 4) x)" "sint (dy (mouse_decode f x y)) = wrap8 (- movement (bit f 5) y)"
proof -
  have e: "ucast (ucast r OR 0x100 :: u32) = r" for r :: u8
  proof -
    have z: "(0x100 :: u8) = 0" by simp
    have "r OR 0x100 = r" unfolding z by simp
    then show ?thesis by (simp add: unsigned_or_eq)
  qed
  have d: "dx (mouse_decode f x y) = x" "dy (mouse_decode f x y) = - y" by (simp_all add: mouse_decode_def Let_def e)
  have m: "(v + 256 * k + 128) mod 256 = (v + 128) mod 256" for v k :: int
    using mod_mult_self2 [of "v + 128" 256 k] by (simp only: ac_simps)
  show "sint (dx (mouse_decode f x y)) = wrap8 (movement (bit f 4) x)"
    unfolding d sint_u8 wrap8_def movement_def using m [of "uint x" "- 1"] by simp
  have "uint (- y) = (- uint y) mod 256" by (simp add: uint_word_ariths)
  then have "wrap8 (uint (- y)) = wrap8 (- uint y)" by (simp add: wrap8_def mod_add_left_eq)
  then show "sint (dy (mouse_decode f x y)) = wrap8 (- movement (bit f 5) y)"
    unfolding d sint_u8 using m [of "- uint y" 1] by (simp add: wrap8_def movement_def)
qed

lemma mouse_fields_more:
  assumes "sched_state.more s = sched_state.more t"
  shows "mouse_dev s = mouse_dev t" "mouse_buf s = mouse_buf t" "mouse_head s = mouse_head t" "mouse_tail s = mouse_tail t"
    "packet s = packet t" "packet_idx s = packet_idx t" "mouse_waiters s = mouse_waiters t"
  using assms by (cases s, cases t, simp add: sched_state.defs)+

lemmas unblock_all_mouse [simp] = mouse_fields_more [OF unblock_all_more]

lemma mouse_put_keeps [simp]:
  "mouse_dev (mouse_put e st) = mouse_dev st" "packet_idx (mouse_put e st) = packet_idx st" "packet (mouse_put e st) = packet st"
  "mouse_waiters (mouse_put e st) = mouse_waiters st"
  by (simp_all add: mouse_put_def Let_def)

lemma mouse_irq_byte:
  assumes "mouse_hw io queued" "queued (mouse_dev st) = b # bs" "packet_idx st \<noteq> 0 \<or> b AND 0x08 \<noteq> 0"
  obtains d st1 where "st1 = st\<lparr>mouse_dev := d, packet := (packet st)[packet_idx st := b], packet_idx := packet_idx st + 1\<rparr>" "queued d = bs"
    "mouse_irq_handler io st = (if packet_idx st1 < 3 then Some st1 else
       Some ((unblock_all (mouse_put (mouse_decode (packet st1 ! 0) (packet st1 ! 1) (packet st1 ! 2)) (st1\<lparr>packet_idx := 0\<rparr>)) (mouse_waiters st1))\<lparr>mouse_waiters := []\<rparr>))"
proof -
  obtain s d1 where 1: "p_inb io PS2_STATUS (mouse_dev st) = (s, d1)" "queued d1 = b # bs" "s AND PS2_STATUS_OBF \<noteq> 0"
    using assms(1) [unfolded mouse_hw_def, THEN conjunct1, THEN spec [of _ "mouse_dev st"]] assms(2)
    by (cases "p_inb io PS2_STATUS (mouse_dev st)") simp
  obtain d2 where 2: "p_inb io PS2_DATA d1 = (b, d2)" "queued d2 = bs"
    using assms(1) [unfolded mouse_hw_def, THEN conjunct2, rule_format, OF 1(2)] by (cases "p_inb io PS2_DATA d1") simp
  have c: "\<not> (packet_idx st = 0 \<and> b AND 0x08 = 0)" using assms(3) by auto
  define st1 where "st1 = st\<lparr>mouse_dev := d2, packet := (packet st)[packet_idx st := b], packet_idx := packet_idx st + 1\<rparr>"
  have "mouse_irq_handler io st = (if packet_idx st1 < 3 then Some st1 else
      Some ((unblock_all (mouse_put (mouse_decode (packet st1 ! 0) (packet st1 ! 1) (packet st1 ! 2)) (st1\<lparr>packet_idx := 0\<rparr>)) (mouse_waiters st1))\<lparr>mouse_waiters := []\<rparr>))"
    using 1 2 c by (cases "packet_idx st = 0") (simp_all add: mouse_irq_handler_def st1_def Let_def)
  then show thesis using that [OF st1_def 2(2)] by blast
qed

text \<open>
  The mouse driver turns every packet into one event.  Three interrupts on the bytes of a packet that starts with the
  synchronisation bit append one event to the ring, unless it holds 63; its buttons are those of the packet, and its movements
  are the nine-bit movements, the vertical one negated, taken modulo 256 into the range of a signed byte:
  movements from -128 to 127 are exact, larger ones change direction.
\<close>

theorem mouse_packet_event:
  assumes "mouse_hw io queued" "queued (mouse_dev st) = f # x # y # rest" "f AND 0x08 \<noteq> 0"
    "mouse_inv st" "packet_idx st = 0" "length (packet st) = 3"
  shows "\<exists>st1 st2 st3 ev. mouse_irq_handler io st = Some st1 \<and> mouse_irq_handler io st1 = Some st2 \<and> mouse_irq_handler io st2 = Some st3 \<and>
    mouse_inv st3 \<and> packet_idx st3 = 0 \<and> queued (mouse_dev st3) = rest \<and> mouse_items st3 = mouse_items st @ take (63 - length (mouse_items st)) [ev] \<and>
    buttons ev = f AND 0x07 \<and> sint (dx ev) = wrap8 (movement (bit f 4) x) \<and> sint (dy ev) = wrap8 (- movement (bit f 5) y)"
proof -
  obtain d1 where 1: "mouse_irq_handler io st = Some (st\<lparr>mouse_dev := d1, packet := (packet st)[0 := f], packet_idx := 1\<rparr>)" "queued d1 = x # y # rest"
    by (rule mouse_irq_byte [OF assms(1,2)]) (use assms in auto)
  let ?s1 = "st\<lparr>mouse_dev := d1, packet := (packet st)[0 := f], packet_idx := 1\<rparr>"
  have q1: "queued (mouse_dev ?s1) = x # y # rest" using 1(2) by simp
  obtain d2 where 2: "mouse_irq_handler io ?s1 = Some (st\<lparr>mouse_dev := d2, packet := (packet st)[0 := f, 1 := x], packet_idx := 2\<rparr>)" "queued d2 = y # rest"
    by (rule mouse_irq_byte [OF assms(1) q1]) (use assms in \<open>auto simp: numeral_2_eq_2\<close>)
  let ?s2 = "st\<lparr>mouse_dev := d2, packet := (packet st)[0 := f, 1 := x], packet_idx := 2\<rparr>"
  have q2: "queued (mouse_dev ?s2) = y # rest" using 2(2) by simp
  let ?p = "(packet st)[0 := f, 1 := x, 2 := y]"
  have p: "?p ! 0 = f" "?p ! 1 = x" "?p ! 2 = y" using assms(6) by simp_all
  let ?u = "\<lambda>d. st\<lparr>mouse_dev := d, packet := ?p, packet_idx := 0\<rparr>" and ?ev = "mouse_decode f x y"
  obtain d3 where 3: "mouse_irq_handler io ?s2 = Some ((unblock_all (mouse_put ?ev (?u d3)) (mouse_waiters st))\<lparr>mouse_waiters := []\<rparr>)" "queued d3 = rest"
    by (rule mouse_irq_byte [OF assms(1) q2]) (use assms p in auto)
  let ?s3 = "(unblock_all (mouse_put ?ev (?u d3)) (mouse_waiters st))\<lparr>mouse_waiters := []\<rparr>"
  have r: "mouse_inv (?u d3)" "mouse_items (?u d3) = mouse_items st" using assms(4) by (simp_all add: mouse_inv_def mouse_items_def)
  have "mouse_inv ?s3 = mouse_inv (mouse_put ?ev (?u d3))" "mouse_items ?s3 = mouse_items (mouse_put ?ev (?u d3))"
    by (simp_all add: mouse_inv_def mouse_items_def)
  then have "mouse_inv ?s3" "mouse_items ?s3 = mouse_items st @ take (63 - length (mouse_items st)) [?ev]"
    using mouse.put_inv [OF r(1)] mouse.put_items [OF r(1)] mouse.items_le [OF r(1)] r(2) by auto
  moreover have "buttons ?ev = f AND 0x07" by (simp add: mouse_decode_def Let_def)
  moreover have "packet_idx ?s3 = 0" "queued (mouse_dev ?s3) = rest" using 3(2) by simp_all
  ultimately show ?thesis using 1(1) 2(1) 3(1) mouse_decode_moves [of f x y] by blast
qed

section \<open>Witnesses\<close>

definition demo_mouse :: "u8 list ports" where
  "demo_mouse = \<lparr>p_inb = (\<lambda>p d. if p = 0x64 then (if d = [] then 0 else 1, d) else (hd (d @ [0]), tl d)), p_outb = (\<lambda>p v d. d),
     p_inw = (\<lambda>p d. (0, d)), p_outw = (\<lambda>p v d. d), p_inl = (\<lambda>p d. (0, d)), p_outl = (\<lambda>p v d. d)\<rparr>"

definition mouse_demo :: "u8 list \<Rightarrow> u8 list mouse_state" where
  "mouse_demo bs = sched_state.extend (sched_demo 0x2000 [0x3000])
     \<lparr>mouse_dev = bs, mouse_buf = replicate 64 (mouse_decode 0 0 0), mouse_head = 60, mouse_tail = 60, packet = [0, 0, 0], packet_idx = 0,
      mouse_waiters = []\<rparr>"

theorem mouse_packet_event_witness:
  "\<exists>st1 st2 st3 ev. mouse_irq_handler demo_mouse (mouse_demo [0x19, 0xFE, 0x05]) = Some st1 \<and> mouse_irq_handler demo_mouse st1 = Some st2 \<and>
     mouse_irq_handler demo_mouse st2 = Some st3 \<and> mouse_items st3 = [ev] \<and> buttons ev = 1 \<and> sint (dx ev) = - 2 \<and> sint (dy ev) = - 5"
proof -
  let ?s = "mouse_demo [0x19, 0xFE, 0x05]"
  have "mouse_hw demo_mouse (\<lambda>d. d)" by (simp add: mouse_hw_def demo_mouse_def PS2_STATUS_def PS2_DATA_def PS2_STATUS_OBF_def)
  moreover have "mouse_inv ?s" "mouse_items ?s = []" "packet_idx ?s = 0" "length (packet ?s) = 3" "mouse_dev ?s = [0x19, 0xFE, 0x05]"
    by (simp_all add: mouse_demo_def sched_state.defs mouse_inv_def mouse_items_def MOUSE_BUF_SIZE_def)
  moreover have "wrap8 (movement (bit (0x19 :: u8) 4) 0xFE) = - 2" "wrap8 (- movement (bit (0x19 :: u8) 5) 0x05) = - 5"
    by (simp_all add: wrap8_def movement_def bit_numeral_rec)
  ultimately show ?thesis
    using mouse_packet_event [of demo_mouse "\<lambda>d. d" ?s "0x19" "0xFE" "0x05" "[]"] by simp blast
qed

end
