(* ===== verification/Gfx.thy ===== *)
theory Gfx
  imports Heap Pci Bytes
begin

text \<open>
  The linear frame buffer and the drawing primitives, \<^verbatim>\<open>kernel/drivers/gpu/framebuffer.c\<close> and \<^verbatim>\<open>kernel/drivers/gpu/gfx.c\<close>.
  Pixels are 32-bit words in kernel memory.  The \<^verbatim>\<open>int\<close> coordinates of lines are integers: the results
  hold for lines whose error term stays in the range of \<^verbatim>\<open>int\<close>, that is for coordinates below \<open>2 ^ 28\<close> in size.
\<close>

section \<open>The frame buffer\<close>

record framebuffer =
  phys_base :: u64
  virt_base :: u64
  fb_width :: u32
  fb_height :: u32
  pitch :: u32
  bpp :: u8
  red_offset :: u8
  green_offset :: u8
  blue_offset :: u8
  fb_valid :: bool

record fb_state = heap_state +
  g_fb :: framebuffer

definition zero_fb :: framebuffer where
  "zero_fb = \<lparr>phys_base = 0, virt_base = 0, fb_width = 0, fb_height = 0, pitch = 0, bpp = 0, red_offset = 0, green_offset = 0,
     blue_offset = 0, fb_valid = False\<rparr>"

definition fb_from_boot_info :: bool where
  "fb_from_boot_info = False"

definition fb_from_pci :: "'a fb_state_scheme \<Rightarrow> pci_table \<Rightarrow> bool \<times> 'a fb_state_scheme" where
  "fb_from_pci st t =
     (case (case pci_find_device t 0x1234 0x1111 of None \<Rightarrow> pci_find_class t 0x03 0x00 | Some i \<Rightarrow> Some i) of
        None \<Rightarrow> (False, st)
      | Some i \<Rightarrow>
          let pdev = pci_devices t ! i;
              bar0 = pci_bar_address pdev 0
          in if bar0 = 0 \<or> \<not> pci_bar_is_mmio pdev 0 then (False, st)
             else
               let virt = KERNEL_VIRT_BASE + bar0;
                   st = st\<lparr>g_fb := (g_fb st)\<lparr>phys_base := bar0, fb_width := 1024, fb_height := 768, bpp := 32, pitch := 1024 * 4,
                          red_offset := 16, green_offset := 8, blue_offset := 0\<rparr>\<rparr>;
                   st = vmm_map_range st (kernel_pml4 st) virt bar0 (3 * 1024 * 1024) VMM_MMIO
               in (True, st\<lparr>g_fb := (g_fb st)\<lparr>virt_base := virt, fb_valid := True\<rparr>\<rparr>))"

definition fb_init :: "'a fb_state_scheme \<Rightarrow> pci_table \<Rightarrow> bool \<times> 'a fb_state_scheme" where
  "fb_init st t =
     (let st = st\<lparr>g_fb := zero_fb\<rparr>
      in if fb_from_boot_info then (True, st) else fb_from_pci st t)"

definition fb_make_color :: "'a fb_state_scheme \<Rightarrow> u8 \<Rightarrow> u8 \<Rightarrow> u8 \<Rightarrow> u32" where
  "fb_make_color st r g b = push_bit (unat (red_offset (g_fb st))) (ucast r) OR push_bit (unat (green_offset (g_fb st))) (ucast g) OR
     push_bit (unat (blue_offset (g_fb st))) (ucast b)"

definition fb_put_pixel :: "'a fb_state_scheme \<Rightarrow> u32 \<Rightarrow> u32 \<Rightarrow> u32 \<Rightarrow> 'a fb_state_scheme" where
  "fb_put_pixel st x y color =
     (let fb = g_fb st
      in if \<not> fb_valid fb \<or> fb_width fb \<le> x \<or> fb_height fb \<le> y then st
         else
           let row = virt_base fb + ucast (y * pitch fb)
           in st\<lparr>vmem := store32 (vmem st) (row + 4 * ucast x) color\<rparr>)"

definition fb_clear :: "'a fb_state_scheme \<Rightarrow> u32 \<Rightarrow> 'a fb_state_scheme" where
  "fb_clear st color =
     (let fb = g_fb st
      in if \<not> fb_valid fb then st
         else
           let pixels = fb_height fb * (pitch fb div ucast (bpp fb div 8))
           in st\<lparr>vmem := foldl (\<lambda>m i. store32 m (virt_base fb + 4 * of_nat i) color) (vmem st) [0..<unat pixels]\<rparr>)"

section \<open>Drawing\<close>

definition font8x8 :: "u8 list list" where
  "font8x8 =
    [[0x00, 0x00, 0x00, 0x00, 0x00, 0x00, 0x00, 0x00],
     [0x18, 0x18, 0x18, 0x18, 0x00, 0x18, 0x18, 0x00],
     [0x6C, 0x6C, 0x24, 0x00, 0x00, 0x00, 0x00, 0x00],
     [0x36, 0x36, 0x7F, 0x36, 0x7F, 0x36, 0x36, 0x00],
     [0x0C, 0x3F, 0x68, 0x3E, 0x0B, 0x7E, 0x18, 0x00],
     [0x60, 0x66, 0x0C, 0x18, 0x30, 0x66, 0x06, 0x00],
     [0x38, 0x6C, 0x38, 0x76, 0xDC, 0xCC, 0x76, 0x00],
     [0x0C, 0x0C, 0x18, 0x00, 0x00, 0x00, 0x00, 0x00],
     [0x0C, 0x18, 0x30, 0x30, 0x30, 0x18, 0x0C, 0x00],
     [0x30, 0x18, 0x0C, 0x0C, 0x0C, 0x18, 0x30, 0x00],
     [0x00, 0x18, 0x7E, 0x3C, 0x7E, 0x18, 0x00, 0x00],
     [0x00, 0x18, 0x18, 0x7E, 0x18, 0x18, 0x00, 0x00],
     [0x00, 0x00, 0x00, 0x00, 0x00, 0x18, 0x18, 0x30],
     [0x00, 0x00, 0x00, 0x7E, 0x00, 0x00, 0x00, 0x00],
     [0x00, 0x00, 0x00, 0x00, 0x00, 0x18, 0x18, 0x00],
     [0x06, 0x0C, 0x18, 0x30, 0x60, 0x40, 0x00, 0x00],
     [0x3C, 0x66, 0x6E, 0x76, 0x66, 0x66, 0x3C, 0x00],
     [0x18, 0x38, 0x18, 0x18, 0x18, 0x18, 0x7E, 0x00],
     [0x3C, 0x66, 0x06, 0x0C, 0x18, 0x30, 0x7E, 0x00],
     [0x3C, 0x66, 0x06, 0x1C, 0x06, 0x66, 0x3C, 0x00],
     [0x0E, 0x1E, 0x36, 0x66, 0x7F, 0x06, 0x06, 0x00],
     [0x7E, 0x60, 0x7C, 0x06, 0x06, 0x66, 0x3C, 0x00],
     [0x1C, 0x30, 0x60, 0x7C, 0x66, 0x66, 0x3C, 0x00],
     [0x7E, 0x06, 0x0C, 0x18, 0x30, 0x30, 0x30, 0x00],
     [0x3C, 0x66, 0x66, 0x3C, 0x66, 0x66, 0x3C, 0x00],
     [0x3C, 0x66, 0x66, 0x3E, 0x06, 0x0C, 0x38, 0x00],
     [0x00, 0x18, 0x18, 0x00, 0x00, 0x18, 0x18, 0x00],
     [0x00, 0x18, 0x18, 0x00, 0x00, 0x18, 0x18, 0x30],
     [0x0C, 0x18, 0x30, 0x60, 0x30, 0x18, 0x0C, 0x00],
     [0x00, 0x00, 0x7E, 0x00, 0x7E, 0x00, 0x00, 0x00],
     [0x30, 0x18, 0x0C, 0x06, 0x0C, 0x18, 0x30, 0x00],
     [0x3C, 0x66, 0x06, 0x0C, 0x18, 0x00, 0x18, 0x00],
     [0x3E, 0x63, 0x6F, 0x69, 0x6F, 0x60, 0x3E, 0x00],
     [0x18, 0x3C, 0x66, 0x7E, 0x66, 0x66, 0x66, 0x00],
     [0x7C, 0x66, 0x66, 0x7C, 0x66, 0x66, 0x7C, 0x00],
     [0x3C, 0x66, 0x60, 0x60, 0x60, 0x66, 0x3C, 0x00],
     [0x78, 0x6C, 0x66, 0x66, 0x66, 0x6C, 0x78, 0x00],
     [0x7E, 0x60, 0x60, 0x7C, 0x60, 0x60, 0x7E, 0x00],
     [0x7E, 0x60, 0x60, 0x7C, 0x60, 0x60, 0x60, 0x00],
     [0x3C, 0x66, 0x60, 0x6E, 0x66, 0x66, 0x3C, 0x00],
     [0x66, 0x66, 0x66, 0x7E, 0x66, 0x66, 0x66, 0x00],
     [0x3C, 0x18, 0x18, 0x18, 0x18, 0x18, 0x3C, 0x00],
     [0x1E, 0x0C, 0x0C, 0x0C, 0x0C, 0x6C, 0x38, 0x00],
     [0x66, 0x6C, 0x78, 0x70, 0x78, 0x6C, 0x66, 0x00],
     [0x60, 0x60, 0x60, 0x60, 0x60, 0x60, 0x7E, 0x00],
     [0x63, 0x77, 0x7F, 0x6B, 0x63, 0x63, 0x63, 0x00],
     [0x66, 0x76, 0x7E, 0x6E, 0x66, 0x66, 0x66, 0x00],
     [0x3C, 0x66, 0x66, 0x66, 0x66, 0x66, 0x3C, 0x00],
     [0x7C, 0x66, 0x66, 0x7C, 0x60, 0x60, 0x60, 0x00],
     [0x3C, 0x66, 0x66, 0x66, 0x6E, 0x3C, 0x06, 0x00],
     [0x7C, 0x66, 0x66, 0x7C, 0x6C, 0x66, 0x66, 0x00],
     [0x3C, 0x66, 0x60, 0x3C, 0x06, 0x66, 0x3C, 0x00],
     [0x7E, 0x18, 0x18, 0x18, 0x18, 0x18, 0x18, 0x00],
     [0x66, 0x66, 0x66, 0x66, 0x66, 0x66, 0x3C, 0x00],
     [0x66, 0x66, 0x66, 0x66, 0x66, 0x3C, 0x18, 0x00],
     [0x63, 0x63, 0x63, 0x6B, 0x7F, 0x77, 0x63, 0x00],
     [0x66, 0x66, 0x3C, 0x18, 0x3C, 0x66, 0x66, 0x00],
     [0x66, 0x66, 0x66, 0x3C, 0x18, 0x18, 0x18, 0x00],
     [0x7E, 0x06, 0x0C, 0x18, 0x30, 0x60, 0x7E, 0x00],
     [0x3C, 0x30, 0x30, 0x30, 0x30, 0x30, 0x3C, 0x00],
     [0x60, 0x30, 0x18, 0x0C, 0x06, 0x03, 0x00, 0x00],
     [0x3C, 0x0C, 0x0C, 0x0C, 0x0C, 0x0C, 0x3C, 0x00],
     [0x18, 0x3C, 0x66, 0x00, 0x00, 0x00, 0x00, 0x00],
     [0x00, 0x00, 0x00, 0x00, 0x00, 0x00, 0xFF, 0x00],
     [0x18, 0x18, 0x0C, 0x00, 0x00, 0x00, 0x00, 0x00],
     [0x00, 0x00, 0x3C, 0x06, 0x3E, 0x66, 0x3E, 0x00],
     [0x60, 0x60, 0x7C, 0x66, 0x66, 0x66, 0x7C, 0x00],
     [0x00, 0x00, 0x3C, 0x60, 0x60, 0x60, 0x3C, 0x00],
     [0x06, 0x06, 0x3E, 0x66, 0x66, 0x66, 0x3E, 0x00],
     [0x00, 0x00, 0x3C, 0x66, 0x7E, 0x60, 0x3C, 0x00],
     [0x1C, 0x30, 0x30, 0x7C, 0x30, 0x30, 0x30, 0x00],
     [0x00, 0x00, 0x3E, 0x66, 0x66, 0x3E, 0x06, 0x7C],
     [0x60, 0x60, 0x7C, 0x66, 0x66, 0x66, 0x66, 0x00],
     [0x18, 0x00, 0x38, 0x18, 0x18, 0x18, 0x3C, 0x00],
     [0x06, 0x00, 0x0E, 0x06, 0x06, 0x06, 0x66, 0x3C],
     [0x60, 0x60, 0x66, 0x6C, 0x78, 0x6C, 0x66, 0x00],
     [0x38, 0x18, 0x18, 0x18, 0x18, 0x18, 0x3C, 0x00],
     [0x00, 0x00, 0x66, 0x7F, 0x7F, 0x6B, 0x63, 0x00],
     [0x00, 0x00, 0x7C, 0x66, 0x66, 0x66, 0x66, 0x00],
     [0x00, 0x00, 0x3C, 0x66, 0x66, 0x66, 0x3C, 0x00],
     [0x00, 0x00, 0x7C, 0x66, 0x66, 0x7C, 0x60, 0x60],
     [0x00, 0x00, 0x3E, 0x66, 0x66, 0x3E, 0x06, 0x06],
     [0x00, 0x00, 0x6C, 0x76, 0x60, 0x60, 0x60, 0x00],
     [0x00, 0x00, 0x3C, 0x60, 0x3C, 0x06, 0x7C, 0x00],
     [0x30, 0x30, 0x7C, 0x30, 0x30, 0x30, 0x1C, 0x00],
     [0x00, 0x00, 0x66, 0x66, 0x66, 0x66, 0x3E, 0x00],
     [0x00, 0x00, 0x66, 0x66, 0x66, 0x3C, 0x18, 0x00],
     [0x00, 0x00, 0x63, 0x6B, 0x7F, 0x3E, 0x22, 0x00],
     [0x00, 0x00, 0x66, 0x3C, 0x18, 0x3C, 0x66, 0x00],
     [0x00, 0x00, 0x66, 0x66, 0x66, 0x3E, 0x06, 0x7C],
     [0x00, 0x00, 0x7E, 0x0C, 0x18, 0x30, 0x7E, 0x00],
     [0x0E, 0x18, 0x18, 0x70, 0x18, 0x18, 0x0E, 0x00],
     [0x18, 0x18, 0x18, 0x00, 0x18, 0x18, 0x18, 0x00],
     [0x70, 0x18, 0x18, 0x0E, 0x18, 0x18, 0x70, 0x00],
     [0x76, 0xDC, 0x00, 0x00, 0x00, 0x00, 0x00, 0x00]]"

definition FONT_FIRST :: u8 where [kdefs]: "FONT_FIRST = 0x20"
definition FONT_LAST :: u8 where [kdefs]: "FONT_LAST = 0x7E"

definition gfx_draw_rect :: "'a fb_state_scheme \<Rightarrow> u32 \<Rightarrow> u32 \<Rightarrow> u32 \<Rightarrow> u32 \<Rightarrow> u32 \<Rightarrow> 'a fb_state_scheme" where
  "gfx_draw_rect st x y w h color =
     foldl (\<lambda>st row. foldl (\<lambda>st col. fb_put_pixel st (of_nat col) (of_nat row) color) st [unat x..<unat (x + w)]) st [unat y..<unat (y + h)]"

partial_function (option) gfx_line_loop :: "int \<Rightarrow> int \<Rightarrow> int \<Rightarrow> int \<Rightarrow> int \<Rightarrow> int \<Rightarrow> u32 \<Rightarrow> 'a fb_state_scheme \<Rightarrow> int \<Rightarrow> int \<Rightarrow> int \<Rightarrow> 'a fb_state_scheme option" where
  "gfx_line_loop dx dy sx sy x1 y1 color st x0 y0 err =
     (let st = fb_put_pixel st (of_int x0) (of_int y0) color
      in if x0 = x1 \<and> y0 = y1 then Some st
         else
           let e2 = 2 * err;
               (err, x0) = (if dy \<le> e2 then (err + dy, x0 + sx) else (err, x0));
               (err, y0) = (if e2 \<le> dx then (err + dx, y0 + sy) else (err, y0))
           in gfx_line_loop dx dy sx sy x1 y1 color st x0 y0 err)"

definition gfx_draw_line :: "'a fb_state_scheme \<Rightarrow> int \<Rightarrow> int \<Rightarrow> int \<Rightarrow> int \<Rightarrow> u32 \<Rightarrow> 'a fb_state_scheme option" where
  "gfx_draw_line st x0 y0 x1 y1 color =
     (let dx = (if x0 < x1 then x1 - x0 else x0 - x1);
          dy = - (if y0 < y1 then y1 - y0 else y0 - y1);
          sx = (if x0 < x1 then 1 else - 1);
          sy = (if y0 < y1 then 1 else - 1)
      in gfx_line_loop dx dy sx sy x1 y1 color st x0 y0 (dx + dy))"

definition gfx_draw_char :: "'a fb_state_scheme \<Rightarrow> u32 \<Rightarrow> u32 \<Rightarrow> char \<Rightarrow> u32 \<Rightarrow> u32 \<Rightarrow> 'a fb_state_scheme" where
  "gfx_draw_char st x y c fg bg =
     (if \<not> fb_valid (g_fb st) then st
      else
        let c = (if of_char c < FONT_FIRST \<or> FONT_LAST < of_char c then CHR ''?'' else c);
            glyph = font8x8 ! unat (of_char c - FONT_FIRST)
        in foldl (\<lambda>st row. foldl (\<lambda>st col. fb_put_pixel st (x + of_nat col) (y + of_nat row)
              (if glyph ! row AND drop_bit col 0x80 \<noteq> 0 then fg else bg)) st [0..<8]) st [0..<8])"

fun gfx_string_loop :: "'a fb_state_scheme \<Rightarrow> u32 \<Rightarrow> u32 \<Rightarrow> u32 \<Rightarrow> string \<Rightarrow> u32 \<Rightarrow> u32 \<Rightarrow> 'a fb_state_scheme" where
  "gfx_string_loop st x cx y s fg bg =
     (if deref s \<noteq> NUL then
        (if deref s = CHR 0x0A then gfx_string_loop st x x (y + 9) (tl s) fg bg
         else gfx_string_loop (gfx_draw_char st cx y (deref s) fg bg) x (cx + 9) y (tl s) fg bg)
      else st)"

declare gfx_string_loop.simps [simp del]

definition gfx_draw_string :: "'a fb_state_scheme \<Rightarrow> u32 \<Rightarrow> u32 \<Rightarrow> string \<Rightarrow> u32 \<Rightarrow> u32 \<Rightarrow> 'a fb_state_scheme" where
  "gfx_draw_string st x y s fg bg = gfx_string_loop st x x y s fg bg"

section \<open>Lines\<close>

text \<open>
  The loop takes \<open>i\<close> steps along x and \<open>j\<close> along y; the error term is a function of the two counts.
\<close>

definition line_err :: "int \<Rightarrow> int \<Rightarrow> int \<times> int \<Rightarrow> int" where
  "line_err DX DY = (\<lambda>(i, j). DX * (j + 1) - DY * (i + 1))"

definition line_step :: "int \<Rightarrow> int \<Rightarrow> int \<times> int \<Rightarrow> int \<times> int" where
  "line_step DX DY = (\<lambda>(i, j). (if - DY \<le> 2 * line_err DX DY (i, j) then i + 1 else i, if 2 * line_err DX DY (i, j) \<le> DX then j + 1 else j))"

lemma line_step_swap: "line_step DY DX (j, i) = prod.swap (line_step DX DY (i, j))"
  by (auto simp: line_step_def line_err_def)

lemma line_steps_swap: "(line_step DY DX ^^ k) (0, 0) = prod.swap ((line_step DX DY ^^ k) (0, 0))"
proof (induction k)
  case (Suc k)
  obtain i j where "(line_step DX DY ^^ k) (0, 0) = (i, j)" by fastforce
  then show ?case using Suc line_step_swap [of DY DX j i] by simp
qed simp

lemma line_steps_flat:
  assumes "0 \<le> DY" "DY \<le> DX"
  shows "\<exists>j. (line_step DX DY ^^ k) (0, 0) = (int k, j) \<and> \<bar>2 * (DX * j - DY * int k)\<bar> \<le> DX"
proof (induction k)
  case 0
  then show ?case using assms by simp
next
  case (Suc k)
  then obtain j where j: "(line_step DX DY ^^ k) (0, 0) = (int k, j)" "\<bar>2 * (DX * j - DY * int k)\<bar> \<le> DX" by blast
  define e where "e = DX * j - DY * int k"
  have err: "line_err DX DY (int k, j) = e + DX - DY" by (simp add: line_err_def e_def algebra_simps)
  have b: "- DX \<le> 2 * e" "2 * e \<le> DX" using j(2) by (simp_all add: e_def abs_le_iff)
  then have x: "- DY \<le> 2 * line_err DX DY (int k, j)" using assms by (simp add: err)
  let ?j = "if 2 * line_err DX DY (int k, j) \<le> DX then j + 1 else j"
  have s: "(line_step DX DY ^^ Suc k) (0, 0) = (int (Suc k), ?j)" using j(1) x by (simp add: line_step_def)
  have "DX * ?j - DY * int (Suc k) = (if 2 * line_err DX DY (int k, j) \<le> DX then e + DX - DY else e - DY)"
    by (simp add: e_def algebra_simps)
  then have "\<bar>2 * (DX * ?j - DY * int (Suc k))\<bar> \<le> DX" using b assms by (simp add: err split: if_splits)
  then show ?case using s by blast
qed

lemma line_steps_end:
  assumes "0 \<le> DY" "DY \<le> DX"
  shows "(line_step DX DY ^^ nat DX) (0, 0) = (DX, DY)" "k < nat DX \<Longrightarrow> (line_step DX DY ^^ k) (0, 0) \<noteq> (DX, DY)"
proof -
  obtain j where j: "(line_step DX DY ^^ nat DX) (0, 0) = (DX, j)" "\<bar>2 * (DX * j - DY * DX)\<bar> \<le> DX"
    using line_steps_flat [OF assms, of "nat DX"] assms by auto
  have "j = DY"
  proof (cases "DX = 0")
    case False
    have "2 * (DX * j - DY * DX) = DX * (2 * (j - DY))" by (simp add: algebra_simps)
    then have "\<bar>2 * (DX * j - DY * DX)\<bar> = DX * \<bar>2 * (j - DY)\<bar>" using assms by (simp add: abs_mult)
    then have "DX * \<bar>2 * (j - DY)\<bar> \<le> DX * 1" using j(2) by simp
    then have "\<bar>2 * (j - DY)\<bar> \<le> 1" using False assms by (simp add: mult_le_cancel_left)
    then show ?thesis by presburger
  qed (use j assms in simp)
  then show "(line_step DX DY ^^ nat DX) (0, 0) = (DX, DY)" using j by simp
  show "k < nat DX \<Longrightarrow> (line_step DX DY ^^ k) (0, 0) \<noteq> (DX, DY)" using line_steps_flat [OF assms, of k] by auto
qed

lemma gfx_line_loop_steps:
  assumes "sx \<noteq> 0" "sy \<noteq> 0" "(line_step DX DY ^^ n) p = (DX, DY)" "\<And>k. k < n \<Longrightarrow> (line_step DX DY ^^ k) p \<noteq> (DX, DY)"
  shows "gfx_line_loop DX (- DY) sx sy (a + sx * DX) (b + sy * DY) color st (a + sx * fst p) (b + sy * snd p) (line_err DX DY p) =
    Some (foldl (\<lambda>st (i, j). fb_put_pixel st (of_int (a + sx * i)) (of_int (b + sy * j)) color) st (map (\<lambda>k. (line_step DX DY ^^ k) p) [0..<Suc n]))"
  using assms(3,4)
proof (induction n arbitrary: st p)
  case 0
  then show ?case by (subst gfx_line_loop.simps) simp
next
  case (Suc n)
  let ?q = "line_step DX DY p" and ?st = "fb_put_pixel st (of_int (a + sx * fst p)) (of_int (b + sy * snd p)) color"
  have ne: "p \<noteq> (DX, DY)" using Suc.prems(2) [of 0] by simp
  then have c: "\<not> (a + sx * fst p = a + sx * DX \<and> b + sy * snd p = b + sy * DY)" using assms(1,2) by (cases p) auto
  have q: "(line_step DX DY ^^ n) ?q = (DX, DY)" "\<And>k. k < n \<Longrightarrow> (line_step DX DY ^^ k) ?q \<noteq> (DX, DY)"
    using Suc.prems(1) Suc.prems(2) [of "Suc k" for k] by (simp_all add: funpow_swap1)
  have "map (\<lambda>k. (line_step DX DY ^^ k) p) [0..<Suc (Suc n)] = p # map (\<lambda>k. (line_step DX DY ^^ k) ?q) [0..<Suc n]"
    by (subst map_upt_Suc) (simp add: funpow_swap1 del: upt_Suc)
  moreover have "gfx_line_loop DX (- DY) sx sy (a + sx * DX) (b + sy * DY) color st (a + sx * fst p) (b + sy * snd p) (line_err DX DY p) =
      gfx_line_loop DX (- DY) sx sy (a + sx * DX) (b + sy * DY) color ?st (a + sx * fst ?q) (b + sy * snd ?q) (line_err DX DY ?q)"
    using c by (subst gfx_line_loop.simps) (cases p, auto simp: line_step_def line_err_def Let_def algebra_simps)
  ultimately show ?case using Suc.IH [OF q, of ?st] by (simp add: case_prod_beta del: upt_Suc)
qed

lemma line_steps_all:
  assumes "0 \<le> DX" "0 \<le> DY" "n = nat (max DX DY)"
  shows "(line_step DX DY ^^ n) (0, 0) = (DX, DY)" "k < n \<Longrightarrow> (line_step DX DY ^^ k) (0, 0) \<noteq> (DX, DY)"
    "(case (line_step DX DY ^^ k) (0, 0) of (i, j) \<Rightarrow> \<bar>2 * (DX * j - DY * i)\<bar>) \<le> max DX DY"
proof -
  have "(line_step DX DY ^^ n) (0, 0) = (DX, DY) \<and> (k < n \<longrightarrow> (line_step DX DY ^^ k) (0, 0) \<noteq> (DX, DY)) \<and>
    (case (line_step DX DY ^^ k) (0, 0) of (i, j) \<Rightarrow> \<bar>2 * (DX * j - DY * i)\<bar>) \<le> max DX DY"
  proof (cases "DY \<le> DX")
    case True
    then show ?thesis using line_steps_end [OF assms(2) True] line_steps_flat [OF assms(2) True, of k] assms(3) by (auto simp: max_def)
  next
    case False
    then have le: "DX \<le> DY" by simp
    obtain i where "(line_step DX DY ^^ k) (0, 0) = (i, int k)" "\<bar>2 * (DX * int k - DY * i)\<bar> \<le> DY"
      using line_steps_flat [OF assms(1) le, of k] line_steps_swap [where DX = DY and DY = DX and k = k] by (auto simp: abs_minus_commute right_diff_distrib)
    then show ?thesis
      using line_steps_end [OF assms(1) le] line_steps_swap [where DX = DY and DY = DX] assms(3) False by (auto simp: max_def)
  qed
  then show "(line_step DX DY ^^ n) (0, 0) = (DX, DY)" "k < n \<Longrightarrow> (line_step DX DY ^^ k) (0, 0) \<noteq> (DX, DY)"
    "(case (line_step DX DY ^^ k) (0, 0) of (i, j) \<Rightarrow> \<bar>2 * (DX * j - DY * i)\<bar>) \<le> max DX DY" by blast+
qed


section \<open>Pixels\<close>

definition fb_std :: "framebuffer \<Rightarrow> bool" where
  \<comment> \<open>the geometry that \<^verbatim>\<open>fb_from_pci\<close> sets\<close>
  "fb_std fb \<longleftrightarrow> fb_valid fb \<and> fb_width fb = 1024 \<and> fb_height fb = 768 \<and> pitch fb = 4096"

definition pixel_addr :: "framebuffer \<Rightarrow> nat \<Rightarrow> nat \<Rightarrow> u64" where
  "pixel_addr fb x y = virt_base fb + of_nat (4096 * y + 4 * x)"

definition fb_pixel :: "'a fb_state_scheme \<Rightarrow> nat \<Rightarrow> nat \<Rightarrow> u32" where
  "fb_pixel st x y = load32 (vmem st) (pixel_addr (g_fb st) x y)"

lemma store32_other: "x \<noteq> a \<Longrightarrow> x \<noteq> a + 1 \<Longrightarrow> x \<noteq> a + 2 \<Longrightarrow> x \<noteq> a + 3 \<Longrightarrow> store32 m a v x = m x"
  by (simp add: store32_def store16_def add.commute)

lemma load32_cong: "m a = n a \<Longrightarrow> m (a + 1) = n (a + 1) \<Longrightarrow> m (a + 2) = n (a + 2) \<Longrightarrow> m (a + 3) = n (a + 3) \<Longrightarrow> load32 m a = load32 n a"
  by (simp add: load32_def load16_def add.commute)

lemma fb_put_pixel_std:
  assumes "fb_std (g_fb st)" "unat x < 1024" "unat y < 768"
  shows "fb_put_pixel st x y c = st\<lparr>vmem := store32 (vmem st) (pixel_addr (g_fb st) (unat x) (unat y)) c\<rparr>"
proof -
  have "unat (y * 4096) = 4096 * unat y" using assms(3) by (simp add: unat_word_ariths)
  moreover have "(ucast (y * 4096) :: u64) = of_nat (unat (y * 4096))" by simp
  ultimately have "(ucast (y * 4096) :: u64) = of_nat (4096 * unat y)" by (simp only:)
  moreover have "\<not> 1024 \<le> x" "\<not> 768 \<le> y" using assms by (simp_all add: word_le_nat_alt)
  ultimately show ?thesis
    using assms(1) by (simp add: fb_put_pixel_def fb_std_def pixel_addr_def Let_def add.assoc)
qed

lemma store32_window:
  assumes "p + 4 \<le> 4194304" "unat (a - base) < p \<or> p + 4 \<le> unat (a - base)"
  shows "store32 m (base + of_nat p) v a = m a"
proof -
  have "a \<noteq> base + of_nat p + of_nat i" if "i < 4" for i
  proof
    assume "a = base + of_nat p + of_nat i"
    then have "a - base = of_nat (p + i)" by simp
    then have "unat (a - base) = p + i" using assms(1) that by (simp only: unat_of_nat_u64)
    then show False using assms(2) that by linarith
  qed
  from this [of 0] this [of 1] this [of 2] this [of 3] show ?thesis by (intro store32_other) simp_all
qed

lemma load32_window:
  assumes "p + 4 \<le> 4194304" "q + 4 \<le> 4194304" "p + 4 \<le> q \<or> q + 4 \<le> p"
  shows "load32 (store32 m (base + of_nat p) v) (base + of_nat q) = load32 m (base + of_nat q)"
proof -
  have "store32 m (base + of_nat p) v (base + of_nat q + of_nat i) = m (base + of_nat q + of_nat i)" if "i < 4" for i
  proof (rule store32_window [OF assms(1)])
    have "base + of_nat q + of_nat i - base = (of_nat (q + i) :: u64)" by simp
    then have "unat (base + of_nat q + of_nat i - base) = q + i" using assms(2) that by (simp only: unat_of_nat_u64)
    then show "unat (base + of_nat q + of_nat i - base) < p \<or> p + 4 \<le> unat (base + of_nat q + of_nat i - base)" using assms(3) that by linarith
  qed
  from this [of 0] this [of 1] this [of 2] this [of 3] show ?thesis by (intro load32_cong) simp_all
qed

lemma fb_pixel_put:
  assumes "fb_std (g_fb st)" "unat x < 1024" "unat y < 768" "px < 1024" "py < 768"
  shows "fb_pixel (fb_put_pixel st x y c) px py = (if unat x = px \<and> unat y = py then c else fb_pixel st px py)"
proof (cases "unat x = px \<and> unat y = py")
  case True
  then show ?thesis by (simp add: fb_put_pixel_std [OF assms(1-3)] fb_pixel_def load32_store32)
next
  case False
  let ?p = "4096 * unat y + 4 * unat x" and ?q = "4096 * py + 4 * px"
  have "?p + 4 \<le> ?q \<or> ?q + 4 \<le> ?p"
  proof (cases "unat y = py")
    case True
    then show ?thesis using False by linarith
  next
    case False
    then show ?thesis using assms(2,4) by linarith
  qed
  then show ?thesis unfolding if_not_P [OF False] using load32_window [of ?p ?q] assms
    by (simp add: fb_put_pixel_std [OF assms(1-3)] fb_pixel_def pixel_addr_def)
qed

lemma fb_put_outside:
  assumes "fb_std (g_fb st)" "3145728 \<le> unat (a - virt_base (g_fb st))"
  shows "vmem (fb_put_pixel st x y c) a = vmem st a"
proof (cases "unat x < 1024 \<and> unat y < 768")
  case True
  then have "4096 * unat y + 4 * unat x + 4 \<le> 3145728" by linarith
  then show ?thesis using True assms store32_window [of "4096 * unat y + 4 * unat x" a "virt_base (g_fb st)"]
    by (simp add: fb_put_pixel_std pixel_addr_def)
next
  case False
  then have "1024 \<le> x \<or> 768 \<le> y" by (auto simp: word_le_nat_alt)
  then show ?thesis using assms(1) by (simp add: fb_put_pixel_def fb_std_def)
qed

lemma fb_put_fb [simp]: "g_fb (fb_put_pixel st x y c) = g_fb st"
  by (simp add: fb_put_pixel_def Let_def)

lemma foldl_product: "foldl (\<lambda>s r. foldl (\<lambda>s c. f s r c) s cs) s rs = foldl (\<lambda>s (r, c). f s r c) s (List.product rs cs)"
proof -
  have "foldl (\<lambda>s (r, c). f s r c) s (map (Pair r) cs) = foldl (\<lambda>s c. f s r c) s cs" for s r by (simp add: foldl_map)
  then show ?thesis by (induction rs arbitrary: s) simp_all
qed

lemma fb_puts:
  assumes "fb_std (g_fb st)" "\<And>k. k \<in> set ks \<Longrightarrow> unat (X k) < 1024 \<and> unat (Y k) < 768"
    "distinct (map (\<lambda>k. (unat (X k), unat (Y k))) ks)" "st1 = foldl (\<lambda>st k. fb_put_pixel st (X k) (Y k) (C k)) st ks"
  shows "g_fb st1 = g_fb st \<and> (\<forall>k \<in> set ks. fb_pixel st1 (unat (X k)) (unat (Y k)) = C k) \<and>
    (\<forall>px py. px < 1024 \<longrightarrow> py < 768 \<longrightarrow> (px, py) \<notin> (\<lambda>k. (unat (X k), unat (Y k))) ` set ks \<longrightarrow> fb_pixel st1 px py = fb_pixel st px py) \<and>
    (\<forall>a. 3145728 \<le> unat (a - virt_base (g_fb st)) \<longrightarrow> vmem st1 a = vmem st a)"
  using assms(2-4)
proof (induction ks arbitrary: st1 rule: rev_induct)
  case (snoc j ks)
  define s where "s = foldl (\<lambda>st k. fb_put_pixel st (X k) (Y k) (C k)) st ks"
  have e: "st1 = fb_put_pixel s (X j) (Y j) (C j)" using snoc.prems(3) by (simp add: s_def)
  have j: "unat (X j) < 1024" "unat (Y j) < 768" "(unat (X j), unat (Y j)) \<notin> (\<lambda>k. (unat (X k), unat (Y k))) ` set ks"
    using snoc.prems(1) [of j] snoc.prems(2) by auto
  have p: "\<And>k. k \<in> set ks \<Longrightarrow> unat (X k) < 1024 \<and> unat (Y k) < 768" "distinct (map (\<lambda>k. (unat (X k), unat (Y k))) ks)"
    using snoc.prems by auto
  note ih = snoc.IH [OF p s_def]
  have std: "fb_std (g_fb s)" using ih assms(1) by simp
  note q = fb_pixel_put [OF std j(1,2), of _ _ "C j", folded e]
  show ?case
  proof (intro conjI ballI allI impI)
    show "g_fb st1 = g_fb st" using ih by (simp add: e)
    fix k assume "k \<in> set (ks @ [j])"
    then show "fb_pixel st1 (unat (X k)) (unat (Y k)) = C k"
      using q ih j snoc.prems(1) [of k] by auto
  next
    fix px py assume "px < 1024" "py < 768" "(px, py) \<notin> (\<lambda>k. (unat (X k), unat (Y k))) ` set (ks @ [j])"
    then show "fb_pixel st1 px py = fb_pixel st px py" using q [of px py] ih by auto
  next
    fix a assume "3145728 \<le> unat (a - virt_base (g_fb st))"
    then show "vmem st1 a = vmem st a" using fb_put_outside [OF std, of a] ih by (simp add: e)
  qed
qed simp

definition glyph_of :: "char \<Rightarrow> u8 list" where
  \<comment> \<open>the glyph of a printable character, and of the question mark for every other one\<close>
  "glyph_of c = font8x8 ! (if 32 \<le> (of_char c :: nat) \<and> (of_char c :: nat) \<le> 126 then of_char c - 32 else 31)"

lemma glyph_index:
  "font8x8 ! unat (of_char (if of_char c < FONT_FIRST \<or> FONT_LAST < of_char c then CHR ''?'' else c) - FONT_FIRST) = glyph_of c"
proof -
  let ?n = "of_char c :: nat"
  have n: "?n mod 256 = ?n" by simp
  have "unat (of_nat ?n :: u8) = ?n mod 256" by (simp only: unat_of_nat) simp
  then have u: "unat (of_char c :: u8) = ?n" unfolding of_nat_of_char n .
  have c: "(of_char c :: u8) < FONT_FIRST \<longleftrightarrow> ?n < 32" "FONT_LAST < (of_char c :: u8) \<longleftrightarrow> 126 < ?n"
    by (simp_all add: word_less_nat_alt u kdefs)
  show ?thesis
  proof (cases "32 \<le> ?n \<and> ?n \<le> 126")
    case True
    then have "unat (of_char c - FONT_FIRST) = ?n - 32" using u by (simp add: unat_sub word_le_nat_alt kdefs)
    then show ?thesis using True by (simp add: glyph_of_def c not_less)
  next
    case False
    then have "?n < 32 \<or> 126 < ?n" by linarith
    moreover have "unat (of_char CHR ''?'' - FONT_FIRST) = 31" by (simp add: kdefs)
    ultimately show ?thesis using False by (auto simp: glyph_of_def c)
  qed
qed

lemma bit_column: "col < 8 \<Longrightarrow> b AND drop_bit col 0x80 \<noteq> 0 \<longleftrightarrow> bit (b :: u8) (7 - col)"
proof -
  assume "col < 8"
  then have "drop_bit col (0x80 :: u8) = 2 ^ (7 - col)"
    by (simp add: numeral_eq_Suc less_Suc_eq) (elim disjE; simp)
  then show ?thesis using and_exp_eq_0_iff_not_bit [of b "7 - col"] by simp
qed

text \<open>
  Characters appear where they are drawn.  On the frame buffer that \<^verbatim>\<open>fb_from_pci\<close> sets up, drawing a character
  at a place where it fits gives each of its 64 pixels the foreground or background colour as its glyph says, a question mark
  standing for what is not printable, and changes no other pixel and no memory outside the mapped three megabytes.
\<close>

theorem gfx_draw_char_renders:
  assumes "fb_std (g_fb st)" "unat x + 8 \<le> 1024" "unat y + 8 \<le> 768" "st1 = gfx_draw_char st x y c fg bg"
  shows "(\<forall>row < 8. \<forall>col < 8. fb_pixel st1 (unat x + col) (unat y + row) = (if bit (glyph_of c ! row) (7 - col) then fg else bg)) \<and>
    (\<forall>px < 1024. \<forall>py < 768. (unat x \<le> px \<and> px < unat x + 8 \<and> unat y \<le> py \<and> py < unat y + 8) \<or> fb_pixel st1 px py = fb_pixel st px py) \<and>
    (\<forall>a. unat (a - virt_base (g_fb st)) < 3 * 1024 * 1024 \<or> vmem st1 a = vmem st a)"
proof -
  let ?ks = "List.product [0..<8] [0..<8]"
  let ?X = "\<lambda>(row, col). x + of_nat col" and ?Y = "\<lambda>(row, col). y + of_nat row"
  let ?C = "\<lambda>(row, col). if glyph_of c ! row AND drop_bit col 0x80 \<noteq> 0 then fg else bg"
  have u: "unat (x + of_nat col) = unat x + col" "unat (y + of_nat col) = unat y + col" if "col < 8" for col
    using assms(2,3) that by (simp_all add: unat_word_ariths unat_of_nat)
  have "fb_valid (g_fb st)" using assms(1) by (simp add: fb_std_def)
  then have e: "st1 = foldl (\<lambda>st k. fb_put_pixel st (?X k) (?Y k) (?C k)) st ?ks"
    using assms(4) unfolding gfx_draw_char_def glyph_index Let_def foldl_product by (simp add: case_prod_unfold)
  have r: "\<And>k. k \<in> set ?ks \<Longrightarrow> unat (?X k) < 1024 \<and> unat (?Y k) < 768" using u assms(2,3) by auto
  have m: "map (\<lambda>k. (unat (?X k), unat (?Y k))) ?ks = map (\<lambda>(row, col). (unat x + col, unat y + row)) ?ks" using u by auto
  have "distinct (map (\<lambda>k. (unat (?X k), unat (?Y k))) ?ks)"
    unfolding m by (auto simp: distinct_map distinct_product inj_on_def)
  note p = fb_puts [OF assms(1) r this e]
  have i: "(\<lambda>k. (unat (?X k), unat (?Y k))) ` set ?ks = (\<lambda>(row, col). (unat x + col, unat y + row)) ` set ?ks"
    using arg_cong [OF m, of set] by (simp only: set_map)
  show ?thesis
  proof (intro conjI allI impI)
    fix row col :: nat assume "row < 8" "col < 8"
    then show "fb_pixel st1 (unat x + col) (unat y + row) = (if bit (glyph_of c ! row) (7 - col) then fg else bg)"
      using p [THEN conjunct2, THEN conjunct1, rule_format, of "(row, col)"] u bit_column by simp
  next
    fix px py :: nat assume "px < 1024" "py < 768"
    then show "(unat x \<le> px \<and> px < unat x + 8 \<and> unat y \<le> py \<and> py < unat y + 8) \<or> fb_pixel st1 px py = fb_pixel st px py"
      using p [THEN conjunct2, THEN conjunct2, THEN conjunct1, rule_format, of px py] unfolding i by fastforce
  next
    fix a
    show "unat (a - virt_base (g_fb st)) < 3 * 1024 * 1024 \<or> vmem st1 a = vmem st a"
      using p [THEN conjunct2, THEN conjunct2, THEN conjunct2, rule_format, of a] by force
  qed
qed

definition fb_demo :: fb_state where
  "fb_demo = \<lparr>mem = (\<lambda>_. 0), pmm_bitmap = (\<lambda>_. 0), total_frames = 0, free_frames = 0, search_hint = 0, kernel_pml4 = 0, cr3 = 0,
     msrs = (\<lambda>_. 0), vmem = (\<lambda>_. 0), hmagic = (\<lambda>_. 0), slabs = (\<lambda>_. undefined), larges = (\<lambda>_. undefined), slab_classes = (\<lambda>_. 0),
     large_free_list = 0, heap_cursor = 0, heap_limit = 0,
     g_fb = \<lparr>phys_base = 0x80000, virt_base = 0xFFFFFFFF80080000, fb_width = 1024, fb_height = 768, pitch = 4096, bpp = 32, red_offset = 16,
       green_offset = 8, blue_offset = 0, fb_valid = True\<rparr>\<rparr>"

theorem gfx_draw_char_renders_witness:
  "fb_pixel (gfx_draw_char fb_demo 100 200 CHR ''!'' 0xFFFFFF 0) 103 200 = 0xFFFFFF \<and>
   fb_pixel (gfx_draw_char fb_demo 100 200 CHR ''!'' 0xFFFFFF 0) 100 200 = 0"
proof -
  have s: "fb_std (g_fb fb_demo)" by (simp add: fb_demo_def fb_std_def)
  have g: "glyph_of CHR ''!'' ! 0 = 0x18" by (simp add: glyph_of_def font8x8_def)
  have b: "bit (0x18 :: u8) 4" "\<not> bit (0x18 :: u8) 7" by (simp_all add: bit_numeral_rec)
  show ?thesis
    using gfx_draw_char_renders [OF s _ _ refl, of 100 200 "CHR ''!''" "0xFFFFFF" 0, THEN conjunct1, THEN spec [of _ 0]] g b
    by (auto dest: spec [of _ 3] spec [of _ 0])
qed

end
