(* ===== verification/Vga.thy ===== *)
theory Vga
  imports Serial Bytes
begin

text \<open>
  The VGA text screen and the console, \<^verbatim>\<open>kernel/drivers/vga.c\<close> and \<^verbatim>\<open>kernel/drivers/console.c\<close>.  The text buffer is the list of its
  2000 cells.  The screen refines a scroll: a page of lines that only grows at the bottom, of which the last 25 are
  visible.
\<close>

section \<open>The text screen\<close>

definition VGA_COLS :: nat where [kdefs]: "VGA_COLS = 80"
definition VGA_ROWS :: nat where [kdefs]: "VGA_ROWS = 25"
definition VGA_COLOR_BLACK :: u8 where [kdefs]: "VGA_COLOR_BLACK = 0"
definition VGA_COLOR_LIGHT_GREY :: u8 where [kdefs]: "VGA_COLOR_LIGHT_GREY = 7"

record vga_state =
  vga_buf :: "u16 list"
  vga_color :: u8
  vga_row :: nat
  vga_col :: nat

definition make_entry :: "char \<Rightarrow> u8 \<Rightarrow> u16" where
  "make_entry c color = ucast (of_char c :: u8) OR push_bit 8 (ucast color)"

definition vga_fill :: "'a vga_state_scheme \<Rightarrow> 'a vga_state_scheme" where
  \<comment> \<open>the loop over all cells that \<^verbatim>\<open>vga_init\<close> and \<^verbatim>\<open>vga_clear\<close> share\<close>
  "vga_fill st = st\<lparr>vga_buf := foldl (\<lambda>b i. b[i := make_entry CHR '' '' (vga_color st)]) (vga_buf st) [0..<VGA_COLS * VGA_ROWS]\<rparr>"

definition vga_init :: "'a vga_state_scheme \<Rightarrow> 'a vga_state_scheme" where
  "vga_init st =
     vga_fill (st\<lparr>vga_color := VGA_COLOR_LIGHT_GREY OR push_bit 4 VGA_COLOR_BLACK, vga_row := 0, vga_col := 0\<rparr>)"

definition vga_set_color :: "'a vga_state_scheme \<Rightarrow> u8 \<Rightarrow> u8 \<Rightarrow> 'a vga_state_scheme" where
  "vga_set_color st fg bg = st\<lparr>vga_color := fg OR push_bit 4 bg\<rparr>"

definition vga_scroll :: "'a vga_state_scheme \<Rightarrow> 'a vga_state_scheme" where
  "vga_scroll st =
     (let buf = foldl (\<lambda>b r. foldl (\<lambda>b c. b[r * VGA_COLS + c := b ! ((r + 1) * VGA_COLS + c)]) b [0..<VGA_COLS]) (vga_buf st) [0..<VGA_ROWS - 1];
          buf = foldl (\<lambda>b c. b[(VGA_ROWS - 1) * VGA_COLS + c := make_entry CHR '' '' (vga_color st)]) buf [0..<VGA_COLS]
      in st\<lparr>vga_buf := buf, vga_row := VGA_ROWS - 1\<rparr>)"

definition vga_newline :: "'a vga_state_scheme \<Rightarrow> 'a vga_state_scheme" where
  \<comment> \<open>\<^verbatim>\<open>vga_col = 0; if (++vga_row >= VGA_ROWS) vga_scroll();\<close>\<close>
  "vga_newline st =
     (let st = st\<lparr>vga_col := 0, vga_row := vga_row st + 1\<rparr> in if VGA_ROWS \<le> vga_row st then vga_scroll st else st)"

definition vga_putchar :: "'a vga_state_scheme \<Rightarrow> char \<Rightarrow> 'a vga_state_scheme" where
  "vga_putchar st c =
     (if c = CHR 0x0A then vga_newline st
      else if c = CHR 0x0D then st\<lparr>vga_col := 0\<rparr>
      else
        let st = st\<lparr>vga_buf := (vga_buf st)[vga_row st * VGA_COLS + vga_col st := make_entry c (vga_color st)], vga_col := vga_col st + 1\<rparr>
        in if VGA_COLS \<le> vga_col st then vga_newline st else st)"

fun vga_puts :: "'a vga_state_scheme \<Rightarrow> string \<Rightarrow> 'a vga_state_scheme" where
  "vga_puts st s = (if deref s \<noteq> NUL then vga_puts (vga_putchar st (deref s)) (tl s) else st)"

declare vga_puts.simps [simp del]

definition vga_clear :: "'a vga_state_scheme \<Rightarrow> 'a vga_state_scheme" where
  "vga_clear st = (vga_fill st)\<lparr>vga_row := 0, vga_col := 0\<rparr>"

section \<open>The console\<close>

datatype console_backend = CONSOLE_VGA | CONSOLE_FB

record 'd con_state = vga_state +
  con_dev :: 'd
  active_backend :: console_backend
  console_ready :: bool

definition console_init :: "'d ports \<Rightarrow> ('d, 'a) con_state_scheme \<Rightarrow> ('d, 'a) con_state_scheme option" where
  "console_init io st = do {
     let st1 = st\<lparr>active_backend := CONSOLE_VGA, console_ready := True\<rparr>;
     d \<leftarrow> serial_puts io (con_dev st1) (''[CONSOLE] init OK (backend=VGA)'' @ [CHR 0x0A]);
     Some (st1\<lparr>con_dev := d\<rparr>)
   }"

definition console_putc :: "'d ports \<Rightarrow> ('d, 'a) con_state_scheme \<Rightarrow> char \<Rightarrow> ('d, 'a) con_state_scheme option" where
  "console_putc io st c =
     (if \<not> console_ready st then Some st
      else do {
        let st1 = (case active_backend st of CONSOLE_VGA \<Rightarrow> vga_putchar st c | CONSOLE_FB \<Rightarrow> vga_putchar st c);
        d \<leftarrow> serial_putchar io (con_dev st1) (of_char c);
        Some (st1\<lparr>con_dev := d\<rparr>)
      })"

fun console_write_loop :: "'d ports \<Rightarrow> ('d, 'a) con_state_scheme \<Rightarrow> string \<Rightarrow> ('d, 'a) con_state_scheme option" where
  "console_write_loop io st s =
     (if deref s \<noteq> NUL then do {
        st1 \<leftarrow> console_putc io st (deref s);
        console_write_loop io st1 (tl s)
      } else Some st)"

declare console_write_loop.simps [simp del]

definition console_write :: "'d ports \<Rightarrow> ('d, 'a) con_state_scheme \<Rightarrow> string option \<Rightarrow> ('d, 'a) con_state_scheme option" where
  "console_write io st s = (case s of None \<Rightarrow> Some st | Some t \<Rightarrow> console_write_loop io st t)"

definition console_clear :: "('d, 'a) con_state_scheme \<Rightarrow> ('d, 'a) con_state_scheme" where
  "console_clear st = (if \<not> console_ready st then st else vga_clear st)"

definition console_set_color :: "('d, 'a) con_state_scheme \<Rightarrow> u8 \<Rightarrow> u8 \<Rightarrow> ('d, 'a) con_state_scheme" where
  "console_set_color st fg bg = vga_set_color st fg bg"

definition framebuffer_available :: bool where
  "framebuffer_available = False"

section \<open>Scrolling\<close>

lemma foldl_update_range:
  assumes "a + n \<le> length b"
  shows "foldl (\<lambda>b i. b[a + i := v]) b [0..<n] = take a b @ replicate n v @ drop (a + n) b"
  using assms
proof (induction n)
  case (Suc n)
  then have "foldl (\<lambda>b i. b[a + i := v]) b [0..<Suc n] = (take a b @ replicate n v @ drop (a + n) b)[a + n := v]" by simp
  also have "drop (a + n) b = b ! (a + n) # drop (Suc (a + n)) b" using Suc.prems by (simp add: Cons_nth_drop_Suc)
  finally show ?case using Suc.prems by (simp add: list_update_append replicate_append_same [symmetric])
qed simp

lemma foldl_shift:
  assumes "n + k \<le> length b" "0 < k"
  shows "foldl (\<lambda>b i. b[i := b ! (i + k)]) b [0..<n] = take n (drop k b) @ drop n b"
  using assms(1)
proof (induction n)
  case (Suc n)
  then have n: "n < length b" "n + k < length b" by simp_all
  then have d: "drop n b = b ! n # drop (Suc n) b" by (simp add: Cons_nth_drop_Suc)
  let ?l = "take n (drop k b) @ drop n b"
  have "foldl (\<lambda>b i. b[i := b ! (i + k)]) b [0..<Suc n] = ?l[n := ?l ! (n + k)]" using Suc by simp
  also have "?l ! (n + k) = b ! (n + k)" using n assms(2) by (simp add: nth_append)
  also have "?l[n := b ! (n + k)] = take n (drop k b) @ b ! (n + k) # drop (Suc n) b"
    using n by (simp add: d list_update_append)
  finally show ?case using n by (simp add: take_Suc_conv_app_nth add.commute)
qed simp

lemma foldl_rows: "foldl (\<lambda>b r. foldl (\<lambda>b c. f b (r * n + c)) b [0..<n]) b [0..<m] = foldl f b [0..<m * n]"
proof (induction m)
  case (Suc m)
  have "[0..<Suc m * n] = [0..<m * n] @ map (\<lambda>c. m * n + c) [0..<n]"
    using upt_add_eq_append [of 0 "m * n" n] by (simp add: map_add_upt add.commute)
  moreover have "foldl f b (map (\<lambda>c. m * n + c) xs) = foldl (\<lambda>b c. f b (m * n + c)) b xs" for b xs
    by (induction xs arbitrary: b) simp_all
  ultimately show ?case using Suc by simp
qed simp

abbreviation blank_row :: "u8 \<Rightarrow> u16 list" where
  "blank_row color \<equiv> replicate 80 (make_entry CHR '' '' color)"

lemma vga_scroll_eq:
  assumes "length (vga_buf st) = 2000"
  shows "vga_scroll st = st\<lparr>vga_buf := drop 80 (vga_buf st) @ blank_row (vga_color st), vga_row := 24\<rparr>"
proof -
  have "foldl (\<lambda>b r. foldl (\<lambda>b c. b[r * 80 + c := b ! ((r + 1) * 80 + c)]) b [0..<80]) (vga_buf st) [0..<24] =
      foldl (\<lambda>b i. b[i := b ! (i + 80)]) (vga_buf st) [0..<24 * 80]"
    using foldl_rows [of "\<lambda>b i. b[i := b ! (i + 80)]" 80 "vga_buf st" 24] by (simp add: algebra_simps)
  also have "\<dots> = drop 80 (vga_buf st) @ drop 1920 (vga_buf st)"
    using foldl_shift [of 1920 80 "vga_buf st"] assms by simp
  finally have 1: "foldl (\<lambda>b r. foldl (\<lambda>b c. b[r * 80 + c := b ! ((r + 1) * 80 + c)]) b [0..<80]) (vga_buf st) [0..<24] =
      drop 80 (vga_buf st) @ drop 1920 (vga_buf st)" .
  have 2: "foldl (\<lambda>b c. b[1920 + c := v]) (drop 80 (vga_buf st) @ drop 1920 (vga_buf st)) [0..<80] = drop 80 (vga_buf st) @ replicate 80 v" for v
    using foldl_update_range [of 1920 80 "drop 80 (vga_buf st) @ drop 1920 (vga_buf st)" v] assms by simp
  show ?thesis unfolding vga_scroll_def VGA_COLS_def VGA_ROWS_def Let_def using 1 2 by simp
qed

section \<open>The scroll\<close>

record page =
  lines :: "u16 list list"
  at_row :: nat
  at_col :: nat
  colour :: u8

definition page_newline :: "page \<Rightarrow> page" where
  "page_newline p =
     (let p = p\<lparr>at_row := at_row p + 1, at_col := 0\<rparr>
      in if at_row p = length (lines p) then p\<lparr>lines := lines p @ [blank_row (colour p)]\<rparr> else p)"

definition page_type :: "page \<Rightarrow> char \<Rightarrow> page" where
  "page_type p c =
     (if c = CHR 0x0A then page_newline p
      else if c = CHR 0x0D then p\<lparr>at_col := 0\<rparr>
      else
        let p = p\<lparr>lines := (lines p)[at_row p := (lines p ! at_row p)[at_col p := make_entry c (colour p)]], at_col := at_col p + 1\<rparr>
        in if at_col p = 80 then page_newline p else p)"

definition page_ok :: "page \<Rightarrow> bool" where
  "page_ok p \<longleftrightarrow> 25 \<le> length (lines p) \<and> (\<forall>l \<in> set (lines p). length l = 80) \<and> length (lines p) - 25 \<le> at_row p \<and>
     at_row p < length (lines p) \<and> at_col p < 80"

definition shows_page :: "'a vga_state_scheme \<Rightarrow> page \<Rightarrow> bool" where
  \<comment> \<open>the screen shows the last 25 lines of the page\<close>
  "shows_page st p \<longleftrightarrow> page_ok p \<and> vga_buf st = concat (drop (length (lines p) - 25) (lines p)) \<and>
     vga_row st = at_row p - (length (lines p) - 25) \<and> vga_col st = at_col p \<and> vga_color st = colour p"

lemma concat_rows:
  assumes "\<forall>l \<in> set ls. length l = n"
  shows "length (concat ls) = length ls * n" "drop n (concat (l # ls)) = (if length l = n then concat ls else drop n (concat (l # ls)))"
    "i < length ls \<Longrightarrow> j < n \<Longrightarrow> (concat ls)[i * n + j := v] = concat (ls[i := (ls ! i)[j := v]])"
  using assms
proof (induction ls arbitrary: i l)
  case (Cons k ls)
  {
    case 1
    then show ?case using Cons.IH(1) by simp
  next
    case 2
    then show ?case by simp
  next
    case 3
    then show ?case using Cons.IH(3) [of "i - 1"] by (cases i) (auto simp: list_update_append)
  }
qed simp_all

lemma shows_length: "shows_page st p \<Longrightarrow> length (vga_buf st) = 2000"
  using concat_rows(1) [of "drop (length (lines p) - 25) (lines p)" 80] by (auto simp: shows_page_def page_ok_def dest: in_set_dropD)

lemma shows_newline:
  assumes "shows_page st p"
  shows "shows_page (vga_newline st) (page_newline p)"
proof -
  let ?n = "length (lines p)" and ?ls = "drop (length (lines p) - 25) (lines p)"
  have ok: "25 \<le> ?n" "\<forall>l \<in> set (lines p). length l = 80" "?n - 25 \<le> at_row p" "at_row p < ?n" "at_col p < 80"
    and st: "vga_buf st = concat ?ls" "vga_row st = at_row p - (?n - 25)" "vga_color st = colour p"
    using assms by (auto simp: shows_page_def page_ok_def)
  show ?thesis
  proof (cases "at_row p + 1 = ?n")
    case True
    then have r: "25 \<le> vga_row st + 1" using ok st(2) by simp
    obtain l ls where l: "?ls = l # ls" using ok(1) by (cases ?ls) auto
    then have "l \<in> set (lines p)" by (metis in_set_dropD list.set_intros(1))
    then have "length l = 80" using ok(2) by blast
    moreover have "?n + 1 - 25 = Suc (?n - 25)" using ok(1) by simp
    then have "drop (?n + 1 - 25) (lines p) = ls" using arg_cong [OF l, of tl] by (simp only: drop_Suc drop_tl list.sel)
    ultimately have "drop 80 (vga_buf st) @ blank_row (colour p) = concat (drop (?n + 1 - 25) (lines p @ [blank_row (colour p)]))"
      using ok(1) by (simp add: st(1) l)
    moreover have "vga_newline st = st\<lparr>vga_col := 0, vga_buf := drop 80 (vga_buf st) @ blank_row (colour p), vga_row := 24\<rparr>"
      using r vga_scroll_eq [of "st\<lparr>vga_col := 0, vga_row := vga_row st + 1\<rparr>"] shows_length [OF assms] st(3)
      by (simp add: vga_newline_def VGA_ROWS_def)
    ultimately show ?thesis
      using ok True st(3) by (auto simp: shows_page_def page_ok_def page_newline_def Let_def)
  next
    case False
    then have r: "\<not> 25 \<le> vga_row st + 1" using ok st(2) by simp
    then show ?thesis using ok st assms False by (auto simp: shows_page_def page_ok_def page_newline_def vga_newline_def VGA_ROWS_def Let_def)
  qed
qed

lemma shows_putchar:
  assumes "shows_page st p"
  shows "shows_page (vga_putchar st c) (page_type p c)"
proof -
  let ?n = "length (lines p)" and ?k = "length (lines p) - 25"
  have ok: "25 \<le> ?n" "\<forall>l \<in> set (lines p). length l = 80" "?k \<le> at_row p" "at_row p < ?n" "at_col p < 80"
    and st: "vga_buf st = concat (drop ?k (lines p))" "vga_row st = at_row p - ?k" "vga_col st = at_col p" "vga_color st = colour p"
    using assms by (auto simp: shows_page_def page_ok_def)
  let ?e = "make_entry c (colour p)"
  let ?st = "st\<lparr>vga_buf := (vga_buf st)[vga_row st * 80 + vga_col st := ?e]\<rparr>"
  let ?p = "p\<lparr>lines := (lines p)[at_row p := (lines p ! at_row p)[at_col p := ?e]]\<rparr>"
  have d: "\<forall>l \<in> set (drop ?k (lines p)). length l = 80" using ok(2) by (meson in_set_dropD)
  have "(vga_buf st)[vga_row st * 80 + vga_col st := ?e] = concat (drop ?k (lines ?p))"
    using concat_rows(3) [OF d, of "vga_row st" "at_col p" ?e] ok st by (simp add: drop_update_swap)
  moreover have "\<forall>l \<in> set (lines ?p). length l = 80" using ok(2,4) by (auto dest!: set_update_subset_insert [THEN subsetD])
  ultimately have s: "shows_page ?st ?p" using ok st by (simp add: shows_page_def page_ok_def)
  show ?thesis
  proof (cases "c = CHR 0x0A \<or> c = CHR 0x0D")
    case True
    then show ?thesis using shows_newline [OF assms] assms
      by (auto simp: vga_putchar_def page_type_def) (auto simp: shows_page_def page_ok_def)
  next
    case False
    show ?thesis
    proof (cases "at_col p + 1 = 80")
      case True
      have "vga_newline (y\<lparr>vga_col := z\<rparr>) = vga_newline y" for y :: "'a vga_state_scheme" and z by (simp add: vga_newline_def)
      moreover have "page_newline (q\<lparr>at_col := z\<rparr>) = page_newline q" for q z by (simp add: page_newline_def)
      ultimately show ?thesis using shows_newline [OF s] False True st
        by (simp add: vga_putchar_def page_type_def VGA_COLS_def Let_def)
    next
      case n: False
      have "shows_page (?st\<lparr>vga_col := at_col p + 1\<rparr>) (?p\<lparr>at_col := at_col p + 1\<rparr>)"
        using s n ok(5) by (auto simp: shows_page_def page_ok_def)
      then show ?thesis using False n ok(5) st by (simp add: vga_putchar_def page_type_def VGA_COLS_def Let_def)
    qed
  qed
qed

lemma shows_puts: "shows_page st p \<Longrightarrow> cstr s \<Longrightarrow> shows_page (vga_puts st s) (foldl page_type p s)"
proof (induction s arbitrary: st p)
  case Nil
  then show ?case by (subst vga_puts.simps) simp
next
  case (Cons c s)
  then show ?case using Cons.IH [OF shows_putchar [OF Cons.prems(1), of c]] by (subst vga_puts.simps) simp
qed

lemma vga_init_shows:
  assumes "length (vga_buf st) = 2000"
  shows "shows_page (vga_init st) \<lparr>lines = replicate 25 (blank_row 7), at_row = 0, at_col = 0, colour = 7\<rparr>"
proof -
  have "foldl (\<lambda>b i. b[i := v]) (vga_buf st) [0..<2000] = replicate 2000 v" for v
    using foldl_update_range [of 0 2000 "vga_buf st" v] assms by simp
  moreover have "replicate 2000 v = concat (replicate 25 (replicate 80 v))" for v :: u16
    by (simp add: numeral_eq_Suc)
  ultimately show ?thesis
    by (simp add: vga_init_def vga_fill_def shows_page_def page_ok_def VGA_COLS_def VGA_ROWS_def VGA_COLOR_LIGHT_GREY_def VGA_COLOR_BLACK_def)
qed

lemma con_dev_putchar [simp]: "con_dev (vga_putchar st c) = con_dev st" "console_ready (vga_putchar st c) = console_ready st"
  "active_backend (vga_putchar st c) = active_backend st"
  by (simp_all add: vga_putchar_def vga_newline_def vga_scroll_def Let_def)

text \<open>
  C33: Console output appears in both places.  Once the console is ready and on a serial line that drains, writing a text
  returns, sends exactly its bytes over the serial line, and types it on the screen: the 25 lines shown are the last
  lines of the scroll the text was typed on, with new lines, carriage returns and the wrap at column 80, and no cell
  outside the screen is ever addressed.
\<close>

theorem console_write_types:
  assumes "uart io sent busy" "console_ready st" "shows_page st p" "cstr s"
  shows "\<exists>st1. console_write io st (Some s) = Some st1 \<and> sent (con_dev st1) = sent (con_dev st) @ map of_char s \<and>
    shows_page st1 (foldl page_type p s) \<and> vga_row st1 * VGA_COLS + vga_col st1 < length (vga_buf st1)"
proof -
  have "\<exists>st1. console_write_loop io st s = Some st1 \<and> sent (con_dev st1) = sent (con_dev st) @ map of_char s \<and>
      shows_page st1 (foldl page_type p s)" using assms(2-4)
  proof (induction s arbitrary: st p)
    case Nil
    then show ?case by (subst console_write_loop.simps) simp
  next
    case (Cons c s)
    obtain d where d: "serial_putchar io (con_dev st) (of_char c) = Some d" "sent d = sent (con_dev st) @ [of_char c]"
      using serial_putchar_sends [OF assms(1)] by blast
    let ?s = "(vga_putchar st c)\<lparr>con_dev := d\<rparr>"
    have p: "console_putc io st c = Some ?s" using Cons.prems(1) d(1) by (cases "active_backend st") (simp_all add: console_putc_def)
    have "shows_page ?s (page_type p c)" using shows_putchar [OF Cons.prems(2), of c] by (simp add: shows_page_def)
    moreover have "console_ready ?s" "cstr s" "c \<noteq> NUL" using Cons.prems by simp_all
    ultimately show ?case using Cons.IH [of ?s "page_type p c"] p d(2) by (subst console_write_loop.simps) auto
  qed
  then obtain st1 where 1: "console_write_loop io st s = Some st1" "sent (con_dev st1) = sent (con_dev st) @ map of_char s"
    "shows_page st1 (foldl page_type p s)" by blast
  have "vga_row st1 < 25" "vga_col st1 < 80" using 1(3) by (auto simp: shows_page_def page_ok_def)
  then have "vga_row st1 * VGA_COLS + vga_col st1 < length (vga_buf st1)" using shows_length [OF 1(3)] by (simp add: VGA_COLS_def)
  then show ?thesis using 1 by (simp add: console_write_def)
qed

definition con_demo :: "(u8 list \<times> nat) con_state" where
  "con_demo = \<lparr>vga_buf = replicate 2000 0, vga_color = 0, vga_row = 0, vga_col = 0, con_dev = ([], 3), active_backend = CONSOLE_VGA, console_ready = True\<rparr>"

theorem console_write_types_witness:
  "\<exists>st1. console_write demo_uart (vga_init con_demo) (Some ''ok'') = Some st1 \<and> fst (con_dev st1) = map of_char ''ok''"
proof -
  have u: "uart demo_uart fst snd" by (rule demo_uart_ok)
  have r: "console_ready (vga_init con_demo)" "fst (con_dev (vga_init con_demo)) = []" by (simp_all add: con_demo_def vga_init_def vga_fill_def)
  have "length (vga_buf con_demo) = 2000" by (simp add: con_demo_def)
  from console_write_types [OF u r(1) vga_init_shows [OF this], of "''ok''"] r(2) show ?thesis by (auto simp: NUL_def)
qed

end
