(* ===== verification/Rtc.thy ===== *)
theory Rtc
  imports Vga
begin

text \<open>
  The real-time clock, \<^verbatim>\<open>kernel/drivers/rtc.c\<close>.  The CMOS registers are reached through the port parameter; \<open>rtc_hw\<close> is the
  indexed register file of the data sheet.
\<close>

section \<open>The driver\<close>

definition CMOS_ADDR :: u16 where [kdefs]: "CMOS_ADDR = 0x70"
definition CMOS_DATA :: u16 where [kdefs]: "CMOS_DATA = 0x71"
definition RTC_UIP :: u8 where [kdefs]: "RTC_UIP = 0x80"

record rtc_time =
  second :: u8
  minute :: u8
  hour :: u8
  weekday :: u8
  day :: u8
  month :: u8
  year :: u16

definition cmos_read :: "'d ports \<Rightarrow> u8 \<Rightarrow> 'd \<Rightarrow> u8 \<times> 'd" where
  "cmos_read io reg d = p_inb io CMOS_DATA (p_outb io CMOS_ADDR (0x80 OR reg) d)"

fun rtc_wait_loop :: "'d ports \<Rightarrow> nat \<Rightarrow> 'd \<Rightarrow> 'd" where
  \<comment> \<open>\<^verbatim>\<open>while ((cmos_read(0x0A) & RTC_UIP) && timeout--)\<close>\<close>
  "rtc_wait_loop io 0 d = snd (cmos_read io 0x0A d)"
| "rtc_wait_loop io (Suc n) d = (case cmos_read io 0x0A d of (v, d) \<Rightarrow> if v AND RTC_UIP \<noteq> 0 then rtc_wait_loop io n d else d)"

definition rtc_wait_ready :: "'d ports \<Rightarrow> 'd \<Rightarrow> 'd" where
  "rtc_wait_ready io d = rtc_wait_loop io 1000000 d"

definition bcd2bin :: "u8 \<Rightarrow> u8" where
  "bcd2bin bcd = (drop_bit 4 bcd AND 0x0F) * 10 + (bcd AND 0x0F)"

definition rtc_read_regs :: "'d ports \<Rightarrow> 'd \<Rightarrow> rtc_time \<times> 'd" where
  \<comment> \<open>the seven register reads that the function does twice\<close>
  "rtc_read_regs io d =
     (case cmos_read io 0x00 d of (s, d) \<Rightarrow> case cmos_read io 0x02 d of (mi, d) \<Rightarrow> case cmos_read io 0x04 d of (h, d) \<Rightarrow>
      case cmos_read io 0x06 d of (w, d) \<Rightarrow> case cmos_read io 0x07 d of (dd, d) \<Rightarrow> case cmos_read io 0x08 d of (mo, d) \<Rightarrow>
      case cmos_read io 0x09 d of (y, d) \<Rightarrow>
        (\<lparr>second = s, minute = mi, hour = h, weekday = w, day = dd, month = mo, year = ucast y\<rparr>, d))"

definition rtc_get_time :: "'d ports \<Rightarrow> 'd \<Rightarrow> rtc_time \<times> 'd" where
  \<comment> \<open>for a pointer that is not null\<close>
  "rtc_get_time io d =
     (case rtc_read_regs io (rtc_wait_ready io d) of (a, d) \<Rightarrow>
      case cmos_read io 0x0B d of (status_b, d) \<Rightarrow>
      case rtc_read_regs io (rtc_wait_ready io d) of (t, d) \<Rightarrow>
        let t = (if status_b AND 0x04 = 0 then
                   \<lparr>second = bcd2bin (second t), minute = bcd2bin (minute t), hour = bcd2bin (hour t AND 0x7F), weekday = bcd2bin (weekday t),
                    day = bcd2bin (day t), month = bcd2bin (month t), year = ucast (bcd2bin (ucast (year t)))\<rparr>
                 else t);
            (t, d) = (if status_b AND 0x02 = 0 then
                        case cmos_read io 0x04 d of (raw_hour, d) \<Rightarrow>
                          let pm = (raw_hour AND 0x80 \<noteq> 0);
                              t = (if pm \<and> hour t < 12 then t\<lparr>hour := hour t + 12\<rparr> else t);
                              t = (if \<not> pm \<and> hour t = 12 then t\<lparr>hour := 0\<rparr> else t)
                          in (t, d)
                      else (t, d))
        in case cmos_read io 0x32 d of (century, d) \<Rightarrow>
             if 19 \<le> century \<and> century \<le> 21 then
               let century = (if status_b AND 0x04 = 0 then bcd2bin century else century)
               in (t\<lparr>year := ucast century * 100 + year t\<rparr>, d)
             else (t\<lparr>year := 2000 + year t\<rparr>, d))"

definition rtc_args :: "rtc_time \<Rightarrow> va_arg list" where
  "rtc_args t = [Slot (ucast (year t)), Slot (ucast (month t)), Slot (ucast (day t)), Slot (ucast (hour t)), Slot (ucast (minute t)), Slot (ucast (second t))]"

definition rtc_init :: "'d ports \<Rightarrow> 'd \<Rightarrow> 'd option" where
  \<comment> \<open>the dash of the message is one character of the source's encoding, three bytes\<close>
  "rtc_init io d = (case rtc_get_time io d of (t, d) \<Rightarrow>
     serial_printf io d (''[RTC] init OK '' @ [CHR 0xE2, CHR 0x80, CHR 0x94] @ '' %04u-%02u-%02u %02u:%02u:%02u'' @ [CHR 0x0A]) (rtc_args t))"

definition rtc_print_time :: "'d ports \<Rightarrow> ('d, 'a) con_state_scheme \<Rightarrow> ('d, 'a) con_state_scheme option" where
  "rtc_print_time io st = (case rtc_get_time io (con_dev st) of (t, d) \<Rightarrow>
     (case ksnprintf LOCAL_BUF 64 (''Date/Time: %04u-%02u-%02u  %02u:%02u:%02u'' @ [CHR 0x0A]) (rtc_args t) of
        Some (Inr (n, buf)) \<Rightarrow> do {
          let st1 = vga_puts (st\<lparr>con_dev := d\<rparr>) buf;
          d1 \<leftarrow> serial_puts io (con_dev st1) buf;
          Some (st1\<lparr>con_dev := d1\<rparr>)
        }
      | _ \<Rightarrow> None))"

section \<open>Reading the clock\<close>

definition RTC_REGS :: "u8 set" where
  [simp]: "RTC_REGS = {0x00, 0x02, 0x04, 0x06, 0x07, 0x08, 0x09, 0x0A, 0x0B, 0x32}"

definition rtc_hw :: "'d ports \<Rightarrow> ('d \<Rightarrow> u8 \<Rightarrow> u8) \<Rightarrow> bool" where
  \<comment> \<open>selecting one of the registers that the driver reads and reading the data port gives its contents and leaves every
      register as it is (register C, which clears on a read, is not among them)\<close>
  "rtc_hw io reg \<longleftrightarrow> (\<forall>d. \<forall>r\<in>RTC_REGS. fst (p_inb io CMOS_DATA (p_outb io CMOS_ADDR (0x80 OR r) d)) = reg d r \<and>
     reg (snd (p_inb io CMOS_DATA (p_outb io CMOS_ADDR (0x80 OR r) d))) = reg d)"

definition encode :: "bool \<Rightarrow> nat \<Rightarrow> u8" where
  \<comment> \<open>a number below 100 as the clock stores it, in decimal or binary digits\<close>
  "encode bcd n = of_nat (if bcd then 16 * (n div 10) + n mod 10 else n)"

definition encode_hour :: "bool \<Rightarrow> bool \<Rightarrow> nat \<Rightarrow> u8" where
  \<comment> \<open>an hour of the day on a clock with 24 or twelve hours, whose highest bit then tells the afternoon\<close>
  "encode_hour bcd h24 h =
     (if h24 then encode bcd h else encode bcd (if h mod 12 = 0 then 12 else h mod 12) OR (if 12 \<le> h then 0x80 else 0))"

lemma cmos_read_hw: "rtc_hw io reg \<Longrightarrow> r \<in> RTC_REGS \<Longrightarrow> \<exists>d1. cmos_read io r d = (reg d r, d1) \<and> reg d1 = reg d"
  by (metis cmos_read_def prod.collapse rtc_hw_def)

lemma rtc_wait_hw: "rtc_hw io reg \<Longrightarrow> reg (rtc_wait_loop io n d) = reg d"
proof (induction n arbitrary: d)
  case 0
  then show ?case using cmos_read_hw [OF 0, of "0x0A" d] by auto
next
  case (Suc n)
  then show ?case using cmos_read_hw [OF Suc.prems, of "0x0A" d] by auto
qed

lemma rtc_read_regs_hw:
  assumes "rtc_hw io reg"
  shows "\<exists>d1. rtc_read_regs io d = (\<lparr>second = reg d 0x00, minute = reg d 0x02, hour = reg d 0x04, weekday = reg d 0x06, day = reg d 0x07,
     month = reg d 0x08, year = ucast (reg d 0x09)\<rparr>, d1) \<and> reg d1 = reg d"
proof -
  note r = cmos_read_hw [OF assms]
  obtain d1 where 1: "cmos_read io 0x00 d = (reg d 0x00, d1)" "reg d1 = reg d" using r [of "0x00" d] by auto
  obtain d2 where 2: "cmos_read io 0x02 d1 = (reg d 0x02, d2)" "reg d2 = reg d" using r [of "0x02" d1] 1(2) by auto
  obtain d3 where 3: "cmos_read io 0x04 d2 = (reg d 0x04, d3)" "reg d3 = reg d" using r [of "0x04" d2] 2(2) by auto
  obtain d4 where 4: "cmos_read io 0x06 d3 = (reg d 0x06, d4)" "reg d4 = reg d" using r [of "0x06" d3] 3(2) by auto
  obtain d5 where 5: "cmos_read io 0x07 d4 = (reg d 0x07, d5)" "reg d5 = reg d" using r [of "0x07" d4] 4(2) by auto
  obtain d6 where 6: "cmos_read io 0x08 d5 = (reg d 0x08, d6)" "reg d6 = reg d" using r [of "0x08" d5] 5(2) by auto
  obtain d7 where 7: "cmos_read io 0x09 d6 = (reg d 0x09, d7)" "reg d7 = reg d" using r [of "0x09" d6] 6(2) by auto
  show ?thesis by (simp add: rtc_read_regs_def 1 2 3 4 5 6 7)
qed

lemma decode_bcd:
  assumes "n < 100"
  shows "bcd2bin (encode True n) = of_nat n" "encode False n = of_nat n"
proof -
  have "list_all (\<lambda>n. bcd2bin (encode True n) = of_nat n) [0..<100]" by code_simp
  then show "bcd2bin (encode True n) = of_nat n" using assms by (simp add: list_all_iff)
qed (simp add: encode_def)

definition rtc_hour :: "bool \<Rightarrow> bool \<Rightarrow> u8 \<Rightarrow> u8" where
  \<comment> \<open>what the driver makes of the hour register\<close>
  "rtc_hour bcd h24 raw =
     (let h = (if bcd then bcd2bin (raw AND 0x7F) else raw);
          h1 = (if raw AND 0x80 \<noteq> 0 \<and> h < 12 then h + 12 else h);
          h2 = (if raw AND 0x80 = 0 \<and> h1 = 12 then 0 else h1)
      in if h24 then h else h2)"

lemma rtc_hour_encoded:
  assumes "h < 24"
  shows "rtc_hour bcd h24 (encode_hour bcd h24 h) = of_nat (if bcd \<or> h24 \<or> h < 12 then h else 128 + (if h = 12 then 12 else h - 12))"
proof -
  have "list_all (\<lambda>bcd. list_all (\<lambda>h24. list_all (\<lambda>h. rtc_hour bcd h24 (encode_hour bcd h24 h) =
      of_nat (if bcd \<or> h24 \<or> h < 12 then h else 128 + (if h = 12 then 12 else h - 12))) [0..<24]) [False, True]) [False, True]"
    by code_simp
  then show ?thesis using assms by (cases bcd; cases h24) (simp_all add: list_all_iff)
qed

lemma ucast_u8_u16 [simp]: "ucast (ucast (x :: u8) :: u16) = x"
  by (rule bit_word_eqI) (simp add: bit_simps)

lemma century_encoded:
  assumes "19 \<le> c" "c \<le> 21"
  shows "19 \<le> encode bcd c \<and> encode bcd c \<le> 21 \<longleftrightarrow> \<not> bcd" "ucast (encode False c) = (of_nat c :: u16)"
proof -
  have "c = 19 \<or> c = 20 \<or> c = 21" using assms by linarith
  then show "19 \<le> encode bcd c \<and> encode bcd c \<le> 21 \<longleftrightarrow> \<not> bcd" "ucast (encode False c) = (of_nat c :: u16)"
    by (cases bcd; auto simp: encode_def)+
qed

text \<open>
  C35: The clock is read correctly.  On a clock whose registers stand still during the reads, in decimal or binary digits and
  with 24 or twelve hours, \<^verbatim>\<open>rtc_get_time\<close> answers the time and date the registers encode, with two exceptions the
  statement spells out: in binary digits with twelve hours an afternoon hour keeps its marker bit, and in decimal digits the
  century register is never recognised, so that the year is in the 2000s whatever it says.
\<close>

theorem rtc_get_time_correct:
  assumes "rtc_hw io reg" "bcd \<longleftrightarrow> reg d 0x0B AND 0x04 = 0" "h24 \<longleftrightarrow> reg d 0x0B AND 0x02 \<noteq> 0"
    "reg d 0x00 = encode bcd s" "reg d 0x02 = encode bcd mi" "reg d 0x04 = encode_hour bcd h24 h" "reg d 0x06 = encode bcd w"
    "reg d 0x07 = encode bcd dd" "reg d 0x08 = encode bcd mo" "reg d 0x09 = encode bcd y" "reg d 0x32 = encode bcd c"
    "s < 60" "mi < 60" "h < 24" "w < 8" "dd < 32" "mo < 13" "y < 100" "19 \<le> c" "c \<le> 21"
  shows "fst (rtc_get_time io d) =
    \<lparr>second = of_nat s, minute = of_nat mi, hour = of_nat (if bcd \<or> h24 \<or> h < 12 then h else 128 + (if h = 12 then 12 else h - 12)),
     weekday = of_nat w, day = of_nat dd, month = of_nat mo, year = of_nat (100 * (if bcd then 20 else c) + y)\<rparr>"
proof -
  let ?t = "\<lparr>second = reg d 0x00, minute = reg d 0x02, hour = reg d 0x04, weekday = reg d 0x06, day = reg d 0x07,
     month = reg d 0x08, year = ucast (reg d 0x09)\<rparr>"
  obtain d1 where 1: "rtc_read_regs io (rtc_wait_ready io d) = (?t, d1)" "reg d1 = reg d"
    using rtc_read_regs_hw [OF assms(1), of "rtc_wait_ready io d"] rtc_wait_hw [OF assms(1)] by (auto simp: rtc_wait_ready_def)
  obtain d2 where 2: "cmos_read io 0x0B d1 = (reg d 0x0B, d2)" "reg d2 = reg d" using cmos_read_hw [OF assms(1), of "0x0B" d1] 1(2) by auto
  obtain d3 where 3: "rtc_read_regs io (rtc_wait_ready io d2) = (?t, d3)" "reg d3 = reg d"
    using rtc_read_regs_hw [OF assms(1), of "rtc_wait_ready io d2"] rtc_wait_hw [OF assms(1)] 2(2) by (auto simp: rtc_wait_ready_def)
  obtain d4 where 4: "cmos_read io 0x04 d3 = (reg d 0x04, d4)" "reg d4 = reg d" using cmos_read_hw [OF assms(1), of "0x04" d3] 3(2) by auto
  define d5 where "d5 = (if h24 then d3 else d4)"
  have r5: "reg d5 = reg d" using 3(2) 4(2) by (simp add: d5_def)
  obtain d6 where 6: "cmos_read io 0x32 d5 = (reg d 0x32, d6)" using cmos_read_hw [OF assms(1), of "0x32" d5] r5 by auto
  define t where "t = \<lparr>second = of_nat s, minute = of_nat mi, hour = rtc_hour bcd h24 (reg d 0x04),
     weekday = of_nat w, day = of_nat dd, month = of_nat mo, year = of_nat y\<rparr>"
  note dec = decode_bcd [of s] decode_bcd [of mi] decode_bcd [of w] decode_bcd [of dd] decode_bcd [of mo] decode_bcd [of y]
  have yy: "ucast (encode False y) = (of_nat y :: u16)" "ucast (of_nat y :: u8) = (of_nat y :: u16)"
    using assms(18) by (simp_all add: encode_def unsigned_of_nat take_bit_nat_eq_self)
  have b: "reg d 0x0B AND 0x04 = 0 \<longleftrightarrow> bcd" "reg d 0x0B AND 0x02 = 0 \<longleftrightarrow> \<not> h24" using assms(2,3) by simp_all
  have "fst (rtc_get_time io d) = (if 19 \<le> reg d 0x32 \<and> reg d 0x32 \<le> 21
      then t\<lparr>year := ucast (if bcd then bcd2bin (reg d 0x32) else reg d 0x32) * 100 + of_nat y\<rparr> else t\<lparr>year := 2000 + of_nat y\<rparr>)"
    using 6 assms(12-18) yy unfolding rtc_get_time_def 1(1) prod.case 2(1) 3(1)
    by (cases bcd; cases h24) (simp_all add: b 4(1) assms(4,5,7-10) d5_def t_def rtc_hour_def Let_def dec ucast_u8_u16)
  then show ?thesis
    using century_encoded [OF assms(19,20)] unfolding t_def assms(6,11) rtc_hour_encoded [OF assms(14)]
    by (cases bcd) (simp_all add: algebra_simps)
qed

definition demo_cmos :: "(u8 \<times> (u8 \<Rightarrow> u8)) ports" where
  "demo_cmos = \<lparr>p_inb = (\<lambda>p d. (snd d (fst d AND 0x7F), d)), p_outb = (\<lambda>p v d. if p = 0x70 then (v, snd d) else d),
     p_inw = (\<lambda>p d. (0, d)), p_outw = (\<lambda>p v d. d), p_inl = (\<lambda>p d. (0, d)), p_outl = (\<lambda>p v d. d)\<rparr>"

definition demo_regs :: "u8 \<Rightarrow> u8" where
  \<comment> \<open>59 seconds past half past three in the afternoon of Friday, 31 July 1998, in decimal digits and twelve hours\<close>
  "demo_regs = (\<lambda>_. 0)(0x00 := 0x59, 0x02 := 0x30, 0x04 := 0x83, 0x06 := 0x06, 0x07 := 0x31, 0x08 := 0x07, 0x09 := 0x98, 0x32 := 0x19)"

lemma demo_cmos_ok: "rtc_hw demo_cmos snd"
  by (simp add: rtc_hw_def demo_cmos_def CMOS_ADDR_def CMOS_DATA_def)

theorem rtc_get_time_correct_witness:
  "fst (rtc_get_time demo_cmos (0, demo_regs)) =
    \<lparr>second = 59, minute = 30, hour = 15, weekday = 6, day = 31, month = 7, year = 2098\<rparr>"
  using rtc_get_time_correct [OF demo_cmos_ok, of True "(0, demo_regs)" False 59 30 15 6 31 7 98 19]
  by (simp add: demo_regs_def encode_def encode_hour_def)

end
