(* ===== verification/Acpi.thy ===== *)
theory Acpi
  imports Bytes HeapContract Serial
begin

text \<open>
  The ACPI tables, \<^verbatim>\<open>kernel/acpi/acpi.c\<close>: the search for the root pointer, the root table in its 32 and 64-bit forms,
  lookup of a table by signature, and the interrupt controller table (MADT).  The tables are read through the kernel's view
  of memory; the arrays of \<^verbatim>\<open>g_acpi\<close> are lists whose lengths are the counters.  A table walk that never ends has no
  result.
\<close>

section \<open>The driver\<close>

record acpi_ioapic =
  ia_id :: u8
  ia_phys :: u32
  ia_gsi_base :: u32

record acpi_iso =
  iso_bus :: u8
  iso_irq :: u8
  iso_gsi :: u32
  iso_flags :: u16

record acpi_info =
  lapic_phys :: u32
  has_8259 :: bool
  acpi_ioapics :: "acpi_ioapic list"
  acpi_isos :: "acpi_iso list"
  cpu_lapic_id :: "u8 list"

record acpi_state = heap_state +
  g_acpi :: acpi_info
  g_root_table :: u64
  g_root_entry_size :: u32
  g_root_entry_count :: u32

definition phys_to_virt :: "u64 \<Rightarrow> u64" where
  "phys_to_virt phys = (if phys < 0x100000000 then phys + KERNEL_VIRT_BASE else phys)"

fun byte_sum :: "memory \<Rightarrow> u64 \<Rightarrow> nat \<Rightarrow> u8 \<Rightarrow> u8" where
  "byte_sum vm b 0 s = s"
| "byte_sum vm b (Suc n) s = byte_sum vm (b + 1) n (s + vm b)"

definition checksum_valid :: "memory \<Rightarrow> u64 \<Rightarrow> nat \<Rightarrow> bool" where
  "checksum_valid vm p len \<longleftrightarrow> byte_sum vm p len 0 = 0"

definition has_sig :: "memory \<Rightarrow> u64 \<Rightarrow> string \<Rightarrow> bool" where
  \<comment> \<open>\<^verbatim>\<open>memcmp\<close> with a literal answers 0\<close>
  "has_sig vm p sig \<longleftrightarrow> get_bytes vm p (length sig) = map of_char sig"

fun rsdp_scan :: "memory \<Rightarrow> nat \<Rightarrow> u64 \<Rightarrow> u64" where
  \<comment> \<open>one of the two loops over 16-byte boundaries, with the number of boundaries left; 0 when none matches\<close>
  "rsdp_scan vm 0 addr = 0"
| "rsdp_scan vm (Suc n) addr =
     (let r = phys_to_virt addr
      in if has_sig vm r ''RSD PTR '' \<and> checksum_valid vm r 20 then r else rsdp_scan vm n (addr + 16))"

definition find_rsdp :: "memory \<Rightarrow> u64" where
  "find_rsdp vm =
     (let ebda_seg = load16 vm (phys_to_virt 0x40E);
          ebda_phys = push_bit 4 (ucast ebda_seg);
          r = rsdp_scan vm 64 ebda_phys
      in if r \<noteq> 0 then r else rsdp_scan vm 8192 0xE0000)"

definition root_entry :: "memory \<Rightarrow> u64 \<Rightarrow> u32 \<Rightarrow> u32 \<Rightarrow> u64" where
  "root_entry vm entries esize i =
     (if esize = 4 then ucast (load32 vm (entries + ucast (i * 4))) else load64 vm (entries + ucast (i * 8)))"

fun find_table_loop :: "memory \<Rightarrow> u64 \<Rightarrow> u32 \<Rightarrow> string \<Rightarrow> nat \<Rightarrow> u32 \<Rightarrow> u64" where
  "find_table_loop vm entries esize sig 0 i = 0"
| "find_table_loop vm entries esize sig (Suc n) i =
     (let t = phys_to_virt (root_entry vm entries esize i)
      in if has_sig vm t sig \<and> checksum_valid vm t (unat (load32 vm (t + 4))) then t
         else find_table_loop vm entries esize sig n (i + 1))"

definition acpi_find_table :: "'a acpi_state_scheme \<Rightarrow> string \<Rightarrow> u64" where
  "acpi_find_table st sig =
     (if g_root_table st = 0 then 0
      else find_table_loop (vmem st) (g_root_table st + 36) (g_root_entry_size st) sig (unat (g_root_entry_count st)) 0)"

definition madt_entry :: "memory \<Rightarrow> u64 \<Rightarrow> acpi_info \<Rightarrow> acpi_info" where
  \<comment> \<open>the body of the loop: types 0, 1 and 2 are processors, I/O controllers and overrides\<close>
  "madt_entry vm e g =
     (if vm e = 0 then
        (if load32 vm (e + 4) AND 1 \<noteq> 0 \<and> length (cpu_lapic_id g) < 64 then g\<lparr>cpu_lapic_id := cpu_lapic_id g @ [vm (e + 3)]\<rparr> else g)
      else if vm e = 1 then
        (if length (acpi_ioapics g) < 16 then
           g\<lparr>acpi_ioapics := acpi_ioapics g @ [\<lparr>ia_id = vm (e + 2), ia_phys = load32 vm (e + 4), ia_gsi_base = load32 vm (e + 8)\<rparr>]\<rparr>
         else g)
      else if vm e = 2 then
        (if length (acpi_isos g) < 32 then
           g\<lparr>acpi_isos := acpi_isos g @ [\<lparr>iso_bus = vm (e + 2), iso_irq = vm (e + 3), iso_gsi = load32 vm (e + 4), iso_flags = load16 vm (e + 8)\<rparr>]\<rparr>
         else g)
      else g)"

partial_function (option) madt_loop :: "memory \<Rightarrow> u64 \<Rightarrow> u64 \<Rightarrow> acpi_info \<Rightarrow> acpi_info option" where
  "madt_loop vm ptr fin g =
     (if ptr < fin then
        (if vm (ptr + 1) = 0 then Some g else madt_loop vm (ptr + ucast (vm (ptr + 1))) fin (madt_entry vm ptr g))
      else Some g)"

definition parse_madt :: "memory \<Rightarrow> u64 \<Rightarrow> acpi_info \<Rightarrow> acpi_info option" where
  "parse_madt vm madt g =
     madt_loop vm (madt + 44) (madt + ucast (load32 vm (madt + 4)))
       (g\<lparr>lapic_phys := load32 vm (madt + 36), has_8259 := load32 vm (madt + 40) AND 1 \<noteq> 0\<rparr>)"

definition zero_acpi :: acpi_info where
  "zero_acpi = \<lparr>lapic_phys = 0, has_8259 = False, acpi_ioapics = [], acpi_isos = [], cpu_lapic_id = []\<rparr>"

definition root_count :: "memory \<Rightarrow> u64 \<Rightarrow> u64 \<Rightarrow> u32" where
  \<comment> \<open>\<^verbatim>\<open>(length - sizeof(acpi_header_t)) / size\<close>, computed in 64 bits\<close>
  "root_count vm t esize = ucast ((ucast (load32 vm (t + 4)) - 36) div esize)"

definition use_xsdt :: "u64 \<Rightarrow> 'a acpi_state_scheme \<Rightarrow> 'a acpi_state_scheme" where
  "use_xsdt rsdp st =
     (let vm = vmem st; xsdt_address = load64 vm (rsdp + 24)
      in if 2 \<le> vm (rsdp + 15) \<and> xsdt_address \<noteq> 0 then
           let xsdt = phys_to_virt xsdt_address
           in if checksum_valid vm xsdt (unat (load32 vm (xsdt + 4)))
              then st\<lparr>g_root_table := xsdt, g_root_entry_size := 8, g_root_entry_count := root_count vm xsdt 8\<rparr> else st
         else st)"

definition use_rsdt :: "u64 \<Rightarrow> 'a acpi_state_scheme \<Rightarrow> bool \<times> 'a acpi_state_scheme" where
  \<comment> \<open>the fallback; \<^verbatim>\<open>false\<close> when the table is not valid\<close>
  "use_rsdt rsdp st =
     (if g_root_table st = 0 then
        let vm = vmem st; rsdt = phys_to_virt (ucast (load32 vm (rsdp + 16)))
        in if checksum_valid vm rsdt (unat (load32 vm (rsdt + 4)))
           then (True, st\<lparr>g_root_table := rsdt, g_root_entry_size := 4, g_root_entry_count := root_count vm rsdt 4\<rparr>) else (False, st)
      else (True, st))"

definition acpi_init :: "'a acpi_state_scheme \<Rightarrow> (bool \<times> 'a acpi_state_scheme) option" where
  "acpi_init st =
     (let st = st\<lparr>g_acpi := zero_acpi\<rparr>;
          rsdp = find_rsdp (vmem st)
      in if rsdp = 0 then Some (False, st)
         else case use_rsdt rsdp (use_xsdt rsdp st) of (ok, st) \<Rightarrow>
           if \<not> ok then Some (False, st)
           else
             let madt = acpi_find_table st ''APIC''
             in if madt \<noteq> 0 then
                  (case parse_madt (vmem st) madt (g_acpi st) of None \<Rightarrow> None | Some g \<Rightarrow> Some (True, st\<lparr>g_acpi := g\<rparr>))
                else Some (True, st\<lparr>g_acpi := (g_acpi st)\<lparr>lapic_phys := 0xFEE00000, has_8259 := True\<rparr>\<rparr>))"

definition acpi_shutdown :: "'d ports \<Rightarrow> 'd \<Rightarrow> 'd option" where
  \<comment> \<open>the devices at the moment the processor halts for good\<close>
  "acpi_shutdown io d = do {
     d \<leftarrow> serial_puts io d (''[ACPI] Shutdown requested'' @ [CHR 0x0A]);
     Some (p_outw io 0xB004 0x2000 (p_outw io 0x604 0x2000 d))
   }"

definition acpi_reboot :: "'d ports \<Rightarrow> 'd \<Rightarrow> 'd option" where
  "acpi_reboot io d = do {
     d \<leftarrow> serial_puts io d (''[ACPI] Reboot via ACPI reset'' @ [CHR 0x0A]);
     Some (p_outb io 0x64 0xFE (p_outb io 0xCF9 0x06 d))
   }"

section \<open>What the tables say\<close>

datatype madt_item =
    Cpu u8 u8 u32
  | Io_apic u8 u8 u32 u32
  | Override u8 u8 u32 u16
  | Other u8 "u8 list"

fun item_bytes :: "madt_item \<Rightarrow> u8 list" where
  "item_bytes (Cpu uid aid flags) = [0, 8, uid, aid] @ le32 flags"
| "item_bytes (Io_apic aid rsv addr gsi) = [1, 12, aid, rsv] @ le32 addr @ le32 gsi"
| "item_bytes (Override bus irq gsi flags) = [2, 10, bus, irq] @ le32 gsi @ le16 flags"
| "item_bytes (Other ty payload) = [ty, of_nat (2 + length payload)] @ payload"

fun item_ok :: "madt_item \<Rightarrow> bool" where
  "item_ok (Other ty payload) \<longleftrightarrow> ty \<notin> {0, 1, 2} \<and> length payload < 254"
| "item_ok _ \<longleftrightarrow> True"

fun item_cpu :: "madt_item \<Rightarrow> u8 list" where
  "item_cpu (Cpu uid aid flags) = (if flags AND 1 \<noteq> 0 then [aid] else [])"
| "item_cpu _ = []"

fun item_ioapic :: "madt_item \<Rightarrow> acpi_ioapic list" where
  "item_ioapic (Io_apic aid rsv addr gsi) = [\<lparr>ia_id = aid, ia_phys = addr, ia_gsi_base = gsi\<rparr>]"
| "item_ioapic _ = []"

fun item_iso :: "madt_item \<Rightarrow> acpi_iso list" where
  "item_iso (Override bus irq gsi flags) = [\<lparr>iso_bus = bus, iso_irq = irq, iso_gsi = gsi, iso_flags = flags\<rparr>]"
| "item_iso _ = []"

definition madt_result :: "madt_item list \<Rightarrow> acpi_info \<Rightarrow> acpi_info" where
  "madt_result es g = g\<lparr>cpu_lapic_id := take 64 (cpu_lapic_id g @ concat (map item_cpu es)),
     acpi_ioapics := take 16 (acpi_ioapics g @ concat (map item_ioapic es)), acpi_isos := take 32 (acpi_isos g @ concat (map item_iso es))\<rparr>"

definition acpi_fits :: "acpi_info \<Rightarrow> bool" where
  "acpi_fits g \<longleftrightarrow> length (cpu_lapic_id g) \<le> 64 \<and> length (acpi_ioapics g) \<le> 16 \<and> length (acpi_isos g) \<le> 32"

lemma length_le [simp]: "length (le16 v) = 2" "length (le32 w) = 4"
  by (simp_all add: le16_def le32_def)

lemma get_bytes_append: "get_bytes vm p (n + k) = get_bytes vm p n @ get_bytes vm (p + of_nat n) k"
  by (rule nth_equalityI) (auto simp: nth_append algebra_simps of_nat_diff)

lemma get_bytes_split: "get_bytes vm p (length (xs @ ys)) = xs @ ys \<longleftrightarrow>
   get_bytes vm p (length xs) = xs \<and> get_bytes vm (p + of_nat (length xs)) (length ys) = ys"
  by (simp add: get_bytes_append)

lemma load16_le: "get_bytes vm p 2 = le16 v \<Longrightarrow> load16 vm p = v"
  using u16_bytes [of v] by (simp add: get_bytes_def le16_def upt_conv_Cons load16_def)

lemma load32_le: "get_bytes vm p 4 = le32 v \<Longrightarrow> load32 vm p = v"
  using get_bytes_split [of vm p "le16 (ucast v)" "le16 (ucast (drop_bit 16 v))"] u32_halves [of v]
  by (simp add: le32_def load32_def load16_le)

lemma get_bytes_Cons: "get_bytes vm p (length (b # bs)) = b # bs \<longleftrightarrow> vm p = b \<and> get_bytes vm (p + 1) (length bs) = bs"
  using get_bytes_split [of vm p "[b]" bs] by (simp add: get_bytes_def)

lemma item_length: "item_ok e \<Longrightarrow> 2 \<le> length (item_bytes e) \<and> length (item_bytes e) < 256"
  by (cases e) auto

lemma item_header:
  assumes "get_bytes vm p (length (item_bytes e)) = item_bytes e"
  shows "vm (p + 1) = of_nat (length (item_bytes e))"
proof -
  obtain t bs where "item_bytes e = t # of_nat (length (item_bytes e)) # bs" by (cases e) auto
  then show ?thesis using assms get_bytes_Cons [of vm p t "of_nat (length (item_bytes e)) # bs"]
    get_bytes_Cons [of vm "p + 1" "of_nat (length (item_bytes e))" bs] by metis
qed

lemma fields4:
  assumes "get_bytes vm p (length ([a, b, c, d] @ xs)) = [a, b, c, d] @ xs"
  shows "vm p = a" "vm (p + 2) = c" "vm (p + 3) = d" "get_bytes vm (p + 4) (length xs) = xs"
  using assms get_bytes_split [of vm p "[a, b, c, d]" xs] by (simp_all add: get_bytes_def upt_conv_Cons)

lemma madt_entry_item:
  assumes "get_bytes vm p (length (item_bytes e)) = item_bytes e" "item_ok e" "acpi_fits g"
  shows "madt_entry vm p g = madt_result [e] g"
proof (cases e)
  case (Cpu uid aid flags)
  with assms(1) have "get_bytes vm p (length ([0, 8, uid, aid] @ le32 flags)) = [0, 8, uid, aid] @ le32 flags" by simp
  from fields4 [OF this] show ?thesis using assms(3) Cpu by (simp add: madt_entry_def madt_result_def acpi_fits_def load32_le take_Cons')
next
  case (Io_apic aid rsv addr gsi)
  with assms(1) have "get_bytes vm p (length ([1, 12, aid, rsv] @ le32 addr @ le32 gsi)) = [1, 12, aid, rsv] @ le32 addr @ le32 gsi" by simp
  note f = fields4 [OF this]
  moreover have "load32 vm (p + 4) = addr" "load32 vm (p + 8) = gsi"
    using f(4) get_bytes_split [of vm "p + 4" "le32 addr" "le32 gsi"] by (simp_all add: load32_le add.commute)
  ultimately show ?thesis using assms(3) Io_apic by (simp add: madt_entry_def madt_result_def acpi_fits_def)
next
  case (Override bus irq gsi flags)
  with assms(1) have "get_bytes vm p (length ([2, 10, bus, irq] @ le32 gsi @ le16 flags)) = [2, 10, bus, irq] @ le32 gsi @ le16 flags" by simp
  note f = fields4 [OF this]
  moreover have "load32 vm (p + 4) = gsi" "load16 vm (p + 8) = flags"
    using f(4) get_bytes_split [of vm "p + 4" "le32 gsi" "le16 flags"] by (simp_all add: load32_le load16_le add.commute)
  ultimately show ?thesis using assms(3) Override by (simp add: madt_entry_def madt_result_def acpi_fits_def)
next
  case (Other ty payload)
  with assms have "vm p = ty" "ty \<notin> {0, 1, 2}"
    using get_bytes_Cons [of vm p ty "of_nat (2 + length payload) # payload"] by auto
  then show ?thesis using Other assms(3) by (simp add: madt_entry_def madt_result_def acpi_fits_def)
qed

lemma madt_result_Cons: "acpi_fits g \<Longrightarrow> madt_result es (madt_result [e] g) = madt_result (e # es) g" "acpi_fits (madt_result es g)"
  by (auto simp: madt_result_def acpi_fits_def take_append min_def)

lemma madt_loop_items:
  assumes "get_bytes vm p (length (concat (map item_bytes es))) = concat (map item_bytes es)" "list_all item_ok es" "acpi_fits g"
    "unat p + length (concat (map item_bytes es)) < 18446744073709551616"
  shows "madt_loop vm p (p + of_nat (length (concat (map item_bytes es)))) g = Some (madt_result es g)"
  using assms
proof (induction es arbitrary: p g)
  case Nil
  then show ?case by (subst madt_loop.simps) (simp add: madt_result_def acpi_fits_def)
next
  case (Cons e es)
  let ?b = "item_bytes e" and ?r = "concat (map item_bytes es)"
  have s: "get_bytes vm p (length ?b) = ?b" "get_bytes vm (p + of_nat (length ?b)) (length ?r) = ?r"
    using Cons.prems(1) get_bytes_split [of vm p ?b ?r] by simp_all
  have e: "item_ok e" "2 \<le> length ?b" "length ?b < 256" using Cons.prems(2) item_length [of e] by simp_all
  have u: "unat (p + of_nat (length ?b)) = unat p + length ?b"
    using Cons.prems(4) by (simp add: unat_word_ariths unat_of_nat_u64)
  have h: "vm (p + 1) = of_nat (length ?b)" by (rule item_header [OF s(1)])
  have l: "ucast (vm (p + 1)) = (of_nat (length ?b) :: u64)" "vm (p + 1) \<noteq> 0"
    using e h by (auto simp: unsigned_of_nat take_bit_nat_eq_self word_unat_eq_iff)
  have lt: "p < p + of_nat (length ?b) + of_nat (length ?r)"
    using Cons.prems(4) e u by (auto simp: word_less_nat_alt unat_word_ariths unat_of_nat_u64)
  have "madt_loop vm p (p + of_nat (length (?b @ ?r))) g =
      madt_loop vm (p + of_nat (length ?b)) (p + of_nat (length ?b) + of_nat (length ?r)) (madt_entry vm p g)"
    using lt l by (subst madt_loop.simps) (simp add: add.assoc)
  also have "\<dots> = Some (madt_result es (madt_result [e] g))"
    unfolding madt_entry_item [OF s(1) e(1) Cons.prems(3)]
    by (rule Cons.IH [OF s(2)]) (use Cons.prems u madt_result_Cons(2) in simp_all)
  finally show ?case using madt_result_Cons(1) [OF Cons.prems(3)] by simp
qed

section \<open>Finding the tables\<close>

definition rsdp_places :: "memory \<Rightarrow> u64 list" where
  \<comment> \<open>the 16-byte boundaries of the first KB of the extended BIOS data area, then of the ROM\<close>
  "rsdp_places vm = map (\<lambda>i. push_bit 4 (ucast (load16 vm (phys_to_virt 0x40E))) + 16 * of_nat i) [0..<64] @
     map (\<lambda>i. 0xE0000 + 16 * of_nat i) [0..<8192]"

definition is_rsdp :: "memory \<Rightarrow> u64 \<Rightarrow> bool" where
  "is_rsdp vm a \<longleftrightarrow> has_sig vm (phys_to_virt a) ''RSD PTR '' \<and> sum_list (get_bytes vm (phys_to_virt a) 20) = 0"

definition is_table :: "memory \<Rightarrow> string \<Rightarrow> u64 \<Rightarrow> bool" where
  "is_table vm sig a \<longleftrightarrow> has_sig vm (phys_to_virt a) sig \<and>
     sum_list (get_bytes vm (phys_to_virt a) (unat (load32 vm (phys_to_virt a + 4)))) = 0"

definition virt_or_null :: "u64 option \<Rightarrow> u64" where
  "virt_or_null r = (case r of None \<Rightarrow> 0 | Some a \<Rightarrow> phys_to_virt a)"

lemma byte_sum_sum: "byte_sum vm b n s = s + sum_list (get_bytes vm b n)"
proof (induction n arbitrary: b s)
  case (Suc n)
  then show ?case using get_bytes_append [of vm b 1 n] by (simp add: get_bytes_def add.assoc)
qed (simp add: get_bytes_def)

lemma checksum_sum: "checksum_valid vm p n \<longleftrightarrow> sum_list (get_bytes vm p n) = 0"
  by (simp add: checksum_valid_def byte_sum_sum)

lemma steps_Suc: "map (\<lambda>i. f (a + d * of_nat i)) [0..<Suc n] = f (a :: 'a :: len word) # map (\<lambda>i. f (a + d + d * of_nat i)) [0..<n]"
  by (simp add: upt_rec [of 0 "Suc n"] map_Suc_upt [symmetric] algebra_simps comp_def del: upt_Suc)

lemma rsdp_scan_find: "rsdp_scan vm n a = virt_or_null (find (is_rsdp vm) (map (\<lambda>i. a + 16 * of_nat i) [0..<n]))"
proof (induction n arbitrary: a)
  case (Suc n)
  show ?case unfolding steps_Suc [where f = "\<lambda>x. x"]
    using Suc [of "a + 16"] by (simp add: Let_def is_rsdp_def checksum_sum virt_or_null_def)
qed (simp add: virt_or_null_def)

lemma find_table_loop_find:
  "find_table_loop vm ent z sig n i = virt_or_null (find (is_table vm sig) (map (\<lambda>j. root_entry vm ent z (i + 1 * of_nat j)) [0..<n]))"
proof (induction n arbitrary: i)
  case (Suc n)
  show ?case unfolding steps_Suc
    using Suc [of "i + 1"] by (simp add: Let_def is_table_def checksum_sum virt_or_null_def)
qed (simp add: virt_or_null_def)

lemma find_append: "find P (xs @ ys) = (case find P xs of None \<Rightarrow> find P ys | Some x \<Rightarrow> Some x)"
  by (induction xs) auto

lemma low_virt: "unat a < 2000000 \<Longrightarrow> phys_to_virt a \<noteq> 0"
  by (auto simp: phys_to_virt_def word_unat_eq_iff word_less_nat_alt KERNEL_VIRT_BASE_def unat_word_ariths)

lemma ebda_virt: "phys_to_virt (push_bit 4 (ucast (e :: u16)) + 16 * of_nat i) \<noteq> 0" if "i < 64"
proof -
  let ?a = "push_bit 4 (ucast e) + 16 * of_nat i :: u64"
  have "unat (push_bit 4 (ucast e) :: u64) = 16 * unat e" using unat_u16_lt [of e]
    by (simp add: push_bit_eq_mult unat_word_ariths)
  then have "unat ?a < 2000000" using that unat_u16_lt [of e] by (simp add: unat_word_ariths unat_of_nat_u64)
  then show ?thesis by (rule low_virt)
qed

lemma rsdp_places_virt: "a \<in> set (rsdp_places vm) \<Longrightarrow> phys_to_virt a \<noteq> 0"
proof -
  have "unat (0xE0000 + 16 * of_nat i :: u64) < 2000000" if "i < 8192" for i using that by (simp add: unat_word_ariths unat_of_nat_u64)
  then show "a \<in> set (rsdp_places vm) \<Longrightarrow> phys_to_virt a \<noteq> 0" using low_virt ebda_virt by (auto simp: rsdp_places_def)
qed

lemma find_rsdp_find: "find_rsdp vm = virt_or_null (find (is_rsdp vm) (rsdp_places vm))"
proof -
  let ?e = "load16 vm (phys_to_virt 0x40E)"
  let ?xs = "map (\<lambda>i. push_bit 4 (ucast ?e) + 16 * of_nat i) [0..<64] :: u64 list"
  have "phys_to_virt x \<noteq> 0" if "find (is_rsdp vm) ?xs = Some x" for x
    using that ebda_virt by (auto simp: find_Some_iff)
  then show ?thesis
    by (auto simp: find_rsdp_def Let_def rsdp_scan_find rsdp_places_def find_append virt_or_null_def split: option.splits)
qed

definition root_is :: "memory \<Rightarrow> u64 \<Rightarrow> u64 \<Rightarrow> nat \<Rightarrow> bool" where
  \<comment> \<open>which root table a root pointer names: the 64-bit one from revision 2 on, unless its address is 0\<close>
  "root_is vm rsdp root z \<longleftrightarrow>
     (if 2 \<le> vm (rsdp + 15) \<and> load64 vm (rsdp + 24) \<noteq> 0 then root = load64 vm (rsdp + 24) \<and> z = 8
      else root = ucast (load32 vm (rsdp + 16)) \<and> z = 4)"

definition root_lists :: "memory \<Rightarrow> u64 \<Rightarrow> nat \<Rightarrow> u64 list \<Rightarrow> bool" where
  \<comment> \<open>a valid root table with entries of \<open>z\<close> bytes that lists the tables \<open>ts\<close>\<close>
  "root_lists vm t z ts \<longleftrightarrow> t \<noteq> 0 \<and> 36 + z * length ts < 4294967296 \<and> load32 vm (t + 4) = of_nat (36 + z * length ts) \<and>
     sum_list (get_bytes vm t (36 + z * length ts)) = 0 \<and>
     map (\<lambda>i. if z = 4 then ucast (load32 vm (t + 36 + of_nat (4 * i))) else load64 vm (t + 36 + of_nat (8 * i))) [0..<length ts] = ts"

definition madt_holds :: "memory \<Rightarrow> u64 \<Rightarrow> u32 \<Rightarrow> u32 \<Rightarrow> madt_item list \<Rightarrow> bool" where
  \<comment> \<open>an interrupt controller table with the given contents behind its header\<close>
  "madt_holds vm m lapic flags es \<longleftrightarrow> list_all item_ok es \<and> m \<noteq> 0 \<and>
     (let bs = le32 lapic @ le32 flags @ concat (map item_bytes es)
      in get_bytes vm (m + 36) (length bs) = bs \<and> load32 vm (m + 4) = of_nat (36 + length bs) \<and> 36 + length bs < 4294967296 \<and>
         unat m + 36 + length bs < 18446744073709551616)"

lemma ucast_of_nat_u32: "n < 4294967296 \<Longrightarrow> (ucast (of_nat n :: u32) :: u64) = of_nat n"
  by (simp add: unsigned_of_nat take_bit_nat_eq_self)

lemma root_count_lists:
  assumes "load32 vm (t + 4) = of_nat (36 + z * n)" "36 + z * n < 4294967296" "z = 4 \<or> z = 8"
  shows "unat (root_count vm t (of_nat z)) = n"
proof -
  have "(ucast (load32 vm (t + 4)) :: u64) - 36 = of_nat (z * n)" unfolding assms(1) ucast_of_nat_u32 [OF assms(2)] by simp
  moreover have "(of_nat (z * n) :: u64) div of_nat z = of_nat n"
  proof -
    have "unat (of_nat (z * n) :: u64) = z * n" "unat (of_nat n :: u64) = n" "unat (of_nat z :: u64) = z"
      using assms(2,3) by (auto simp only: unat_of_nat_u64)
    then show ?thesis using assms(3) by (auto simp only: word_unat_eq_iff unat_div)
  qed
  ultimately show ?thesis unfolding root_count_def using assms(2,3) by (auto simp: unat_narrow unat_of_nat_u64)
qed

lemma root_entries:
  assumes "root_lists vm t z ts" "z = 4 \<or> z = 8"
  shows "map (\<lambda>j. root_entry vm (t + 36) (of_nat z) (0 + 1 * of_nat j)) [0..<length ts] = ts"
proof -
  have "root_entry vm (t + 36) (of_nat z) (of_nat i) =
      (if z = 4 then ucast (load32 vm (t + 36 + of_nat (4 * i))) else load64 vm (t + 36 + of_nat (8 * i)))" if "i < length ts" for i
  proof -
    have "36 + z * length ts < 4294967296" using assms(1) by (simp add: root_lists_def)
    then have "z * i < 4294967296" using that assms(2) by auto
    from ucast_of_nat_u32 [OF this] show ?thesis using assms(2) by (auto simp: root_entry_def mult.commute)
  qed
  then have "map (\<lambda>j. root_entry vm (t + 36) (of_nat z) (of_nat j)) [0..<length ts] =
      map (\<lambda>i. if z = 4 then ucast (load32 vm (t + 36 + of_nat (4 * i))) else load64 vm (t + 36 + of_nat (8 * i))) [0..<length ts]" by simp
  also have "\<dots> = ts" using assms(1) unfolding root_lists_def by blast
  finally show ?thesis by simp
qed

lemma parse_madt_holds:
  assumes "madt_holds vm m lapic flags es" "acpi_fits g"
  shows "parse_madt vm m g = Some (madt_result es (g\<lparr>lapic_phys := lapic, has_8259 := flags AND 1 \<noteq> 0\<rparr>))"
proof -
  let ?b = "concat (map item_bytes es)"
  have b: "get_bytes vm (m + 36) (length (le32 lapic @ le32 flags @ ?b)) = le32 lapic @ le32 flags @ ?b" and l: "load32 vm (m + 4) = of_nat (44 + length ?b)"
    and n: "44 + length ?b < 4294967296" "unat m + 44 + length ?b < 18446744073709551616" and es: "list_all item_ok es"
    using assms(1) by (simp_all add: madt_holds_def Let_def)
  have f: "load32 vm (m + 36) = lapic" "load32 vm (m + 40) = flags" "get_bytes vm (m + 44) (length ?b) = ?b"
    using b get_bytes_split [of vm "m + 36" "le32 lapic" "le32 flags @ ?b"] get_bytes_split [of vm "m + 40" "le32 flags" ?b]
    by (simp_all add: load32_le add.commute)
  have e: "m + ucast (load32 vm (m + 4)) = m + 44 + of_nat (length ?b)"
    unfolding l ucast_of_nat_u32 [OF n(1)] by simp
  have u: "unat (m + 44) = unat m + 44" using n by (simp add: unat_word_ariths)
  show ?thesis unfolding parse_madt_def e f by (rule madt_loop_items [OF f(3) es]) (use assms(2) n u in \<open>simp_all add: acpi_fits_def\<close>)
qed

text \<open>
  C36: The interrupt controllers of the machine are discovered.  Let the first valid root pointer name a valid root table, of 32 or
  64-bit entries, and let the first valid table with signature APIC in it hold the given processors, I/O controllers, interrupt
  overrides and other entries.  Then \<^verbatim>\<open>acpi_init\<close> returns, answers true and records exactly the enabled processors (up to 64),
  the I/O controllers (up to 16) and the overrides (up to 32) in order, with the address of the local controller; and afterwards
  \<^verbatim>\<open>acpi_find_table\<close> answers the first valid table of any signature, or NULL.
\<close>

theorem acpi_init_discovers:
  assumes "g_root_table st = 0" "find (is_rsdp (vmem st)) (rsdp_places (vmem st)) = Some a"
    "root_is (vmem st) (phys_to_virt a) root z" "root_lists (vmem st) (phys_to_virt root) z tabs"
    "find (is_table (vmem st) ''APIC'') tabs = Some m" "madt_holds (vmem st) (phys_to_virt m) lapic flags es"
  shows "\<exists>st1. acpi_init st = Some (True, st1) \<and> vmem st1 = vmem st \<and>
    g_acpi st1 = \<lparr>lapic_phys = lapic, has_8259 = (flags AND 1 \<noteq> 0), acpi_ioapics = take 16 (concat (map item_ioapic es)),
      acpi_isos = take 32 (concat (map item_iso es)), cpu_lapic_id = take 64 (concat (map item_cpu es))\<rparr> \<and>
    (\<forall>sig. acpi_find_table st1 sig = virt_or_null (find (is_table (vmem st) sig) tabs))"
proof -
  let ?vm = "vmem st" and ?r = "phys_to_virt root"
  define st1 where "st1 = st\<lparr>g_acpi := zero_acpi, g_root_table := ?r, g_root_entry_size := of_nat z, g_root_entry_count := root_count ?vm ?r (of_nat z)\<rparr>"
  have rsdp: "find_rsdp ?vm = phys_to_virt a" "phys_to_virt a \<noteq> 0"
    using assms(2) by (simp add: find_rsdp_find virt_or_null_def)
      (use assms(2) rsdp_places_virt [of a ?vm] in \<open>auto simp: find_Some_iff\<close>)
  have z: "z = 4 \<or> z = 8" using assms(3) by (auto simp: root_is_def split: if_splits)
  have rl: "?r \<noteq> 0" "load32 ?vm (?r + 4) = of_nat (36 + z * length tabs)" "36 + z * length tabs < 4294967296"
    "sum_list (get_bytes ?vm ?r (36 + z * length tabs)) = 0" using assms(4) by (simp_all add: root_lists_def)
  have "unat (load32 ?vm (?r + 4)) = 36 + z * length tabs"
    unfolding rl(2) unat_of_nat by (rule mod_less) (use rl(3) in simp)
  then have v: "checksum_valid ?vm ?r (unat (load32 ?vm (?r + 4)))" using rl(4) by (simp add: checksum_sum)
  have s1: "use_rsdt (phys_to_virt a) (use_xsdt (phys_to_virt a) (st\<lparr>g_acpi := zero_acpi\<rparr>)) = (True, st1)"
  proof (cases "2 \<le> ?vm (phys_to_virt a + 15) \<and> load64 ?vm (phys_to_virt a + 24) \<noteq> 0")
    case True
    then have r: "root = load64 ?vm (phys_to_virt a + 24)" "z = 8" using assms(3) unfolding root_is_def by simp_all
    have "use_xsdt (phys_to_virt a) (st\<lparr>g_acpi := zero_acpi\<rparr>) = st1"
      using True v unfolding use_xsdt_def st1_def r Let_def by simp
    then show ?thesis using rl(1) by (simp add: use_rsdt_def st1_def)
  next
    case False
    then have r: "root = ucast (load32 ?vm (phys_to_virt a + 16))" "z = 4" using assms(3) unfolding root_is_def by auto
    have "use_xsdt (phys_to_virt a) (st\<lparr>g_acpi := zero_acpi\<rparr>) = st\<lparr>g_acpi := zero_acpi\<rparr>"
      using False unfolding use_xsdt_def Let_def by auto
    then show ?thesis using v assms(1) unfolding use_rsdt_def st1_def r Let_def by simp
  qed
  have ft: "acpi_find_table st2 sig = virt_or_null (find (is_table ?vm sig) tabs)"
    if "vmem st2 = ?vm" "g_root_table st2 = ?r" "g_root_entry_size st2 = of_nat z" "g_root_entry_count st2 = root_count ?vm ?r (of_nat z)"
    for st2 :: "'a acpi_state_scheme" and sig
    using that rl(1) root_count_lists [OF rl(2,3) z] root_entries [OF assms(4) z]
    by (simp add: acpi_find_table_def find_table_loop_find)
  have m: "acpi_find_table st1 ''APIC'' = phys_to_virt m" "phys_to_virt m \<noteq> 0"
    using ft [of st1 "''APIC''"] assms(5,6) by (simp_all add: st1_def virt_or_null_def madt_holds_def)
  let ?g = "madt_result es (zero_acpi\<lparr>lapic_phys := lapic, has_8259 := flags AND 1 \<noteq> 0\<rparr>)"
  have "parse_madt ?vm (phys_to_virt m) zero_acpi = Some ?g" by (rule parse_madt_holds [OF assms(6)]) (simp add: acpi_fits_def zero_acpi_def)
  then have "acpi_init st = Some (True, st1\<lparr>g_acpi := ?g\<rparr>)"
    using rsdp s1 m by (simp add: acpi_init_def Let_def) (simp add: st1_def)
  moreover have "acpi_find_table (st1\<lparr>g_acpi := ?g\<rparr>) sig = virt_or_null (find (is_table ?vm sig) tabs)" for sig
    by (rule ft) (simp_all add: st1_def)
  ultimately show ?thesis by (intro exI [of _ "st1\<lparr>g_acpi := ?g\<rparr>"]) (simp add: st1_def madt_result_def zero_acpi_def)
qed

section \<open>Witness\<close>

definition demo_tables :: "u8 list" where
  \<comment> \<open>root pointer, root table with two entries, and an interrupt controller table with one entry of each kind\<close>
  "demo_tables = [82, 83, 68, 32, 80, 84, 82, 32, 242, 68, 69, 86, 79, 83, 32, 0, 64, 0, 14, 0, 0, 0, 0, 0, 0, 0, 0, 0, 0, 0,
     0, 0, 0, 0, 0, 0, 0, 0, 0, 0, 0, 0, 0, 0, 0, 0, 0, 0, 0, 0, 0, 0, 0, 0, 0, 0, 0, 0, 0, 0, 0, 0, 0, 0, 82, 83,
     68, 84, 44, 0, 0, 0, 1, 89, 68, 69, 86, 79, 83, 32, 0, 0, 0, 0, 0, 0, 0, 0, 0, 0, 0, 0, 0, 0, 0, 0, 0, 0, 0,
     0, 0, 0, 14, 0, 128, 0, 14, 0, 0, 0, 0, 0, 0, 0, 0, 0, 0, 0, 0, 0, 0, 0, 0, 0, 0, 0, 0, 0, 65, 80, 73, 67,
     74, 0, 0, 0, 1, 45, 68, 69, 86, 79, 83, 32, 0, 0, 0, 0, 0, 0, 0, 0, 0, 0, 0, 0, 0, 0, 0, 0, 0, 0, 0, 0, 0, 0,
     224, 254, 1, 0, 0, 0, 0, 8, 0, 7, 1, 0, 0, 0, 1, 12, 2, 0, 0, 0, 192, 254, 0, 0, 0, 0, 2, 10, 0, 0, 2, 0, 0,
     0, 0, 0]"

definition acpi_mem :: memory where
  "acpi_mem = put_bytes ((\<lambda>_. 0)(0xFFFFFFFF8000040F := 0xE0)) 0xFFFFFFFF800E0000 demo_tables"

definition acpi_demo :: acpi_state where
  "acpi_demo = heap_state.extend (heap_demo\<lparr>vmem := acpi_mem\<rparr>)
     \<lparr>g_acpi = zero_acpi, g_root_table = 0, g_root_entry_size = 4, g_root_entry_count = 0\<rparr>"

lemma acpi_mem_byte: "acpi_mem a = (if unat (a - 0xFFFFFFFF800E0000) < 202 then demo_tables ! unat (a - 0xFFFFFFFF800E0000)
    else if a = 0xFFFFFFFF8000040F then 0xE0 else 0)"
proof -
  have l: "length demo_tables = 202" by (simp add: demo_tables_def)
  then have "length demo_tables \<le> 18446744073709551616" by simp
  from put_bytes_eq [OF this] show ?thesis by (simp add: acpi_mem_def l)
qed

lemma acpi_mem_at: "i + n \<le> 202 \<Longrightarrow> get_bytes acpi_mem (0xFFFFFFFF800E0000 + of_nat i) n = take n (drop i demo_tables)"
proof (rule nth_equalityI)
  assume "i + n \<le> 202"
  moreover have "length demo_tables = 202" by (simp add: demo_tables_def)
  ultimately show "length (get_bytes acpi_mem (0xFFFFFFFF800E0000 + of_nat i) n) = length (take n (drop i demo_tables))" by simp
  fix j
  assume "j < length (get_bytes acpi_mem (0xFFFFFFFF800E0000 + of_nat i) n)"
  then have "j < n" by simp
  then show "get_bytes acpi_mem (0xFFFFFFFF800E0000 + of_nat i) n ! j = take n (drop i demo_tables) ! j"
    using \<open>i + n \<le> 202\<close> \<open>length demo_tables = 202\<close> by (simp add: acpi_mem_byte unat_of_nat_u64 flip: of_nat_add)
qed

lemma demo_rsdp: "find (is_rsdp acpi_mem) (rsdp_places acpi_mem) = Some 0xE0000"
proof -
  have "load16 acpi_mem (phys_to_virt 0x40E) = 0xE000"
    by (simp add: load16_def acpi_mem_byte phys_to_virt_def KERNEL_VIRT_BASE_def)
  moreover have "is_rsdp acpi_mem 0xE0000"
    using acpi_mem_at [of 0 "length ''RSD PTR ''"] acpi_mem_at [of 0 20]
    by (simp add: is_rsdp_def has_sig_def phys_to_virt_def KERNEL_VIRT_BASE_def demo_tables_def)
  moreover have "[0..<64] = 0 # [Suc 0..<64]" by (rule upt_conv_Cons) simp
  moreover have "push_bit 4 (ucast (0xE000 :: u16)) + 16 * of_nat 0 = (0xE0000 :: u64)" by simp
  ultimately show ?thesis by (simp only: rsdp_places_def list.map append_Cons find.simps if_True)
qed

lemmas demo_bytes = load32_def load16_def acpi_mem_byte phys_to_virt_def KERNEL_VIRT_BASE_def

lemma demo_lengths: "load32 acpi_mem 0xFFFFFFFF800E0044 = 44" "load32 acpi_mem 0xFFFFFFFF800E0084 = 74"
  by (simp_all add: demo_bytes demo_tables_def)

lemma demo_root: "root_is acpi_mem (phys_to_virt 0xE0000) 0xE0040 4" "root_lists acpi_mem (phys_to_virt 0xE0040) 4 [0xE0000, 0xE0080]"
proof -
  show "root_is acpi_mem (phys_to_virt 0xE0000) 0xE0040 4"
    by (simp add: root_is_def demo_bytes demo_tables_def)
  have "sum_list (get_bytes acpi_mem 0xFFFFFFFF800E0040 44) = 0"
    using acpi_mem_at [of 64 44] by (simp add: demo_tables_def)
  moreover have "load32 acpi_mem 0xFFFFFFFF800E0064 = 0xE0000" "load32 acpi_mem 0xFFFFFFFF800E0068 = 0xE0080"
    by (simp_all add: demo_bytes demo_tables_def)
  ultimately show "root_lists acpi_mem (phys_to_virt 0xE0040) 4 [0xE0000, 0xE0080]"
    using demo_lengths by (simp add: root_lists_def phys_to_virt_def KERNEL_VIRT_BASE_def)
qed

lemma demo_madt:
  "find (is_table acpi_mem ''APIC'') [0xE0000, 0xE0080] = Some 0xE0080"
  "madt_holds acpi_mem (phys_to_virt 0xE0080) 0xFEE00000 1 [Cpu 0 7 1, Io_apic 2 0 0xFEC00000 0, Override 0 0 2 0]"
proof -
  have "\<not> is_table acpi_mem ''APIC'' 0xE0000" "has_sig acpi_mem (phys_to_virt 0xE0080) ''APIC''"
    using acpi_mem_at [of 0 "length ''APIC''"] acpi_mem_at [of 128 "length ''APIC''"]
    by (simp_all add: is_table_def has_sig_def phys_to_virt_def KERNEL_VIRT_BASE_def demo_tables_def)
  moreover have "sum_list (get_bytes acpi_mem 0xFFFFFFFF800E0080 74) = 0"
    using acpi_mem_at [of 128 74] by (simp add: demo_tables_def)
  ultimately show "find (is_table acpi_mem ''APIC'') [0xE0000, 0xE0080] = Some 0xE0080"
    using demo_lengths by (simp add: is_table_def phys_to_virt_def KERNEL_VIRT_BASE_def)
  have b: "le32 0xFEE00000 @ le32 1 @ concat (map item_bytes [Cpu 0 7 1, Io_apic 2 0 0xFEC00000 0, Override 0 0 2 0]) = take 38 (drop 164 demo_tables)"
    by code_simp
  have l: "length (take 38 (drop 164 demo_tables)) = 38" by (simp add: demo_tables_def)
  show "madt_holds acpi_mem (phys_to_virt 0xE0080) 0xFEE00000 1 [Cpu 0 7 1, Io_apic 2 0 0xFEC00000 0, Override 0 0 2 0]"
    unfolding madt_holds_def b Let_def l
    using acpi_mem_at [of 164 38] demo_lengths by (simp add: phys_to_virt_def KERNEL_VIRT_BASE_def)
qed

theorem acpi_init_discovers_witness:
  "\<exists>st1. acpi_init acpi_demo = Some (True, st1) \<and> cpu_lapic_id (g_acpi st1) = [7] \<and>
     acpi_ioapics (g_acpi st1) = [\<lparr>ia_id = 2, ia_phys = 0xFEC00000, ia_gsi_base = 0\<rparr>] \<and>
     acpi_isos (g_acpi st1) = [\<lparr>iso_bus = 0, iso_irq = 0, iso_gsi = 2, iso_flags = 0\<rparr>]"
proof -
  have "vmem acpi_demo = acpi_mem" "g_root_table acpi_demo = 0" by (simp_all add: acpi_demo_def heap_state.defs)
  then show ?thesis
    using acpi_init_discovers [of acpi_demo "0xE0000" "0xE0040" 4 "[0xE0000, 0xE0080]" "0xE0080" "0xFEE00000" 1
      "[Cpu 0 7 1, Io_apic 2 0 0xFEC00000 0, Override 0 0 2 0]"] demo_rsdp demo_root demo_madt by auto
qed

end
