(* ===== verification/Ioapic.thy ===== *)
theory Ioapic
  imports Acpi
begin

text \<open>
  The local interrupt controller of the processor and the I/O controllers that route the hardware lines to it,
  \<^verbatim>\<open>kernel/arch/x86_64/apic.c\<close> and \<^verbatim>\<open>kernel/arch/x86_64/ioapic.c\<close>.  Their registers are memory-mapped: \<open>'d mmio\<close> gives
  what a 32-bit access to a kernel virtual address does to the devices \<open>'d\<close>.
\<close>

section \<open>The local controller\<close>

record 'd mmio =
  m_read32 :: "u64 \<Rightarrow> 'd \<Rightarrow> u32 \<times> 'd"
  m_write32 :: "u64 \<Rightarrow> u32 \<Rightarrow> 'd \<Rightarrow> 'd"

record ioapic =
  io_base :: u64
  io_gsi_base :: u32
  max_rte :: u8
  io_valid :: bool

record 'd apic_state = acpi_state +
  mm_dev :: 'd
  apic_base :: u64
  apic_ready :: bool
  ioapics :: "ioapic list"
  ioapic_count :: nat

definition apic_read :: "'d mmio \<Rightarrow> ('d, 'a) apic_state_scheme \<Rightarrow> u32 \<Rightarrow> u32 \<times> ('d, 'a) apic_state_scheme" where
  "apic_read mm st reg = (case m_read32 mm (apic_base st + ucast (drop_bit 2 reg) * 4) (mm_dev st) of (v, d) \<Rightarrow> (v, st\<lparr>mm_dev := d\<rparr>))"

definition apic_write :: "'d mmio \<Rightarrow> u32 \<Rightarrow> u32 \<Rightarrow> ('d, 'a) apic_state_scheme \<Rightarrow> ('d, 'a) apic_state_scheme" where
  "apic_write mm reg v st = st\<lparr>mm_dev := m_write32 mm (apic_base st + ucast (drop_bit 2 reg) * 4) v (mm_dev st)\<rparr>"

definition apic_available :: "('d, 'a) apic_state_scheme \<Rightarrow> bool" where
  "apic_available st = apic_ready st"

definition apic_id :: "'d mmio \<Rightarrow> ('d, 'a) apic_state_scheme \<Rightarrow> u32 \<times> ('d, 'a) apic_state_scheme" where
  "apic_id mm st =
     (if \<not> apic_ready st then (0, st) else case apic_read mm st 0x020 of (v, st) \<Rightarrow> (drop_bit 24 v AND 0xFF, st))"

definition apic_eoi :: "'d mmio \<Rightarrow> ('d, 'a) apic_state_scheme \<Rightarrow> ('d, 'a) apic_state_scheme" where
  "apic_eoi mm st = (if apic_ready st then apic_write mm 0x0B0 0 st else st)"

definition cpuid_edx_bit :: "(u32 \<Rightarrow> u32) \<Rightarrow> u32 \<Rightarrow> nat \<Rightarrow> bool" where
  \<comment> \<open>\<open>edx\<close> is the feature register that the processor reports for a leaf\<close>
  "cpuid_edx_bit edx lf b \<longleftrightarrow> drop_bit b (edx lf) AND 1 \<noteq> 0"

definition apic_init :: "'d mmio \<Rightarrow> (u32 \<Rightarrow> u32) \<Rightarrow> ('d, 'a) apic_state_scheme \<Rightarrow> bool \<times> ('d, 'a) apic_state_scheme" where
  \<comment> \<open>spurious vector, priority, the two pins, the timer, the error vector; the message reads two registers\<close>
  "apic_init mm edx st =
     (if \<not> cpuid_edx_bit edx 1 9 then (False, st)
      else
        let msr_val = rdmsr st 0x1B;
            apic_phys = msr_val AND 0xFFFFF000;
            st = vmm_map st (kernel_pml4 st) (KERNEL_VIRT_BASE + apic_phys) apic_phys VMM_MMIO;
            st = st\<lparr>apic_base := KERNEL_VIRT_BASE + apic_phys\<rparr>;
            st = wrmsr st 0x1B (msr_val OR 0x800);
            st = apic_write mm 0x0F0 (0x100 OR 0xFF) st;
            st = apic_write mm 0x080 0 st;
            st = apic_write mm 0x350 0x10000 st;
            st = apic_write mm 0x360 0x10000 st;
            st = apic_write mm 0x320 0x10000 st;
            st = apic_write mm 0x370 (0x10000 OR 0xFE) st;
            st = st\<lparr>apic_ready := True\<rparr>
        in (True, snd (apic_read mm (snd (apic_id mm st)) 0x030)))"

section \<open>The I/O controllers\<close>

definition MAX_IOAPICS :: nat where [kdefs]: "MAX_IOAPICS = 16"

definition ioapic_read :: "'d mmio \<Rightarrow> ioapic \<Rightarrow> u8 \<Rightarrow> 'd \<Rightarrow> u32 \<times> 'd" where
  "ioapic_read mm io reg d = m_read32 mm (io_base io + 0x10) (m_write32 mm (io_base io) (ucast reg) d)"

definition ioapic_write :: "'d mmio \<Rightarrow> ioapic \<Rightarrow> u8 \<Rightarrow> u32 \<Rightarrow> 'd \<Rightarrow> 'd" where
  "ioapic_write mm io reg v d = m_write32 mm (io_base io + 0x10) v (m_write32 mm (io_base io) (ucast reg) d)"

definition ioapic_write_rte :: "'d mmio \<Rightarrow> ioapic \<Rightarrow> u8 \<Rightarrow> u64 \<Rightarrow> 'd \<Rightarrow> 'd" where
  "ioapic_write_rte mm io irq rte d =
     (let reg = 0x10 + 2 * irq
      in ioapic_write mm io (reg + 1) (ucast (drop_bit 32 rte)) (ioapic_write mm io reg (ucast (rte AND 0xFFFFFFFF)) d))"

definition ioapic_read_rte :: "'d mmio \<Rightarrow> ioapic \<Rightarrow> u8 \<Rightarrow> 'd \<Rightarrow> u64 \<times> 'd" where
  "ioapic_read_rte mm io irq d =
     (let reg = 0x10 + 2 * irq
      in case ioapic_read mm io reg d of (lo, d) \<Rightarrow> case ioapic_read mm io (reg + 1) d of (hi, d) \<Rightarrow>
           (ucast lo OR push_bit 32 (ucast hi), d))"

fun for_gsi_loop :: "ioapic list \<Rightarrow> u32 \<Rightarrow> (ioapic \<times> u8) option" where
  "for_gsi_loop [] gsi = None"
| "for_gsi_loop (io # ios) gsi =
     (if io_valid io \<and> io_gsi_base io \<le> gsi \<and> gsi < io_gsi_base io + ucast (max_rte io)
      then Some (io, ucast (gsi - io_gsi_base io)) else for_gsi_loop ios gsi)"

definition ioapic_for_gsi :: "('d, 'a) apic_state_scheme \<Rightarrow> u32 \<Rightarrow> (ioapic \<times> u8) option" where
  "ioapic_for_gsi st gsi = for_gsi_loop (take (ioapic_count st) (ioapics st)) gsi"

fun mask_entries :: "'d mmio \<Rightarrow> ioapic \<Rightarrow> nat \<Rightarrow> u8 \<Rightarrow> 'd \<Rightarrow> 'd" where
  "mask_entries mm io 0 j d = d"
| "mask_entries mm io (Suc n) j d =
     (case ioapic_read_rte mm io j d of (rte, d) \<Rightarrow> mask_entries mm io n (j + 1) (ioapic_write_rte mm io j (rte OR push_bit 16 1) d))"

definition ioapic_setup :: "'d mmio \<Rightarrow> nat \<Rightarrow> ('d, 'a) apic_state_scheme \<Rightarrow> ('d, 'a) apic_state_scheme" where
  \<comment> \<open>the body of the loop\<close>
  "ioapic_setup mm i st =
     (let a = acpi_ioapics (g_acpi st) ! i;
          phys = ucast (ia_phys a);
          virt = KERNEL_VIRT_BASE + phys;
          st = vmm_map st (kernel_pml4 st) virt phys VMM_MMIO;
          io = (ioapics st ! i)\<lparr>io_base := virt, io_gsi_base := ia_gsi_base a, io_valid := True\<rparr>
      in case ioapic_read mm io 0x01 (mm_dev st) of (ver, d) \<Rightarrow>
           let io = io\<lparr>max_rte := ucast ((drop_bit 16 ver AND 0xFF) + 1)\<rparr>
           in st\<lparr>ioapics := (ioapics st)[i := io], ioapic_count := ioapic_count st + 1, mm_dev := mask_entries mm io (unat (max_rte io)) 0 d\<rparr>)"

definition ioapic_init :: "'d mmio \<Rightarrow> ('d, 'a) apic_state_scheme \<Rightarrow> bool \<times> ('d, 'a) apic_state_scheme" where
  "ioapic_init mm st =
     (if acpi_ioapics (g_acpi st) = [] then (False, st)
      else (True, fold (ioapic_setup mm) [0..<min (length (acpi_ioapics (g_acpi st))) MAX_IOAPICS] st))"

fun apply_override :: "acpi_iso list \<Rightarrow> u8 \<Rightarrow> bool \<Rightarrow> bool \<Rightarrow> u32 \<times> bool \<times> bool" where
  \<comment> \<open>the loop over the overrides: global interrupt, level and active low\<close>
  "apply_override [] irq level low = (ucast irq, level, low)"
| "apply_override (ov # ovs) irq level low =
     (if iso_irq ov = irq then (iso_gsi ov, level \<or> drop_bit 2 (iso_flags ov AND 0xC) = 3, low \<or> iso_flags ov AND 0x3 = 3)
      else apply_override ovs irq level low)"

definition ioapic_set_irq :: "'d mmio \<Rightarrow> u8 \<Rightarrow> u8 \<Rightarrow> u8 \<Rightarrow> bool \<Rightarrow> bool \<Rightarrow> ('d, 'a) apic_state_scheme \<Rightarrow> ('d, 'a) apic_state_scheme" where
  "ioapic_set_irq mm irq vector dest_apic_id level active_low st =
     (case apply_override (acpi_isos (g_acpi st)) irq level active_low of (gsi, level, active_low) \<Rightarrow>
        (case ioapic_for_gsi st gsi of
          None \<Rightarrow> st
        | Some (io, local_irq) \<Rightarrow>
            let rte = ucast vector;
                rte = (if active_low then rte OR push_bit 13 1 else rte);
                rte = (if level then rte OR push_bit 15 1 else rte);
                rte = rte OR push_bit 56 (ucast dest_apic_id);
                rte = rte AND NOT (push_bit 16 1)
            in st\<lparr>mm_dev := ioapic_write_rte mm io local_irq rte (mm_dev st)\<rparr>))"

definition ioapic_mask_irq :: "'d mmio \<Rightarrow> u8 \<Rightarrow> ('d, 'a) apic_state_scheme \<Rightarrow> ('d, 'a) apic_state_scheme" where
  "ioapic_mask_irq mm irq st =
     (case ioapic_for_gsi st (ucast irq) of
        None \<Rightarrow> st
      | Some (io, local_irq) \<Rightarrow>
          case ioapic_read_rte mm io local_irq (mm_dev st) of (rte, d) \<Rightarrow>
            st\<lparr>mm_dev := ioapic_write_rte mm io local_irq (rte OR push_bit 16 1) d\<rparr>)"

definition ioapic_unmask_irq :: "'d mmio \<Rightarrow> u8 \<Rightarrow> ('d, 'a) apic_state_scheme \<Rightarrow> ('d, 'a) apic_state_scheme" where
  "ioapic_unmask_irq mm irq st =
     (case ioapic_for_gsi st (ucast irq) of
        None \<Rightarrow> st
      | Some (io, local_irq) \<Rightarrow>
          case ioapic_read_rte mm io local_irq (mm_dev st) of (rte, d) \<Rightarrow>
            st\<lparr>mm_dev := ioapic_write_rte mm io local_irq (rte AND NOT (push_bit 16 1)) d\<rparr>)"

section \<open>Redirection entries\<close>

definition settled :: "u32 \<Rightarrow> u32" where
  \<comment> \<open>a register without bits 12 and 14, which report the state of the line\<close>
  "settled v = unset_bit 12 (unset_bit 14 v)"

lemma bit_settled: "bit (settled v) k \<longleftrightarrow> bit v k \<and> k \<noteq> 12 \<and> k \<noteq> 14"
  by (auto simp: settled_def bit_simps)

definition ioapic_hw :: "'d mmio \<Rightarrow> u64 set \<Rightarrow> ('d \<Rightarrow> u64 \<Rightarrow> u8 \<Rightarrow> u32) \<Rightarrow> bool" where
  \<comment> \<open>controllers at the addresses \<open>bs\<close>: the register selected at the base is read and written at offset 16, but for the two
      status bits; redirection entries start at register 16\<close>
  "ioapic_hw mm bs regs \<longleftrightarrow> (\<forall>b\<in>bs. \<forall>r d.
     (case m_read32 mm (b + 0x10) (m_write32 mm b (ucast r) d) of (v, d1) \<Rightarrow>
        settled v = regs d b r \<and> (\<forall>c\<in>bs. regs d1 c = regs d c)) \<and>
     (0x10 \<le> r \<longrightarrow> (\<forall>v. \<forall>c\<in>bs. regs (m_write32 mm (b + 0x10) v (m_write32 mm b (ucast r) d)) c =
        (if c = b then (regs d b)(r := settled v) else regs d c))))"

definition entry :: "(u8 \<Rightarrow> u32) \<Rightarrow> nat \<Rightarrow> u64" where
  "entry rg n = ucast (rg (of_nat (16 + 2 * n))) OR push_bit 32 (ucast (rg (of_nat (17 + 2 * n))))"

definition set_entry :: "(u8 \<Rightarrow> u32) \<Rightarrow> nat \<Rightarrow> u64 \<Rightarrow> (u8 \<Rightarrow> u32)" where
  "set_entry rg n v = rg(of_nat (16 + 2 * n) := settled (ucast v), of_nat (17 + 2 * n) := settled (ucast (drop_bit 32 v)))"

lemma ioapic_read_hw:
  assumes "ioapic_hw mm bs regs" "io_base io \<in> bs"
  obtains v d1 where "ioapic_read mm io r d = (v, d1)" "settled v = regs d (io_base io) r" "\<forall>c\<in>bs. regs d1 c = regs d c"
proof -
  obtain v d1 where v: "m_read32 mm (io_base io + 0x10) (m_write32 mm (io_base io) (ucast r) d) = (v, d1)" by fastforce
  then have "settled v = regs d (io_base io) r \<and> (\<forall>c\<in>bs. regs d1 c = regs d c)"
    using spec [OF spec [OF bspec [OF assms(1) [unfolded ioapic_hw_def] assms(2)], of r], of d] by simp
  with v that show thesis by (simp add: ioapic_read_def)
qed

lemma ioapic_write_hw:
  assumes "ioapic_hw mm bs regs" "io_base io \<in> bs" "0x10 \<le> r" "c \<in> bs"
  shows "regs (ioapic_write mm io r v d) c = (if c = io_base io then (regs d c)(r := settled v) else regs d c)"
  using assms unfolding ioapic_hw_def ioapic_write_def by auto

lemma reg_index:
  assumes "n < 120"
  shows "0x10 + 2 * of_nat n = (of_nat (16 + 2 * n) :: u8)" "0x10 + 2 * of_nat n + 1 = (of_nat (17 + 2 * n) :: u8)"
    "unat (of_nat (16 + 2 * n) :: u8) = 16 + 2 * n" "unat (of_nat (17 + 2 * n) :: u8) = 17 + 2 * n"
proof -
  show "unat (of_nat (16 + 2 * n) :: u8) = 16 + 2 * n" "unat (of_nat (17 + 2 * n) :: u8) = 17 + 2 * n"
    unfolding unat_of_nat using assms by simp_all
qed simp_all

lemma reg_high:
  assumes "n < 120"
  shows "(0x10 :: u8) \<le> of_nat (16 + 2 * n)" "(0x10 :: u8) \<le> of_nat (17 + 2 * n)"
  unfolding word_le_nat_alt reg_index [OF assms] by simp_all

lemma bit_low32: "bit (0xFFFFFFFF :: u64) n \<longleftrightarrow> n < 32"
  using bit_mask_iff [of 32 n, where ?'a = "64 word"] by (auto simp: mask_eq_exp_minus_1)

lemma low_half: "ucast (v AND 0xFFFFFFFF :: u64) = (ucast v :: u32)"
proof (rule bit_word_eqI)
  fix n
  show "bit (ucast (v AND 0xFFFFFFFF) :: u32) n \<longleftrightarrow> bit (ucast v :: u32) n" by (simp only: bit_simps bit_low32) auto
qed

lemma write_rte_hw:
  assumes "ioapic_hw mm bs regs" "io_base io \<in> bs" "n < 120" "c \<in> bs"
  shows "regs (ioapic_write_rte mm io (of_nat n) v d) c = (if c = io_base io then set_entry (regs d c) n v else regs d c)"
proof -
  define r :: u8 where "r = of_nat (16 + 2 * n)"
  define q :: u8 where "q = of_nat (17 + 2 * n)"
  note h = reg_high [OF assms(3), folded r_def q_def]
  have "0x10 + 2 * of_nat n = r" "r + 1 = q" by (simp_all add: r_def q_def)
  then show ?thesis unfolding ioapic_write_rte_def Let_def low_half set_entry_def r_def [symmetric] q_def [symmetric]
    using assms(2,4) by (simp add: ioapic_write_hw [OF assms(1,2)] h)
qed

lemma read_rte_hw:
  assumes "ioapic_hw mm bs regs" "io_base io \<in> bs" "n < 120"
  obtains v d1 where "ioapic_read_rte mm io (of_nat n) d = (v, d1)" "\<forall>c\<in>bs. regs d1 c = regs d c"
    "\<forall>k. k mod 32 \<noteq> 12 \<and> k mod 32 \<noteq> 14 \<longrightarrow> bit v k = bit (entry (regs d (io_base io)) n) k"
proof -
  let ?b = "io_base io" and ?r = "of_nat (16 + 2 * n) :: u8" and ?s = "of_nat (17 + 2 * n) :: u8"
  obtain lo d1 where 1: "ioapic_read mm io ?r d = (lo, d1)" "settled lo = regs d ?b ?r" "\<forall>c\<in>bs. regs d1 c = regs d c"
    by (rule ioapic_read_hw [OF assms(1,2)])
  obtain hi d2 where 2: "ioapic_read mm io ?s d1 = (hi, d2)" "settled hi = regs d1 ?b ?s" "\<forall>c\<in>bs. regs d2 c = regs d1 c"
    by (rule ioapic_read_hw [OF assms(1,2)])
  have h: "settled hi = regs d ?b ?s" using 1(3) 2(2) assms(2) by simp
  have "bit (ucast lo OR push_bit 32 (ucast hi) :: u64) k = bit (entry (regs d ?b) n) k" if "k mod 32 \<noteq> 12" "k mod 32 \<noteq> 14" for k
  proof (cases "k < 32")
    case True
    with that show ?thesis unfolding entry_def 1(2) [symmetric] h [symmetric] by (simp add: bit_simps bit_settled)
  next
    case False
    then obtain j where k: "k = j + 32" by (metis add.commute le_Suc_ex not_le)
    have "\<not> bit w (j + 32)" for w :: u32 using bit_imp_le_length [of w "j + 32"] by auto
    then show ?thesis using that unfolding entry_def 1(2) [symmetric] h [symmetric] k by (auto simp: bit_simps bit_settled)
  qed
  then show thesis using 1 2 by (intro that [of "ucast lo OR push_bit 32 (ucast hi)" d2])
    (simp_all only: ioapic_read_rte_def Let_def reg_index(2) [OF assms(3)] reg_index(1) [OF assms(3)] prod.case, simp_all)
qed

lemma entry_set_entry:
  assumes "n < 120" "m < 120"
  shows "entry (set_entry rg n v) m = (if m = n then ucast (settled (ucast v)) OR push_bit 32 (ucast (settled (ucast (drop_bit 32 v)))) else entry rg m)"
proof -
  have "(of_nat (16 + 2 * m) :: u8) = of_nat (16 + 2 * n) \<longleftrightarrow> m = n" "(of_nat (17 + 2 * m) :: u8) = of_nat (17 + 2 * n) \<longleftrightarrow> m = n"
    "(of_nat (16 + 2 * m) :: u8) \<noteq> of_nat (17 + 2 * n)" "(of_nat (17 + 2 * m) :: u8) \<noteq> of_nat (16 + 2 * n)"
    unfolding word_unat_eq_iff reg_index(3,4) [OF assms(1)] reg_index(3,4) [OF assms(2)] by presburger+
  then show ?thesis unfolding entry_def set_entry_def by simp
qed

lemma bit_set_entry:
  assumes "n < 120" "k mod 32 \<noteq> 12" "k mod 32 \<noteq> 14"
  shows "bit (entry (set_entry rg n v) n) k = bit v k"
proof (cases "k < 32")
  case True
  with assms show ?thesis by (simp add: entry_set_entry bit_simps bit_settled)
next
  case False
  then obtain j where k: "k = j + 32" by (metis add.commute le_Suc_ex not_le)
  have "\<not> bit w (j + 32)" for w :: u32 using bit_imp_le_length [of w "j + 32"] by auto
  then show ?thesis using assms unfolding k by (auto simp: entry_set_entry bit_simps bit_settled add.commute dest: bit_imp_le_length)
qed

lemma bit_shifted: "n < 64 \<Longrightarrow> bit (push_bit n 1 :: u64) k \<longleftrightarrow> k = n"
  by (simp only: bit_simps) auto

lemma mask_entries_hw:
  assumes "ioapic_hw mm bs regs" "io_base io \<in> bs" "j + n \<le> 119" "c \<in> bs"
  shows "(c \<noteq> io_base io \<longrightarrow> regs (mask_entries mm io n (of_nat j) d) c = regs d c) \<and>
    (\<forall>i k. i < 120 \<longrightarrow> k mod 32 \<noteq> 12 \<longrightarrow> k mod 32 \<noteq> 14 \<longrightarrow>
      bit (entry (regs (mask_entries mm io n (of_nat j) d) (io_base io)) i) k =
      (if j \<le> i \<and> i < j + n \<and> k = 16 then True else bit (entry (regs d (io_base io)) i) k))"
  using assms(3)
proof (induction n arbitrary: j d)
  case (Suc n)
  let ?b = "io_base io"
  have j: "j < 120" "Suc j + n \<le> 119" using Suc.prems by simp_all
  obtain v d1 where v: "ioapic_read_rte mm io (of_nat j) d = (v, d1)" "\<forall>c\<in>bs. regs d1 c = regs d c"
    "\<forall>k. k mod 32 \<noteq> 12 \<and> k mod 32 \<noteq> 14 \<longrightarrow> bit v k = bit (entry (regs d ?b) j) k" by (rule read_rte_hw [OF assms(1,2) j(1)])
  let ?d2 = "ioapic_write_rte mm io (of_nat j) (v OR push_bit 16 1) d1"
  have w: "regs ?d2 ?b = set_entry (regs d ?b) j (v OR push_bit 16 1)" "c \<noteq> ?b \<longrightarrow> regs ?d2 c = regs d c"
    using write_rte_hw [OF assms(1,2) j(1)] v(2) assms(2,4) by auto
  have e: "bit (entry (regs ?d2 ?b) i) k = (if i = j \<and> k = 16 then True else bit (entry (regs d ?b) i) k)"
    if "i < 120" "k mod 32 \<noteq> 12" "k mod 32 \<noteq> 14" for i k
  proof (cases "i = j")
    case True
    show ?thesis using bit_shifted [of 16 k] True bit_set_entry [OF j(1) that(2,3)] v(3) that unfolding w(1) by (auto simp: bit_or_iff)
  next
    case False
    then show ?thesis unfolding w(1) using entry_set_entry [OF j(1) that(1)] by simp
  qed
  have "(of_nat j + 1 :: u8) = of_nat (Suc j)" by simp
  then have m: "mask_entries mm io (Suc n) (of_nat j) d = mask_entries mm io n (of_nat (Suc j)) ?d2" unfolding mask_entries.simps v(1) prod.case by (simp add: add.commute)
  show ?case unfolding m
  proof (intro conjI allI impI)
    show "c \<noteq> ?b \<Longrightarrow> regs (mask_entries mm io n (of_nat (Suc j)) ?d2) c = regs d c" using Suc.IH [OF j(2), of ?d2] w(2) by metis
    fix i k :: nat
    assume i: "i < 120" "k mod 32 \<noteq> 12" "k mod 32 \<noteq> 14"
    have "bit (entry (regs (mask_entries mm io n (of_nat (Suc j)) ?d2) ?b) i) k =
        (if Suc j \<le> i \<and> i < Suc j + n \<and> k = 16 then True else bit (entry (regs ?d2 ?b) i) k)" using Suc.IH [OF j(2), of ?d2] i by blast
    then show "bit (entry (regs (mask_entries mm io n (of_nat (Suc j)) ?d2) ?b) i) k =
        (if j \<le> i \<and> i < j + Suc n \<and> k = 16 then True else bit (entry (regs d ?b) i) k)"
      unfolding e [OF i] by (cases "i = j") auto
  qed
qed auto

section \<open>Initialisation\<close>

definition base_of :: "acpi_ioapic \<Rightarrow> u64" where
  "base_of a = KERNEL_VIRT_BASE + ucast (ia_phys a)"

definition entries :: "(u8 \<Rightarrow> u32) \<Rightarrow> nat" where
  \<comment> \<open>the number of redirection entries that the version register reports\<close>
  "entries rg = unat (drop_bit 16 (rg 1) AND 0xFF) + 1"

definition controller :: "(u64 \<Rightarrow> u8 \<Rightarrow> u32) \<Rightarrow> acpi_ioapic \<Rightarrow> ioapic" where
  "controller rg a = \<lparr>io_base = base_of a, io_gsi_base = ia_gsi_base a, max_rte = of_nat (entries (rg (base_of a))), io_valid = True\<rparr>"

definition masked_as :: "nat \<Rightarrow> (u8 \<Rightarrow> u32) \<Rightarrow> (u8 \<Rightarrow> u32) \<Rightarrow> bool" where
  \<comment> \<open>the first \<open>n\<close> entries have the mask bit set and are otherwise as they were, but for status bits\<close>
  "masked_as n rg0 rg \<longleftrightarrow> (\<forall>i k. i < 120 \<longrightarrow> k mod 32 \<noteq> 12 \<longrightarrow> k mod 32 \<noteq> 14 \<longrightarrow>
     bit (entry rg i) k = (if i < n \<and> k = 16 then True else bit (entry rg0 i) k))"

definition setup_upto :: "('d \<Rightarrow> u64 \<Rightarrow> u8 \<Rightarrow> u32) \<Rightarrow> acpi_ioapic list \<Rightarrow> 'd \<Rightarrow> nat \<Rightarrow> ('d, 'a) apic_state_scheme \<Rightarrow> bool" where
  "setup_upto regs as d0 k st \<longleftrightarrow> acpi_ioapics (g_acpi st) = as \<and> ioapic_count st = k \<and> length (ioapics st) = 16 \<and>
     take k (ioapics st) = map (controller (regs d0)) (take k as) \<and>
     (\<forall>a\<in>set (take k as). masked_as (entries (regs d0 (base_of a))) (regs d0 (base_of a)) (regs (mm_dev st) (base_of a))) \<and>
     (\<forall>a\<in>set (drop k as). regs (mm_dev st) (base_of a) = regs d0 (base_of a))"

lemma more_apic:
  assumes "pmm_state.more s = pmm_state.more (t :: ('d, 'a) apic_state_scheme)"
  shows "g_acpi s = g_acpi t" "mm_dev s = mm_dev t" "ioapics s = ioapics t" "ioapic_count s = ioapic_count t" "acpi_state.more s = acpi_state.more t"
  using assms by (cases s; cases t; simp)+

lemma entries_settled:
  assumes "settled v = rg 1" "entries rg \<le> 119"
  shows "ucast ((drop_bit 16 v AND 0xFF) + 1) = (of_nat (entries rg) :: u8)" "unat (of_nat (entries rg) :: u8) = entries rg"
proof -
  have "drop_bit 16 (settled v) = drop_bit 16 v" by (rule bit_word_eqI) (simp add: bit_simps bit_settled)
  then have v: "drop_bit 16 v = drop_bit 16 (rg 1)" using assms(1) by simp
  have "unat ((drop_bit 16 v AND 0xFF) + 1) = entries rg" unfolding v using assms(2) by (simp add: entries_def unat_word_ariths)
  then show "ucast ((drop_bit 16 v AND 0xFF) + 1) = (of_nat (entries rg) :: u8)" by (metis of_nat_unat)
  show "unat (of_nat (entries rg) :: u8) = entries rg" using assms(2) by (simp add: unat_of_nat)
qed

lemma ioapic_setup_step:
  assumes hw: "ioapic_hw mm (base_of ` set as) regs" and k: "k < length as" "length as \<le> 16" "distinct (map base_of as)"
    and n: "entries (regs d0 (base_of (as ! k))) \<le> 119" and st: "setup_upto regs as d0 k st"
  shows "setup_upto regs as d0 (Suc k) (ioapic_setup mm k st)"
proof -
  let ?a = "as ! k" and ?bs = "base_of ` set as"
  let ?b = "base_of ?a" and ?n = "entries (regs d0 (base_of ?a))"
  define s where "s = vmm_map st (kernel_pml4 st) (KERNEL_VIRT_BASE + ucast (ia_phys ?a)) (ucast (ia_phys ?a)) VMM_MMIO"
  have s: "g_acpi s = g_acpi st" "mm_dev s = mm_dev st" "ioapics s = ioapics st" "ioapic_count s = ioapic_count st"
    unfolding s_def by (rule more_apic [OF vmm_map_more])+
  have st': "acpi_ioapics (g_acpi st) = as" "ioapic_count st = k" "length (ioapics st) = 16"
    "take k (ioapics st) = map (controller (regs d0)) (take k as)"
    "\<forall>a\<in>set (take k as). masked_as (entries (regs d0 (base_of a))) (regs d0 (base_of a)) (regs (mm_dev st) (base_of a))"
    "\<forall>a\<in>set (drop k as). regs (mm_dev st) (base_of a) = regs d0 (base_of a)" using st by (simp_all add: setup_upto_def)
  define io where "io = (ioapics st ! k)\<lparr>io_base := KERNEL_VIRT_BASE + ucast (ia_phys ?a), io_gsi_base := ia_gsi_base ?a, io_valid := True\<rparr>"
  have io: "io_base io = ?b" "?b \<in> ?bs" using k(1) by (simp_all add: io_def base_of_def)
  obtain v d1 where v: "ioapic_read mm io 1 (mm_dev st) = (v, d1)" "settled v = regs (mm_dev st) ?b 1" "\<forall>c\<in>?bs. regs d1 c = regs (mm_dev st) c"
    using ioapic_read_hw [OF hw, of io 1 "mm_dev st"] io by metis
  have "?a \<in> set (drop k as)" using k(1) by (metis Cons_nth_drop_Suc list.set_intros(1))
  then have r: "regs (mm_dev st) ?b = regs d0 ?b" using st'(6) by blast
  note e = entries_settled [OF v(2) [unfolded r] n]
  let ?io = "controller (regs d0) ?a" and ?d2 = "mask_entries mm (controller (regs d0) ?a) ?n 0 d1"
  have io': "io\<lparr>max_rte := of_nat ?n\<rparr> = ?io" by (simp add: io_def controller_def base_of_def)
  have set: "ioapic_setup mm k st = s\<lparr>ioapics := (ioapics st)[k := ?io], ioapic_count := k + 1, mm_dev := ?d2\<rparr>"
    unfolding ioapic_setup_def Let_def st'(1) s_def [symmetric] s io_def [symmetric] v(1) prod.case e(1) io' st'(2)
    using e(2) by (simp add: controller_def)
  have d: "base_of a \<noteq> ?b" if "a \<in> set (take k as) \<or> a \<in> set (drop (Suc k) as)" for a
  proof -
    have "as = take k as @ ?a # drop (Suc k) as" using k(1) by (simp add: id_take_nth_drop)
    then have "distinct (map base_of (take k as @ ?a # drop (Suc k) as))" using k(3) by simp
    then have "?b \<notin> base_of ` (set (take k as) \<union> set (drop (Suc k) as))" by auto
    then show ?thesis using that by (metis UnI1 UnI2 imageI)
  qed
  have m: "regs ?d2 (base_of a) = regs (mm_dev st) (base_of a)" if "a \<in> set (take k as) \<or> a \<in> set (drop (Suc k) as)" for a
  proof -
    have "base_of a \<in> ?bs" using that set_take_subset [of k as] set_drop_subset [of "Suc k" as] by auto
    then show ?thesis using mask_entries_hw [OF hw, of ?io 0 ?n "base_of a" d1] d [OF that] io(2) n v(3) by (simp add: controller_def)
  qed
  have mk: "masked_as ?n (regs d0 ?b) (regs ?d2 ?b)"
  proof -
    have "io_base ?io = ?b" "regs d1 ?b = regs d0 ?b" using bspec [OF v(3) io(2)] r by (simp_all add: controller_def)
    then show ?thesis using mask_entries_hw [OF hw, of ?io 0 ?n ?b d1] io(2) n unfolding masked_as_def by simp
  qed
  have "take (Suc k) ((ioapics st)[k := ?io]) = map (controller (regs d0)) (take (Suc k) as)"
    using st'(3,4) k by (simp add: take_Suc_conv_app_nth)
  moreover have "\<forall>a\<in>set (take (Suc k) as). masked_as (entries (regs d0 (base_of a))) (regs d0 (base_of a)) (regs ?d2 (base_of a))"
    using st'(5) m mk k(1) by (auto simp: take_Suc_conv_app_nth)
  moreover have "\<forall>a\<in>set (drop (Suc k) as). regs ?d2 (base_of a) = regs d0 (base_of a)"
    using st'(6) m k(1) by (auto simp: Cons_nth_drop_Suc [symmetric])
  ultimately show ?thesis unfolding set using s st' by (simp add: setup_upto_def)
qed

lemma ioapic_init_masks:
  assumes "ioapic_hw mm (base_of ` set as) regs" "acpi_ioapics (g_acpi st) = as" "as \<noteq> []" "length as \<le> 16" "distinct (map base_of as)"
    "\<forall>a\<in>set as. entries (regs (mm_dev st) (base_of a)) \<le> 119" "ioapic_count st = 0" "length (ioapics st) = 16"
  obtains st1 where "ioapic_init mm st = (True, st1)" "setup_upto regs as (mm_dev st) (length as) st1" "acpi_isos (g_acpi st1) = acpi_isos (g_acpi st)"
proof -
  let ?f = "\<lambda>k. fold (ioapic_setup mm) [0..<k] st"
  have "setup_upto regs as (mm_dev st) k (?f k) \<and> g_acpi (?f k) = g_acpi st" if "k \<le> length as" for k
    using that
  proof (induction k)
    case 0
    then show ?case using assms by (simp add: setup_upto_def)
  next
    case (Suc k)
    then have k: "k < length as" "setup_upto regs as (mm_dev st) k (?f k)" "g_acpi (?f k) = g_acpi st" by simp_all
    have "setup_upto regs as (mm_dev st) (Suc k) (ioapic_setup mm k (?f k))"
      by (rule ioapic_setup_step [OF assms(1) k(1) assms(4,5) _ k(2)]) (use assms(6) k(1) in simp)
    moreover have "g_acpi (ioapic_setup mm k s) = g_acpi s" for s :: "('a, 'b) apic_state_scheme"
      by (simp add: ioapic_setup_def Let_def more_apic [OF vmm_map_more] split: prod.split)
    ultimately show ?case using k(3) by simp
  qed
  from this [of "length as"] that [of "?f (length as)"] show thesis
    using assms(2-4) by (simp add: ioapic_init_def MAX_IOAPICS_def min_def)
qed

section \<open>Routing an interrupt\<close>

definition pin_of :: "acpi_iso list \<Rightarrow> u8 \<Rightarrow> u32" where
  \<comment> \<open>the global interrupt of a legacy interrupt: the first override counts\<close>
  "pin_of isos irq = (case find (\<lambda>v. iso_irq v = irq) isos of None \<Rightarrow> ucast irq | Some v \<Rightarrow> iso_gsi v)"

definition forced :: "nat \<Rightarrow> acpi_iso list \<Rightarrow> u8 \<Rightarrow> bool" where
  \<comment> \<open>whether the override asks for active low (bits 0 and 1) or level triggering (bits 2 and 3)\<close>
  "forced k isos irq \<longleftrightarrow> (case find (\<lambda>v. iso_irq v = irq) isos of None \<Rightarrow> False | Some v \<Rightarrow> bit (iso_flags v) k \<and> bit (iso_flags v) (k + 1))"

lemma two_bits: "(w :: u16) AND 0x3 = 3 \<longleftrightarrow> bit w 0 \<and> bit w 1"
proof -
  have "w AND 0x3 = take_bit 2 w" by (simp add: take_bit_eq_mask mask_eq_exp_minus_1)
  then show ?thesis
    by (simp add: bit_eq_iff [of "take_bit 2 w"] bit_simps)
      (auto simp: less_Suc_eq numeral_2_eq_2 bit_numeral_rec numeral_eq_Suc)
qed

lemma apply_override_spec:
  "apply_override isos irq level low = (pin_of isos irq, level \<or> forced 2 isos irq, low \<or> forced 0 isos irq)"
proof (induction isos)
  case (Cons v isos)
  have "bit (drop_bit 2 w) 0 = bit w 2" "bit (drop_bit 2 w) (Suc 0) = bit w 3" for w :: u16 by (simp_all add: bit_drop_bit_eq)
  then show ?case using Cons by (auto simp: pin_of_def forced_def two_bits)
qed (simp add: pin_of_def forced_def)

definition covers :: "(u64 \<Rightarrow> u8 \<Rightarrow> u32) \<Rightarrow> acpi_ioapic \<Rightarrow> u32 \<Rightarrow> bool" where
  "covers rg a gsi \<longleftrightarrow> unat (ia_gsi_base a) \<le> unat gsi \<and> unat gsi < unat (ia_gsi_base a) + entries (rg (base_of a))"

lemma for_gsi_finds:
  assumes "\<forall>a\<in>set as. entries (rg (base_of a)) \<le> 119 \<and> unat (ia_gsi_base a) + entries (rg (base_of a)) < 4294967296"
    "a \<in> set as" "covers rg a gsi" "\<forall>a'\<in>set as. covers rg a' gsi \<longrightarrow> a' = a"
  shows "for_gsi_loop (map (controller rg) as) gsi = Some (controller rg a, of_nat (unat gsi - unat (ia_gsi_base a)))"
proof -
  have c: "ia_gsi_base b \<le> gsi \<and> gsi < ia_gsi_base b + ucast (of_nat (entries (rg (base_of b))) :: u8) \<longleftrightarrow> covers rg b gsi"
    if "b \<in> set as" for b
  proof -
    let ?n = "entries (rg (base_of b))"
    have "?n \<le> 119" "unat (ia_gsi_base b) + ?n < 4294967296" using assms(1) that by auto
    then have "unat (ia_gsi_base b + ucast (of_nat ?n :: u8)) = unat (ia_gsi_base b) + ?n"
      by (simp add: unat_word_ariths unat_of_nat)
    then show ?thesis by (simp add: covers_def word_le_nat_alt word_less_nat_alt)
  qed
  have u: "ucast (gsi - ia_gsi_base a) = (of_nat (unat gsi - unat (ia_gsi_base a)) :: u8)"
  proof -
    have "ia_gsi_base a \<le> gsi" using assms(3) by (simp add: covers_def word_le_nat_alt)
    then show ?thesis by (metis of_nat_unat unat_sub)
  qed
  show ?thesis using assms(2,4) c
  proof (induction as)
    case (Cons b bs)
    have b: "for_gsi_loop (map (controller rg) (b # bs)) gsi =
        (if covers rg b gsi then Some (controller rg b, ucast (gsi - ia_gsi_base b)) else for_gsi_loop (map (controller rg) bs) gsi)"
      using Cons.prems(3) [of b] by (simp add: controller_def)
    show ?case
    proof (cases "covers rg b gsi")
      case True
      then have "b = a" using Cons.prems(2) by simp
      then show ?thesis using True u unfolding b by simp
    next
      case False
      then have "a \<in> set bs" using Cons.prems(1) assms(3) by auto
      with False show ?thesis unfolding b using Cons.IH Cons.prems(2,3) by simp
    qed
  qed simp
qed

definition route :: "u8 \<Rightarrow> u8 \<Rightarrow> bool \<Rightarrow> bool \<Rightarrow> u64" where
  "route vector dest level low =
     (let rte = ucast vector;
          rte = (if low then rte OR push_bit 13 1 else rte);
          rte = (if level then rte OR push_bit 15 1 else rte);
          rte = rte OR push_bit 56 (ucast dest)
      in rte AND NOT (push_bit 16 1))"

lemma bit_route:
  assumes "k < 64"
  shows "bit (route vector dest level low) k \<longleftrightarrow>
    k \<noteq> 16 \<and> (k < 8 \<and> bit vector k \<or> low \<and> k = 13 \<or> level \<and> k = 15 \<or> 56 \<le> k \<and> bit dest (k - 56))"
proof -
  let ?v = "ucast vector :: u64" and ?d = "push_bit 56 (ucast dest) :: u64"
  have a: "bit ?v k \<longleftrightarrow> k < 8 \<and> bit vector k" "bit ?d k \<longleftrightarrow> 56 \<le> k \<and> bit dest (k - 56)"
    using assms bit_imp_le_length [of vector k] by (auto simp only: bit_simps) auto
  have o: "bit (x OR push_bit 13 1 :: u64) k \<longleftrightarrow> bit x k \<or> k = 13" "bit (x OR push_bit 15 1 :: u64) k \<longleftrightarrow> bit x k \<or> k = 15"
    "bit (x AND NOT (push_bit 16 1) :: u64) k \<longleftrightarrow> bit x k \<and> k \<noteq> 16" for x
    using assms bit_shifted [of 16 k] bit_shifted [of 13 k] bit_shifted [of 15 k] by (simp_all only: bit_or_iff bit_and_iff bit_not_iff_eq) auto
  show ?thesis unfolding route_def Let_def o(3) bit_or_iff [of _ ?d] a(2) by (cases level; cases low) (simp_all only: if_True if_False o a, auto)
qed

lemma route_entry:
  assumes "n < 120"
  shows "ucast (entry (set_entry rg n (route vector dest level low)) n) = vector"
    "ucast (drop_bit 56 (entry (set_entry rg n (route vector dest level low)) n)) = dest"
proof -
  let ?e = "entry (set_entry rg n (route vector dest level low)) n"
  note e = bit_set_entry [OF assms, of _ rg "route vector dest level low"]
  show "ucast ?e = vector"
  proof (rule bit_word_eqI)
    fix k assume "k < LENGTH(8)"
    then show "bit (ucast ?e :: u8) k = bit vector k"
      using e [of k] bit_route [of k vector dest level low] by (simp add: bit_ucast_iff)
  qed
  show "ucast (drop_bit 56 ?e) = dest"
  proof (rule bit_word_eqI)
    fix k assume "k < LENGTH(8)"
    then have "k < 8" by simp
    moreover from this have "(k + 56) mod 32 = k + 24" using mod_add_self2 [of "k + 24" 32] by (simp add: add.commute)
    ultimately show "bit (ucast (drop_bit 56 ?e) :: u8) k = bit dest k"
      using e [of "k + 56"] bit_route [of "k + 56" vector dest level low] by (simp add: bit_ucast_iff bit_drop_bit_eq add.commute)
  qed
qed

lemma ioapic_set_irq_at:
  assumes "ioapic_for_gsi st (pin_of (acpi_isos (g_acpi st)) irq) = Some (io, l)"
  shows "ioapic_set_irq mm irq vector dest level low st = st\<lparr>mm_dev := ioapic_write_rte mm io l
      (route vector dest (level \<or> forced 2 (acpi_isos (g_acpi st)) irq) (low \<or> forced 0 (acpi_isos (g_acpi st)) irq)) (mm_dev st)\<rparr>"
  using assms by (simp add: ioapic_set_irq_def apply_override_spec route_def Let_def)

text \<open>
  C37: Exactly the interrupts that were asked for are open.  After \<^verbatim>\<open>ioapic_init\<close> on the controllers that ACPI reported, and
  \<^verbatim>\<open>ioapic_set_irq\<close> for one legacy interrupt, the pin to which the overrides assign it carries the vector, the destination, the
  polarity and the trigger mode that the caller or the override asks for, with fixed delivery to a physical destination, and is
  unmasked; every other pin of every controller is masked.
\<close>

theorem ioapic_routes:
  assumes "ioapic_hw mm (base_of ` set as) regs" "acpi_ioapics (g_acpi st) = as" "as \<noteq> []" "length as \<le> 16" "distinct (map base_of as)"
    "\<forall>a\<in>set as. entries (regs (mm_dev st) (base_of a)) \<le> 119 \<and> unat (ia_gsi_base a) + entries (regs (mm_dev st) (base_of a)) < 4294967296"
    "ioapic_count st = 0" "length (ioapics st) = 16" "isos = acpi_isos (g_acpi st)"
    "a \<in> set as" "covers (regs (mm_dev st)) a (pin_of isos irq)" "\<forall>a'\<in>set as. covers (regs (mm_dev st)) a' (pin_of isos irq) \<longrightarrow> a' = a"
    "n = unat (pin_of isos irq) - unat (ia_gsi_base a)"
  shows "\<exists>st1 rg e. ioapic_init mm st = (True, st1) \<and> rg = regs (mm_dev (ioapic_set_irq mm irq vector dest level low st1)) \<and>
    e = entry (rg (base_of a)) n \<and> ucast e = vector \<and> ucast (drop_bit 56 e) = dest \<and>
    bit e 13 = (low \<or> forced 0 isos irq) \<and> bit e 15 = (level \<or> forced 2 isos irq) \<and> \<not> bit e 16 \<and> (\<forall>k\<in>{8, 9, 10, 11}. \<not> bit e k) \<and>
    (\<forall>a'\<in>set as. \<forall>m<entries (regs (mm_dev st) (base_of a')). (a', m) \<noteq> (a, n) \<longrightarrow> bit (entry (rg (base_of a')) m) 16)"
proof -
  let ?old = "regs (mm_dev st)" and ?pin = "pin_of isos irq" and ?b = "base_of a"
  obtain st1 where st1: "ioapic_init mm st = (True, st1)" "setup_upto regs as (mm_dev st) (length as) st1" "acpi_isos (g_acpi st1) = isos"
    using ioapic_init_masks [OF assms(1-5) _ assms(7,8)] assms(6,9) by blast
  have m: "\<forall>a'\<in>set as. masked_as (entries (?old (base_of a'))) (?old (base_of a')) (regs (mm_dev st1) (base_of a'))"
    and l: "take (ioapic_count st1) (ioapics st1) = map (controller ?old) as" using st1(2) by (simp_all add: setup_upto_def)
  have n: "n < entries (?old ?b)" "n < 120" using assms(6,10,11,13) by (auto simp: covers_def)
  have g: "ioapic_for_gsi st1 ?pin = Some (controller ?old a, of_nat n)"
    unfolding ioapic_for_gsi_def l assms(13) by (rule for_gsi_finds [OF assms(6,10-12)])
  let ?v = "route vector dest (level \<or> forced 2 isos irq) (low \<or> forced 0 isos irq)"
  let ?new = "regs (mm_dev (ioapic_set_irq mm irq vector dest level low st1))"
  have s: "ioapic_set_irq mm irq vector dest level low st1 = st1\<lparr>mm_dev := ioapic_write_rte mm (controller ?old a) (of_nat n) ?v (mm_dev st1)\<rparr>"
    using ioapic_set_irq_at [of st1 irq] g st1(3) by simp
  have b: "io_base (controller ?old a) = ?b" by (simp add: controller_def)
  have rg: "?new c = (if c = ?b then set_entry (regs (mm_dev st1) c) n ?v else regs (mm_dev st1) c)" if "c \<in> base_of ` set as" for c
    unfolding s using write_rte_hw [OF assms(1), of "controller ?old a" n c] that b assms(10) n(2) by simp
  have e: "entry (?new ?b) n = entry (set_entry (regs (mm_dev st1) ?b) n ?v) n" using rg [of ?b] assms(10) by simp
  have f: "bit (entry (?new ?b) n) k = bit ?v k" if "k mod 32 \<noteq> 12" "k mod 32 \<noteq> 14" for k unfolding e by (rule bit_set_entry [OF n(2) that])
  have o: "bit (entry (?new (base_of a')) m) 16" if "a' \<in> set as" "m < entries (?old (base_of a'))" "(a', m) \<noteq> (a, n)" for a' m
  proof -
    have "m < 120" using that(1,2) assms(6) by auto
    then have "bit (entry (regs (mm_dev st1) (base_of a')) m) 16" using m that by (auto simp: masked_as_def)
    moreover have "a' \<noteq> a \<Longrightarrow> base_of a' \<noteq> ?b" using assms(5,10) that(1) by (auto simp: distinct_map inj_on_def)
    ultimately show ?thesis using rg [of "base_of a'"] that entry_set_entry [OF n(2) \<open>m < 120\<close>] by (cases "a' = a") auto
  qed
  have "ucast (entry (?new ?b) n) = vector" "ucast (drop_bit 56 (entry (?new ?b) n)) = dest" unfolding e by (rule route_entry [OF n(2)])+
  moreover have "bit (entry (?new ?b) n) 13 = (low \<or> forced 0 isos irq)" "bit (entry (?new ?b) n) 15 = (level \<or> forced 2 isos irq)"
    "\<not> bit (entry (?new ?b) n) 16" "\<forall>k\<in>{8, 9, 10, 11}. \<not> bit (entry (?new ?b) n) k" by (simp_all add: f bit_route)
  ultimately show ?thesis using st1(1) o by blast
qed

section \<open>Witness\<close>

definition demo_ioapic :: "(u32 \<times> (u8 \<Rightarrow> u32)) mmio" where
  "demo_ioapic = \<lparr>m_read32 = (\<lambda>a d. (snd d (ucast (fst d)), d)),
     m_write32 = (\<lambda>a v d. if a = 0x7EC00000 then (v, snd d) else (fst d, (snd d)(ucast (fst d) := settled v)))\<rparr>"

definition apic_demo :: "(u32 \<times> (u8 \<Rightarrow> u32)) apic_state" where
  \<comment> \<open>one controller with 24 entries; the timer interrupt is wired to pin 2\<close>
  "apic_demo = acpi_state.extend (acpi_demo\<lparr>g_acpi := zero_acpi\<lparr>acpi_ioapics := [\<lparr>ia_id = 2, ia_phys = 0xFEC00000, ia_gsi_base = 0\<rparr>],
       acpi_isos := [\<lparr>iso_bus = 0, iso_irq = 0, iso_gsi = 2, iso_flags = 0\<rparr>]\<rparr>\<rparr>)
     \<lparr>mm_dev = (0, (\<lambda>_. 0)(1 := 0x170011)), apic_base = 0, apic_ready = False,
      ioapics = replicate 16 \<lparr>io_base = 0, io_gsi_base = 0, max_rte = 0, io_valid = False\<rparr>, ioapic_count = 0\<rparr>"

definition demo_registers :: "u32 \<times> (u8 \<Rightarrow> u32) \<Rightarrow> u64 \<Rightarrow> u8 \<Rightarrow> u32" where
  "demo_registers d b r = settled (snd d r)"

lemma demo_ioapic_ok: "ioapic_hw demo_ioapic {0x7EC00000} demo_registers"
proof -
  have "settled (settled v) = settled v" for v by (rule bit_word_eqI) (simp add: bit_settled)
  then show ?thesis by (auto simp: ioapic_hw_def demo_ioapic_def demo_registers_def fun_eq_iff)
qed

theorem ioapic_routes_witness:
  "\<exists>st1 e. ioapic_init demo_ioapic apic_demo = (True, st1) \<and>
     e = entry (demo_registers (mm_dev (ioapic_set_irq demo_ioapic 0 0x20 7 False False st1)) 0x7EC00000) 2 \<and> ucast e = (0x20 :: u8) \<and> \<not> bit e 16"
proof -
  let ?a = "\<lparr>ia_id = 2, ia_phys = 0xFEC00000, ia_gsi_base = 0\<rparr>" and ?isos = "[\<lparr>iso_bus = 0, iso_irq = 0, iso_gsi = 2, iso_flags = 0\<rparr>]"
  have st: "acpi_ioapics (g_acpi apic_demo) = [?a]" "acpi_isos (g_acpi apic_demo) = ?isos" "ioapic_count apic_demo = 0"
    "length (ioapics apic_demo) = 16" "demo_registers (mm_dev apic_demo) b 1 = settled 0x170011" for b
    by (simp_all add: apic_demo_def acpi_state.defs demo_registers_def)
  have b: "base_of ?a = 0x7EC00000" by (simp add: base_of_def KERNEL_VIRT_BASE_def)
  have "settled 0x170011 = 0x170011" by code_simp
  then have n: "entries (demo_registers (mm_dev apic_demo) b) = 24" for b unfolding entries_def st(5) by simp
  have p: "pin_of ?isos 0 = 2" by (simp add: pin_of_def)
  have 1: "ioapic_hw demo_ioapic (base_of ` set [?a]) demo_registers" using demo_ioapic_ok b by simp
  have 2: "\<forall>a\<in>set [?a]. entries (demo_registers (mm_dev apic_demo) (base_of a)) \<le> 119 \<and>
      unat (ia_gsi_base a) + entries (demo_registers (mm_dev apic_demo) (base_of a)) < 4294967296" by (simp add: n)
  have 3: "covers (demo_registers (mm_dev apic_demo)) ?a (pin_of ?isos 0)" by (simp add: covers_def n p)
  have "\<exists>st1 rg e. ioapic_init demo_ioapic apic_demo = (True, st1) \<and>
      rg = demo_registers (mm_dev (ioapic_set_irq demo_ioapic 0 0x20 7 False False st1)) \<and> e = entry (rg (base_of ?a)) 2 \<and> ucast e = (0x20 :: u8) \<and>
      \<not> bit e 16"
    using ioapic_routes [OF 1 st(1) _ _ _ 2 st(3,4) st(2) [symmetric] _ 3, of 2 "0x20" 7 False False] p by force
  then show ?thesis unfolding b by blast
qed

end
